(* ===== verification/Prelude.thy ===== *)
theory Prelude
  imports Main "HOL-Library.Multiset"
begin

text \<open>
  Shared vocabulary of the development: the theorem collections the component theories fill,
  the result type of code that can throw, and the generic list lemmas that more than one
  component needs.  Nothing here models a line of the program.
\<close>

named_theorems obj_simps "laws of JavaScript objects used as dictionaries"
named_theorems us_simps "Underscore functions in terms of the list library"
named_theorems api_simps "the numeric constants of the scheduler API"

section \<open>Results of code that can throw\<close>

text \<open>
  A JavaScript computation returns a value or throws.  Two kinds of thrown values occur in the
  sources: the engine's \<open>TypeError\<close> and a string thrown by the program itself.
\<close>

datatype js_error = TypeError | Thrown string

type_synonym 'a result = "js_error + 'a"

fun res_bind :: "'a result \<Rightarrow> ('a \<Rightarrow> 'b result) \<Rightarrow> 'b result" where
  "res_bind (Inl e) f = Inl e"
| "res_bind (Inr x) f = f x"

text \<open>Run a computation on every element from left to right; the first throw ends the loop.\<close>

fun res_map :: "('a \<Rightarrow> 'b result) \<Rightarrow> 'a list \<Rightarrow> 'b list result" where
  "res_map f [] = Inr []"
| "res_map f (x # xs) =
     res_bind (f x) (\<lambda>y. res_bind (res_map f xs) (\<lambda>ys. Inr (y # ys)))"

lemma res_bind_Inr [simp]: "res_bind r f = Inr y \<longleftrightarrow> (\<exists>x. r = Inr x \<and> f x = Inr y)"
  by (cases r) auto

lemma res_bind_cong [fundef_cong]:
  "r = r' \<Longrightarrow> (\<And>x. r' = Inr x \<Longrightarrow> f x = g x) \<Longrightarrow> res_bind r f = res_bind r' g"
  by (cases r') auto

lemma res_map_Inr: "(\<And>x. x \<in> set xs \<Longrightarrow> f x = Inr (g x)) \<Longrightarrow> res_map f xs = Inr (map g xs)"
  by (induction xs) auto

lemma res_map_length: "res_map f xs = Inr ys \<Longrightarrow> length ys = length xs"
  by (induction xs arbitrary: ys) auto

text \<open>The outcome of such a loop in terms of the outcomes on the elements.\<close>

lemma res_map_Inr_all2: "res_map f xs = Inr ys \<longleftrightarrow> list_all2 (\<lambda>x y. f x = Inr y) xs ys"
proof (induction xs arbitrary: ys)
  case (Cons x xs)
  then show ?case by (cases ys) auto
qed auto

lemma res_map_Inl_ex: "res_map f xs = Inl e \<Longrightarrow> \<exists>x \<in> set xs. f x = Inl e"
proof (induction xs)
  case (Cons x xs)
  show ?case
  proof (cases "f x")
    case (Inl d)
    then show ?thesis using Cons.prems by simp
  next
    case (Inr y)
    then show ?thesis using Cons by (cases "res_map f xs") simp_all
  qed
qed simp

section \<open>Lists\<close>

lemma insort_key_map:
  "map h (insort_key (\<lambda>x. g (h x)) x ys) = insort_key g (h x) (map h ys)"
  by (induction ys) auto

lemma sort_key_map: "map h (sort_key (\<lambda>x. g (h x)) ys) = sort_key g (map h ys)"
  by (induction ys) (auto simp: insort_key_map)

lemma sort_key_sorted: "sorted (map f xs) \<Longrightarrow> sort_key f xs = xs"
proof (induction xs)
  case (Cons x xs)
  then show ?case by (cases xs) auto
qed simp

lemma filter_last_last:
  "filter P xs \<noteq> [] \<Longrightarrow> P (last (filter P xs)) \<and> last (filter P xs) \<in> set xs"
  using last_in_set [of "filter P xs"] by auto

lemma last_filter_max:
  assumes "sorted (map f xs)" and "x \<in> set (filter P xs)"
  shows "f x \<le> f (last (filter P xs))"
proof -
  have ne: "filter P xs \<noteq> []" using assms(2) by (metis empty_iff list.set(1))
  have s: "sorted (map f (filter P xs))" using assms(1) by (simp add: sorted_filter)
  obtain i where i: "i < length (filter P xs)" "filter P xs ! i = x"
    using assms(2) by (metis in_set_conv_nth)
  have "map f (filter P xs) ! i \<le> map f (filter P xs) ! (length (filter P xs) - 1)"
    using s i by (intro sorted_nth_mono) auto
  then have "map f (filter P xs) ! i \<le> f (last (filter P xs))"
    using i ne by (subst (asm) (2) nth_map) (auto simp: last_conv_nth)
  then show ?thesis using i by (simp add: nth_map)
qed

lemma length_filter_Suc_take:
  "i < length xs \<Longrightarrow>
   length (filter P (take (Suc i) xs)) = length (filter P (take i xs)) + (if P (xs ! i) then 1 else 0)"
  by (simp add: take_Suc_conv_app_nth)

lemma foldl_snoc_id: "foldl (\<lambda>acc x. acc @ [x]) ys xs = ys @ xs"
  by (induction xs arbitrary: ys) auto

lemma foldl_snoc_map: "foldl (\<lambda>acc x. acc @ [f x]) ys xs = ys @ map f xs"
  by (induction xs arbitrary: ys) auto

lemma foldl_snoc_filter: "foldl (\<lambda>acc x. if P x then acc @ [x] else acc) ys xs = ys @ filter P xs"
  by (induction xs arbitrary: ys) auto

lemma sum_list_map_concat: "sum_list (map f (concat xss)) = sum_list (map (\<lambda>xs. sum_list (map f xs)) xss)"
  by (induction xss) auto

end
