(* ===== verification/JSObject.thy ===== *)
theory JSObject
  imports JSString
begin

text \<open>
  JavaScript objects used as dictionaries: the own properties of an object literal in the order
  in which they were created.  \<open>obj_keys\<close> is \<open>Object.keys\<close>: the array indices in ascending
  order, then the other keys in order of creation.  The locale \<open>dictionary\<close> is what the clients
  of such an object rely on; it is interpreted here on the model of objects.
\<close>

type_synonym 'v obj = "(string \<times> 'v) list"

definition obj_get :: "'v obj \<Rightarrow> string \<Rightarrow> 'v option" where
  "obj_get d k = map_of d k"

definition obj_has :: "'v obj \<Rightarrow> string \<Rightarrow> bool" where
  "obj_has d k \<longleftrightarrow> obj_get d k \<noteq> None"

fun obj_set :: "string \<Rightarrow> 'v \<Rightarrow> 'v obj \<Rightarrow> 'v obj" where
  "obj_set k v [] = [(k, v)]"
| "obj_set k v (p # d) = (if fst p = k then (k, v) # d else p # obj_set k v d)"

definition obj_keys :: "'v obj \<Rightarrow> string list" where
  "obj_keys d = sort_key nat_of_digits (filter is_index (map fst d))
     @ filter (\<lambda>k. \<not> is_index k) (map fst d)"

definition obj_wf :: "'v obj \<Rightarrow> bool" where
  "obj_wf d \<longleftrightarrow> distinct (map fst d)"

lemma obj_get_empty: "obj_get [] k = None"
  by (simp add: obj_get_def)

lemma obj_get_set: "obj_get (obj_set k v d) j = (if j = k then Some v else obj_get d j)"
  by (induction d) (auto simp: obj_get_def)

lemma obj_set_keys: "set (map fst (obj_set k v d)) = insert k (set (map fst d))"
  by (induction d) auto

lemma obj_wf_set: "obj_wf d \<Longrightarrow> obj_wf (obj_set k v d)"
  unfolding obj_wf_def
proof (induction d)
  case (Cons p d)
  then show ?case using obj_set_keys [of k v d] by auto
qed simp

lemma obj_keys_mset: "mset (obj_keys d) = mset (map fst d)"
  by (simp add: obj_keys_def)

lemma obj_keys_set: "set (obj_keys d) = {k. obj_get d k \<noteq> None}"
proof -
  have "set (obj_keys d) = set (map fst d)"
    by (metis obj_keys_mset set_mset_mset)
  also have "\<dots> = {k. obj_get d k \<noteq> None}"
    by (auto simp: obj_get_def map_of_eq_None_iff image_iff weak_map_of_SomeI dest: map_of_SomeD)
  finally show ?thesis .
qed

lemma obj_keys_distinct: "obj_wf d \<Longrightarrow> distinct (obj_keys d)"
  unfolding obj_wf_def by (metis obj_keys_mset mset_eq_imp_distinct_iff)

lemma obj_keys_length: "length (obj_keys d) = length d"
  by (metis obj_keys_mset length_map size_mset)

text \<open>When every key is an array index the keys come in ascending numeric order.\<close>

lemma obj_keys_sorted:
  assumes "\<forall>p \<in> set d. is_index (fst p)"
  shows "sorted (map nat_of_digits (obj_keys d))"
proof -
  have "filter (\<lambda>k. \<not> is_index k) (map fst d) = []"
    using assms by (simp add: filter_empty_conv)
  then show ?thesis by (simp add: obj_keys_def)
qed

section \<open>The interface clients of a dictionary rely on\<close>

locale dictionary =
  fixes lookup :: "'d \<Rightarrow> 'k \<Rightarrow> 'v option"
    and insert_at :: "'k \<Rightarrow> 'v \<Rightarrow> 'd \<Rightarrow> 'd"
    and empty_dict :: 'd
    and dict_keys :: "'d \<Rightarrow> 'k list"
    and dict_ok :: "'d \<Rightarrow> bool"
  assumes lookup_empty: "lookup empty_dict k = None"
    and lookup_insert: "lookup (insert_at k v d) j = (if j = k then Some v else lookup d j)"
    and keys_lookup: "set (dict_keys d) = {k. lookup d k \<noteq> None}"
    and ok_empty: "dict_ok empty_dict"
    and ok_insert: "dict_ok d \<Longrightarrow> dict_ok (insert_at k v d)"
    and ok_keys: "dict_ok d \<Longrightarrow> distinct (dict_keys d)"
begin

text \<open>A loop that writes one entry per element: a later element overwrites an earlier one.\<close>

lemma fold_insert_lookup:
  "lookup (foldl (\<lambda>d x. insert_at (f x) (g x) d) d0 xs) k =
     (case filter (\<lambda>x. f x = k) xs of
        [] \<Rightarrow> lookup d0 k
      | _ \<Rightarrow> Some (g (last (filter (\<lambda>x. f x = k) xs))))"
proof (induction xs arbitrary: d0)
  case (Cons x xs)
  show ?case
    by (simp add: Cons.IH lookup_insert split: list.splits)
qed simp

lemma fold_insert_ok: "dict_ok d0 \<Longrightarrow> dict_ok (foldl (\<lambda>d x. insert_at (f x) (g x) d) d0 xs)"
  by (induction xs arbitrary: d0) (auto simp: ok_insert)

lemma fold_insert_dom:
  "(lookup (foldl (\<lambda>d x. insert_at (f x) (g x) d) d0 xs) k \<noteq> None)
     \<longleftrightarrow> lookup d0 k \<noteq> None \<or> k \<in> f ` set xs"
  by (induction xs arbitrary: d0) (auto simp: lookup_insert)

text \<open>A loop that keeps the first entry written for a key and skips elements that fail a test.\<close>

lemma lookup_insert_new:
  "lookup (if lookup d (f x) = None \<and> P x then insert_at (f x) (g x) d else d) k =
     (if lookup d k = None \<and> f x = k \<and> P x then Some (g x) else lookup d k)"
  by (auto simp: lookup_insert)

lemma fold_insert_new_lookup:
  "lookup (foldl (\<lambda>d x. if lookup d (f x) = None \<and> P x then insert_at (f x) (g x) d else d) d0 xs) k =
     (case lookup d0 k of Some v \<Rightarrow> Some v
      | None \<Rightarrow> (case filter (\<lambda>x. f x = k \<and> P x) xs of [] \<Rightarrow> None | x # _ \<Rightarrow> Some (g x)))"
proof (induction xs arbitrary: d0)
  case Nil
  then show ?case by (simp split: option.splits)
next
  case (Cons x xs)
  show ?case
    by (simp add: Cons.IH lookup_insert_new split: option.split list.split)
qed

lemma fold_insert_new_ok: "dict_ok d0 \<Longrightarrow> dict_ok (foldl (\<lambda>d x. if lookup d (f x) = None \<and> P x then insert_at (f x) (g x) d else d) d0 xs)"
  by (induction xs arbitrary: d0) (auto simp: ok_insert)

text \<open>The number of keys is the number of distinct entries.\<close>

lemma keys_card: "dict_ok d \<Longrightarrow> length (dict_keys d) = card {k. lookup d k \<noteq> None}"
  by (metis distinct_card keys_lookup ok_keys)

end

lemma obj_wf_empty: "obj_wf []"
  by (simp add: obj_wf_def)

interpretation od: dictionary obj_get obj_set "[]" obj_keys obj_wf
proof (rule dictionary.intro)
  fix d :: "'v obj" and k j v
  show "obj_get [] k = (None :: 'v option)" by (rule obj_get_empty)
  show "obj_get (obj_set k v d) j = (if j = k then Some v else obj_get d j)" by (rule obj_get_set)
  show "set (obj_keys d) = {k. obj_get d k \<noteq> None}" by (rule obj_keys_set)
  show "obj_wf []" by (rule obj_wf_empty)
  show "obj_wf d \<Longrightarrow> obj_wf (obj_set k v d)" by (rule obj_wf_set)
  show "obj_wf d \<Longrightarrow> distinct (obj_keys d)" by (rule obj_keys_distinct)
qed

lemmas obj_laws [obj_simps] = obj_get_empty obj_get_set obj_has_def

lemma obj_has_set [obj_simps]: "obj_has (obj_set k v d) j \<longleftrightarrow> j = k \<or> obj_has d j"
  by (simp add: obj_has_def obj_get_set)

lemma obj_keys_has: "k \<in> set (obj_keys d) \<longleftrightarrow> obj_has d k"
  by (simp add: obj_has_def obj_keys_set)

lemma obj_set_all:
  "\<forall>p \<in> set d. P (fst p) \<Longrightarrow> P j \<Longrightarrow> \<forall>p \<in> set (obj_set j v d). P (fst p)"
  by (induction d) auto

lemma fold_obj_set_all:
  "\<forall>p \<in> set d0. P (fst p) \<Longrightarrow> \<forall>x \<in> set xs. P (f x)
   \<Longrightarrow> \<forall>p \<in> set (foldl (\<lambda>d x. obj_set (f x) (g x) d) d0 xs). P (fst p)"
proof (induction xs arbitrary: d0)
  case (Cons x xs)
  from Cons.prems have "\<forall>p \<in> set (obj_set (f x) (g x) d0). P (fst p)"
    by (intro obj_set_all) simp_all
  with Cons show ?case by simp
qed simp

end
