(* ===== verification/JSNumber.thy ===== *)
theory JSNumber
  imports JSString Complex_Main
begin

text \<open>
  JavaScript numbers: IEEE 754 binary64.  A finite number is a rational; \<open>fl\<close> rounds an exact
  result to the nearest representable number, ties to even, with overflow to an infinity and
  gradual underflow.  The operations are the ones the sources use.  Integers up to $2^{53}$ are
  exact (\<open>fl_int\<close>), which is why instance ids, counts and millisecond timestamps are modelled
  by integers elsewhere in the development.
\<close>

datatype num = NaN | Infinity bool \<comment> \<open>\<open>True\<close>: negative\<close> | NegZero | Fin rat

section \<open>Rounding\<close>

fun bits :: "nat \<Rightarrow> nat" where
  "bits n = (if n = 0 then 0 else Suc (bits (n div 2)))"

declare bits.simps [simp del]

definition pow2 :: "int \<Rightarrow> rat" where
  "pow2 k = (if 0 \<le> k then 2 ^ nat k else 1 / 2 ^ nat (- k))"

text \<open>The binary exponent of a positive rational.\<close>

definition expo :: "rat \<Rightarrow> int" where
  "expo q = (let (a, b) = quotient_of q; k = int (bits (nat a)) - int (bits (nat b)) in
     if pow2 k \<le> q then k else k - 1)"

definition round_half_even :: "rat \<Rightarrow> int" where
  "round_half_even x = (let f = \<lfloor>x\<rfloor>; d = x - of_int f in
     if d < 1 / 2 then f else if 1 / 2 < d then f + 1 else if even f then f else f + 1)"

definition fl :: "rat \<Rightarrow> num" where
  "fl q = (if q = 0 then Fin 0 else
     let e = max (expo \<bar>q\<bar> - 52) (-1074);
         m = round_half_even (q / pow2 e);
         y = of_int m * pow2 e in
     if m = 0 then (if q < 0 then NegZero else Fin 0)
     else if pow2 1024 \<le> \<bar>y\<bar> then Infinity (q < 0)
     else Fin y)"

section \<open>Operations\<close>

definition is_neg :: "num \<Rightarrow> bool" where
  "is_neg x = (case x of NaN \<Rightarrow> False | Infinity s \<Rightarrow> s | NegZero \<Rightarrow> True | Fin q \<Rightarrow> q < 0)"

definition zero :: "bool \<Rightarrow> num" where
  "zero s = (if s then NegZero else Fin 0)"

fun val :: "num \<Rightarrow> rat" where
  "val (Fin q) = q"
| "val _ = 0"

definition is_zero :: "num \<Rightarrow> bool" where
  "is_zero x \<longleftrightarrow> x = NegZero \<or> x = Fin 0"

fun js_neg :: "num \<Rightarrow> num" where
  "js_neg NaN = NaN"
| "js_neg (Infinity s) = Infinity (\<not> s)"
| "js_neg NegZero = Fin 0"
| "js_neg (Fin q) = (if q = 0 then NegZero else Fin (- q))"

fun js_add :: "num \<Rightarrow> num \<Rightarrow> num" where
  "js_add NaN y = NaN"
| "js_add x NaN = NaN"
| "js_add (Infinity s) (Infinity t) = (if s = t then Infinity s else NaN)"
| "js_add (Infinity s) y = Infinity s"
| "js_add x (Infinity t) = Infinity t"
| "js_add NegZero NegZero = NegZero"
| "js_add x y = fl (val x + val y)"

definition js_sub :: "num \<Rightarrow> num \<Rightarrow> num" where
  "js_sub x y = js_add x (js_neg y)"

fun js_mul :: "num \<Rightarrow> num \<Rightarrow> num" where
  "js_mul NaN y = NaN"
| "js_mul x NaN = NaN"
| "js_mul (Infinity s) y = (if is_zero y then NaN else Infinity (s \<noteq> is_neg y))"
| "js_mul x (Infinity t) = (if is_zero x then NaN else Infinity (is_neg x \<noteq> t))"
| "js_mul x y = (if is_zero x \<or> is_zero y then zero (is_neg x \<noteq> is_neg y) else fl (val x * val y))"

fun js_div :: "num \<Rightarrow> num \<Rightarrow> num" where
  "js_div NaN y = NaN"
| "js_div x NaN = NaN"
| "js_div (Infinity s) (Infinity t) = NaN"
| "js_div (Infinity s) y = Infinity (s \<noteq> is_neg y)"
| "js_div x (Infinity t) = zero (is_neg x \<noteq> t)"
| "js_div x y =
     (if is_zero y then (if is_zero x then NaN else Infinity (is_neg x \<noteq> is_neg y))
      else if is_zero x then zero (is_neg x \<noteq> is_neg y)
      else fl (val x / val y))"

text \<open>\<open>x >= y\<close> and \<open>x == y\<close>\<close>

fun js_ge :: "num \<Rightarrow> num \<Rightarrow> bool" where
  "js_ge NaN y = False"
| "js_ge x NaN = False"
| "js_ge (Infinity s) (Infinity t) = (\<not> s \<or> t)"
| "js_ge (Infinity s) y = (\<not> s)"
| "js_ge x (Infinity t) = t"
| "js_ge x y = (val y \<le> val x)"

definition js_eq :: "num \<Rightarrow> num \<Rightarrow> bool" where
  "js_eq x y \<longleftrightarrow> x \<noteq> NaN \<and> y \<noteq> NaN \<and> (x = y \<or> is_zero x \<and> is_zero y)"

text \<open>\<open>Math.abs\<close>, \<open>Math.floor\<close>, \<open>Math.ceil\<close>, \<open>Math.round\<close>\<close>

fun js_abs :: "num \<Rightarrow> num" where
  "js_abs NaN = NaN"
| "js_abs (Infinity s) = Infinity False"
| "js_abs NegZero = Fin 0"
| "js_abs (Fin q) = Fin \<bar>q\<bar>"

fun js_floor :: "num \<Rightarrow> num" where
  "js_floor (Fin q) = Fin (of_int \<lfloor>q\<rfloor>)"
| "js_floor x = x"

fun js_ceil :: "num \<Rightarrow> num" where
  "js_ceil (Fin q) = (if q < 0 \<and> -1 < q then NegZero else Fin (of_int \<lceil>q\<rceil>))"
| "js_ceil x = x"

fun js_round :: "num \<Rightarrow> num" where
  "js_round (Fin q) = (if q < 0 \<and> - (1 / 2) \<le> q then NegZero else Fin (of_int \<lfloor>q + 1 / 2\<rfloor>))"
| "js_round x = x"

text \<open>\<open>Math.sqrt\<close>: the correctly rounded root, computed from integer square roots.\<close>

text \<open>\<open>isqrt n\<close> is the largest \<open>r\<close> with \<open>r * r <= n\<close>, by the schoolbook recursion.\<close>

fun isqrt :: "nat \<Rightarrow> nat" where
  "isqrt n = (if n = 0 then 0 else
     let r = 2 * isqrt (n div 4) in if (r + 1) * (r + 1) \<le> n then r + 1 else r)"

declare isqrt.simps [simp del]

text \<open>
  The root of a positive double \<open>q\<close> to 60 bits with a sticky bit: \<open>isqrt\<close> of \<open>q\<close> scaled by a power
  of four, plus one half when the root is not exact.  Rounding that to 53 bits rounds the root.
\<close>

definition sqrt_approx :: "rat \<Rightarrow> rat" where
  "sqrt_approx q = (let k = 60 - expo q div 2; s = q * pow2 (2 * k); r = isqrt (nat \<lfloor>s\<rfloor>) in
     (of_nat r + (if of_nat (r * r) = s then 0 else 1 / 2)) / pow2 k)"

fun js_sqrt :: "num \<Rightarrow> num" where
  "js_sqrt (Infinity s) = (if s then NaN else Infinity False)"
| "js_sqrt (Fin q) = (if q < 0 then NaN else if q = 0 then Fin 0 else fl (sqrt_approx q))"
| "js_sqrt x = x"

section \<open>Number to string\<close>

text \<open>
  \<open>String(x)\<close>: the shortest decimal \<open>s * 10^(n-k)\<close> with \<open>k\<close> digits that rounds to \<open>x\<close>, laid out
  as ECMA-262 says.  \<open>dec_expo\<close> is the \<open>n\<close> with $10^{n-1} \le q < 10^n$; seventeen digits always
  suffice for a double, and 400 bounds the leading zeros of the smallest one.
\<close>

definition pow10 :: "int \<Rightarrow> rat" where
  "pow10 k = (if 0 \<le> k then 10 ^ nat k else 1 / 10 ^ nat (- k))"

fun dec_shift :: "nat \<Rightarrow> rat \<Rightarrow> int" where
  "dec_shift 0 q = 0"
| "dec_shift (Suc f) q = (if 1 \<le> q then 0 else 1 + dec_shift f (q * 10))"

definition dec_expo :: "rat \<Rightarrow> int" where
  "dec_expo q = (let z = dec_shift 400 q in
     int (length (string_of_nat (nat \<lfloor>q * pow10 z\<rfloor>))) - z)"

fun shortest :: "nat \<Rightarrow> int \<Rightarrow> rat \<Rightarrow> int \<Rightarrow> int \<times> int" where
  "shortest 0 k q n = (round_half_even (q * pow10 (k - n)), k)"
| "shortest (Suc f) k q n =
     (let s = round_half_even (q * pow10 (k - n)) in
      if fl (of_int s * pow10 (n - k)) = Fin q then (s, k) else shortest f (k + 1) q n)"

definition layout :: "string \<Rightarrow> int \<Rightarrow> int \<Rightarrow> string" where
  "layout ds k n =
     (if k \<le> n \<and> n \<le> 21 then ds @ replicate (nat (n - k)) (CHR ''0'')
      else if 0 < n \<and> n \<le> 21 then take (nat n) ds @ ''.'' @ drop (nat n) ds
      else if -6 < n \<and> n \<le> 0 then ''0.'' @ replicate (nat (- n)) (CHR ''0'') @ ds
      else (let e = (if 0 < n then ''e+'' else ''e-'') @ string_of_nat (nat \<bar>n - 1\<bar>) in
        if k = 1 then ds @ e else take 1 ds @ ''.'' @ drop 1 ds @ e))"

definition pos_to_string :: "rat \<Rightarrow> string" where
  "pos_to_string q = (let n = dec_expo q; (s, k) = shortest 16 1 q n in
     layout (string_of_nat (nat s)) k n)"

definition num_to_string :: "num \<Rightarrow> string" where
  "num_to_string x = (case x of
       NaN \<Rightarrow> ''NaN''
     | Infinity s \<Rightarrow> (if s then ''-Infinity'' else ''Infinity'')
     | NegZero \<Rightarrow> ''0''
     | Fin q \<Rightarrow> if q = 0 then ''0'' else if q < 0 then ''-'' @ pos_to_string (- q)
               else pos_to_string q)"

section \<open>Number.prototype.toFixed(2)\<close>

definition pad2 :: "nat \<Rightarrow> string" where
  "pad2 n = [digit_char (n div 10), digit_char (n mod 10)]"

definition fixed2 :: "rat \<Rightarrow> string" where
  "fixed2 q = (let n = nat \<lfloor>q * 100 + 1 / 2\<rfloor> in string_of_nat (n div 100) @ ''.'' @ pad2 (n mod 100))"

definition to_fixed2 :: "num \<Rightarrow> string" where
  "to_fixed2 x = (case x of
       NegZero \<Rightarrow> ''0.00''
     | Fin q \<Rightarrow> if 1000000000000000000000 \<le> \<bar>q\<bar> then num_to_string x
               else if q < 0 then ''-'' @ fixed2 (- q) else fixed2 q
     | _ \<Rightarrow> num_to_string x)"

section \<open>Rounding is exact on integers and respects integer bounds\<close>

lemma pow2_powi: "pow2 k = 2 powi k"
  by (simp add: pow2_def power_int_def field_simps)

lemma pow2_pos [simp]: "0 < pow2 k"
  by (simp add: pow2_powi)

lemma pow2_add: "pow2 (a + b) = pow2 a * pow2 b"
  by (simp add: pow2_powi power_int_add)

lemma pow2_mono: "a \<le> b \<Longrightarrow> pow2 a \<le> pow2 b"
  by (simp add: pow2_powi power_int_increasing)

lemma pow2_strict: "a < b \<Longrightarrow> pow2 a < pow2 b"
  by (simp add: pow2_powi power_int_strict_increasing)

lemma pow2_minus: "pow2 (- k) * pow2 k = 1"
  by (simp flip: pow2_add) (simp add: pow2_def)

lemma pow2_nat: "0 \<le> k \<Longrightarrow> pow2 k = of_int (2 ^ nat k)"
  by (simp add: pow2_def)

lemma bits_bounds: "0 < n \<Longrightarrow> 0 < bits n \<and> 2 ^ (bits n - 1) \<le> n \<and> n < 2 ^ bits n"
proof (induction n rule: bits.induct)
  case (1 n)
  show ?case
  proof (cases "n = 1")
    case True
    have "bits 1 = 1" by (simp add: bits.simps [of "Suc 0"] bits.simps [of 0])
    with True show ?thesis by simp
  next
    case False
    with 1 have IH: "0 < bits (n div 2)" "2 ^ (bits (n div 2) - 1) \<le> n div 2" "n div 2 < 2 ^ bits (n div 2)"
      by auto
    have b: "bits n = Suc (bits (n div 2))" using 1(2) by (simp add: bits.simps [of n])
    have "(2::nat) ^ bits (n div 2) = 2 * 2 ^ (bits (n div 2) - 1)"
      using IH(1) by (simp flip: power_Suc)
    moreover have "2 * 2 ^ (bits (n div 2) - 1) \<le> n" using IH(2) by linarith
    moreover have "n < 2 * 2 ^ bits (n div 2)" using IH(3) by linarith
    ultimately show ?thesis using b by simp
  qed
qed

lemma expo_bounds:
  assumes "0 < q"
  shows "pow2 (expo q) \<le> q" "q < pow2 (expo q + 1)"
proof -
  obtain a b where ab: "quotient_of q = (a, b)" by force
  have q: "q = of_int a / of_int b" and b0: "0 < b"
    using quotient_of_div [OF ab] quotient_of_denom_pos [OF ab] by auto
  have a0: "0 < a" using assms q b0 by (simp add: zero_less_divide_iff)
  let ?m = "int (bits (nat a))" and ?n = "int (bits (nat b))"
  have up: "pow2 (int k) = of_nat (2 ^ k)" for k by (simp add: pow2_def)
  have one: "pow2 (int (bits (nat x)) - 1) \<le> of_int x \<and> of_int x < pow2 (int (bits (nat x)))"
    if "0 < x" for x
  proof -
    have "0 < bits (nat x)" "2 ^ (bits (nat x) - 1) \<le> nat x" "nat x < 2 ^ bits (nat x)"
      using bits_bounds [of "nat x"] that by auto
    moreover have "int (bits (nat x)) - 1 = int (bits (nat x) - 1)" using calculation(1) by simp
    moreover have "(of_int x :: rat) = of_nat (nat x)" using that by simp
    ultimately show ?thesis
      using that by (simp only: up of_nat_le_iff of_nat_less_iff)
  qed
  have A: "pow2 (?m - 1) \<le> of_int a" "of_int a < pow2 ?m" and B: "pow2 (?n - 1) \<le> of_int b" "of_int b < pow2 ?n"
    using one a0 b0 by auto
  have "q < pow2 (?m - ?n + 1)"
  proof -
    have "of_int a < pow2 (?m - ?n + 1) * pow2 (?n - 1)" using A(2) by (simp flip: pow2_add)
    also have "\<dots> \<le> pow2 (?m - ?n + 1) * of_int b" using B(1) by simp
    finally show ?thesis using b0 by (simp add: q field_simps)
  qed
  moreover have "pow2 (?m - ?n - 1) \<le> q"
  proof -
    have "pow2 (?m - ?n - 1) * of_int b \<le> pow2 (?m - ?n - 1) * pow2 ?n" using B(2) by simp
    also have "\<dots> = pow2 (?m - 1)" by (simp flip: pow2_add)
    also have "\<dots> \<le> of_int a" by (rule A(1))
    finally show ?thesis using b0 by (simp add: q field_simps)
  qed
  ultimately show "pow2 (expo q) \<le> q" "q < pow2 (expo q + 1)"
    by (auto simp: expo_def ab Let_def)
qed

lemma expo_le: "0 < q \<Longrightarrow> q < pow2 k \<Longrightarrow> expo q < k"
  using expo_bounds(1) [of q] pow2_mono [of k "expo q"] by (metis le_less_trans not_le)

lemma expo_ge: "0 < q \<Longrightarrow> pow2 k \<le> q \<Longrightarrow> k \<le> expo q"
  using expo_bounds(2) [of q] pow2_mono [of "expo q + 1" k] by (metis le_less_trans linorder_not_less zle_add1_eq_le order_less_imp_le order_less_le_trans)

lemma round_half_even_int [simp]: "round_half_even (of_int n) = n"
  by (simp add: round_half_even_def)

lemma round_half_even_le: "x \<le> of_int n \<Longrightarrow> round_half_even x \<le> n"
proof -
  assume le: "x \<le> of_int n"
  have f: "\<lfloor>x\<rfloor> \<le> n" using le by linarith
  show ?thesis
  proof (cases "\<lfloor>x\<rfloor> = n")
    case True
    then have "x = of_int n" using le by linarith
    then show ?thesis by simp
  next
    case False
    then have "\<lfloor>x\<rfloor> + 1 \<le> n" using f by linarith
    then show ?thesis by (auto simp: round_half_even_def Let_def)
  qed
qed

lemma round_half_even_ge: "of_int n \<le> x \<Longrightarrow> n \<le> round_half_even x"
proof -
  assume "of_int n \<le> x"
  then have "n \<le> \<lfloor>x\<rfloor>" by (simp add: le_floor_iff)
  then show ?thesis by (auto simp: round_half_even_def Let_def)
qed

text \<open>Below $2^{53}$ the scaling exponent is not positive, so integers stay integers.\<close>

definition scale :: "rat \<Rightarrow> int" where
  "scale q = max (expo \<bar>q\<bar> - 52) (-1074)"

lemma scale_le_0: "q \<noteq> 0 \<Longrightarrow> \<bar>q\<bar> < of_int (2 ^ 53) \<Longrightarrow> scale q \<le> 0"
  using expo_le [of "\<bar>q\<bar>" 53] by (simp add: scale_def pow2_def)

lemma int_scaled: "e \<le> 0 \<Longrightarrow> of_int n / pow2 e = of_int (n * 2 ^ nat (- e))"
  by (simp add: pow2_def)

lemma fl_def_scale:
  "q \<noteq> 0 \<Longrightarrow> fl q = (let m = round_half_even (q / pow2 (scale q)); y = of_int m * pow2 (scale q) in
     if m = 0 then zero (q < 0) else if pow2 1024 \<le> \<bar>y\<bar> then Infinity (q < 0) else Fin y)"
  by (simp add: fl_def scale_def zero_def Let_def)

lemma pow2_53: "(of_int (2 ^ 53) :: rat) < pow2 1024"
  using pow2_strict [of 53 1024] by (simp add: pow2_def)

lemma fl_int:
  assumes "\<bar>n\<bar> < 2 ^ 53"
  shows "fl (of_int n) = Fin (of_int n)"
proof (cases "n = 0")
  case False
  let ?e = "scale (of_int n)"
  have abs: "\<bar>of_int n :: rat\<bar> < of_int (2 ^ 53)" using assms by (metis of_int_abs of_int_less_iff)
  then have e: "?e \<le> 0" using False by (intro scale_le_0) auto
  have "round_half_even (of_int n / pow2 ?e) = n * 2 ^ nat (- ?e)"
    unfolding int_scaled [OF e] by (rule round_half_even_int)
  moreover have "of_int (n * 2 ^ nat (- ?e)) * pow2 ?e = (of_int n :: rat)"
    using int_scaled [OF e, of n] pow2_pos [of ?e] by (simp add: field_simps)
  ultimately show ?thesis
    using False abs pow2_53 by (simp add: fl_def_scale Let_def del: of_int_mult)
qed (simp add: fl_def)

text \<open>So is a number with at most 53 significant bits, a fraction whose denominator is a power of two.\<close>

lemma fl_dyadic:
  assumes "\<bar>n\<bar> < 2 ^ 53" "j \<le> 1000"
  shows "fl (of_int n / 2 ^ j) = Fin (of_int n / 2 ^ j)"
proof (cases "n = 0")
  case False
  let ?q = "of_int n / 2 ^ j :: rat"
  let ?e = "scale ?q"
  have "\<bar>of_int n :: rat\<bar> < of_int (2 ^ 53)" using assms by (metis of_int_abs of_int_less_iff)
  then have "\<bar>?q\<bar> < pow2 53 / 2 ^ j" by (simp add: pow2_def divide_strict_right_mono)
  also have "\<dots> = pow2 (53 - int j)"
    using pow2_add [of "53 - int j" "int j"] by (simp add: pow2_def field_simps)
  finally have "\<bar>?q\<bar> < pow2 (53 - int j)" .
  then have e: "?e \<le> - int j" using expo_le [of "\<bar>?q\<bar>" "53 - int j"] False assms(2) by (simp add: scale_def)
  have split: "pow2 ?e * pow2 (- ?e - int j) = 1 / 2 ^ j"
    by (simp flip: pow2_add) (simp add: pow2_def)
  have int: "pow2 (- ?e - int j) = of_int (2 ^ nat (- ?e - int j))" using e by (intro pow2_nat) simp
  have prod: "of_int (n * 2 ^ nat (- ?e - int j)) * pow2 ?e = ?q"
  proof -
    have "of_int (n * 2 ^ nat (- ?e - int j)) * pow2 ?e = of_int n * (pow2 ?e * pow2 (- ?e - int j))"
      unfolding int of_int_mult by (simp only: ac_simps)
    then show ?thesis unfolding split by simp
  qed
  then have "?q / pow2 ?e = of_int (n * 2 ^ nat (- ?e - int j))"
    using pow2_pos [of ?e] by (metis less_irrefl nonzero_mult_div_cancel_right)
  then have "round_half_even (?q / pow2 ?e) = n * 2 ^ nat (- ?e - int j)" by (simp only: round_half_even_int)
  moreover note prod
  moreover have "\<bar>?q\<bar> < pow2 1024"
    using \<open>\<bar>?q\<bar> < pow2 (53 - int j)\<close> pow2_mono [of "53 - int j" 1024] by linarith
  ultimately show ?thesis using False by (simp add: fl_def_scale Let_def del: of_int_mult)
qed (simp add: fl_def)

lemma fl_between:
  assumes "0 < q" and "q \<le> of_int n" and "n < 2 ^ 53"
  shows "\<exists>y. fl q = Fin y \<and> 0 \<le> y \<and> y \<le> of_int n"
proof -
  let ?e = "scale q" and ?m = "round_half_even (q / pow2 (scale q))"
  have nb: "(of_int n :: rat) < of_int (2 ^ 53)" using assms(3) by (simp only: of_int_less_iff)
  have e: "?e \<le> 0" using assms nb by (intro scale_le_0) auto
  have "q / pow2 ?e \<le> of_int n / pow2 ?e" using assms(2) by (intro divide_right_mono less_imp_le [OF pow2_pos])
  then have "?m \<le> n * 2 ^ nat (- ?e)"
    unfolding int_scaled [OF e] by (rule round_half_even_le)
  then have "of_int ?m * pow2 ?e \<le> of_int (n * 2 ^ nat (- ?e)) * pow2 ?e"
    by (intro mult_right_mono) (simp_all only: of_int_le_iff pow2_pos less_imp_le)
  also have "\<dots> = of_int n"
    using int_scaled [OF e, of n] pow2_pos [of ?e] by (simp add: field_simps)
  finally have le: "of_int ?m * pow2 ?e \<le> of_int n" .
  have "0 \<le> ?m" using assms(1) pow2_pos [of ?e] by (intro round_half_even_ge) (simp add: less_imp_le)
  then have ge: "0 \<le> of_int ?m * pow2 ?e" by (intro mult_nonneg_nonneg less_imp_le [OF pow2_pos]) simp
  have "\<bar>of_int ?m * pow2 ?e\<bar> < pow2 1024" using le ge nb pow2_53 by linarith
  then show ?thesis
    using assms(1) le ge by (auto simp: fl_def_scale Let_def zero_def)
qed

text \<open>Arithmetic on integers in the safe range is exact.\<close>

lemma js_add_int:
  assumes "\<bar>a + b\<bar> < 2 ^ 53"
  shows "js_add (Fin (of_int a)) (Fin (of_int b)) = Fin (of_int (a + b))"
  using fl_int [OF assms] by simp

lemma js_sub_int:
  assumes "\<bar>a - b\<bar> < 2 ^ 53"
  shows "js_sub (Fin (of_int a)) (Fin (of_int b)) = Fin (of_int (a - b))"
proof (cases "b = 0")
  case True
  then show ?thesis using fl_int [of a] assms by (simp add: js_sub_def)
next
  case False
  then show ?thesis using fl_int [OF assms] by (simp add: js_sub_def)
qed

lemma js_mul_int:
  assumes "\<bar>a * b\<bar> < 2 ^ 53" "a \<noteq> 0" "b \<noteq> 0"
  shows "js_mul (Fin (of_int a)) (Fin (of_int b)) = Fin (of_int (a * b))"
  using fl_int [OF assms(1)] assms(2,3) by (simp add: is_zero_def)

end
