(* ===== verification/JSON.thy ===== *)
theory JSON
  imports JSNumber
begin

text \<open>
  \<open>JSON.stringify\<close> on the plain data the sources pass to it.  An object property whose value is
  \<open>undefined\<close> is left out by the caller's construction of the \<open>JObj\<close> list, as the function
  leaves it out.
\<close>

datatype json = JNull | JBool bool | JNum num | JStr string | JArr "json list" | JObj "(string \<times> json) list"

definition hex_digit :: "nat \<Rightarrow> char" where
  "hex_digit n = ''0123456789abcdef'' ! n"

definition char_code :: "char \<Rightarrow> nat" where
  "char_code c = of_char c"

text \<open>\<open>QuoteJSONString\<close>\<close>

definition quote_char :: "char \<Rightarrow> string" where
  "quote_char c =
     (if c = CHR 0x22 then [CHR 0x5C, CHR 0x22]
      else if c = CHR 0x5C then [CHR 0x5C, CHR 0x5C]
      else if c = CHR 0x08 then [CHR 0x5C, CHR ''b'']
      else if c = CHR 0x0C then [CHR 0x5C, CHR ''f'']
      else if c = CHR 0x0A then [CHR 0x5C, CHR ''n'']
      else if c = CHR 0x0D then [CHR 0x5C, CHR ''r'']
      else if c = CHR 0x09 then [CHR 0x5C, CHR ''t'']
      else if char_code c < 32 then
        [CHR 0x5C, CHR ''u'', CHR ''0'', CHR ''0'', hex_digit (char_code c div 16), hex_digit (char_code c mod 16)]
      else [c])"

definition json_quote :: "string \<Rightarrow> string" where
  "json_quote s = [CHR 0x22] @ concat (map quote_char s) @ [CHR 0x22]"

fun json_num :: "num \<Rightarrow> string" where
  "json_num NaN = ''null''"
| "json_num (Infinity s) = ''null''"
| "json_num x = num_to_string x"

fun stringify :: "json \<Rightarrow> string"
  and stringify_elems :: "json list \<Rightarrow> string list"
  and stringify_props :: "(string \<times> json) list \<Rightarrow> string list" where
  "stringify JNull = ''null''"
| "stringify (JBool b) = (if b then ''true'' else ''false'')"
| "stringify (JNum x) = json_num x"
| "stringify (JStr s) = json_quote s"
| "stringify (JArr xs) = ''['' @ join '','' (stringify_elems xs) @ '']''"
| "stringify (JObj ps) = ''{'' @ join '','' (stringify_props ps) @ ''}''"
| "stringify_elems [] = []"
| "stringify_elems (x # xs) = stringify x # stringify_elems xs"
| "stringify_props [] = []"
| "stringify_props ((k, x) # ps) = (json_quote k @ '':'' @ stringify x) # stringify_props ps"

lemma stringify_elems_map: "stringify_elems xs = map stringify xs"
  by (induction xs) auto

lemma stringify_props_map: "stringify_props ps = map (\<lambda>(k, x). json_quote k @ '':'' @ stringify x) ps"
  by (induction ps) auto

end
