(* ===== verification/Api.thy ===== *)
theory Api
  imports JSObject JSON
begin

text \<open>
  The scheduler's Thrift API as the browser sees it: the enumerations of \<open>api.thrift\<close> as the
  objects the Thrift compiler generates (names mapped to numbers), and the structs the UI reads,
  as records.  A struct field that may be \<open>null\<close> is an option.  A 64-bit timestamp or a 32-bit
  count is an integer: all of them are exact as JavaScript numbers.
\<close>

section \<open>Enumerations\<close>

definition ScheduleStatus :: "int obj" where
  "ScheduleStatus = [(''INIT'', 11), (''THROTTLED'', 16), (''PENDING'', 0), (''ASSIGNED'', 9),
     (''STARTING'', 1), (''RUNNING'', 2), (''FINISHED'', 3), (''PREEMPTING'', 13),
     (''RESTARTING'', 12), (''DRAINING'', 17), (''FAILED'', 4), (''KILLED'', 5), (''KILLING'', 6),
     (''LOST'', 7)]"

definition PENDING :: int where "PENDING = 0"
definition RUNNING :: int where "RUNNING = 2"

definition ACTIVE_STATES :: "int list" where
  "ACTIVE_STATES = [9, 17, 6, 0, 13, 12, 2, 1, 16]"

definition JobUpdateStatus :: "int obj" where
  "JobUpdateStatus = [(''ROLLING_FORWARD'', 0), (''ROLLING_BACK'', 1), (''ROLL_FORWARD_PAUSED'', 2),
     (''ROLL_BACK_PAUSED'', 3), (''ROLLED_FORWARD'', 4), (''ROLLED_BACK'', 5), (''ABORTED'', 6),
     (''ERROR'', 7), (''FAILED'', 8), (''ROLL_FORWARD_AWAITING_PULSE'', 9),
     (''ROLL_BACK_AWAITING_PULSE'', 10)]"

definition ROLLED_FORWARD :: int where "ROLLED_FORWARD = 4"
definition ROLLED_BACK :: int where "ROLLED_BACK = 5"
definition ABORTED :: int where "ABORTED = 6"
definition ERROR :: int where "ERROR = 7"
definition FAILED :: int where "FAILED = 8"

definition ACTIVE_JOB_UPDATE_STATES :: "int list" where
  "ACTIVE_JOB_UPDATE_STATES = [0, 1, 2, 3, 9, 10]"

definition JobUpdateAction :: "int obj" where
  "JobUpdateAction = [(''INSTANCE_UPDATED'', 1), (''INSTANCE_ROLLED_BACK'', 2),
     (''INSTANCE_UPDATING'', 3), (''INSTANCE_ROLLING_BACK'', 4), (''INSTANCE_UPDATE_FAILED'', 5),
     (''INSTANCE_ROLLBACK_FAILED'', 6)]"

definition INSTANCE_UPDATED :: int where "INSTANCE_UPDATED = 1"
definition INSTANCE_ROLLED_BACK :: int where "INSTANCE_ROLLED_BACK = 2"
definition INSTANCE_UPDATE_FAILED :: int where "INSTANCE_UPDATE_FAILED = 5"
definition INSTANCE_ROLLBACK_FAILED :: int where "INSTANCE_ROLLBACK_FAILED = 6"

definition CronCollisionPolicy :: "int obj" where
  "CronCollisionPolicy = [(''KILL_EXISTING'', 0), (''CANCEL_NEW'', 1), (''RUN_OVERLAP'', 2)]"

lemmas enum_consts [api_simps] = PENDING_def RUNNING_def ROLLED_FORWARD_def ROLLED_BACK_def
  ABORTED_def ERROR_def FAILED_def INSTANCE_UPDATED_def INSTANCE_ROLLED_BACK_def
  INSTANCE_UPDATE_FAILED_def INSTANCE_ROLLBACK_FAILED_def

section \<open>Jobs and tasks\<close>

record job_key =
  jk_role :: "string option"
  jk_environment :: "string option"
  jk_name :: "string option"

record value_constraint =
  vc_negated :: bool
  vc_values :: "string list option"

record task_constraint =
  tc_value :: "value_constraint option"
  tc_limit :: "int option" \<comment> \<open>the \<open>limit\<close> of a LimitConstraint\<close>

record constraint =
  c_name :: string
  c_constraint :: task_constraint

record metadata_entry =
  md_key :: string
  md_value :: string

text \<open>\<open>container.docker\<close>: \<open>Some image\<close> when both structs are present.\<close>

record task_config =
  cfg_jobName :: string
  cfg_isService :: bool
  cfg_numCpus :: num
  cfg_ramMb :: int
  cfg_diskMb :: int
  cfg_production :: "bool option"
  cfg_constraints :: "constraint list option"
  cfg_requestedPorts :: "string list option"
  cfg_contactEmail :: "string option"
  cfg_metadata :: "metadata_entry list option"
  cfg_docker :: "string option"

record task_event =
  te_timestamp :: int
  te_status :: int
  te_message :: "string option"

record assigned_task =
  at_taskId :: string
  at_slaveHost :: "string option"
  at_task :: task_config
  at_instanceId :: int

record scheduled_task =
  st_assignedTask :: assigned_task
  st_status :: int
  st_taskEvents :: "task_event list"

record pending_reason =
  pr_taskId :: string
  pr_reason :: string

record resource_aggregate =
  ra_numCpus :: num
  ra_ramMb :: int
  ra_diskMb :: int

record job_configuration =
  jc_key_environment :: string
  jc_cronSchedule :: "string option"
  jc_cronCollisionPolicy :: "int option"
  jc_taskConfig :: task_config
  jc_instanceCount :: int

record job_stats =
  js_active :: int
  js_finished :: int
  js_failed :: int
  js_pending :: int

record job_summary =
  jsum_job :: job_configuration
  jsum_stats :: job_stats
  jsum_nextCronRunMs :: "int option"

record role_summary =
  rs_role :: string
  rs_jobCount :: int
  rs_cronJobCount :: int

record config_group =
  cg_config :: task_config
  cg_instanceIds :: "int list"

section \<open>Job updates\<close>

record id_range =
  r_first :: int
  r_last :: int

record instance_event =
  ie_instanceId :: int
  ie_timestampMs :: int
  ie_action :: int

text \<open>The task configuration of an update is only printed: it is plain data.\<close>

record instance_task_config =
  itc_task :: json
  itc_instances :: "id_range list"

text \<open>An update that only removes instances has no desired state: the scheduler leaves the field unset.\<close>

record update_instructions =
  ui_initialState :: "instance_task_config list"
  ui_desiredState :: "instance_task_config option"

record job_update_state =
  jus_status :: int
  jus_createdTimestampMs :: int
  jus_lastModifiedTimestampMs :: int

record job_update_key =
  juk_job :: job_key
  juk_id :: "string option"

record job_update_summary =
  jsm_key :: job_update_key
  jsm_state :: job_update_state

record job_update =
  ju_summary :: job_update_summary
  ju_instructions :: update_instructions

text \<open>\<open>details\<close> may be the empty object \<open>{}\<close>, whose \<open>update\<close> is \<open>undefined\<close>.\<close>

record job_update_details =
  jud_update :: "job_update option"
  jud_instanceEvents :: "instance_event list option"

record job_update_query =
  juq_jobKey :: "job_key option"
  juq_updateStatuses :: "int list option"
  juq_limit :: "int option"

definition new_JobUpdateQuery :: job_update_query where
  "new_JobUpdateQuery = \<lparr>juq_jobKey = None, juq_updateStatuses = None, juq_limit = None\<rparr>"

section \<open>Responses\<close>

record server_info =
  si_clusterName :: "string option"
  si_statsUrlPrefix :: "string option"

text \<open>
  \<open>result\<close> is a union: the field a call reads is absent (\<open>null\<close>) when the scheduler filled another,
  so the field the caller wants is an option inside the optional result.  The messages of an
  unsuccessful call are in \<open>details\<close>; the struct has no field \<open>message\<close>.
\<close>

record 'r response =
  resp_responseCode :: int
  resp_serverInfo :: "server_info option"
  resp_result :: "'r option option"
  resp_details :: "string list"

end
