(* ===== verification/Underscore.thy ===== *)
theory Underscore
  imports JSObject "HOL-Library.List_Lexorder" "HOL-Library.Char_ord"
begin

text \<open>
  The functions of Underscore 1.6.0 (\<open>underscore/underscore.js\<close>) that the scheduler UI calls,
  translated from the library's own source.  A collection that may be \<open>null\<close> is an option, as
  the library's \<open>obj == null\<close> tests require.  The iterators passed by the UI are pure, so a
  callback is a HOL function.  The second half relates each function to the list library.
\<close>

section \<open>Collection functions\<close>

text \<open>\<open>Array.prototype.map\<close> and \<open>filter\<close>, to which the library delegates for arrays.\<close>

definition us_map :: "('a \<Rightarrow> 'b) \<Rightarrow> 'a list option \<Rightarrow> 'b list" where
  "us_map f obj = (case obj of None \<Rightarrow> [] | Some xs \<Rightarrow> foldl (\<lambda>results x. results @ [f x]) [] xs)"

definition us_filter :: "('a \<Rightarrow> bool) \<Rightarrow> 'a list option \<Rightarrow> 'a list" where
  "us_filter p obj = (case obj of None \<Rightarrow> []
     | Some xs \<Rightarrow> foldl (\<lambda>results x. if p x then results @ [x] else results) [] xs)"

definition us_reject :: "('a \<Rightarrow> bool) \<Rightarrow> 'a list option \<Rightarrow> 'a list" where
  "us_reject p obj = us_filter (\<lambda>x. \<not> p x) obj"

definition us_reduce :: "('b \<Rightarrow> 'a \<Rightarrow> 'b) \<Rightarrow> 'b \<Rightarrow> 'a list option \<Rightarrow> 'b" where
  "us_reduce f memo obj = (case obj of None \<Rightarrow> memo | Some xs \<Rightarrow> foldl f memo xs)"

text \<open>\<open>_.find\<close>: \<open>any\<close> stops at the first element that passes; otherwise \<open>undefined\<close>.\<close>

fun find_loop :: "('a \<Rightarrow> bool) \<Rightarrow> 'a list \<Rightarrow> 'a option" where
  "find_loop p [] = None"
| "find_loop p (x # xs) = (if p x then Some x else find_loop p xs)"

definition us_find :: "('a \<Rightarrow> bool) \<Rightarrow> 'a list option \<Rightarrow> 'a option" where
  "us_find p obj = (case obj of None \<Rightarrow> None | Some xs \<Rightarrow> find_loop p xs)"

text \<open>\<open>Array.prototype.indexOf\<close>: the first position, or -1.\<close>

fun index_loop :: "'a \<Rightarrow> 'a list \<Rightarrow> int \<Rightarrow> int" where
  "index_loop item [] i = -1"
| "index_loop item (x # xs) i = (if x = item then i else index_loop item xs (i + 1))"

definition us_contains :: "'a list option \<Rightarrow> 'a \<Rightarrow> bool" where
  "us_contains obj target = (case obj of None \<Rightarrow> False | Some xs \<Rightarrow> index_loop target xs 0 \<noteq> -1)"

section \<open>Sorting\<close>

text \<open>
  \<open>_.sortBy\<close> decorates every value with its position and its criterion, sorts the records with
  the comparison function below, and projects the values.  A criterion may be \<open>undefined\<close>
  (\<open>None\<close>): every comparison with it is false.
\<close>

record ('a, 'c) entry =
  entry_value :: 'a
  entry_index :: nat
  entry_criteria :: "'c option"

definition js_less :: "'c::linorder option \<Rightarrow> 'c option \<Rightarrow> bool" where
  "js_less a b = (case (a, b) of (Some x, Some y) \<Rightarrow> x < y | _ \<Rightarrow> False)"

definition compare_entries :: "('a, 'c::linorder) entry \<Rightarrow> ('a, 'c) entry \<Rightarrow> int" where
  "compare_entries left right =
     (let a = entry_criteria left; b = entry_criteria right in
      if a \<noteq> b \<and> (js_less b a \<or> a = None) then 1
      else if a \<noteq> b \<and> (js_less a b \<or> b = None) then -1
      else int (entry_index left) - int (entry_index right))"

text \<open>
  \<open>Array.prototype.sort\<close> with a comparison function, as an insertion sort.  The language leaves
  the algorithm open; \<open>sorted_entries_unique\<close> shows that, the positions being distinct, only one
  arrangement is sorted by this comparison function.
\<close>

fun insert_by :: "('a \<Rightarrow> 'a \<Rightarrow> int) \<Rightarrow> 'a \<Rightarrow> 'a list \<Rightarrow> 'a list" where
  "insert_by cmp x [] = [x]"
| "insert_by cmp x (y # ys) = (if cmp x y \<le> 0 then x # y # ys else y # insert_by cmp x ys)"

fun array_sort :: "('a \<Rightarrow> 'a \<Rightarrow> int) \<Rightarrow> 'a list \<Rightarrow> 'a list" where
  "array_sort cmp [] = []"
| "array_sort cmp (x # xs) = insert_by cmp x (array_sort cmp xs)"

fun decorate :: "('a \<Rightarrow> 'c option) \<Rightarrow> nat \<Rightarrow> 'a list \<Rightarrow> ('a, 'c) entry list" where
  "decorate f i [] = []"
| "decorate f i (x # xs) =
     \<lparr>entry_value = x, entry_index = i, entry_criteria = f x\<rparr> # decorate f (Suc i) xs"

definition us_sortBy :: "('a \<Rightarrow> 'c::linorder option) \<Rightarrow> 'a list option \<Rightarrow> 'a list" where
  "us_sortBy f obj = (case obj of None \<Rightarrow> []
     | Some xs \<Rightarrow> map entry_value (array_sort compare_entries (decorate f 0 xs)))"

section \<open>Grouping\<close>

definition us_groupBy :: "('a \<Rightarrow> string) \<Rightarrow> 'a list option \<Rightarrow> 'a list obj" where
  "us_groupBy f obj = (case obj of None \<Rightarrow> []
     | Some xs \<Rightarrow> foldl (\<lambda>result value. let key = f value in
          (case obj_get result key of
             Some vs \<Rightarrow> obj_set key (vs @ [value]) result
           | None \<Rightarrow> obj_set key [value] result)) [] xs)"

definition us_indexBy :: "('a \<Rightarrow> string) \<Rightarrow> 'a list option \<Rightarrow> 'a obj" where
  "us_indexBy f obj = (case obj of None \<Rightarrow> []
     | Some xs \<Rightarrow> foldl (\<lambda>result value. obj_set (f value) value result) [] xs)"

section \<open>Array functions\<close>

text \<open>The binary search of \<open>_.sortedIndex\<close>.\<close>

function sortedIndex_loop :: "'a::linorder list \<Rightarrow> 'a \<Rightarrow> nat \<Rightarrow> nat \<Rightarrow> nat" where
  "sortedIndex_loop array v low high =
     (if low < high then
        let mid = (low + high) div 2 in
        if array ! mid < v then sortedIndex_loop array v (mid + 1) high
        else sortedIndex_loop array v low mid
      else low)"
  by pat_completeness auto
termination
  by (relation "measure (\<lambda>(array, v, low, high). high - low)") auto

declare sortedIndex_loop.simps [simp del]

definition us_sortedIndex :: "'a::linorder list \<Rightarrow> 'a \<Rightarrow> nat" where
  "us_sortedIndex array v = sortedIndex_loop array v 0 (length array)"

text \<open>\<open>_.indexOf(array, item, true)\<close> trusts the caller that the array is sorted.\<close>

definition us_indexOf_sorted :: "'a::linorder list option \<Rightarrow> 'a \<Rightarrow> int" where
  "us_indexOf_sorted obj item = (case obj of None \<Rightarrow> -1
     | Some array \<Rightarrow> let i = us_sortedIndex array item in
         if i < length array \<and> array ! i = item then int i else -1)"

definition us_indexOf :: "'a list option \<Rightarrow> 'a \<Rightarrow> int" where
  "us_indexOf obj item = (case obj of None \<Rightarrow> -1 | Some array \<Rightarrow> index_loop item array 0)"

text \<open>\<open>_.first(array)\<close>, \<open>_.first(array, n)\<close>, \<open>_.last(array)\<close>, \<open>_.last(array, n)\<close>.\<close>

definition us_first :: "'a list \<Rightarrow> 'a option" where
  "us_first array = (case array of [] \<Rightarrow> None | x # _ \<Rightarrow> Some x)"

definition us_first_n :: "'a list \<Rightarrow> int \<Rightarrow> 'a list" where
  "us_first_n array n = (if n < 0 then [] else take (nat n) array)"

definition us_last :: "'a list \<Rightarrow> 'a option" where
  "us_last array = (if array = [] then None else Some (array ! (length array - 1)))"

definition us_last_n :: "'a list \<Rightarrow> int \<Rightarrow> 'a list" where
  "us_last_n array n = drop (nat (max (int (length array) - n) 0)) array"

text \<open>\<open>_.flatten(array, true)\<close> of an array of arrays is their concatenation.\<close>

definition us_flatten_shallow :: "'a list list \<Rightarrow> 'a list" where
  "us_flatten_shallow input = foldl (\<lambda>output xs. output @ xs) [] input"

definition us_uniq :: "'a list \<Rightarrow> 'a list" where
  "us_uniq array = foldl (\<lambda>seen v. if us_contains (Some seen) v then seen else seen @ [v]) [] array"

definition us_union :: "'a list list \<Rightarrow> 'a list" where
  "us_union arrays = us_uniq (us_flatten_shallow arrays)"

text \<open>\<open>_.range(stop)\<close>: a loop that stores \<open>start\<close> and adds the step 1.\<close>

function range_fill :: "int \<Rightarrow> int \<Rightarrow> int \<Rightarrow> int list" where
  "range_fill idx len start =
     (if idx < len then start # range_fill (idx + 1) len (start + 1) else [])"
  by pat_completeness auto
termination
  by (relation "measure (\<lambda>(idx, len, start). nat (len - idx))") auto

declare range_fill.simps [simp del]

definition us_range :: "int \<Rightarrow> int list" where
  "us_range stop = range_fill 0 (max stop 0) 0"

section \<open>Object functions\<close>

text \<open>\<open>_.invert\<close>: for every key in enumeration order, \<open>result[obj[key]] = key\<close>.\<close>

definition us_invert :: "int obj \<Rightarrow> string obj" where
  "us_invert obj = foldl (\<lambda>result k. case obj_get obj k of
       Some v \<Rightarrow> obj_set (string_of_int v) k result | None \<Rightarrow> result) [] (obj_keys obj)"

text \<open>\<open>_.isEmpty\<close> of a string that may be \<open>null\<close>.\<close>

definition us_isEmpty :: "'a list option \<Rightarrow> bool" where
  "us_isEmpty obj = (case obj of None \<Rightarrow> True | Some xs \<Rightarrow> length xs = 0)"

section \<open>What the functions compute\<close>

lemma us_map_list [us_simps]: "us_map f (Some xs) = map f xs"
  by (simp add: us_map_def foldl_snoc_map)

lemma us_filter_list [us_simps]: "us_filter p (Some xs) = filter p xs"
  by (simp add: us_filter_def foldl_snoc_filter)

lemma us_reject_list [us_simps]: "us_reject p (Some xs) = filter (\<lambda>x. \<not> p x) xs"
  by (simp add: us_reject_def us_filter_list)

lemma us_null [us_simps]: "us_map f None = []" "us_filter p None = []" "us_reject p None = []"
  "us_sortBy c None = []"
  by (simp_all add: us_map_def us_filter_def us_reject_def us_sortBy_def)

lemma find_loop_find: "find_loop p xs = find p xs"
  by (induction xs) auto

lemma us_find_list [us_simps]: "us_find p (Some xs) = find p xs"
  by (simp add: us_find_def find_loop_find)

lemma index_loop_found: "0 \<le> i \<Longrightarrow> index_loop x xs i \<noteq> -1 \<longleftrightarrow> x \<in> set xs"
  by (induction x xs i rule: index_loop.induct) auto

lemma us_contains_list [us_simps]: "us_contains (Some xs) x \<longleftrightarrow> x \<in> set xs"
  by (simp add: us_contains_def index_loop_found)

lemma us_flatten_concat [us_simps]: "us_flatten_shallow xss = concat xss"
proof -
  have "foldl (\<lambda>output xs. output @ xs) ys xss = ys @ concat xss" for ys
    by (induction xss arbitrary: ys) auto
  then show ?thesis by (simp add: us_flatten_shallow_def)
qed

lemma us_last_list [us_simps]: "xs \<noteq> [] \<Longrightarrow> us_last xs = Some (last xs)" "us_last [] = None"
  by (simp_all add: us_last_def last_conv_nth)

lemma us_first_list [us_simps]: "us_first (x # xs) = Some x" "us_first [] = None"
  by (simp_all add: us_first_def)

lemma us_isEmpty_simps [us_simps]: "us_isEmpty (Some xs) \<longleftrightarrow> xs = []" "us_isEmpty None"
  by (simp_all add: us_isEmpty_def)

subsection \<open>sortBy is the stable sort\<close>

lemma insert_by_insort_key:
  assumes "\<forall>y \<in> set ys. entry_index x < entry_index y"
    and "\<forall>y \<in> set (x # ys). entry_criteria y = Some (g (entry_value y))"
  shows "insert_by compare_entries x ys = insort_key (\<lambda>e. g (entry_value e)) x ys"
  using assms
proof (induction ys)
  case (Cons y ys)
  have "compare_entries x y \<le> 0 \<longleftrightarrow> g (entry_value x) \<le> g (entry_value y)"
    using Cons.prems by (auto simp: compare_entries_def js_less_def Let_def)
  with Cons show ?case by simp
qed simp

lemma decorate_props:
  "\<forall>e \<in> set (decorate f i xs). i \<le> entry_index e \<and> entry_criteria e = f (entry_value e)"
  by (induction f i xs rule: decorate.induct) fastforce+

lemma decorate_values: "map entry_value (decorate f i xs) = xs"
  by (induction f i xs rule: decorate.induct) auto

lemma array_sort_decorate:
  "array_sort compare_entries (decorate (\<lambda>x. Some (g x)) i xs)
     = sort_key (\<lambda>e. g (entry_value e)) (decorate (\<lambda>x. Some (g x)) i xs)"
proof (induction xs arbitrary: i)
  case (Cons x xs)
  let ?d = "decorate (\<lambda>x. Some (g x)) (Suc i) xs"
  have later: "\<forall>e \<in> set ?d. Suc i \<le> entry_index e \<and> entry_criteria e = Some (g (entry_value e))"
    using decorate_props [of "\<lambda>x. Some (g x)" "Suc i" xs] by simp
  show ?case
    by (simp add: Cons.IH) (subst insert_by_insort_key, use later in \<open>auto simp: Suc_le_eq\<close>)
qed simp

theorem us_sortBy_sort_key [us_simps]: "us_sortBy (\<lambda>x. Some (g x)) (Some xs) = sort_key g xs"
proof -
  have "map entry_value (sort_key (\<lambda>e. g (entry_value e)) (decorate (\<lambda>x. Some (g x)) 0 xs))
      = sort_key g (map entry_value (decorate (\<lambda>x. Some (g x)) 0 xs))"
    by (rule sort_key_map)
  then show ?thesis
    by (simp add: us_sortBy_def array_sort_decorate decorate_values)
qed

lemma decorate_cong: "(\<And>x. x \<in> set xs \<Longrightarrow> f x = g x) \<Longrightarrow> decorate f i xs = decorate g i xs"
  by (induction xs arbitrary: i) simp_all

lemma us_sortBy_cong:
  assumes "\<And>x. x \<in> set xs \<Longrightarrow> f x = Some (g x)"
  shows "us_sortBy f (Some xs) = sort_key g xs"
proof -
  have "us_sortBy f (Some xs) = us_sortBy (\<lambda>x. Some (g x)) (Some xs)"
    using decorate_cong [of xs f "\<lambda>x. Some (g x)" 0] assms by (simp add: us_sortBy_def)
  then show ?thesis by (simp add: us_simps)
qed

text \<open>Sorting by a key that tells the elements apart forgets the order of the input.\<close>

lemma us_sortBy_perm:
  assumes "mset xs = mset ys" and "inj_on g (set xs)"
  shows "us_sortBy (\<lambda>x. Some (g x)) (Some xs) = us_sortBy (\<lambda>x. Some (g x)) (Some ys)"
proof -
  have "mset xs = mset (sort_key g ys)" using assms(1) by simp
  from sort_key_inj_key_eq [OF this assms(2)] show ?thesis by (simp add: us_simps)
qed

text \<open>Two entries that compare below each other have the same position, so the sorted arrangement
  of a decorated array is unique and any correct sorting algorithm computes it.\<close>

lemma compare_entries_antisym:
  "compare_entries a b \<le> 0 \<Longrightarrow> compare_entries b a \<le> 0 \<Longrightarrow> entry_index a = entry_index b"
  by (auto simp: compare_entries_def js_less_def Let_def split: if_splits option.splits)

lemma sorted_wrt_unique:
  assumes "mset xs = mset ys" "sorted_wrt R xs" "sorted_wrt R ys"
    and "\<And>a b. a \<in> set xs \<Longrightarrow> b \<in> set xs \<Longrightarrow> R a b \<Longrightarrow> R b a \<Longrightarrow> a = b"
  shows "xs = ys"
  using assms
proof (induction xs arbitrary: ys)
  case (Cons x xs)
  then obtain y ys' where ys: "ys = y # ys'" by (cases ys) auto
  have sets: "set (x # xs) = set ys" using Cons.prems(1) by (metis set_mset_mset)
  have "x = y"
  proof (rule ccontr)
    assume ne: "x \<noteq> y"
    then have y: "y \<in> set xs" and x: "x \<in> set ys'" using sets ys by auto
    from y have "R x y" using Cons.prems(2) by simp
    moreover from x have "R y x" using Cons.prems(3) ys by simp
    ultimately show False using Cons.prems(4) [of x y] y ne by simp
  qed
  then show ?case using Cons ys by simp
qed simp

lemma sorted_entries_unique:
  assumes "mset xs = mset ys" and "distinct (map entry_index xs)"
    and "sorted_wrt (\<lambda>a b. compare_entries a b \<le> 0) xs" "sorted_wrt (\<lambda>a b. compare_entries a b \<le> 0) ys"
  shows "xs = ys"
  using assms(1,3,4)
proof (rule sorted_wrt_unique)
  fix a b assume "a \<in> set xs" "b \<in> set xs" "compare_entries a b \<le> 0" "compare_entries b a \<le> 0"
  then show "a = b" using compare_entries_antisym assms(2) by (metis distinct_map inj_onD)
qed

text \<open>With any criterion, also an \<open>undefined\<close> one, the result is a permutation.\<close>

lemma insert_by_mset: "mset (insert_by cmp x ys) = add_mset x (mset ys)"
  by (induction ys) auto

lemma array_sort_mset: "mset (array_sort cmp xs) = mset xs"
  by (induction xs) (auto simp: insert_by_mset)

lemma us_sortBy_mset: "mset (us_sortBy f (Some xs)) = mset xs"
proof -
  have "mset (us_sortBy f (Some xs)) = image_mset entry_value (mset (decorate f 0 xs))"
    by (simp add: us_sortBy_def array_sort_mset)
  also have "\<dots> = mset xs" by (metis decorate_values mset_map)
  finally show ?thesis .
qed

subsection \<open>Grouping and indexing\<close>

text \<open>One step of \<open>_.groupBy\<close>.\<close>

lemma us_groupBy_fold:
  "us_groupBy f (Some xs) = foldl (\<lambda>result value.
     obj_set (f value) ((case obj_get result (f value) of Some vs \<Rightarrow> vs | None \<Rightarrow> []) @ [value]) result)
     [] xs"
proof -
  have "(\<lambda>result value. let key = f value in
      (case obj_get result key of Some vs \<Rightarrow> obj_set key (vs @ [value]) result
       | None \<Rightarrow> obj_set key [value] result))
    = (\<lambda>result value. obj_set (f value)
        ((case obj_get result (f value) of Some vs \<Rightarrow> vs | None \<Rightarrow> []) @ [value]) result)"
    by (intro ext) (simp add: Let_def split: option.split)
  then show ?thesis by (simp add: us_groupBy_def)
qed

lemma groupBy_fold_get:
  "obj_get (foldl (\<lambda>result value.
     obj_set (f value) ((case obj_get result (f value) of Some vs \<Rightarrow> vs | None \<Rightarrow> []) @ [value]) result)
     d xs) k
   = (case obj_get d k of
        Some vs \<Rightarrow> Some (vs @ filter (\<lambda>x. f x = k) xs)
      | None \<Rightarrow> if filter (\<lambda>x. f x = k) xs = [] then None else Some (filter (\<lambda>x. f x = k) xs))"
proof (induction xs arbitrary: d)
  case Nil
  then show ?case by (simp split: option.split)
next
  case (Cons x xs)
  show ?case
    by (simp only: foldl.simps Cons.IH) (simp add: obj_get_set split: option.split)
qed

lemma us_groupBy_get:
  "obj_get (us_groupBy f (Some xs)) k =
     (if k \<in> f ` set xs then Some (filter (\<lambda>x. f x = k) xs) else None)"
proof -
  have "filter (\<lambda>x. f x = k) xs = [] \<longleftrightarrow> k \<notin> f ` set xs"
    by (auto simp: filter_empty_conv)
  then show ?thesis
    by (simp add: us_groupBy_fold groupBy_fold_get obj_get_empty)
qed

lemma us_indexBy_get:
  "obj_get (us_indexBy f (Some xs)) k =
     (case filter (\<lambda>x. f x = k) xs of [] \<Rightarrow> None | _ \<Rightarrow> Some (last (filter (\<lambda>x. f x = k) xs)))"
proof -
  have "us_indexBy f (Some xs) = foldl (\<lambda>d x. obj_set (f x) x d) [] xs"
    by (simp add: us_indexBy_def)
  then show ?thesis
    using od.fold_insert_lookup [of f "\<lambda>x. x" "[]" xs k]
    by (simp add: obj_get_empty split: list.splits)
qed

subsection \<open>Binary search\<close>

text \<open>The two halves of the search invariant.\<close>

definition all_below :: "'a::linorder list \<Rightarrow> 'a \<Rightarrow> nat \<Rightarrow> bool" where
  "all_below xs v i \<longleftrightarrow> (\<forall>j < i. xs ! j < v)"

definition all_above :: "'a::linorder list \<Rightarrow> 'a \<Rightarrow> nat \<Rightarrow> bool" where
  "all_above xs v i \<longleftrightarrow> (\<forall>j. i \<le> j \<and> j < length xs \<longrightarrow> v \<le> xs ! j)"

lemma all_below_Suc:
  assumes "sorted xs" "i < length xs" "xs ! i < v"
  shows "all_below xs v (i + 1)"
  unfolding all_below_def
proof (intro allI impI)
  fix j assume "j < i + 1"
  then have "xs ! j \<le> xs ! i" using assms(1,2) by (simp add: sorted_nth_mono)
  with assms(3) show "xs ! j < v" by simp
qed

lemma all_above_here:
  assumes "sorted xs" "v \<le> xs ! i"
  shows "all_above xs v i"
  unfolding all_above_def
proof (intro allI impI)
  fix j assume "i \<le> j \<and> j < length xs"
  then have "xs ! i \<le> xs ! j" using assms(1) by (simp add: sorted_nth_mono)
  with assms(2) show "v \<le> xs ! j" by simp
qed

lemma sortedIndex_loop_spec:
  assumes "sorted xs" and "low \<le> high" and "high \<le> length xs"
    and "all_below xs v low" and "all_above xs v high"
  shows "let r = sortedIndex_loop xs v low high in
    low \<le> r \<and> r \<le> high \<and> all_below xs v r \<and> all_above xs v r"
  using assms
proof (induction xs v low high rule: sortedIndex_loop.induct)
  case (1 array v low high)
  let ?mid = "(low + high) div 2"
  note step = sortedIndex_loop.simps [of array v low high]
  consider "\<not> low < high" | "low < high" "array ! ?mid < v" | "low < high" "\<not> array ! ?mid < v" by blast
  then show ?case
  proof cases
    case 1
    then have "sortedIndex_loop array v low high = low" by (simp add: step)
    with 1 "1.prems" show ?thesis by (simp add: Let_def)
  next
    case 2
    then have mid: "low \<le> ?mid" "?mid + 1 \<le> high" "?mid < length array" using "1.prems"(3) by auto
    have "all_below array v (?mid + 1)" using all_below_Suc "1.prems"(1) mid(3) 2(2) .
    then show ?thesis
      using "1.IH"(1) [OF 2(1) refl 2(2) "1.prems"(1) mid(2) "1.prems"(3) _ "1.prems"(5)] 2 mid(1)
      by (simp add: step Let_def)
  next
    case 3
    then have mid: "low \<le> ?mid" "?mid \<le> length array" "?mid \<le> high" using "1.prems"(3) by auto
    have "all_above array v ?mid" using all_above_here "1.prems"(1) 3(2) by (simp add: not_less)
    then show ?thesis
      using "1.IH"(2) [OF 3(1) refl 3(2) "1.prems"(1) mid(1,2) "1.prems"(4)] 3 mid(3)
      by (simp add: step Let_def)
  qed
qed

lemma all_above_length: "all_above xs v (length xs)"
  by (auto simp: all_above_def)

lemma us_sortedIndex_spec:
  assumes "sorted xs"
  shows "us_sortedIndex xs v \<le> length xs" "all_below xs v (us_sortedIndex xs v)"
    "all_above xs v (us_sortedIndex xs v)"
  using sortedIndex_loop_spec [OF assms, of 0 "length xs" v] all_above_length [of xs v]
  by (simp_all add: us_sortedIndex_def Let_def all_below_def [of _ _ 0])

text \<open>On a sorted array the search finds an item exactly when it is there.\<close>

lemma us_indexOf_sorted_found:
  assumes "sorted xs"
  shows "us_indexOf_sorted (Some xs) v \<noteq> -1 \<longleftrightarrow> v \<in> set xs"
proof -
  let ?i = "us_sortedIndex xs v"
  have "?i < length xs \<and> xs ! ?i = v" if mem: "v \<in> set xs"
  proof -
    obtain j where j: "j < length xs" "xs ! j = v" using mem by (metis in_set_conv_nth)
    have le: "?i \<le> j"
      using us_sortedIndex_spec(2) [OF assms, of v] j(2) unfolding all_below_def by (meson less_irrefl not_le)
    with j(1) have lt: "?i < length xs" by simp
    have "xs ! ?i \<le> v" using sorted_nth_mono [OF assms le] j by simp
    moreover have "v \<le> xs ! ?i"
      using us_sortedIndex_spec(3) [OF assms, of v] lt unfolding all_above_def by blast
    ultimately show ?thesis using lt by simp
  qed
  moreover have "v \<in> set xs" if "?i < length xs" "xs ! ?i = v" using that nth_mem by metis
  ultimately show ?thesis by (auto simp: us_indexOf_sorted_def Let_def)
qed

lemma us_indexOf_sorted_nth:
  "us_indexOf_sorted (Some xs) v = i \<Longrightarrow> i \<noteq> -1 \<Longrightarrow> 0 \<le> i \<and> nat i < length xs \<and> xs ! nat i = v"
  by (auto simp: us_indexOf_sorted_def Let_def split: if_splits)

subsection \<open>Duplicates, ranges, inversion\<close>

lemma us_uniq_fold:
  "set (foldl (\<lambda>seen v. if us_contains (Some seen) v then seen else seen @ [v]) ys xs)
     = set ys \<union> set xs"
  "distinct ys \<Longrightarrow>
     distinct (foldl (\<lambda>seen v. if us_contains (Some seen) v then seen else seen @ [v]) ys xs)"
  by (induction xs arbitrary: ys) (auto simp: us_contains_list)

lemma us_uniq_set [us_simps]: "set (us_uniq xs) = set xs" "distinct (us_uniq xs)"
  using us_uniq_fold [where ys = "[]"] by (simp_all add: us_uniq_def)

lemma us_uniq_fold_distinct:
  "distinct (ys @ xs) \<Longrightarrow>
   foldl (\<lambda>seen v. if us_contains (Some seen) v then seen else seen @ [v]) ys xs = ys @ xs"
  by (induction xs arbitrary: ys) (auto simp: us_contains_list)

lemma us_uniq_distinct: "distinct xs \<Longrightarrow> us_uniq xs = xs"
  using us_uniq_fold_distinct [of "[]" xs] by (simp add: us_uniq_def)

lemma range_fill_upto: "range_fill idx len start = [start .. start + (len - idx) - 1]"
proof (induction idx len start rule: range_fill.induct)
  case (1 idx len start)
  show ?case
  proof (cases "idx < len")
    case True
    with 1 have "range_fill idx len start = start # [start + 1 .. start + (len - idx) - 1]"
      by (simp add: range_fill.simps [of idx])
    also have "\<dots> = [start .. start + (len - idx) - 1]"
      using True by (simp add: upto_rec1)
    finally show ?thesis .
  qed (simp add: range_fill.simps [of idx])
qed

lemma us_range_upto [us_simps]: "us_range n = [0 .. n - 1]"
  by (cases "0 \<le> n") (auto simp: us_range_def range_fill_upto)

text \<open>Inverting an enumeration whose values are distinct swaps keys and values.\<close>

lemma us_invert_fold:
  "us_invert d = foldl (\<lambda>result k. obj_set (string_of_int (the (obj_get d k))) k result) [] (obj_keys d)"
proof -
  have "foldl (\<lambda>result k. case obj_get d k of Some v \<Rightarrow> obj_set (string_of_int v) k result | None \<Rightarrow> result) r ks
     = foldl (\<lambda>result k. obj_set (string_of_int (the (obj_get d k))) k result) r ks"
    if "\<forall>k \<in> set ks. obj_get d k \<noteq> None" for r ks
    using that by (induction ks arbitrary: r) auto
  then show ?thesis by (simp add: us_invert_def obj_keys_set)
qed

lemma us_invert_get:
  assumes "inj_on (obj_get d) {k. obj_get d k \<noteq> None}" and "obj_get d k = Some v"
  shows "obj_get (us_invert d) (string_of_int v) = Some k"
proof -
  let ?f = "\<lambda>k. string_of_int (the (obj_get d k))"
  have only: "\<forall>j \<in> set (filter (\<lambda>k. ?f k = string_of_int v) (obj_keys d)). j = k"
    using assms by (auto simp: obj_keys_set inj_on_def)
  have "k \<in> set (filter (\<lambda>k. ?f k = string_of_int v) (obj_keys d))"
    using assms(2) by (simp add: obj_keys_set)
  then have "filter (\<lambda>k. ?f k = string_of_int v) (obj_keys d) \<noteq> []" by (metis empty_iff list.set(1))
  then have "last (filter (\<lambda>k. ?f k = string_of_int v) (obj_keys d)) = k"
    using only last_in_set by blast
  then show ?thesis
    using \<open>filter _ _ \<noteq> []\<close> od.fold_insert_lookup [of ?f "\<lambda>k. k" "[]" "obj_keys d" "string_of_int v"]
    unfolding us_invert_fold by (cases "filter (\<lambda>k. ?f k = string_of_int v) (obj_keys d)") simp_all
qed

end
