(* ===== verification/Moment.thy ===== *)
theory Moment
  imports JSNumber
begin

text \<open>
  The part of \<open>momentjs/moment.js\<close> the filter \<open>toElapsedTime\<close> reaches: \<open>duration(ms).humanize()\<close>
  with the English texts.  The chain of roundings (milliseconds to seconds, minutes, hours, days,
  years) is computed on binary64 numbers as in the source; \<open>round_quotient\<close> shows that it is exact.
\<close>

section \<open>The English texts of relative times\<close>

datatype time_unit = S | M1 | MM | H1 | HH | D1 | DD | Mo1 | MoMo | Y1 | YY

text \<open>\<open>relativeTime\<close> of the language object: the text of the unit with its \<open>%d\<close> replaced.\<close>

fun unit_text :: "time_unit \<Rightarrow> string" where
  "unit_text S = ''a few seconds''"
| "unit_text M1 = ''a minute''"
| "unit_text MM = ''%d minutes''"
| "unit_text H1 = ''an hour''"
| "unit_text HH = ''%d hours''"
| "unit_text D1 = ''a day''"
| "unit_text DD = ''%d days''"
| "unit_text Mo1 = ''a month''"
| "unit_text MoMo = ''%d months''"
| "unit_text Y1 = ''a year''"
| "unit_text YY = ''%d years''"

definition lang_relativeTime :: "num \<Rightarrow> time_unit \<Rightarrow> string" where
  "lang_relativeTime number u = replace_first ''%d'' (num_to_string number) (unit_text u)"

section \<open>Duration\<close>

text \<open>
  \<open>moment.duration(ms)\<close> of a number keeps it as its milliseconds, with no days and no months, so
  that \<open>valueOf\<close> gives it back.
\<close>

record duration =
  d_milliseconds :: num
  d_days :: num
  d_months :: num

definition moment_duration :: "num \<Rightarrow> duration" where
  "moment_duration ms = \<lparr>d_milliseconds = ms, d_days = Fin 0, d_months = Fin 0\<rparr>"

definition num_of_int :: "int \<Rightarrow> num" where
  "num_of_int i = Fin (of_int i)"

text \<open>\<open>% 12\<close> and \<open>toInt\<close> are only reached with the number of months, which is 0 here.\<close>

definition duration_valueOf :: "duration \<Rightarrow> num" where
  "duration_valueOf d = js_add (js_add (d_milliseconds d) (js_mul (d_days d) (num_of_int 86400000)))
     (js_mul (d_months d) (num_of_int 2592000000))"

text \<open>\<open>relativeTime(milliseconds, ...)\<close>: the unit and the number to show.\<close>

definition lt :: "num \<Rightarrow> int \<Rightarrow> bool" where
  "lt x n = (x \<noteq> NaN \<and> \<not> js_ge x (num_of_int n))"

definition le :: "num \<Rightarrow> int \<Rightarrow> bool" where
  "le x n = js_ge (num_of_int n) x"

definition is_one :: "num \<Rightarrow> bool" where
  "is_one x = js_eq x (num_of_int 1)"

definition round_div :: "num \<Rightarrow> int \<Rightarrow> num" where
  "round_div x n = js_round (js_div x (num_of_int n))"

definition relativeTime_args :: "num \<Rightarrow> time_unit \<times> num option" where
  "relativeTime_args milliseconds =
     (let seconds = round_div (js_abs milliseconds) 1000;
          minutes = round_div seconds 60;
          hours = round_div minutes 60;
          days = round_div hours 24;
          years = round_div days 365
      in if lt seconds 45 then (S, Some seconds)
         else if is_one minutes then (M1, None)
         else if lt minutes 45 then (MM, Some minutes)
         else if is_one hours then (H1, None)
         else if lt hours 22 then (HH, Some hours)
         else if is_one days then (D1, None)
         else if le days 25 then (DD, Some days)
         else if le days 45 then (Mo1, None)
         else if lt days 345 then (MoMo, Some (round_div days 30))
         else if is_one years then (Y1, None)
         else (YY, Some years))"

text \<open>\<open>number || 1\<close>\<close>

definition or_one :: "num option \<Rightarrow> num" where
  "or_one n = (case n of None \<Rightarrow> Fin 1 | Some x \<Rightarrow> if x = NaN \<or> is_zero x then Fin 1 else x)"

definition relativeTime :: "num \<Rightarrow> string" where
  "relativeTime milliseconds = (let (u, n) = relativeTime_args milliseconds in lang_relativeTime (or_one n) u)"

definition humanize :: "duration \<Rightarrow> string" where
  "humanize d = relativeTime (duration_valueOf d)"

section \<open>Rounded quotients are exact\<close>

lemma round_half_even_err: "\<bar>of_int (round_half_even x) - x\<bar> \<le> 1 / 2"
proof -
  have "of_int \<lfloor>x\<rfloor> \<le> x" "x < of_int \<lfloor>x\<rfloor> + 1" by linarith+
  then show ?thesis by (auto simp: round_half_even_def Let_def abs_le_iff field_simps)
qed

lemma fl_err:
  assumes "0 < q" and "q < of_int (2 ^ 53)"
  shows "\<exists>y. fl q = Fin y \<and> 0 \<le> y \<and> \<bar>y - q\<bar> \<le> pow2 (scale q) / 2"
proof -
  let ?e = "scale q" and ?m = "round_half_even (q / pow2 (scale q))"
  have "\<lceil>q\<rceil> \<le> 2 ^ 53 - 1 \<or> \<lceil>q\<rceil> = 2 ^ 53" using assms(2) by linarith
  have err: "\<bar>of_int ?m * pow2 ?e - q\<bar> \<le> pow2 ?e / 2"
  proof -
    have "\<bar>of_int ?m - q / pow2 ?e\<bar> * pow2 ?e \<le> 1 / 2 * pow2 ?e"
      by (intro mult_right_mono round_half_even_err) (simp add: less_imp_le)
    also have "\<bar>of_int ?m - q / pow2 ?e\<bar> * pow2 ?e = \<bar>(of_int ?m - q / pow2 ?e) * pow2 ?e\<bar>"
      unfolding abs_mult abs_of_pos [OF pow2_pos] ..
    also have "(of_int ?m - q / pow2 ?e) * pow2 ?e = of_int ?m * pow2 ?e - q"
      using less_imp_neq [OF pow2_pos [of ?e]] by (simp add: left_diff_distrib)
    finally show ?thesis by simp
  qed
  have "0 \<le> q / pow2 ?e" using assms(1) pow2_pos [of ?e] by (simp add: less_imp_le)
  then have ge: "0 \<le> of_int ?m * pow2 ?e"
    using round_half_even_ge [of 0 "q / pow2 ?e"] by (simp add: less_imp_le)
  have e: "?e \<le> 0" using assms by (intro scale_le_0) auto
  then have "pow2 ?e \<le> 1" using pow2_mono [of ?e 0] by (simp add: pow2_def)
  then have "of_int ?m * pow2 ?e \<le> of_int (2 ^ 53) + 1" using err assms(2) by linarith
  also have "\<dots> < pow2 54" by (simp add: pow2_def)
  also have "\<dots> < pow2 1024" by (rule pow2_strict) simp
  finally show ?thesis
    using assms(1) ge err by (auto simp: fl_def_scale Let_def zero_def)
qed

lemma scale_bound:
  assumes "0 < q" and "pow2 (-1000) \<le> q"
  shows "pow2 (scale q) * of_int (2 ^ 52) \<le> q"
proof -
  have "-1000 \<le> expo q" using assms by (intro expo_ge)
  then have s: "scale q = expo q - 52" using assms(1) by (simp add: scale_def)
  have "pow2 (scale q) * pow2 52 = pow2 (expo q)" unfolding s by (simp flip: pow2_add)
  then show ?thesis using expo_bounds(1) [OF assms(1)] by (simp add: pow2_def)
qed

lemma js_round_nonneg: "0 \<le> y \<Longrightarrow> js_round (Fin y) = Fin (of_int \<lfloor>y + 1 / 2\<rfloor>)"
  by simp

definition rdiv :: "int \<Rightarrow> int \<Rightarrow> int" where
  "rdiv a b = (2 * a + b) div (2 * b)"

lemma rdiv_floor: "0 < b \<Longrightarrow> rdiv a b = \<lfloor>(of_int a :: rat) / of_int b + 1 / 2\<rfloor>"
proof -
  assume b: "0 < b"
  then have "(of_int a :: rat) / of_int b + 1 / 2 = of_int (2 * a + b) / of_int (2 * b)"
    by (simp add: field_simps)
  then show ?thesis by (simp only: rdiv_def floor_divide_of_int_eq)
qed

text \<open>The rounded quotient, multiplied out, is less than one off.\<close>

lemma quotient_range:
  assumes "0 < a" "a < 2 ^ 52" "0 < b" "b < 2 ^ 52"
  shows "0 < (of_int a / of_int b :: rat)" "(of_int a / of_int b :: rat) < of_int (2 ^ 53)" "pow2 (-1000) \<le> of_int a / of_int b"
proof -
  have b1: "(1::rat) \<le> of_int b" "(0::rat) < of_int b" using assms(3) by simp_all
  have ab: "(of_int a :: rat) < of_int (2 ^ 52)" "(of_int b :: rat) < of_int (2 ^ 52)"
    using assms(2,4) by (simp_all only: of_int_less_iff)
  show "0 < (of_int a / of_int b :: rat)" using assms by simp
  have "(of_int a / of_int b :: rat) \<le> of_int a" using b1 assms(1) by (simp add: divide_le_eq mult_le_cancel_left1)
  then show "(of_int a / of_int b :: rat) < of_int (2 ^ 53)" using ab(1) by simp
  have "pow2 (-1000) \<le> pow2 (-52)" by (rule pow2_mono) simp
  also have "\<dots> = 1 / of_int (2 ^ 52)" by (simp add: pow2_def)
  also have "\<dots> \<le> 1 / of_int b" using ab(2) b1 by (intro divide_left_mono) simp_all
  also have "\<dots> \<le> of_int a / of_int b" using assms(1) b1 by (simp add: divide_right_mono)
  finally show "pow2 (-1000) \<le> of_int a / of_int b" .
qed

lemma quotient_error:
  assumes "0 < a" "a < 2 ^ 52" "0 < b" "b < 2 ^ 52"
  obtains y where "fl (of_int a / of_int b) = Fin y" "0 \<le> y"
    "of_int (2 * a) - 1 < y * of_int (2 * b)" "y * of_int (2 * b) < of_int (2 * a) + 1"
proof -
  define q where "q = (of_int a :: rat) / of_int b"
  have b1: "(0::rat) < of_int b" using assms(3) by simp
  note q = quotient_range [OF assms, folded q_def]
  obtain y where y: "fl q = Fin y" "0 \<le> y" "\<bar>y - q\<bar> \<le> pow2 (scale q) / 2"
    using fl_err [OF q(1,2)] by blast
  have "pow2 (scale q) * of_int (2 ^ 52) * of_int b \<le> q * of_int b"
    using scale_bound [OF q(1,3)] b1 by (intro mult_right_mono) simp_all
  also have "\<dots> = of_int a" using b1 by (simp add: q_def)
  finally have "pow2 (scale q) * of_int b * of_int (2 ^ 52) \<le> of_int a" by (simp add: ac_simps)
  moreover have "(of_int a :: rat) < of_int (2 ^ 52)" using assms(2) by (simp only: of_int_less_iff)
  ultimately have "pow2 (scale q) * of_int b < 1" by simp
  moreover have "\<bar>y - q\<bar> * of_int (2 * b) \<le> pow2 (scale q) * of_int b"
    using y(3) b1 mult_right_mono [OF y(3), of "of_int (2 * b)"] by simp
  moreover have "\<bar>(y - q) * of_int (2 * b)\<bar> = \<bar>y - q\<bar> * of_int (2 * b)" using b1 by (simp add: abs_mult)
  ultimately have "\<bar>(y - q) * of_int (2 * b)\<bar> < 1" by linarith
  moreover have "(y - q) * of_int (2 * b) = y * of_int (2 * b) - of_int (2 * a)"
    using b1 by (simp add: q_def field_simps)
  ultimately have "of_int (2 * a) - 1 < y * of_int (2 * b)" "y * of_int (2 * b) < of_int (2 * a) + 1" by linarith+
  then show thesis using that y(1,2) by (simp add: q_def)
qed

text \<open>A quotient half way between two integers is not rounded at all.\<close>

lemma quotient_half_exact:
  assumes "0 < a" "a < 2 ^ 52" "0 < b" "(2 * k - 1) * b = 2 * a"
  shows "fl (of_int a / of_int b) = Fin (of_int a / of_int b)"
proof -
  have b1: "(0::rat) < of_int b" using assms(3) by simp
  have "(of_int a / of_int b :: rat) * of_int 2 = of_int (2 * k - 1)"
    using assms(4) b1 by (simp add: field_simps flip: of_int_mult of_int_diff)
  then have q: "(of_int a / of_int b :: rat) = of_int (2 * k - 1) / 2 ^ 1" by (simp add: field_simps)
  have "0 \<le> 2 * k - 1" using assms(1,3,4) by (metis mult_neg_pos mult_nonneg_nonneg not_le zero_le_numeral less_imp_le)
  moreover from this have "(2 * k - 1) * 1 \<le> (2 * k - 1) * b" using assms(3) by (intro mult_left_mono) simp_all
  ultimately have "\<bar>2 * k - 1\<bar> < 2 ^ 53" using assms(2,4) by simp
  then show ?thesis unfolding q by (rule fl_dyadic) simp
qed

theorem round_quotient:
  assumes "0 \<le> a" "a < 2 ^ 52" "0 < b" "b < 2 ^ 52"
  shows "round_div (num_of_int a) b = num_of_int (rdiv a b)"
proof (cases "a = 0")
  case True
  then show ?thesis using assms by (simp add: round_div_def num_of_int_def rdiv_def is_zero_def is_neg_def zero_def
        floor_eq_iff)
next
  case False
  then have a: "0 < a" using assms(1) by simp
  have b1: "(0::rat) < of_int b" using assms(3) by simp
  let ?k = "rdiv a b"
  obtain y where y: "fl (of_int a / of_int b) = Fin y" "0 \<le> y"
    "of_int (2 * a) - 1 < y * of_int (2 * b)" "y * of_int (2 * b) < of_int (2 * a) + 1"
    by (rule quotient_error [OF a assms(2-4)])
  have k: "?k * (2 * b) \<le> 2 * a + b" "2 * a + b < (?k + 1) * (2 * b)"
    using mult_div_mod_eq [of "2 * b" "2 * a + b"] pos_mod_sign [of "2 * b" "2 * a + b"]
      pos_mod_bound [of "2 * b" "2 * a + b"] assms(3)
    by (simp_all only: rdiv_def distrib_left mult.commute [of _ "2 * b"]) linarith+
  have lo: "of_int ((2 * ?k - 1) * b) \<le> y * of_int (2 * b)"
  proof (cases "(2 * ?k - 1) * b = 2 * a")
    case True
    then have "y = of_int a / of_int b" using quotient_half_exact [OF a assms(2,3) True] y(1) by simp
    then show ?thesis using True b1 by simp
  next
    case False
    then have "(2 * ?k - 1) * b + 1 \<le> 2 * a" using k(1) by (simp add: algebra_simps)
    then have "of_int ((2 * ?k - 1) * b) + 1 \<le> (of_int (2 * a) :: rat)" by (metis of_int_1 of_int_add of_int_le_iff)
    then show ?thesis using y(3) by linarith
  qed
  have "2 * a + 1 \<le> (2 * ?k + 1) * b" using k(2) by (simp add: algebra_simps)
  then have "of_int (2 * a) + 1 \<le> (of_int ((2 * ?k + 1) * b) :: rat)" by (metis of_int_1 of_int_add of_int_le_iff)
  then have hi: "y * of_int (2 * b) < of_int ((2 * ?k + 1) * b)" using y(4) by linarith
  have "of_int (2 * ?k - 1) \<le> y * 2" "y * 2 < of_int (2 * ?k + 1)"
    using lo hi b1 by (simp_all add: mult.assoc [symmetric] mult_le_cancel_right mult_less_cancel_right)
  then have "\<lfloor>y + 1 / 2\<rfloor> = ?k" by (simp add: floor_eq_iff)
  then show ?thesis
    using a quotient_range(1) [OF a assms(2-4)] y(1,2) b1 by (simp add: round_div_def num_of_int_def is_zero_def)
qed

section \<open>What is shown\<close>

lemma rdiv_bounds: "0 < b \<Longrightarrow> 2 * a - b < 2 * b * rdiv a b \<and> 2 * b * rdiv a b \<le> 2 * a + b"
proof -
  assume b: "0 < b"
  have "2 * b * rdiv a b = 2 * a + b - (2 * a + b) mod (2 * b)"
    using mult_div_mod_eq [of "2 * b" "2 * a + b"] unfolding rdiv_def by linarith
  then show ?thesis
    using pos_mod_sign [of "2 * b" "2 * a + b"] pos_mod_bound [of "2 * b" "2 * a + b"] b by linarith
qed

lemma num_cmp [simp]:
  "lt (num_of_int a) n \<longleftrightarrow> a < n" "le (num_of_int a) n \<longleftrightarrow> a \<le> n" "is_one (num_of_int a) \<longleftrightarrow> a = 1"
  by (auto simp: lt_def le_def is_one_def num_of_int_def js_eq_def is_zero_def)

definition int_args :: "int \<Rightarrow> time_unit \<times> int option" where
  "int_args ms =
     (let seconds = rdiv \<bar>ms\<bar> 1000; minutes = rdiv seconds 60; hours = rdiv minutes 60;
          days = rdiv hours 24; years = rdiv days 365
      in if seconds < 45 then (S, Some seconds) else if minutes = 1 then (M1, None)
         else if minutes < 45 then (MM, Some minutes) else if hours = 1 then (H1, None)
         else if hours < 22 then (HH, Some hours) else if days = 1 then (D1, None)
         else if days \<le> 25 then (DD, Some days) else if days \<le> 45 then (Mo1, None)
         else if days < 345 then (MoMo, Some (rdiv days 30)) else if years = 1 then (Y1, None)
         else (YY, Some years))"

lemma rdiv_range: "0 \<le> a \<Longrightarrow> a < 2 ^ 52 \<Longrightarrow> 20 \<le> b \<Longrightarrow> 0 \<le> rdiv a b \<and> rdiv a b < 2 ^ 52"
proof -
  assume a: "0 \<le> a" "a < 2 ^ 52" and b: "20 \<le> b"
  have "0 \<le> rdiv a b" unfolding rdiv_def using a b by (intro div_int_pos_iff [THEN iffD2]) auto
  moreover have "2 * rdiv a b * 1 \<le> 2 * rdiv a b * b" using calculation b by (intro mult_left_mono) auto
  moreover have "rdiv a b \<le> a"
  proof (cases "rdiv a b = 0")
    case False
    then have "b * 1 \<le> b * rdiv a b" using calculation(1) b by (intro mult_left_mono) auto
    moreover have "20 * rdiv a b \<le> b * rdiv a b" using \<open>0 \<le> rdiv a b\<close> b by (intro mult_right_mono) auto
    ultimately show ?thesis using rdiv_bounds [of b a] b unfolding mult.assoc by linarith
  qed (use a in simp)
  ultimately show ?thesis using a by linarith
qed

lemma relativeTime_args_int:
  assumes "\<bar>ms\<bar> < 2 ^ 52"
  shows "relativeTime_args (num_of_int ms) = map_prod id (map_option num_of_int) (int_args ms)"
proof -
  let ?s = "rdiv \<bar>ms\<bar> 1000"
  have s: "0 \<le> ?s \<and> ?s < 2 ^ 52" using rdiv_range [of "\<bar>ms\<bar>" 1000] assms by simp
  have m: "0 \<le> rdiv ?s 60 \<and> rdiv ?s 60 < 2 ^ 52" using s by (intro rdiv_range) auto
  have h: "0 \<le> rdiv (rdiv ?s 60) 60 \<and> rdiv (rdiv ?s 60) 60 < 2 ^ 52" using m by (intro rdiv_range) auto
  have d: "0 \<le> rdiv (rdiv (rdiv ?s 60) 60) 24 \<and> rdiv (rdiv (rdiv ?s 60) 60) 24 < 2 ^ 52"
    using h by (intro rdiv_range) auto
  have abs: "js_abs (num_of_int ms) = num_of_int \<bar>ms\<bar>" by (simp add: num_of_int_def)
  show ?thesis
    unfolding relativeTime_args_def int_args_def Let_def abs
    using assms s m h d by (simp add: round_quotient)
qed

lemma duration_value: "\<bar>ms\<bar> < 2 ^ 52 \<Longrightarrow> duration_valueOf (moment_duration (num_of_int ms)) = num_of_int ms"
  using fl_int [of ms] by (simp add: duration_valueOf_def moment_duration_def num_of_int_def is_zero_def is_neg_def zero_def)

end
