(* ===== verification/Filters.thy ===== *)
theory Filters
  imports Api Underscore Moment
begin

text \<open>
  The display filters of \<open>filters.js\<close>.  The clock is the argument \<open>now\<close>.  The filters that print a
  date are in \<open>Dates\<close>.
\<close>

section \<open>The filters\<close>

definition STATES :: "string obj" where
  "STATES =
     [(''PENDING'', ''The scheduler is searching for a machine that satisfies the resources and '' @
        ''constraints for this task.''),
      (''THROTTLED'', ''The task will be rescheduled, but is being throttled for restarting too '' @
        ''frequently.''),
      (''ASSIGNED'', ''The scheduler has selected a machine to run the task and is instructing the '' @
        ''slave to launch it.''),
      (''STARTING'', ''The executor is preparing to launch the task.''),
      (''RUNNING'', ''The user process(es) are running.''),
      (''FAILED'', ''The task ran, but did not exit indicating success.''),
      (''FINISHED'', ''The task ran and exited successfully.''),
      (''KILLED'', ''A user or cron invocation terminated the task.''),
      (''PREEMPTING'', ''This task is being killed to make resources available for a production task.''),
      (''KILLING'', ''A user request or cron invocation has requested the task be killed.''),
      (''LOST'', ''The task cannot be accounted for, usually a result of slave process or machine '' @
        ''failure.''),
      (''DRAINING'', ''The task is being restarted since the host is undergoing scheduled maintenance.'')]"

definition scheduleStatusTooltip :: "string \<Rightarrow> string" where
  "scheduleStatusTooltip value = (case obj_get STATES value of Some t \<Rightarrow> t | None \<Rightarrow> value)"

definition STATUS_MAP :: "string obj" where
  "STATUS_MAP = [(''ROLLED_FORWARD'', ''SUCCESS''), (''ROLLING_FORWARD'', ''IN PROGRESS''),
     (''ROLLING_BACK'', ''ROLLING BACK''), (''ROLL_BACK_PAUSED'', ''ROLL BACK PAUSED''),
     (''ROLL_FORWARD_PAUSED'', ''PAUSED''), (''ROLLED_BACK'', ''ROLLED BACK'')]"

definition updateStatusLookup :: "string obj" where
  "updateStatusLookup = us_invert JobUpdateStatus"

definition toNiceStatus :: "int \<Rightarrow> string" where
  "toNiceStatus status =
     (let name = (case obj_get updateStatusLookup (string_of_int status) of Some s \<Rightarrow> s | None \<Rightarrow> ''UNKNOWN'') in
      case obj_get STATUS_MAP name of Some s \<Rightarrow> s | None \<Rightarrow> name)"

definition toNiceAction :: "int \<Rightarrow> string" where
  "toNiceAction action =
     (let name = (case obj_get (us_invert JobUpdateAction) (string_of_int action) of
          Some s \<Rightarrow> s | None \<Rightarrow> ''UNKNOWN'') in
      replace_all (CHR ''_'') '' '' (replace_first ''INSTANCE_'' '''' name))"

definition toNiceRanges :: "id_range list \<Rightarrow> string" where
  "toNiceRanges ranges =
     join '', '' (map (\<lambda>range. string_of_int (r_first range) @ ''-'' @ string_of_int (r_last range)) ranges)"

definition SCALE :: "string list" where
  "SCALE = [''MiB'', ''GiB'', ''TiB'', ''PiB'', ''EiB'']"

function scaleMb_loop :: "num \<Rightarrow> nat \<Rightarrow> num \<times> nat" where
  "scaleMb_loop sz unit =
     (if js_ge sz (Fin 1024) \<and> unit < length SCALE
      then scaleMb_loop (js_div sz (Fin 1024)) (unit + 1) else (sz, unit))"
  by pat_completeness auto
termination by (relation "measure (\<lambda>(sz, unit). length SCALE - unit)") auto

declare scaleMb_loop.simps [simp del]

text \<open>Concatenating an element out of range prints \<open>undefined\<close>.\<close>

definition scaleMb :: "num \<Rightarrow> string" where
  "scaleMb sizeInMb = (let (sz, unit) = scaleMb_loop sizeInMb 0 in
     to_fixed2 sz @ '' '' @ (if unit < length SCALE then SCALE ! unit else ''undefined''))"

definition toCores :: "num \<Rightarrow> string" where
  "toCores cores = num_to_string cores @ '' cores''"

definition toElapsedTime :: "int \<Rightarrow> int \<Rightarrow> string" where
  "toElapsedTime now timestamp = humanize (moment_duration (js_sub (num_of_int now) (num_of_int timestamp)))"

section \<open>Looking up a number in an inverted enumeration\<close>

definition by_number :: "int obj \<Rightarrow> string obj" where
  "by_number d = map (\<lambda>(name, v). (string_of_int v, name)) d"

lemma by_number_get: "obj_get (by_number d) (string_of_int s) = map_option fst (find (\<lambda>p. snd p = s) d)"
  by (induction d) (auto simp: by_number_def obj_get_def)

lemma updateStatusLookup_eq: "updateStatusLookup = by_number JobUpdateStatus"
  by code_simp

lemma actionLookup_eq: "us_invert JobUpdateAction = by_number JobUpdateAction"
  by code_simp

lemma toNiceStatus_cases:
  "toNiceStatus s =
     (if s = 0 then ''IN PROGRESS'' else if s = 1 then ''ROLLING BACK'' else if s = 2 then ''PAUSED''
      else if s = 3 then ''ROLL BACK PAUSED'' else if s = 4 then ''SUCCESS'' else if s = 5 then ''ROLLED BACK''
      else if s = 6 then ''ABORTED'' else if s = 7 then ''ERROR'' else if s = 8 then ''FAILED''
      else if s = 9 then ''ROLL_FORWARD_AWAITING_PULSE'' else if s = 10 then ''ROLL_BACK_AWAITING_PULSE''
      else ''UNKNOWN'')"
  unfolding toNiceStatus_def updateStatusLookup_eq by_number_get
  by (simp add: JobUpdateStatus_def STATUS_MAP_def obj_get_def)

lemma toNiceAction_cases:
  "toNiceAction a =
     (if a = 1 then ''UPDATED'' else if a = 2 then ''ROLLED BACK'' else if a = 3 then ''UPDATING''
      else if a = 4 then ''ROLLING BACK'' else if a = 5 then ''UPDATE FAILED''
      else if a = 6 then ''ROLLBACK FAILED'' else ''UNKNOWN'')"
  unfolding toNiceAction_def actionLookup_eq by_number_get
  by (simp add: JobUpdateAction_def replace_all_def)

section \<open>The scaling loop\<close>

lemma scale_step:
  assumes "0 \<le> n" "n < 2 ^ 53" "k \<le> 5"
  shows "js_ge (Fin (of_int n / 1024 ^ k)) (Fin 1024) \<longleftrightarrow> 1024 ^ (k + 1) \<le> n"
    and "1024 ^ (k + 1) \<le> n \<Longrightarrow>
      js_div (Fin (of_int n / 1024 ^ k)) (Fin 1024) = Fin (of_int n / 1024 ^ (k + 1))"
proof -
  have "(1024 \<le> (of_int n :: rat) / 1024 ^ k) \<longleftrightarrow> (of_int (1024 ^ (k + 1)) :: rat) \<le> of_int n"
    by (simp add: field_simps)
  then show "js_ge (Fin (of_int n / 1024 ^ k)) (Fin 1024) \<longleftrightarrow> 1024 ^ (k + 1) \<le> n"
    by (simp only: js_ge.simps val.simps of_int_le_iff)
  assume big: "1024 ^ (k + 1) \<le> n"
  have "(1024::rat) ^ (k + 1) = (2 ^ 10) ^ (k + 1)" by simp
  also have "\<dots> = 2 ^ (10 * (k + 1))" by (rule power_mult [symmetric])
  finally have p: "(1024::rat) ^ (k + 1) = 2 ^ (10 * (k + 1))" .
  have "fl (of_int n / 1024 ^ (k + 1)) = Fin (of_int n / 1024 ^ (k + 1))"
    unfolding p using assms by (intro fl_dyadic) auto
  moreover have "n \<noteq> 0" using big by (metis not_le zero_less_numeral zero_less_power)
  ultimately show "js_div (Fin (of_int n / 1024 ^ k)) (Fin 1024) = Fin (of_int n / 1024 ^ (k + 1))"
    by (simp add: is_zero_def field_simps)
qed

text \<open>The unit the loop stops at.\<close>

fun unit_from :: "nat \<Rightarrow> int \<Rightarrow> nat \<Rightarrow> nat" where
  "unit_from 0 n k = k"
| "unit_from (Suc f) n k = (if 1024 ^ (k + 1) \<le> n then unit_from f n (k + 1) else k)"

lemma scaleMb_loop_unit:
  assumes "0 \<le> n" "n < 2 ^ 53" "k + f = 5"
  shows "scaleMb_loop (Fin (of_int n / 1024 ^ k)) k = (Fin (of_int n / 1024 ^ unit_from f n k), unit_from f n k)"
  using assms(3)
proof (induction f arbitrary: k)
  case 0
  then show ?case by (subst scaleMb_loop.simps) (simp add: SCALE_def)
next
  case (Suc f)
  then have k: "k \<le> 5" "k < length SCALE" by (simp_all add: SCALE_def)
  show ?case
    using Suc k by (subst scaleMb_loop.simps) (simp add: scale_step [OF assms(1,2) k(1)] del: js_ge.simps js_div.simps power_Suc)
qed

lemma unit_from_spec:
  assumes "k = 0 \<or> 1024 ^ k \<le> n"
  shows "let u = unit_from f n k in k \<le> u \<and> u \<le> k + f \<and> (u = 0 \<or> 1024 ^ u \<le> n) \<and> (u = k + f \<or> n < 1024 ^ (u + 1))"
  using assms
proof (induction f arbitrary: k)
  case (Suc f)
  show ?case
  proof (cases "1024 ^ (k + 1) \<le> n")
    case True
    then show ?thesis using Suc.IH [of "k + 1"] by (auto simp add: Let_def simp del: power_Suc)
  next
    case False
    then show ?thesis using Suc.prems by (simp add: Let_def not_le del: power_Suc)
  qed
qed simp

section \<open>Properties\<close>

text \<open>the status column tells the statuses of an update apart. Two statuses get the same text
  exactly when they are equal or neither is a constant of the enumeration.\<close>

theorem toNiceStatus_distinguishes:
  "toNiceStatus s = toNiceStatus t
     \<longleftrightarrow> s = t \<or> s \<notin> set (map snd JobUpdateStatus) \<and> t \<notin> set (map snd JobUpdateStatus)"
  by (simp add: toNiceStatus_cases JobUpdateStatus_def)

text \<open>the text of an instance action has no underscore and no \<open>INSTANCE_\<close> prefix left, and it
  tells the actions of the enumeration apart.\<close>

theorem toNiceAction_readable:
  "CHR ''_'' \<notin> set (toNiceAction a) \<and> take 9 (toNiceAction a) \<noteq> ''INSTANCE_''
   \<and> (toNiceAction a = toNiceAction b
        \<longleftrightarrow> a = b \<or> a \<notin> set (map snd JobUpdateAction) \<and> b \<notin> set (map snd JobUpdateAction))"
  by (simp add: toNiceAction_cases JobUpdateAction_def)

text \<open>\<open>scaleMb\<close> picks the largest unit that keeps the figure at 1 or more. For a whole number of
  megabytes below $1024^5$ there is a unit with the exact quotient below 1024; from $1024^5$ on the
  loop runs one unit past the table and prints \<open>undefined\<close>.\<close>

theorem scaleMb_unit:
  assumes "0 \<le> n" "n < 2 ^ 53"
  shows "if n < 1024 ^ 5
    then \<exists>u < 5. scaleMb (Fin (of_int n)) = to_fixed2 (Fin (of_int n / 1024 ^ u)) @ '' '' @ SCALE ! u
        \<and> (u = 0 \<or> 1 \<le> (of_int n :: rat) / 1024 ^ u) \<and> (of_int n :: rat) / 1024 ^ u < 1024
    else scaleMb (Fin (of_int n)) = to_fixed2 (Fin (of_int n / 1024 ^ 5)) @ '' undefined''"
proof -
  let ?u = "unit_from 5 n 0"
  have loop: "scaleMb_loop (Fin (of_int n)) 0 = (Fin (of_int n / 1024 ^ ?u), ?u)"
    using scaleMb_loop_unit [OF assms, of 0 5] by simp
  have spec: "?u \<le> 5" "?u = 0 \<or> 1024 ^ ?u \<le> n" "?u = 5 \<or> n < 1024 ^ (?u + 1)"
    using unit_from_spec [of 0 n 5] by (simp_all add: Let_def del: power_Suc)
  show ?thesis
  proof (cases "n < 1024 ^ 5")
    case True
    have "?u \<noteq> 5"
    proof
      assume "?u = 5"
      then show False using spec(2) True by simp
    qed
    then have u5: "?u < 5" and hi: "n < 1024 ^ (?u + 1)" using spec by simp_all
    have "(of_int n :: rat) < of_int (1024 ^ (?u + 1))" using hi by (simp only: of_int_less_iff)
    then have "(of_int n :: rat) / 1024 ^ ?u < 1024" by (simp add: field_simps)
    moreover have "?u = 0 \<or> 1 \<le> (of_int n :: rat) / 1024 ^ ?u"
    proof (cases "?u = 0")
      case False
      then have "1024 ^ ?u \<le> n" using spec(2) by argo
      then have "(of_int (1024 ^ ?u) :: rat) \<le> of_int n" by (simp only: of_int_le_iff)
      then show ?thesis by (simp add: field_simps)
    qed simp
    ultimately show ?thesis using True u5 loop by (auto simp: scaleMb_def SCALE_def)
  next
    case False
    have "?u = 5"
    proof (rule ccontr)
      assume "?u \<noteq> 5"
      then have "?u + 1 \<le> 5" "n < 1024 ^ (?u + 1)" using spec by auto
      then have "n < 1024 ^ 5" using power_increasing [of "?u + 1" 5 "1024::int"] by linarith
      with False show False by simp
    qed
    with False loop show ?thesis by (simp add: scaleMb_def SCALE_def)
  qed
qed

theorem scaleMb_unit_witness:
  "scaleMb (Fin (of_int 1125899906842624)) = ''1.00 undefined''
   \<and> (\<exists>u < 5. scaleMb (Fin (of_int 2560)) = to_fixed2 (Fin (of_int 2560 / 1024 ^ u)) @ '' '' @ SCALE ! u)"
proof
  have half: "\<lfloor>201 / 2 :: rat\<rfloor> = 100" by (simp add: floor_eq_iff)
  show "scaleMb (Fin (of_int 1125899906842624)) = ''1.00 undefined''"
    using scaleMb_unit [of 1125899906842624] half
    by (simp add: Let_def to_fixed2_def fixed2_def string_of_nat.simps digit_char_def pad2_def)
  show "\<exists>u < 5. scaleMb (Fin (of_int 2560)) = to_fixed2 (Fin (of_int 2560 / 1024 ^ u)) @ '' '' @ SCALE ! u"
    using scaleMb_unit [of 2560] by auto
qed

lemma toElapsedTime_args:
  assumes "\<bar>now - ts\<bar> < 2 ^ 52"
  shows "toElapsedTime now ts = (case int_args (now - ts) of (u, n) \<Rightarrow>
    lang_relativeTime (or_one (map_option num_of_int n)) u)"
proof -
  have "js_sub (num_of_int now) (num_of_int ts) = num_of_int (now - ts)"
    using js_sub_int [of now ts] assms by (simp add: num_of_int_def)
  then show ?thesis
    using duration_value [OF assms] relativeTime_args_int [OF assms]
    by (simp add: toElapsedTime_def humanize_def relativeTime_def case_prod_unfold Let_def)
qed

lemma or_one_int: "k \<noteq> 0 \<Longrightarrow> or_one (Some (num_of_int k)) = num_of_int k"
  by (simp add: or_one_def num_of_int_def is_zero_def)

text \<open>When a text with a figure \<open>k\<close>, or without one, is right for an elapsed time of \<open>d\<close> milliseconds:
  a plural has a figure of at least 2, and the figure is off by at most half a unit plus the
  roundings of the smaller units.\<close>

fun elapsed_ok :: "time_unit \<Rightarrow> int option \<Rightarrow> int \<Rightarrow> bool" where
  "elapsed_ok S None d = (d < 44500)"
| "elapsed_ok M1 None d = (44500 \<le> d \<and> d \<le> 90500)"
| "elapsed_ok MM (Some k) d = (2 \<le> k \<and> k < 45 \<and> \<bar>d - 60000 * k\<bar> \<le> 30500)"
| "elapsed_ok H1 None d = (\<bar>d - 3600000\<bar> \<le> 1830500)"
| "elapsed_ok HH (Some k) d = (2 \<le> k \<and> k < 22 \<and> \<bar>d - 3600000 * k\<bar> \<le> 1830500)"
| "elapsed_ok D1 None d = (\<bar>d - 86400000\<bar> \<le> 45030500)"
| "elapsed_ok DD (Some k) d = (2 \<le> k \<and> k \<le> 25 \<and> \<bar>d - 86400000 * k\<bar> \<le> 45030500)"
| "elapsed_ok Mo1 None d = (86400000 * 26 - 45030500 \<le> d \<and> d \<le> 86400000 * 45 + 45030500)"
| "elapsed_ok MoMo (Some k) d = (2 \<le> k \<and> k \<le> 11 \<and> \<bar>d - 2592000000 * k\<bar> \<le> 1341030500)"
| "elapsed_ok Y1 None d = (\<bar>d - 31536000000\<bar> \<le> 15813030500)"
| "elapsed_ok YY (Some k) d = (2 \<le> k \<and> \<bar>d - 31536000000 * k\<bar> \<le> 15813030500)"
| "elapsed_ok _ _ d = False"

text \<open>The text that stands for a figure.\<close>

definition figure_text :: "time_unit \<Rightarrow> int option \<Rightarrow> string" where
  "figure_text u n = (case n of None \<Rightarrow> unit_text u
     | Some k \<Rightarrow> num_to_string (num_of_int k) @ drop 2 (unit_text u))"

lemma lang_texts:
  "lang_relativeTime x S = ''a few seconds''" "lang_relativeTime x M1 = ''a minute''"
  "lang_relativeTime x MM = num_to_string x @ '' minutes''" "lang_relativeTime x H1 = ''an hour''"
  "lang_relativeTime x HH = num_to_string x @ '' hours''" "lang_relativeTime x D1 = ''a day''"
  "lang_relativeTime x DD = num_to_string x @ '' days''" "lang_relativeTime x Mo1 = ''a month''"
  "lang_relativeTime x MoMo = num_to_string x @ '' months''" "lang_relativeTime x Y1 = ''a year''"
  "lang_relativeTime x YY = num_to_string x @ '' years''"
  by (simp_all add: lang_relativeTime_def)

lemma int_args_ok:
  assumes "int_args ms = (u, n)"
  shows "elapsed_ok u (if u = S then None else n) \<bar>ms\<bar>"
proof -
  define d where "d = \<bar>ms\<bar>"
  define se where "se = rdiv d 1000"
  define mi where "mi = rdiv se 60"
  define ho where "ho = rdiv mi 60"
  define da where "da = rdiv ho 24"
  define mo where "mo = rdiv da 30"
  define ye where "ye = rdiv da 365"
  note defs = se_def mi_def ho_def da_def mo_def ye_def
  have b: "2 * d - 1000 < 2000 * se" "2000 * se \<le> 2 * d + 1000" "2 * se - 60 < 120 * mi" "120 * mi \<le> 2 * se + 60"
    "2 * mi - 60 < 120 * ho" "120 * ho \<le> 2 * mi + 60" "2 * ho - 24 < 48 * da" "48 * da \<le> 2 * ho + 24"
    "2 * da - 30 < 60 * mo" "60 * mo \<le> 2 * da + 30" "2 * da - 365 < 730 * ye" "730 * ye \<le> 2 * da + 365"
    using rdiv_bounds [of 1000 d] rdiv_bounds [of 60 se] rdiv_bounds [of 60 mi] rdiv_bounds [of 24 ho]
      rdiv_bounds [of 30 da] rdiv_bounds [of 365 da] by (simp_all add: defs)
  have args: "(u, n) =
    (if se < 45 then (S, Some se) else if mi = 1 then (M1, None) else if mi < 45 then (MM, Some mi)
     else if ho = 1 then (H1, None) else if ho < 22 then (HH, Some ho) else if da = 1 then (D1, None)
     else if da \<le> 25 then (DD, Some da) else if da \<le> 45 then (Mo1, None)
     else if da < 345 then (MoMo, Some mo) else if ye = 1 then (Y1, None) else (YY, Some ye))"
    unfolding assms [symmetric] by (simp only: int_args_def Let_def defs d_def)
  consider "se < 45"
    | "\<not> se < 45" "mi = 1"
    | "\<not> se < 45" "\<not> mi = 1" "mi < 45"
    | "\<not> se < 45" "\<not> mi = 1" "\<not> mi < 45" "ho = 1"
    | "\<not> se < 45" "\<not> mi = 1" "\<not> mi < 45" "\<not> ho = 1" "ho < 22"
    | "\<not> se < 45" "\<not> mi = 1" "\<not> mi < 45" "\<not> ho = 1" "\<not> ho < 22" "da = 1"
    | "\<not> se < 45" "\<not> mi = 1" "\<not> mi < 45" "\<not> ho = 1" "\<not> ho < 22" "\<not> da = 1" "da \<le> 25"
    | "\<not> se < 45" "\<not> mi = 1" "\<not> mi < 45" "\<not> ho = 1" "\<not> ho < 22" "\<not> da = 1" "\<not> da \<le> 25" "da \<le> 45"
    | "\<not> se < 45" "\<not> mi = 1" "\<not> mi < 45" "\<not> ho = 1" "\<not> ho < 22" "\<not> da = 1" "\<not> da \<le> 25" "\<not> da \<le> 45" "da < 345"
    | "\<not> se < 45" "\<not> mi = 1" "\<not> mi < 45" "\<not> ho = 1" "\<not> ho < 22" "\<not> da = 1" "\<not> da \<le> 25" "\<not> da \<le> 45" "\<not> da < 345" "ye = 1"
    | "\<not> se < 45" "\<not> mi = 1" "\<not> mi < 45" "\<not> ho = 1" "\<not> ho < 22" "\<not> da = 1" "\<not> da \<le> 25" "\<not> da \<le> 45" "\<not> da < 345" "\<not> ye = 1"
    by blast
  then show ?thesis
    unfolding d_def [symmetric] by cases (use args b in simp_all)
qed

text \<open>the elapsed time is one of the fixed texts or a plural with its figure, and it is right: a
  plural is never shown with 0 or 1, and the figure differs from the elapsed time by at most half
  a unit plus the roundings of the smaller units.\<close>

theorem toElapsedTime_figures:
  assumes "\<bar>now - ts\<bar> < 2 ^ 52"
  shows "\<exists>u n. toElapsedTime now ts = figure_text u n \<and> elapsed_ok u n \<bar>now - ts\<bar>"
proof -
  obtain u n where un: "int_args (now - ts) = (u, n)" by force
  let ?n = "if u = S then None else n"
  have ok: "elapsed_ok u ?n \<bar>now - ts\<bar>" using int_args_ok [OF un] .
  have "toElapsedTime now ts = figure_text u ?n"
    using ok by (cases u; cases n) (simp_all add: toElapsedTime_args [OF assms] un lang_texts figure_text_def or_one_int)
  with ok show ?thesis by blast
qed

theorem toElapsedTime_figures_witness:
  "\<exists>u n. toElapsedTime 10000000 2800000 = figure_text u n \<and> elapsed_ok u n 7200000"
  using toElapsedTime_figures [of 10000000 2800000] by simp

end
