(* ===== verification/Dates.thy ===== *)
theory Dates
  imports Moment
begin

text \<open>
  The filters of \<open>filters.js\<close> that print a date, with what they use of \<open>moment.js\<close>: \<open>moment(ms)\<close>, \<open>utc\<close>
  and \<open>format\<close> with the tokens of their formats, over the calendar of JavaScript's \<open>Date\<close>.  A timestamp
  is a whole number of milliseconds.  \<open>tz\<close> is the time zone of the browser: its distance from UTC, in
  milliseconds, at an instant.
\<close>

section \<open>The calendar\<close>

text \<open>Days, years and months as the language defines them.\<close>

definition ms_per_day :: int where "ms_per_day = 86400000"

definition day_number :: "int \<Rightarrow> int" where "day_number t = t div ms_per_day"
definition time_within_day :: "int \<Rightarrow> int" where "time_within_day t = t mod ms_per_day"

definition day_from_year :: "int \<Rightarrow> int" where
  "day_from_year y = 365 * (y - 1970) + (y - 1969) div 4 - (y - 1901) div 100 + (y - 1601) div 400"

definition leap_year :: "int \<Rightarrow> bool" where
  "leap_year y \<longleftrightarrow> 4 dvd y \<and> (\<not> 100 dvd y \<or> 400 dvd y)"

text \<open>The year of a day is the last that does not begin after it: an estimate is off by one at most.\<close>

definition year_from_day :: "int \<Rightarrow> int" where
  "year_from_day d = (let y = 1970 + (400 * d) div 146097 in
     if d < day_from_year y then y - 1 else if day_from_year (y + 1) \<le> d then y + 1 else y)"

definition day_within_year :: "int \<Rightarrow> int" where
  "day_within_year d = d - day_from_year (year_from_day d)"

definition month_starts :: "bool \<Rightarrow> int list" where
  "month_starts leap = (if leap then [0, 31, 60, 91, 121, 152, 182, 213, 244, 274, 305, 335]
     else [0, 31, 59, 90, 120, 151, 181, 212, 243, 273, 304, 334])"

definition month_index :: "bool \<Rightarrow> int \<Rightarrow> nat" where
  "month_index leap n = length (takeWhile (\<lambda>s. s \<le> n) (month_starts leap)) - 1"

section \<open>Moments\<close>

record moment =
  instant :: int
  isUTC :: bool

definition moment_of :: "int \<Rightarrow> moment" where
  "moment_of ms = \<lparr>instant = ms, isUTC = False\<rparr>"

definition utc :: "moment \<Rightarrow> moment" where
  "utc m = m\<lparr>isUTC := True\<rparr>"

definition moment_valid :: "moment \<Rightarrow> bool" where
  "moment_valid m \<longleftrightarrow> \<bar>instant m\<bar> \<le> 8640000000000000"

definition wall_time :: "(int \<Rightarrow> int) \<Rightarrow> moment \<Rightarrow> int" where
  "wall_time tz m = instant m + (if isUTC m then 0 else tz (instant m))"

definition moment_month :: "(int \<Rightarrow> int) \<Rightarrow> moment \<Rightarrow> nat" where
  "moment_month tz m = (let d = day_number (wall_time tz m) in
     month_index (leap_year (year_from_day d)) (day_within_year d))"

definition moment_date :: "(int \<Rightarrow> int) \<Rightarrow> moment \<Rightarrow> int" where
  "moment_date tz m = (let d = day_number (wall_time tz m) in
     day_within_year d - month_starts (leap_year (year_from_day d)) ! moment_month tz m + 1)"

definition moment_day :: "(int \<Rightarrow> int) \<Rightarrow> moment \<Rightarrow> int" where
  "moment_day tz m = (day_number (wall_time tz m) + 4) mod 7"

definition moment_hours :: "(int \<Rightarrow> int) \<Rightarrow> moment \<Rightarrow> int" where
  "moment_hours tz m = wall_time tz m div 3600000 mod 24"

definition moment_minutes :: "(int \<Rightarrow> int) \<Rightarrow> moment \<Rightarrow> int" where
  "moment_minutes tz m = wall_time tz m div 60000 mod 60"

definition moment_seconds :: "(int \<Rightarrow> int) \<Rightarrow> moment \<Rightarrow> int" where
  "moment_seconds tz m = wall_time tz m div 1000 mod 60"

section \<open>Formatting\<close>

definition leftZeroFill :: "int \<Rightarrow> nat \<Rightarrow> string" where
  "leftZeroFill n targetLength = (let output = string_of_nat (nat \<bar>n\<bar>) in
     (if 0 \<le> n then [] else ''-'') @ replicate (targetLength - length output) (CHR ''0'') @ output)"

definition monthsShort :: "string list" where
  "monthsShort = [''Jan'', ''Feb'', ''Mar'', ''Apr'', ''May'', ''Jun'', ''Jul'', ''Aug'', ''Sep'', ''Oct'', ''Nov'', ''Dec'']"

definition weekdaysShort :: "string list" where
  "weekdaysShort = [''Sun'', ''Mon'', ''Tue'', ''Wed'', ''Thu'', ''Fri'', ''Sat'']"

definition ordinal :: "int \<Rightarrow> string" where
  "ordinal n = (let b = n mod 10 in string_of_int n @
     (if n mod 100 div 10 = 1 then ''th'' else if b = 1 then ''st'' else if b = 2 then ''nd'' else if b = 3 then ''rd'' else ''th''))"

text \<open>The tokens of the formats the filters use; any other piece stands for itself.\<close>

definition format_token :: "(int \<Rightarrow> int) \<Rightarrow> moment \<Rightarrow> string \<Rightarrow> string" where
  "format_token tz m token =
     (if token = ''MM'' then leftZeroFill (int (moment_month tz m) + 1) 2
      else if token = ''DD'' then leftZeroFill (moment_date tz m) 2
      else if token = ''HH'' then leftZeroFill (moment_hours tz m) 2
      else if token = ''mm'' then leftZeroFill (moment_minutes tz m) 2
      else if token = ''ss'' then leftZeroFill (moment_seconds tz m) 2
      else if token = ''ddd'' then weekdaysShort ! nat (moment_day tz m)
      else if token = ''MMM'' then monthsShort ! moment_month tz m
      else if token = ''Do'' then ordinal (moment_date tz m)
      else token)"

text \<open>\<open>format\<close> with the pieces \<open>formattingTokens\<close> cuts the format into.\<close>

definition moment_format :: "(int \<Rightarrow> int) \<Rightarrow> moment \<Rightarrow> string list \<Rightarrow> string" where
  "moment_format tz m tokens =
     (if moment_valid m then concat (map (format_token tz m) tokens) else ''Invalid date'')"

section \<open>The filters\<close>

definition day_and_time :: "string list" where
  "day_and_time = [''MM'', ''/'', ''DD'', '' '', ''HH'', '':'', ''mm'', '':'', ''ss'']"

definition toUtcTime :: "(int \<Rightarrow> int) \<Rightarrow> int \<Rightarrow> string" where
  "toUtcTime tz timestamp = moment_format tz (utc (moment_of timestamp)) day_and_time @ '' UTC''"

definition toLocalTime :: "(int \<Rightarrow> int) \<Rightarrow> int \<Rightarrow> string" where
  "toLocalTime tz timestamp = moment_format tz (moment_of timestamp) day_and_time @ '' LOCAL''"

definition toLocalDay :: "(int \<Rightarrow> int) \<Rightarrow> int \<Rightarrow> string" where
  "toLocalDay tz timestamp = moment_format tz (moment_of timestamp) [''ddd'', '','', '' '', ''MMM'', '' '', ''Do'']"

definition toLocalTimeOnly :: "(int \<Rightarrow> int) \<Rightarrow> int \<Rightarrow> string" where
  "toLocalTimeOnly tz timestamp = moment_format tz (moment_of timestamp) [''HH'', '':'', ''mm'']"

section \<open>The year of a day\<close>

lemma div_bounds: "0 < k \<Longrightarrow> k * (x div k) \<le> x \<and> x < k * (x div k) + (k :: int)"
  using pos_mod_bound [of k x] pos_mod_sign [of k x] by (simp add: minus_mod_eq_mult_div [symmetric])

lemma day_from_year_bounds:
  "400 * day_from_year y \<le> 146097 * (y - 1970) + 589" "146097 * (y - 1970) - 506 \<le> 400 * day_from_year y"
proof -
  define a b c where "a = (y - 1969) div 4" and "b = (y - 1901) div 100" and "c = (y - 1601) div 400"
  have "4 * a \<le> y - 1969" "y - 1969 < 4 * a + 4" "100 * b \<le> y - 1901" "y - 1901 < 100 * b + 100"
      "400 * c \<le> y - 1601" "y - 1601 < 400 * c + 400"
    unfolding a_def b_def c_def by (intro conjunct1 [OF div_bounds] conjunct2 [OF div_bounds]; simp)+
  moreover have "day_from_year y = 365 * (y - 1970) + a - b + c"
    by (simp only: day_from_year_def a_def b_def c_def)
  ultimately show "400 * day_from_year y \<le> 146097 * (y - 1970) + 589" "146097 * (y - 1970) - 506 \<le> 400 * day_from_year y"
    unfolding right_diff_distrib by - linarith+
qed

lemma year_estimate:
  fixes d y :: int
  assumes "y = 1970 + (400 * d) div 146097"
  shows "day_from_year (y - 1) \<le> d" "d < day_from_year (y + 2)"
proof -
  have "146097 * (y - 1970) \<le> 400 * d" "400 * d < 146097 * (y - 1970) + 146097"
    using div_bounds [of 146097 "400 * d"] assms by simp_all
  then show "day_from_year (y - 1) \<le> d" "d < day_from_year (y + 2)"
    using day_from_year_bounds(1) [of "y - 1"] day_from_year_bounds(2) [of "y + 2"]
    unfolding right_diff_distrib distrib_left by - linarith+
qed

lemma year_from_day: "day_from_year (year_from_day d) \<le> d" "d < day_from_year (year_from_day d + 1)"
  using year_estimate [OF refl, of d] by (auto simp: year_from_day_def Let_def add.assoc)

text \<open>A year has 365 days, or 366 when it is a leap year.\<close>

lemma div_step:
  assumes "0 < k"
  shows "(x + 1) div k = x div k + (if k dvd x + 1 then 1 else (0 :: int))"
proof (cases "x mod k + 1 = k")
  case True
  have "x + 1 = k * (x div k) + k" using mult_div_mod_eq [of k x] True by linarith
  then have e: "x + 1 = k * (x div k + 1) + 0" by (simp only: distrib_left mult_1_right add_0_right)
  then have "k dvd x + 1" by (metis add.right_neutral dvd_triv_left)
  then show ?thesis using int_div_pos_eq [OF e _ assms] by simp
next
  case False
  have b: "0 \<le> x mod k + 1" "x mod k + 1 < k" using False assms pos_mod_bound [OF assms, of x] pos_mod_sign [OF assms, of x] by simp_all
  have e: "x + 1 = k * (x div k) + (x mod k + 1)" by simp
  have "(x + 1) mod k = x mod k + 1" by (rule int_mod_pos_eq [OF e b])
  then have "\<not> k dvd x + 1" using pos_mod_sign [OF assms, of x] by (simp add: dvd_eq_mod_eq_0)
  then show ?thesis using int_div_pos_eq [OF e b] by simp
qed

lemma year_length: "day_from_year (y + 1) = day_from_year y + 365 + (if leap_year y then 1 else 0)"
proof -
  define a b c where "a = (4 dvd y)" and "b = (100 dvd y)" and "c = (400 dvd y)"
  have d: "(4 dvd y - 1968) = a" "(100 dvd y - 1900) = b" "(400 dvd y - 1600) = c"
    unfolding a_def b_def c_def by (rule dvd_diff_left_iff, simp)+
  have i: "c \<Longrightarrow> b" "b \<Longrightarrow> a"
    unfolding a_def b_def c_def by (rule dvd_trans [of 100 400], simp_all, rule dvd_trans [of 4 100], simp_all)
  have e: "y + 1 - 1969 = y - 1969 + 1" "y + 1 - 1901 = y - 1901 + 1" "y + 1 - 1601 = y - 1601 + 1"
    "y - 1969 + 1 = y - 1968" "y - 1901 + 1 = y - 1900" "y - 1601 + 1 = y - 1600" by simp_all
  have s: "(y - 1969 + 1) div 4 = (y - 1969) div 4 + (if a then 1 else 0)"
    "(y - 1901 + 1) div 100 = (y - 1901) div 100 + (if b then 1 else 0)"
    "(y - 1601 + 1) div 400 = (y - 1601) div 400 + (if c then 1 else 0)"
    using div_step [of 4 "y - 1969"] div_step [of 100 "y - 1901"] div_step [of 400 "y - 1601"]
    unfolding e(4-6) d by simp_all
  show ?thesis
    unfolding day_from_year_def leap_year_def e(1-3) s a_def [symmetric] b_def [symmetric] c_def [symmetric]
    using i by (cases a; cases b; cases c) simp_all
qed

lemma day_within_year_bounds:
  "0 \<le> day_within_year d" "day_within_year d < 365 + (if leap_year (year_from_day d) then 1 else 0)"
  using year_from_day [of d] year_length [of "year_from_day d"] by (simp_all add: day_within_year_def)

section \<open>The month of a day\<close>

lemma month_starts_length [simp]: "length (month_starts leap) = 12"
  by (simp add: month_starts_def)

lemma month_index:
  assumes "0 \<le> n" "n < 365 + (if leap then 1 else 0)"
  shows "month_index leap n < 12" "month_starts leap ! month_index leap n \<le> n"
    "n < month_starts leap ! month_index leap n + 31"
proof -
  let ?s = "month_starts leap" let ?k = "length (takeWhile (\<lambda>x. x \<le> n) ?s)"
  have "takeWhile (\<lambda>x. x \<le> n) ?s \<noteq> []" using assms(1) by (simp add: month_starts_def)
  then have k: "0 < ?k" "?k \<le> 12" using length_takeWhile_le [of _ ?s] by (simp, metis month_starts_length)
  then show i: "month_index leap n < 12" by (simp add: month_index_def)
  have i': "month_index leap n < ?k" using k by (simp add: month_index_def)
  then have "takeWhile (\<lambda>x. x \<le> n) ?s ! month_index leap n \<le> n" by (metis nth_mem set_takeWhileD)
  then show "?s ! month_index leap n \<le> n" using i' by (simp add: takeWhile_nth)
  have nx: "?k < 12 \<Longrightarrow> n < ?s ! ?k" using nth_length_takeWhile [of "\<lambda>x. x \<le> n" ?s] by simp
  have "?k = Suc (month_index leap n)" using k by (simp add: month_index_def)
  have cases: "month_index leap n \<in> {0, 1, 2, 3, 4, 5, 6, 7, 8, 9, 10, 11}" using i by (auto simp: numeral_eq_Suc less_Suc_eq)
  have "month_index leap n < 11 \<Longrightarrow> n < ?s ! Suc (month_index leap n)" using nx \<open>?k = _\<close> by simp
  then show "n < ?s ! month_index leap n + 31"
    using cases assms(2) by (auto simp: month_starts_def split: if_splits)
qed

lemma date_bounds: "1 \<le> moment_date tz m" "moment_date tz m \<le> 31" "moment_month tz m < 12"
  using month_index [OF day_within_year_bounds, of "day_number (wall_time tz m)"]
  by (simp_all add: moment_date_def moment_month_def Let_def)

section \<open>Reading a text back\<close>

lemma nat_of_digits_zeros: "nat_of_digits (replicate n (CHR ''0'') @ s) = nat_of_digits s"
  by (induction n) (simp_all add: nat_of_digits_def digit_val_def)

lemma leftZeroFill_value: "0 \<le> n \<Longrightarrow> nat_of_digits (leftZeroFill n w) = nat n"
  by (simp add: leftZeroFill_def Let_def nat_of_digits_zeros)

lemma leftZeroFill_length: "0 \<le> n \<Longrightarrow> n < 100 \<Longrightarrow> length (leftZeroFill n 2) = 2"
proof -
  assume n: "0 \<le> n" "n < 100"
  have "length (string_of_nat k) \<le> 2" if "k < 100" for k
    using that by (subst string_of_nat.simps) (auto simp: string_of_nat.simps [of "k div 10"])
  from this [of "nat \<bar>n\<bar>"] n show ?thesis by (simp add: leftZeroFill_def Let_def)
qed

lemma leftZeroFill_inj:
  "0 \<le> a \<Longrightarrow> a < 100 \<Longrightarrow> 0 \<le> b \<Longrightarrow> b < 100 \<Longrightarrow> leftZeroFill a 2 = leftZeroFill b 2 \<longleftrightarrow> a = b"
  by (metis leftZeroFill_value nat_eq_iff2)

text \<open>The second of a wall clock time from its year and its figures.\<close>

lemma time_from_second:
  "day_number x = x div 1000 div 86400" "x div 3600000 = x div 1000 div 3600" "x div 60000 = x div 1000 div 60"
  unfolding day_number_def ms_per_day_def
  by (subst zdiv_zmult2_eq [symmetric], simp, simp only: arith_simps)+

lemma time_figures: "x div 1000 = day_number x * 86400 + (x div 3600000 mod 24) * 3600 + (x div 60000 mod 60) * 60 + x div 1000 mod 60"
proof -
  define s where "s = x div 1000"
  define h where "h = s div 60 div 60"
  define f1 f2 f3 where "f1 = h mod 24" and "f2 = s div 60 mod 60" and "f3 = s mod 60"
  define m d where "m = s div 60" and "d = h div 24"
  have "s div 86400 = d" "s div 3600 = h"
    unfolding d_def h_def
    by (subst zdiv_zmult2_eq [symmetric], simp, subst zdiv_zmult2_eq [symmetric], simp, simp only: arith_simps)
      (subst zdiv_zmult2_eq [symmetric], simp, simp only: arith_simps)
  moreover have "s div 60 = m" "h mod 24 = f1" "m mod 60 = f2" "s mod 60 = f3"
    unfolding f1_def f2_def f3_def m_def by (rule refl)+
  moreover have "s = 60 * m + f3" "m = 60 * h + f2" "h = 24 * d + f1"
    unfolding h_def f1_def f2_def f3_def m_def d_def by (rule mult_div_mod_eq [symmetric])+
  then have "s = d * 86400 + f1 * 3600 + f2 * 60 + f3" by simp
  ultimately show ?thesis
    unfolding time_from_second s_def [symmetric] by (simp only:)
qed

lemma same_second:
  assumes "day_number x = day_number y" "x div 3600000 mod 24 = y div 3600000 mod 24" "x div 60000 mod 60 = y div 60000 mod 60"
    and "x div 1000 mod 60 = y div 1000 mod 60"
  shows "x div 1000 = y div 1000"
  using time_figures [of x] time_figures [of y] unfolding assms by simp

definition figures :: "(int \<Rightarrow> int) \<Rightarrow> moment \<Rightarrow> int list" where
  "figures tz m = [int (moment_month tz m) + 1, moment_date tz m, moment_hours tz m, moment_minutes tz m, moment_seconds tz m]"

lemma mod_bounds: "0 \<le> x mod 24" "x mod 24 < 100" "0 \<le> x mod 60" "x mod 60 < (100 :: int)"
proof -
  show "0 \<le> x mod 24" "0 \<le> x mod 60" by simp_all
  have "x mod 24 < 24" "x mod 60 < 60" by simp_all
  then show "x mod 24 < 100" "x mod 60 < 100" by - (erule order.strict_trans, simp)+
qed

lemma figures_bounds: "list_all (\<lambda>n. 0 \<le> n \<and> n < 100) (figures tz m)"
  using date_bounds [of tz m]
  by (simp add: figures_def moment_hours_def moment_minutes_def moment_seconds_def mod_bounds)

lemma figures_determine:
  assumes "year_from_day (day_number (wall_time tz m)) = year_from_day (day_number (wall_time tz' m'))" "figures tz m = figures tz' m'"
  shows "wall_time tz m div 1000 = wall_time tz' m' div 1000"
proof -
  have "moment_month tz m = moment_month tz' m'" "moment_date tz m = moment_date tz' m'"
    using assms(2) by (simp_all add: figures_def)
  then have "day_within_year (day_number (wall_time tz m)) = day_within_year (day_number (wall_time tz' m'))"
    using assms(1) by (simp add: moment_date_def Let_def)
  then have "day_number (wall_time tz m) = day_number (wall_time tz' m')"
    using assms(1) by (simp add: day_within_year_def)
  then show ?thesis
    using assms(2) by (intro same_second) (simp_all only: figures_def list.inject moment_hours_def moment_minutes_def moment_seconds_def)
qed

lemma figures_from_second:
  assumes "wall_time tz m div 1000 = wall_time tz' m' div 1000"
  shows "figures tz m = figures tz' m'"
proof -
  have "day_number (wall_time tz m) = day_number (wall_time tz' m')" "moment_hours tz m = moment_hours tz' m'"
    "moment_minutes tz m = moment_minutes tz' m'" "moment_seconds tz m = moment_seconds tz' m'"
    using assms by (simp_all add: time_from_second moment_hours_def moment_minutes_def moment_seconds_def)
  then show ?thesis by (simp add: figures_def moment_date_def moment_month_def Let_def)
qed

lemma day_and_time_text:
  "moment_valid m \<Longrightarrow> moment_format tz m day_and_time =
    (case map (\<lambda>n. leftZeroFill n 2) (figures tz m) of [mo, d, h, mi, s] \<Rightarrow> mo @ ''/'' @ d @ '' '' @ h @ '':'' @ mi @ '':'' @ s | _ \<Rightarrow> [])"
  by (simp add: moment_format_def day_and_time_def format_token_def figures_def)

lemma day_and_time_inj:
  assumes "moment_valid m" "moment_valid m'"
  shows "moment_format tz m day_and_time = moment_format tz' m' day_and_time \<longleftrightarrow> figures tz m = figures tz' m'"
proof -
  have b: "list_all (\<lambda>n. 0 \<le> n \<and> n < 100) (figures tz m)" "list_all (\<lambda>n. 0 \<le> n \<and> n < 100) (figures tz' m')"
    by (rule figures_bounds)+
  show ?thesis
    using b unfolding day_and_time_text [OF assms(1)] day_and_time_text [OF assms(2)]
    by (simp add: figures_def leftZeroFill_length leftZeroFill_inj)
qed

text \<open>the tooltip with the UTC time of an event tells events of one year apart to the second: two
  timestamps have the same text exactly when they lie in the same second.\<close>

theorem toUtcTime_distinguishes:
  assumes "\<bar>s\<bar> \<le> 8640000000000000" "\<bar>t\<bar> \<le> 8640000000000000"
    and "year_from_day (day_number s) = year_from_day (day_number t)"
  shows "toUtcTime tz s = toUtcTime tz t \<longleftrightarrow> s div 1000 = t div 1000"
proof -
  let ?s = "utc (moment_of s)" and ?t = "utc (moment_of t)"
  have v: "moment_valid ?s" "moment_valid ?t" using assms(1,2) by (simp_all add: moment_valid_def utc_def moment_of_def)
  have w: "wall_time tz ?s = s" "wall_time tz ?t = t" by (simp_all add: wall_time_def utc_def moment_of_def)
  show ?thesis
    using day_and_time_inj [OF v, of tz tz] figures_determine [of tz ?s tz ?t] figures_from_second [of tz ?s tz ?t] assms(3)
    by (auto simp: toUtcTime_def w)
qed

theorem toUtcTime_distinguishes_witness: "toUtcTime (\<lambda>t. 0) 1400000000000 \<noteq> toUtcTime (\<lambda>t. 0) 1400000001000"
proof -
  have "year_from_day (day_number 1400000000000) = year_from_day (day_number 1400000001000)"
    by (simp add: day_number_def ms_per_day_def)
  then show ?thesis using toUtcTime_distinguishes [of 1400000000000 1400000001000 "\<lambda>t. 0"] by simp
qed

text \<open>The local times are those of the wall clock.\<close>

lemma toLocalTime_shift:
  assumes "\<bar>t\<bar> \<le> 8640000000000000" "\<bar>t + tz t\<bar> \<le> 8640000000000000"
  shows "toLocalTime tz t = moment_format tz' (utc (moment_of (t + tz t))) day_and_time @ '' LOCAL''"
  using assms
  by (simp add: toLocalTime_def moment_format_def moment_valid_def utc_def moment_of_def day_and_time_def format_token_def
      moment_month_def moment_date_def moment_hours_def moment_minutes_def moment_seconds_def wall_time_def Let_def)

end
