(* ===== verification/Promise.thy ===== *)
theory Promise
  imports Prelude
begin

text \<open>
  The promises of \<open>$q\<close> (\<open>qFactory\<close> of \<open>angular.js\<close>) as far as the UI uses them: a deferred that is
  resolved with plain values, callbacks attached by \<open>then\<close>, and \<open>$q.all\<close>.  A callback is a token;
  an operation returns the new deferred and the calls it schedules for the next tick, in order.
  Rejection is left to \<open>PromiseChain\<close>: the UI never rejects, and what a callback of its own throws
  goes to the exception handler and to a promise that nobody waits for.
\<close>

section \<open>Write-once cells\<close>

locale write_once =
  fixes put :: "'v \<Rightarrow> 's \<Rightarrow> 's"
    and current :: "'s \<Rightarrow> 'v option"
  assumes put_fresh: "current s = None \<Longrightarrow> current (put v s) = Some v"
    and put_again: "current s = Some w \<Longrightarrow> put v s = s"
begin

lemma put_all: "current (foldl (\<lambda>s v. put v s) s vs) =
   (case current s of Some w \<Rightarrow> Some w | None \<Rightarrow> (case vs of [] \<Rightarrow> None | v # _ \<Rightarrow> Some v))"
proof (induction vs arbitrary: s)
  case Nil
  then show ?case by (simp split: option.split)
next
  case (Cons v vs)
  then show ?case by (cases "current s") (simp_all add: put_fresh put_again)
qed

lemma put_stable: "current s = Some w \<Longrightarrow> foldl (\<lambda>s v. put v s) s vs = s"
  by (induction vs) (simp_all add: put_again)

end

section \<open>Deferreds\<close>

text \<open>\<open>pending\<close> holds the callbacks attached so far and becomes \<open>undefined\<close> once a value is set.\<close>

record ('v, 'k) deferred =
  df_pending :: "'k list option"
  df_value :: "'v option"

definition defer_new :: "('v, 'k) deferred" where
  "defer_new = \<lparr>df_pending = Some [], df_value = None\<rparr>"

definition resolve :: "'v \<Rightarrow> ('v, 'k) deferred \<Rightarrow> ('v, 'k) deferred \<times> ('k \<times> 'v) list" where
  "resolve val d = (case df_pending d of
       Some callbacks \<Rightarrow> (\<lparr>df_pending = None, df_value = Some val\<rparr>, map (\<lambda>k. (k, val)) callbacks)
     | None \<Rightarrow> (d, []))"

definition promise_then :: "'k \<Rightarrow> ('v, 'k) deferred \<Rightarrow> ('v, 'k) deferred \<times> ('k \<times> 'v) list" where
  "promise_then callback d = (case df_pending d of
       Some pending \<Rightarrow> (d\<lparr>df_pending := Some (pending @ [callback])\<rparr>, [])
     | None \<Rightarrow> (d, case df_value d of Some v \<Rightarrow> [(callback, v)] | None \<Rightarrow> []))"

definition settled :: "('v, 'k) deferred \<Rightarrow> 'v option" where
  "settled d = (if df_pending d = None then df_value d else None)"

text \<open>Exactly one of the two fields is set.\<close>

definition deferred_ok :: "('v, 'k) deferred \<Rightarrow> bool" where
  "deferred_ok d \<longleftrightarrow> (df_pending d = None) \<noteq> (df_value d = None)"

lemma defer_new_ok: "deferred_ok defer_new" "settled defer_new = None"
  by (simp_all add: deferred_ok_def defer_new_def settled_def)

lemma resolve_ok: "deferred_ok d \<Longrightarrow> deferred_ok (fst (resolve v d))"
  by (simp add: resolve_def deferred_ok_def split: option.split)

lemma then_ok: "deferred_ok d \<Longrightarrow> deferred_ok (fst (promise_then k d))"
  by (auto simp: promise_then_def deferred_ok_def split: option.split)

lemma settled_ok: "deferred_ok d \<Longrightarrow> settled d = None \<longleftrightarrow> df_pending d \<noteq> None"
  by (auto simp: settled_def deferred_ok_def)

text \<open>A deferred as a write-once cell; the invariant is part of the state.\<close>

typedef ('v, 'k) cell = "{d :: ('v, 'k) deferred. deferred_ok d}"
  morphisms cell_deferred Cell
  using defer_new_ok by blast

setup_lifting type_definition_cell

lift_definition cell_new :: "('v, 'k) cell" is defer_new by (rule defer_new_ok)
lift_definition cell_resolve :: "'v \<Rightarrow> ('v, 'k) cell \<Rightarrow> ('v, 'k) cell" is "\<lambda>v d. fst (resolve v d)"
  by (rule resolve_ok)
lift_definition cell_settled :: "('v, 'k) cell \<Rightarrow> 'v option" is settled .

interpretation dq: write_once cell_resolve cell_settled
proof
  fix s :: "('v, 'k) cell" and v w
  show "cell_settled s = None \<Longrightarrow> cell_settled (cell_resolve v s) = Some v"
    by transfer (auto simp: settled_def resolve_def deferred_ok_def)
  show "cell_settled s = Some w \<Longrightarrow> cell_resolve v s = s"
    by transfer (auto simp: settled_def resolve_def split: if_splits)
qed

section \<open>Schedules of operations on one deferred\<close>

datatype ('v, 'k) op = Resolve 'v | Then 'k

fun run_op :: "('v, 'k) op \<Rightarrow> ('v, 'k) deferred \<Rightarrow> ('v, 'k) deferred \<times> ('k \<times> 'v) list" where
  "run_op (Resolve v) d = resolve v d"
| "run_op (Then k) d = promise_then k d"

fun run_ops :: "('v, 'k) op list \<Rightarrow> ('v, 'k) deferred \<Rightarrow> ('v, 'k) deferred \<times> ('k \<times> 'v) list" where
  "run_ops [] d = (d, [])"
| "run_ops (c # cs) d = (let (d', calls) = run_op c d; (d'', calls') = run_ops cs d' in (d'', calls @ calls'))"

fun thens :: "('v, 'k) op list \<Rightarrow> 'k list" where
  "thens [] = []"
| "thens (Then k # cs) = k # thens cs"
| "thens (Resolve v # cs) = thens cs"

fun first_resolve :: "('v, 'k) op list \<Rightarrow> 'v option" where
  "first_resolve [] = None"
| "first_resolve (Resolve v # cs) = Some v"
| "first_resolve (Then k # cs) = first_resolve cs"

lemma run_ops_resolved:
  "run_ops cs \<lparr>df_pending = None, df_value = Some w\<rparr> =
     (\<lparr>df_pending = None, df_value = Some w\<rparr>, map (\<lambda>k. (k, w)) (thens cs))"
  by (induction cs rule: thens.induct) (simp_all add: promise_then_def resolve_def)

lemma run_ops_pending:
  "run_ops cs \<lparr>df_pending = Some ks, df_value = None\<rparr> =
     (case first_resolve cs of
        None \<Rightarrow> (\<lparr>df_pending = Some (ks @ thens cs), df_value = None\<rparr>, [])
      | Some v \<Rightarrow> (\<lparr>df_pending = None, df_value = Some v\<rparr>, map (\<lambda>k. (k, v)) (ks @ thens cs)))"
proof (induction cs arbitrary: ks rule: thens.induct)
  case (2 k cs)
  then show ?case by (simp add: promise_then_def split: option.split)
next
  case (3 v cs)
  then show ?case by (simp add: resolve_def run_ops_resolved)
qed simp

section \<open>$q.all\<close>

text \<open>The array of results by position, the number of promises still open, and the deferred.\<close>

record 'v q_all =
  qa_results :: "(nat \<times> 'v) list"
  qa_counter :: nat
  qa_resolved :: "(nat \<times> 'v) list option"

definition q_all_new :: "nat \<Rightarrow> 'v q_all" where
  "q_all_new n = \<lparr>qa_results = [], qa_counter = n, qa_resolved = (if n = 0 then Some [] else None)\<rparr>"

text \<open>The promise at position \<open>key\<close> is fulfilled with \<open>value\<close>.\<close>

definition q_all_fulfil :: "nat \<Rightarrow> 'v \<Rightarrow> 'v q_all \<Rightarrow> 'v q_all" where
  "q_all_fulfil key val a =
     (if map_of (qa_results a) key \<noteq> None then a
      else (let results = (key, val) # qa_results a; counter = qa_counter a - 1 in
        \<lparr>qa_results = results, qa_counter = counter,
         qa_resolved = (if counter = 0 then
             (case qa_resolved a of None \<Rightarrow> Some results | Some r \<Rightarrow> Some r) else qa_resolved a)\<rparr>))"

definition q_all_run :: "nat \<Rightarrow> (nat \<times> 'v) list \<Rightarrow> 'v q_all" where
  "q_all_run n evs = foldl (\<lambda>a (key, v). q_all_fulfil key v a) (q_all_new n) evs"

text \<open>After any sequence of fulfilments of the \<open>n\<close> positions.\<close>

definition q_all_inv :: "nat \<Rightarrow> (nat \<times> 'v) list \<Rightarrow> 'v q_all \<Rightarrow> bool" where
  "q_all_inv n evs a \<longleftrightarrow>
     (\<forall>k. map_of (qa_results a) k = map_of evs k) \<and> distinct (map fst (qa_results a))
     \<and> qa_counter a + length (qa_results a) = n
     \<and> qa_resolved a = (if qa_counter a = 0 then Some (qa_results a) else None)"

lemma q_all_fulfil_inv:
  assumes "q_all_inv n evs a" and "set (map fst (evs @ [(k, v)])) \<subseteq> {..< n}"
  shows "q_all_inv n (evs @ [(k, v)]) (q_all_fulfil k v a)"
proof (cases "map_of (qa_results a) k")
  case (Some w)
  then show ?thesis using assms(1) by (auto simp: q_all_inv_def q_all_fulfil_def map_add_def split: option.split)
next
  case None
  then have new: "k \<notin> fst ` set (qa_results a)" by (simp add: map_of_eq_None_iff)
  have "dom (map_of (qa_results a)) = dom (map_of evs)" using assms(1) by (auto simp: q_all_inv_def)
  then have "fst ` set (qa_results a) = fst ` set evs" by (simp add: dom_map_of_conv_image_fst)
  then have "set (map fst ((k, v) # qa_results a)) \<subseteq> {..< n}" using assms(2) by simp
  then have "card (set (map fst ((k, v) # qa_results a))) \<le> n" by (metis card_lessThan card_mono finite_lessThan)
  then have "length (qa_results a) < n"
    using new assms(1) by (simp add: q_all_inv_def card_insert_if distinct_card flip: set_map)
  then have "0 < qa_counter a" using assms(1) unfolding q_all_inv_def by linarith
  with None new assms(1) show ?thesis
    by (auto simp: q_all_inv_def q_all_fulfil_def map_add_def Let_def split: option.split)
qed

lemma q_all_run_inv:
  "set (map fst evs) \<subseteq> {..< n} \<Longrightarrow> q_all_inv n evs (q_all_run n evs)"
proof (induction evs rule: rev_induct)
  case Nil
  then show ?case by (simp add: q_all_run_def q_all_new_def q_all_inv_def)
next
  case (snoc ev evs)
  obtain k v where ev: "ev = (k, v)" by force
  have "q_all_inv n evs (q_all_run n evs)" using snoc by simp
  from q_all_fulfil_inv [OF this, of k v] snoc.prems show ?case by (simp add: q_all_run_def ev)
qed

section \<open>Properties\<close>

text \<open>whatever the order in which values are set and callbacks attached, every callback of a
  deferred is scheduled exactly once and in the order of attachment, with the first value; without
  a value none is.\<close>

theorem promise_callbacks_once:
  "snd (run_ops cs (defer_new :: ('v, 'k) deferred)) =
     (case first_resolve cs of None \<Rightarrow> [] | Some v \<Rightarrow> map (\<lambda>k. (k, v)) (thens cs))"
  by (simp add: defer_new_def run_ops_pending split: option.split)

text \<open>\<open>$q.all\<close> is resolved exactly when each of its \<open>n\<close> promises has been fulfilled, whatever the
  order, and the value at a position is the first one its promise was fulfilled with.\<close>

theorem q_all_resolves:
  assumes "set (map fst evs) \<subseteq> {..< n}"
  shows "(qa_resolved (q_all_run n evs) \<noteq> None \<longleftrightarrow> set (map fst evs) = {..< n})
    \<and> (case qa_resolved (q_all_run n evs) of None \<Rightarrow> True | Some rs \<Rightarrow> map_of rs k = map_of evs k)"
proof -
  let ?a = "q_all_run n evs"
  have inv: "q_all_inv n evs ?a" by (rule q_all_run_inv [OF assms])
  have "dom (map_of (qa_results ?a)) = dom (map_of evs)" using inv by (auto simp: q_all_inv_def)
  then have "set (map fst (qa_results ?a)) = set (map fst evs)" by (simp add: dom_map_of_conv_image_fst)
  then have "length (qa_results ?a) = card (set (map fst evs))"
    using inv by (metis distinct_card length_map q_all_inv_def)
  moreover have "card (set (map fst evs)) = n \<longleftrightarrow> set (map fst evs) = {..< n}"
  proof
    assume "card (set (map fst evs)) = n"
    then show "set (map fst evs) = {..< n}" using assms by (intro card_subset_eq) simp_all
  qed simp
  moreover have "qa_counter ?a + length (qa_results ?a) = n" using inv by (simp add: q_all_inv_def)
  ultimately have "qa_counter ?a = 0 \<longleftrightarrow> set (map fst evs) = {..< n}" by linarith
  then have "qa_resolved ?a = (if set (map fst evs) = {..< n} then Some (qa_results ?a) else None)"
    using inv unfolding q_all_inv_def by metis
  moreover have "map_of (qa_results ?a) k = map_of evs k" using inv by (simp add: q_all_inv_def)
  ultimately show ?thesis by simp
qed

theorem q_all_resolves_witness:
  "qa_resolved (q_all_run 2 [(1, ''b''), (0, ''a''), (1, ''c'')]) \<noteq> None
   \<and> qa_resolved (q_all_run 2 [(1, ''b''), (1, ''c'')]) = None"
proof -
  have two: "{..< 2} = {0, Suc 0}" by auto
  show ?thesis
    using q_all_resolves [of "[(1, ''b''), (0, ''a''), (1, ''c'')]" 2] q_all_resolves [of "[(1, ''b''), (1, ''c'')]" 2]
    by (simp add: two insert_commute)
qed

end
