(* ===== verification/AuroraClient.thy ===== *)
theory AuroraClient
  imports Api Underscore Promise
begin

text \<open>
  The \<open>auroraClient\<close> service of \<open>services.js\<close>.  A call builds a request and sends it through the one
  Thrift client; its callback turns the response into the value its promise is resolved with.  A
  callback that throws leaves the promise pending for good, which is \<open>Inl\<close> here.  The page title
  is part of the state, since every processed response sets it.
\<close>

section \<open>The Thrift client and the page title\<close>

text \<open>\<open>schedulerClient\<close> is the memoised client, named by its number of creation.\<close>

record client =
  cl_schedulerClient :: "nat option"
  cl_created :: nat
  cl_title :: string

definition initial_client :: "string \<Rightarrow> client" where
  "initial_client title = \<lparr>cl_schedulerClient = None, cl_created = 0, cl_title = title\<rparr>"

definition create_client :: "nat \<Rightarrow> client \<Rightarrow> client" where
  "create_client n cl = cl\<lparr>cl_schedulerClient := Some n, cl_created := cl_created cl + 1\<rparr>"

definition getSchedulerClient :: "client \<Rightarrow> nat \<times> client" where
  "getSchedulerClient cl = (case cl_schedulerClient cl of
       None \<Rightarrow> (cl_created cl, create_client (cl_created cl) cl)
     | Some c \<Rightarrow> (c, cl))"

text \<open>\<open>info.error\<close> is not a field of ServerInfo, and an unset \<open>clusterName\<close> is \<open>null\<close>, not
  \<open>undefined\<close>, so that it is printed.\<close>

definition getPageTitle :: "server_info option \<Rightarrow> string" where
  "getPageTitle info = (case info of
       None \<Rightarrow> ''Aurora''
     | Some i \<Rightarrow> ''['' @ (case si_clusterName i of None \<Rightarrow> ''null'' | Some n \<Rightarrow> n) @ ''] '' @ ''Aurora'')"

definition setPageTitle :: "server_info option \<Rightarrow> client \<Rightarrow> client" where
  "setPageTitle serverInfo cl = cl\<lparr>cl_title := getPageTitle serverInfo\<rparr>"

section \<open>Responses\<close>

record 'r call_result =
  cr_error :: string
  cr_statsUrlPrefix :: string
  cr_payload :: 'r

text \<open>\<open>response.message\<close> is \<open>undefined\<close>: Response has no such field.\<close>

definition response_message :: "'r response \<Rightarrow> string option" where
  "response_message response = None"

definition processResponse :: "'r response \<Rightarrow> client \<Rightarrow> (string \<times> string) \<times> client" where
  "processResponse response cl =
     (let error = (if resp_responseCode response \<noteq> 1
            then (case response_message response of
                Some m \<Rightarrow> if m = '''' then ''No error message returned by the scheduler'' else m
              | None \<Rightarrow> ''No error message returned by the scheduler'') else '''');
          statsUrlPrefix = (case resp_serverInfo response of
              Some i \<Rightarrow> (case si_statsUrlPrefix i of Some p \<Rightarrow> p | None \<Rightarrow> '''')
            | None \<Rightarrow> '''')
      in ((error, statsUrlPrefix), setPageTitle (resp_serverInfo response) cl))"

text \<open>\<open>response.result !== null ? response.result.<field>... : empty\<close>; a field of the union that was
  not filled is \<open>null\<close>, and reading through it throws.\<close>

definition payload :: "'r \<Rightarrow> 'r response \<Rightarrow> 'r result" where
  "payload if_null response = (case resp_result response of
       None \<Rightarrow> Inr if_null | Some None \<Rightarrow> Inl TypeError | Some (Some r) \<Rightarrow> Inr r)"

definition callback :: "'r \<Rightarrow> 'r response \<Rightarrow> client \<Rightarrow> 'r call_result result \<times> client" where
  "callback if_null response cl =
     (let (base, cl') = processResponse response cl in
      (res_bind (payload if_null response) (\<lambda>r. Inr
         \<lparr>cr_error = fst base, cr_statsUrlPrefix = snd base, cr_payload = r\<rparr>), cl'))"

section \<open>The calls\<close>

record task_query =
  tq_owner_role :: "string option"
  tq_environment :: "string option"
  tq_jobName :: "string option"

datatype request =
    RoleSummaryReq
  | JobSummaryReq "string option"
  | QuotaReq "string option"
  | TasksStatusReq task_query
  | TasksWithoutConfigsReq task_query
  | PendingReasonReq task_query
  | ConfigSummaryReq job_key
  | JobUpdateSummariesReq job_update_query
  | JobUpdateDetailsReq job_update_key

definition makeJobTaskQuery :: "string option \<Rightarrow> string option \<Rightarrow> string option \<Rightarrow> task_query" where
  "makeJobTaskQuery role environment jobName =
     \<lparr>tq_owner_role = role, tq_environment = environment, tq_jobName = jobName\<rparr>"

text \<open>Sending a request: which client sends it, and the state after.\<close>

definition send :: "request \<Rightarrow> client \<Rightarrow> (nat \<times> request) \<times> client" where
  "send r cl = (let (c, cl') = getSchedulerClient cl in ((c, r), cl'))"

definition getRoleSummary :: "client \<Rightarrow> (nat \<times> request) \<times> client" where
  "getRoleSummary = send RoleSummaryReq"

definition getRoleSummary_callback ::
    "role_summary list response \<Rightarrow> client \<Rightarrow> role_summary list call_result result \<times> client" where
  "getRoleSummary_callback = callback []"

definition getJobSummary :: "string option \<Rightarrow> client \<Rightarrow> (nat \<times> request) \<times> client" where
  "getJobSummary role = send (JobSummaryReq role)"

definition getJobSummary_callback ::
    "job_summary list response \<Rightarrow> client \<Rightarrow> job_summary list call_result result \<times> client" where
  "getJobSummary_callback = callback []"

text \<open>\<open>getQuota\<close> reads one field only: an unfilled result is \<open>null\<close>, a missing one is the empty array.\<close>

record quota_result =
  qr_quota :: "resource_aggregate option"
  qr_prodConsumption :: "resource_aggregate option"
  qr_nonProdConsumption :: "resource_aggregate option"

datatype quota_value = QuotaArray | QuotaNull | Quota quota_result

definition getQuota :: "string option \<Rightarrow> client \<Rightarrow> (nat \<times> request) \<times> client" where
  "getQuota role = send (QuotaReq role)"

definition getQuota_callback ::
    "quota_result response \<Rightarrow> client \<Rightarrow> quota_value call_result result \<times> client" where
  "getQuota_callback response cl =
     (let (base, cl') = processResponse response cl;
          quota = (case resp_result response of
            None \<Rightarrow> QuotaArray | Some None \<Rightarrow> QuotaNull | Some (Some q) \<Rightarrow> Quota q)
      in (Inr \<lparr>cr_error = fst base, cr_statsUrlPrefix = snd base, cr_payload = quota\<rparr>, cl'))"

definition getTasks :: "string option \<Rightarrow> string option \<Rightarrow> string option \<Rightarrow> client \<Rightarrow> (nat \<times> request) \<times> client" where
  "getTasks role environment jobName = send (TasksStatusReq
     \<lparr>tq_owner_role = role, tq_environment = environment, tq_jobName = jobName\<rparr>)"

definition getTasks_callback ::
    "scheduled_task list response \<Rightarrow> client \<Rightarrow> scheduled_task list call_result result \<times> client" where
  "getTasks_callback = callback []"

definition getConfigSummary ::
    "string option \<Rightarrow> string option \<Rightarrow> string option \<Rightarrow> client \<Rightarrow> (nat \<times> request) \<times> client" where
  "getConfigSummary role environment jobName = send (ConfigSummaryReq
     \<lparr>jk_role = role, jk_environment = environment, jk_name = jobName\<rparr>)"

definition getConfigSummary_callback ::
    "config_group list response \<Rightarrow> client \<Rightarrow> config_group list call_result result \<times> client" where
  "getConfigSummary_callback = callback []"

definition getJobUpdateSummaries :: "job_update_query option \<Rightarrow> client \<Rightarrow> (nat \<times> request) \<times> client" where
  "getJobUpdateSummaries query = send (JobUpdateSummariesReq
     (case query of Some q \<Rightarrow> q | None \<Rightarrow> new_JobUpdateQuery))"

definition getJobUpdateSummaries_callback ::
    "job_update_summary list response \<Rightarrow> client \<Rightarrow> job_update_summary list call_result result \<times> client" where
  "getJobUpdateSummaries_callback = callback []"

definition getJobUpdateDetails :: "job_update_key \<Rightarrow> client \<Rightarrow> (nat \<times> request) \<times> client" where
  "getJobUpdateDetails updateKey = send (JobUpdateDetailsReq updateKey)"

text \<open>A null result gives the empty object, whose fields are \<open>undefined\<close>.\<close>

definition empty_details :: job_update_details where
  "empty_details = \<lparr>jud_update = None, jud_instanceEvents = None\<rparr>"

definition getJobUpdateDetails_callback ::
    "job_update_details response \<Rightarrow> client \<Rightarrow> job_update_details call_result result \<times> client" where
  "getJobUpdateDetails_callback = callback empty_details"

section \<open>Tasks with their pending reasons\<close>

text \<open>
  The latest pending event of a task is found in a filtered and sorted copy of \<open>taskEvents\<close>, but it
  is the object in \<open>taskEvents\<close> that is changed; the model carries the event's position along.
\<close>

definition latestPending :: "task_event list \<Rightarrow> (nat \<times> task_event) option" where
  "latestPending evs = us_last (us_sortBy (\<lambda>e. Some (te_timestamp (snd e)))
     (Some (us_filter (\<lambda>e. te_status (snd e) = PENDING) (Some (enumerate 0 evs)))))"

text \<open>The body of \<open>pendingTasks.forEach\<close>; without a pending event \<open>latestPending\<close> is \<open>undefined\<close>.\<close>

definition attach_reason :: "pending_reason obj \<Rightarrow> scheduled_task \<Rightarrow> scheduled_task result" where
  "attach_reason reasons t =
     (case obj_get reasons (at_taskId (st_assignedTask t)) of
        None \<Rightarrow> Inr t
      | Some r \<Rightarrow> (case latestPending (st_taskEvents t) of
            None \<Rightarrow> Inl TypeError
          | Some (i, e) \<Rightarrow> Inr (t\<lparr>st_taskEvents :=
              (st_taskEvents t)[i := e\<lparr>te_message := Some (pr_reason r)\<rparr>]\<rparr>)))"

text \<open>\<open>pendingTasks\<close> shares its elements with \<open>result.tasks\<close>: the loop over it changes those tasks in
  place, so that it is a loop over the tasks that skips the others.\<close>

definition attach_reasons :: "pending_reason list \<Rightarrow> scheduled_task list \<Rightarrow> scheduled_task list result" where
  "attach_reasons reasons tasks =
     (if us_filter (\<lambda>t. st_status t = PENDING) (Some tasks) = [] then Inr tasks
      else res_map (\<lambda>t. if st_status t = PENDING
          then attach_reason (us_indexBy pr_taskId (Some reasons)) t else Inr t) tasks)"

text \<open>The two requests of \<open>getTasksWithoutConfigs\<close> carry the same query.\<close>

definition getTasksWithoutConfigs ::
    "string option \<Rightarrow> string option \<Rightarrow> string option \<Rightarrow> client \<Rightarrow> (nat \<times> request) list \<times> client" where
  "getTasksWithoutConfigs role environment jobName cl =
     (let query = makeJobTaskQuery role environment jobName;
          (r1, cl1) = send (TasksWithoutConfigsReq query) cl;
          (r2, cl2) = send (PendingReasonReq query) cl1
      in ([r1, r2], cl2))"

datatype part = TasksPart "scheduled_task list call_result" | ReasonsPart "pending_reason list"

record tasks_flow =
  tf_all :: "part q_all"
  tf_result :: "scheduled_task list call_result option" \<comment> \<open>the value \<open>deferred\<close> was resolved with\<close>
  tf_client :: client

definition new_flow :: "client \<Rightarrow> tasks_flow" where
  "new_flow cl = \<lparr>tf_all = q_all_new 2, tf_result = None, tf_client = cl\<rparr>"

text \<open>The function passed to \<open>then\<close>; what it throws is swallowed and \<open>deferred\<close> stays pending.\<close>

definition when_both :: "(nat \<times> part) list \<Rightarrow> scheduled_task list call_result option" where
  "when_both responses = (case (map_of responses 0, map_of responses 1) of
       (Some (TasksPart r), Some (ReasonsPart reasons)) \<Rightarrow>
         (case attach_reasons reasons (cr_payload r) of
            Inl e \<Rightarrow> None | Inr ts \<Rightarrow> Some (r\<lparr>cr_payload := ts\<rparr>))
     | _ \<Rightarrow> None)"

definition fulfil_part :: "nat \<Rightarrow> part \<Rightarrow> tasks_flow \<Rightarrow> tasks_flow" where
  "fulfil_part key p st =
     (let a = q_all_fulfil key p (tf_all st) in
      st\<lparr>tf_all := a,
        tf_result := (case (qa_resolved (tf_all st), qa_resolved a) of
            (None, Some responses) \<Rightarrow> when_both responses
          | _ \<Rightarrow> tf_result st)\<rparr>)"

datatype arrival = TasksArrive "scheduled_task list response" | ReasonsArrive "pending_reason list response"

fun arrive :: "arrival \<Rightarrow> tasks_flow \<Rightarrow> tasks_flow" where
  "arrive (TasksArrive rsp) st =
     (case callback [] rsp (tf_client st) of
        (Inl e, cl) \<Rightarrow> st\<lparr>tf_client := cl\<rparr>
      | (Inr result, cl) \<Rightarrow> fulfil_part 0 (TasksPart result) (st\<lparr>tf_client := cl\<rparr>))"
| "arrive (ReasonsArrive rsp) st =
     (case payload [] rsp of Inl e \<Rightarrow> st | Inr reasons \<Rightarrow> fulfil_part 1 (ReasonsPart reasons) st)"

section \<open>The memoised client\<close>

definition put_client :: "nat \<Rightarrow> client \<Rightarrow> client" where
  "put_client n cl = (if cl_schedulerClient cl = None then create_client n cl else cl)"

interpretation memo: write_once put_client cl_schedulerClient
  by unfold_locales (simp_all add: put_client_def create_client_def)

lemma send_put: "snd (send r cl) = put_client (cl_created cl) cl"
  by (simp add: send_def getSchedulerClient_def put_client_def split: option.split)

fun send_all :: "request list \<Rightarrow> client \<Rightarrow> (nat \<times> request) list \<times> client" where
  "send_all [] cl = ([], cl)"
| "send_all (r # rs) cl = (let (s, cl') = send r cl; (ss, cl'') = send_all rs cl' in (s # ss, cl''))"

lemma send_all_memo:
  "cl_schedulerClient cl = Some c \<Longrightarrow> send_all rs cl = (map (\<lambda>r. (c, r)) rs, cl)"
  by (induction rs) (simp_all add: send_def getSchedulerClient_def)

section \<open>The latest pending event\<close>

lemma latestPending_eq:
  "latestPending evs =
     (let ps = sort_key (\<lambda>p. te_timestamp (snd p)) (filter (\<lambda>p. te_status (snd p) = PENDING) (enumerate 0 evs))
      in if ps = [] then None else Some (last ps))"
  by (simp add: latestPending_def us_simps Let_def)

lemma latestPending_None: "latestPending evs = None \<longleftrightarrow> filter (\<lambda>e. te_status e = PENDING) evs = []"
proof -
  let ?fs = "filter (\<lambda>p. te_status (snd p) = PENDING) (enumerate 0 evs)"
  have "latestPending evs = None \<longleftrightarrow> length ?fs = 0"
    unfolding latestPending_eq Let_def length_0_conv [symmetric] by (simp add: length_sort)
  also have "\<dots> \<longleftrightarrow> filter (\<lambda>e. te_status e = PENDING) (map snd (enumerate 0 evs)) = []"
    by (simp only: filter_map comp_def length_0_conv map_is_Nil_conv)
  finally show ?thesis by simp
qed

lemma latestPending_Some:
  assumes "latestPending evs = Some (i, e)"
  shows "i < length evs" "evs ! i = e" "te_status e = PENDING"
    "x \<in> set evs \<Longrightarrow> te_status x = PENDING \<Longrightarrow> te_timestamp x \<le> te_timestamp e"
proof -
  let ?fs = "filter (\<lambda>p. te_status (snd p) = PENDING) (enumerate 0 evs)"
  let ?ps = "sort_key (\<lambda>p. te_timestamp (snd p)) ?fs"
  have l: "?ps \<noteq> []" "last ?ps = (i, e)" using assms by (auto simp: latestPending_eq Let_def split: if_splits)
  then have "(i, e) \<in> set ?ps" by (metis last_in_set)
  then show "i < length evs" "evs ! i = e" "te_status e = PENDING" by (auto simp: in_set_enumerate_eq)
  assume x: "x \<in> set evs" "te_status x = PENDING"
  then obtain j where "j < length evs" "evs ! j = x" by (metis in_set_conv_nth)
  then have "(j, x) \<in> set ?ps" using x(2) by (simp add: in_set_enumerate_eq)
  then have "te_timestamp (snd (j, x)) \<le> te_timestamp (snd (last (filter (\<lambda>_. True) ?ps)))"
    by (intro last_filter_max [where f = "\<lambda>p. te_timestamp (snd p)"]) simp_all
  then show "te_timestamp x \<le> te_timestamp e" using l(2) by simp
qed

text \<open>The reason a task gets, and what getting it does to the task.\<close>

definition reason_of :: "pending_reason list \<Rightarrow> scheduled_task \<Rightarrow> string option" where
  "reason_of reasons t =
     (if st_status t \<noteq> PENDING then None
      else (case filter (\<lambda>r. pr_taskId r = at_taskId (st_assignedTask t)) reasons of
        [] \<Rightarrow> None | rs \<Rightarrow> Some (pr_reason (last rs))))"

definition pending_events :: "scheduled_task \<Rightarrow> task_event list" where
  "pending_events t = filter (\<lambda>e. te_status e = PENDING) (st_taskEvents t)"

definition with_reason :: "string option \<Rightarrow> scheduled_task \<Rightarrow> scheduled_task \<Rightarrow> bool" where
  "with_reason r t t' = (case r of
       None \<Rightarrow> t' = t
     | Some m \<Rightarrow> \<exists>i < length (st_taskEvents t).
         st_taskEvents t ! i \<in> set (pending_events t)
         \<and> te_timestamp (st_taskEvents t ! i) = Max (te_timestamp ` set (pending_events t))
         \<and> t' = t\<lparr>st_taskEvents := (st_taskEvents t)[i := (st_taskEvents t ! i)\<lparr>te_message := Some m\<rparr>]\<rparr>)"

lemma attach_one:
  "case (if st_status t = PENDING then attach_reason (us_indexBy pr_taskId (Some reasons)) t else Inr t) of
     Inl e \<Rightarrow> e = TypeError \<and> reason_of reasons t \<noteq> None \<and> pending_events t = []
   | Inr t' \<Rightarrow> with_reason (reason_of reasons t) t t'
       \<and> (reason_of reasons t = None \<or> pending_events t \<noteq> [])"
proof (cases "reason_of reasons t")
  case None
  then have "st_status t = PENDING \<Longrightarrow> obj_get (us_indexBy pr_taskId (Some reasons)) (at_taskId (st_assignedTask t)) = None"
    by (simp add: us_indexBy_get reason_of_def split: list.splits)
  with None show ?thesis by (simp add: attach_reason_def with_reason_def)
next
  case (Some m)
  then have p: "st_status t = PENDING" by (simp add: reason_of_def split: if_splits)
  then obtain r where r: "obj_get (us_indexBy pr_taskId (Some reasons)) (at_taskId (st_assignedTask t)) = Some r" "pr_reason r = m"
    using Some by (auto simp: us_indexBy_get reason_of_def split: list.splits)
  show ?thesis
  proof (cases "latestPending (st_taskEvents t)")
    case None
    then show ?thesis using Some p r latestPending_None [of "st_taskEvents t"] by (simp add: attach_reason_def pending_events_def)
  next
    case (Some ie)
    then obtain i e where ie: "latestPending (st_taskEvents t) = Some (i, e)" by (cases ie) auto
    note l = latestPending_Some [OF ie]
    have mem: "e \<in> set (pending_events t)" using l(1-3) by (auto simp: pending_events_def)
    have "Max (te_timestamp ` set (pending_events t)) = te_timestamp e"
      using mem l(4) by (intro Max_eqI) (auto simp: pending_events_def)
    then have "with_reason (Some m) t (t\<lparr>st_taskEvents := (st_taskEvents t)[i := e\<lparr>te_message := Some m\<rparr>]\<rparr>)"
      unfolding with_reason_def option.case using l(1,2) mem by (intro exI [of _ i]) simp
    then show ?thesis using \<open>reason_of reasons t = Some m\<close> p r ie mem by (auto simp: attach_reason_def)
  qed
qed

lemma attach_reasons_map:
  "attach_reasons reasons ts = res_map (\<lambda>t. if st_status t = PENDING
     then attach_reason (us_indexBy pr_taskId (Some reasons)) t else Inr t) ts"
proof (cases "filter (\<lambda>t. st_status t = PENDING) ts = []")
  case True
  then have "res_map (\<lambda>t. if st_status t = PENDING
      then attach_reason (us_indexBy pr_taskId (Some reasons)) t else Inr t) ts = Inr (map (\<lambda>t. t) ts)"
    by (intro res_map_Inr) (auto simp: filter_empty_conv)
  with True show ?thesis by (simp add: attach_reasons_def us_simps)
qed (simp add: attach_reasons_def us_simps)

section \<open>Properties\<close>

text \<open>however many requests the pages send, one Thrift client is created, by the first of them, and
  every request goes through it.\<close>

theorem one_scheduler_client:
  "fst (send_all rs (initial_client title)) = map (\<lambda>r. (0, r)) rs
   \<and> cl_created (snd (send_all rs (initial_client title))) = (if rs = [] then 0 else 1)"
  by (cases rs) (simp_all add: initial_client_def send_def getSchedulerClient_def create_client_def send_all_memo)

text \<open>C8: attaching pending reasons changes one message per task and nothing else. It throws exactly
  when a pending task that has a reason has no pending event; otherwise a pending task whose id has
  a reason gets the last reason listed for it as the message of a latest pending event, and every
  other task is as it was.\<close>

theorem attach_reasons_spec:
  "case attach_reasons reasons ts of
     Inl e \<Rightarrow> e = TypeError \<and> list_ex (\<lambda>t. reason_of reasons t \<noteq> None \<and> pending_events t = []) ts
   | Inr ts' \<Rightarrow> list_all2 (\<lambda>t t'. with_reason (reason_of reasons t) t t') ts ts'
       \<and> \<not> list_ex (\<lambda>t. reason_of reasons t \<noteq> None \<and> pending_events t = []) ts"
proof (cases "attach_reasons reasons ts")
  case (Inl e)
  then obtain t where "t \<in> set ts"
    "(if st_status t = PENDING then attach_reason (us_indexBy pr_taskId (Some reasons)) t else Inr t) = Inl e"
    unfolding attach_reasons_map by (blast dest: res_map_Inl_ex)
  with attach_one [of reasons t] have "e = TypeError" "reason_of reasons t \<noteq> None" "pending_events t = []" by simp_all
  with Inl \<open>t \<in> set ts\<close> show ?thesis by (auto simp: list_ex_iff)
next
  case (Inr ts')
  then have "list_all2 (\<lambda>t t'. (if st_status t = PENDING
      then attach_reason (us_indexBy pr_taskId (Some reasons)) t else Inr t) = Inr t') ts ts'"
    unfolding attach_reasons_map res_map_Inr_all2 .
  then have "list_all2 (\<lambda>t t'. with_reason (reason_of reasons t) t t' \<and> (reason_of reasons t = None \<or> pending_events t \<noteq> [])) ts ts'"
  proof (rule list_all2_mono)
    fix t t' assume "(if st_status t = PENDING
      then attach_reason (us_indexBy pr_taskId (Some reasons)) t else Inr t) = Inr t'"
    then show "with_reason (reason_of reasons t) t t' \<and> (reason_of reasons t = None \<or> pending_events t \<noteq> [])"
      using attach_one [of reasons t] by simp
  qed
  then have "list_all2 (\<lambda>t t'. with_reason (reason_of reasons t) t t') ts ts'"
      "\<not> list_ex (\<lambda>t. reason_of reasons t \<noteq> None \<and> pending_events t = []) ts"
    by (auto simp: list_all2_conv_all_nth list_ex_length)
  with Inr show ?thesis by simp
qed

text \<open>C1: \<open>getTasksWithoutConfigs\<close> does not depend on which of its two responses arrives first: the value
  it resolves with, if any, and the page title are the same, one response alone resolves nothing,
  and the value is the list of tasks with the reasons attached.\<close>

theorem getTasksWithoutConfigs_order:
  "tf_result (arrive (TasksArrive r) (new_flow cl)) = None
   \<and> tf_result (arrive (ReasonsArrive p) (new_flow cl)) = None
   \<and> tf_result (arrive (TasksArrive r) (arrive (ReasonsArrive p) (new_flow cl)))
      = tf_result (arrive (ReasonsArrive p) (arrive (TasksArrive r) (new_flow cl)))
   \<and> tf_client (arrive (TasksArrive r) (arrive (ReasonsArrive p) (new_flow cl)))
      = tf_client (arrive (ReasonsArrive p) (arrive (TasksArrive r) (new_flow cl)))
   \<and> tf_result (arrive (ReasonsArrive p) (arrive (TasksArrive r) (new_flow cl))) =
      (case (fst (callback [] r cl), payload [] p) of
         (Inr res, Inr reasons) \<Rightarrow> (case attach_reasons reasons (cr_payload res) of
             Inl e \<Rightarrow> None | Inr ts \<Rightarrow> Some (res\<lparr>cr_payload := ts\<rparr>))
       | _ \<Rightarrow> None)"
proof -
  obtain x cl' where c: "callback [] r cl = (x, cl')" by force
  show ?thesis
    by (cases x; cases "payload [] p")
      (simp_all add: c new_flow_def fulfil_part_def q_all_new_def q_all_fulfil_def Let_def when_both_def)
qed

end
