(* ===== verification/CronSummary.thy ===== *)
theory CronSummary
  imports AuroraClient
begin

text \<open>
  The \<open>cronJobSummaryService\<close> of \<open>services.js\<close> and its controller.  The service resolves its deferred
  with an error and then goes on to resolve it again: that the first value wins is what makes the
  error visible.  The date filters of the controller are arguments.
\<close>

record cron_summary =
  cs_tasks :: int
  cs_schedule :: "string option"
  cs_nextCronRun :: "int option"
  cs_collisionPolicy :: "string option"
  cs_metadata :: string

text \<open>What the deferred is resolved with: \<open>{error, cronJobSummary}\<close>.\<close>

record cron_result =
  crr_error :: string
  crr_summary :: "cron_summary option"

definition getMetadata :: "metadata_entry list option \<Rightarrow> string" where
  "getMetadata attributes = join '', '' (us_map (\<lambda>a. md_key a @ '': '' @ md_value a) attributes)"

text \<open>A \<open>null\<close> policy and 0 are both falsy.\<close>

definition getCronCollisionPolicy :: "int option \<Rightarrow> string option" where
  "getCronCollisionPolicy cronCollisionPolicy =
     (let i = (case cronCollisionPolicy of None \<Rightarrow> 0 | Some p \<Rightarrow> p); keys = obj_keys CronCollisionPolicy in
      if 0 \<le> i \<and> nat i < length keys then Some (keys ! nat i) else None)"

definition cron_matches :: "string option \<Rightarrow> string option \<Rightarrow> job_summary \<Rightarrow> bool" where
  "cron_matches env jobName summary =
     (let job = jsum_job summary in
      jc_cronSchedule job \<noteq> None \<and> Some (jc_key_environment job) = env
      \<and> Some (cfg_jobName (jc_taskConfig job)) = jobName)"

definition summarize_cron :: "job_summary \<Rightarrow> cron_summary" where
  "summarize_cron summary =
     \<lparr>cs_tasks = jc_instanceCount (jsum_job summary),
      cs_schedule = jc_cronSchedule (jsum_job summary),
      cs_nextCronRun = jsum_nextCronRunMs summary,
      cs_collisionPolicy = getCronCollisionPolicy (jc_cronCollisionPolicy (jsum_job summary)),
      cs_metadata = getMetadata (cfg_metadata (jc_taskConfig (jsum_job summary)))\<rparr>"

text \<open>The callback of \<open>getJobSummary\<close>: both resolves, in order.\<close>

definition getCronJobSummary_then :: "string option \<Rightarrow> string option \<Rightarrow> job_summary list call_result
    \<Rightarrow> (cron_result, 'k) deferred \<Rightarrow> (cron_result, 'k) deferred \<times> ('k \<times> cron_result) list" where
  "getCronJobSummary_then env jobName summaries deferred =
     (let (d1, calls1) = (if cr_error summaries \<noteq> ''''
            then resolve \<lparr>crr_error = ''Failed to fetch cron schedule from scheduler.'', crr_summary = None\<rparr> deferred
            else (deferred, []));
          cronJobSummary = us_last (us_map summarize_cron
            (Some (us_filter (cron_matches env jobName) (Some (cr_payload summaries)))));
          (d2, calls2) = resolve \<lparr>crr_error = '''', crr_summary = cronJobSummary\<rparr> d1
      in (d2, calls1 @ calls2))"

section \<open>The controller\<close>

record cron_view =
  cv_tasks :: int
  cv_schedule :: "string option"
  cv_nextCronRun :: string
  cv_collisionPolicy :: "string option"
  cv_metadata :: string

record cron_scope =
  cron_error :: string
  cron_rows :: "cron_view list"

definition CronJobSummaryController_init :: cron_scope where
  "CronJobSummaryController_init = \<lparr>cron_error = '''', cron_rows = []\<rparr>"

definition CronJobSummaryController_then ::
    "(int option \<Rightarrow> string) \<Rightarrow> (int option \<Rightarrow> string) \<Rightarrow> cron_result \<Rightarrow> cron_scope \<Rightarrow> cron_scope" where
  "CronJobSummaryController_then toLocalTime toUtcTime r scope =
     (if crr_error r \<noteq> '''' then scope\<lparr>cron_error := ''Error fetching cron job summary: '' @ crr_error r\<rparr>
      else (case crr_summary r of
          None \<Rightarrow> scope
        | Some s \<Rightarrow> scope\<lparr>cron_rows := [\<lparr>cv_tasks = cs_tasks s, cv_schedule = cs_schedule s,
              cv_nextCronRun = toLocalTime (cs_nextCronRun s) @ '', '' @ toUtcTime (cs_nextCronRun s),
              cv_collisionPolicy = cs_collisionPolicy s, cv_metadata = cs_metadata s\<rparr>]\<rparr>))"

section \<open>Properties\<close>

lemma us_last_map_filter:
  "us_last (map f (filter P xs)) = (if filter P xs = [] then None else Some (f (last (filter P xs))))"
  by (simp add: us_simps last_map)

text \<open>the summary page of a cron job shows the fixed error when the call failed, whatever jobs the
  failed call carries; otherwise it shows one row for the last job of the role with this name and
  environment and a schedule, or no row when there is none. Each callback runs once.\<close>

theorem cron_summary_outcome:
  "let d = getCronJobSummary_then env jobName rsp (fst (promise_then k defer_new));
       jobs = filter (cron_matches env jobName) (cr_payload rsp) in
     settled (fst d) = Some (if cr_error rsp = ''''
         then \<lparr>crr_error = '''', crr_summary = (if jobs = [] then None else Some (summarize_cron (last jobs)))\<rparr>
         else \<lparr>crr_error = ''Failed to fetch cron schedule from scheduler.'', crr_summary = None\<rparr>)
     \<and> snd d = [(k, the (settled (fst d)))]
     \<and> length (cron_rows (CronJobSummaryController_then fmtl fmtu (the (settled (fst d))) CronJobSummaryController_init))
        = (if cr_error rsp = '''' \<and> jobs \<noteq> [] then 1 else 0)"
  by (simp add: getCronJobSummary_then_def promise_then_def defer_new_def resolve_def settled_def Let_def
      us_simps us_last_map_filter CronJobSummaryController_then_def CronJobSummaryController_init_def)

text \<open>the collision policy shown is the name of the constant, a missing policy is shown as
  \<open>KILL_EXISTING\<close>, the default, and an unknown one as nothing: reading the list of keys by
  position is right because the constants are numbered in the order of their declaration.\<close>

theorem collision_policy_name:
  "getCronCollisionPolicy p =
     map_option fst (find (\<lambda>e. snd e = (case p of None \<Rightarrow> 0 | Some i \<Rightarrow> i)) CronCollisionPolicy)"
proof -
  have keys: "obj_keys CronCollisionPolicy = [''KILL_EXISTING'', ''CANCEL_NEW'', ''RUN_OVERLAP'']" by code_simp
  define i where "i = (case p of None \<Rightarrow> 0 | Some i \<Rightarrow> i)"
  consider "i < 0" | "i = 0" | "i = 1" | "i = 2" | "2 < i" by linarith
  then show ?thesis
    unfolding getCronCollisionPolicy_def keys Let_def i_def [symmetric]
    by cases (simp_all add: CronCollisionPolicy_def numeral_2_eq_2 nat_less_iff)
qed

end
