(* ===== verification/UpdateUtil.thy ===== *)
theory UpdateUtil
  imports Api Underscore
begin

text \<open>
  The \<open>updateUtil\<close> service of \<open>services.js\<close>: classification of update and instance states, the
  instance ids an update touches, the latest event per instance, the per-instance summary and the
  progress figures of an update.
\<close>

section \<open>Constant sets\<close>

definition toSet :: "int list \<Rightarrow> bool obj" where
  "toSet values = foldl (\<lambda>tmp key. obj_set (string_of_int key) True tmp) [] values"

definition UPDATE_TERMINAL_STATUSES :: "int list" where
  "UPDATE_TERMINAL_STATUSES = [ROLLED_FORWARD, ROLLED_BACK, ABORTED, ERROR, FAILED]"

definition UPDATE_TERMINAL :: "bool obj" where
  "UPDATE_TERMINAL = toSet UPDATE_TERMINAL_STATUSES"

definition INSTANCE_SUCCESSFUL :: "bool obj" where
  "INSTANCE_SUCCESSFUL = toSet [INSTANCE_UPDATED]"

definition INSTANCE_TERMINAL :: "bool obj" where
  "INSTANCE_TERMINAL = toSet [INSTANCE_UPDATED, INSTANCE_ROLLED_BACK, INSTANCE_UPDATE_FAILED,
     INSTANCE_ROLLBACK_FAILED]"

definition instanceActionLookup :: "string obj" where
  "instanceActionLookup = us_invert JobUpdateAction"

section \<open>Operations\<close>

definition isTerminal :: "int \<Rightarrow> bool" where
  "isTerminal status = obj_has UPDATE_TERMINAL (string_of_int status)"

definition isInProgress :: "int \<Rightarrow> bool" where
  "isInProgress status = (\<not> isTerminal status)"

definition isInstanceSuccessful :: "int \<Rightarrow> bool" where
  "isInstanceSuccessful action = obj_has INSTANCE_SUCCESSFUL (string_of_int action)"

definition isInstanceTerminal :: "int \<Rightarrow> bool" where
  "isInstanceTerminal action = obj_has INSTANCE_TERMINAL (string_of_int action)"

definition instanceCountFromRanges :: "id_range list \<Rightarrow> int" where
  "instanceCountFromRanges ranges =
     foldl (\<lambda>instanceCount r. instanceCount + (r_last r - r_first r + 1)) 0 ranges"

definition getStatusQuery :: "int list \<Rightarrow> job_update_query" where
  "getStatusQuery statuses = new_JobUpdateQuery\<lparr>juq_updateStatuses := Some statuses\<rparr>"

definition getTerminalQuery :: job_update_query where
  "getTerminalQuery = getStatusQuery UPDATE_TERMINAL_STATUSES"

definition getInProgressQuery :: job_update_query where
  "getInProgressQuery = getStatusQuery ACTIVE_JOB_UPDATE_STATES"

definition instanceCountFromConfigs :: "instance_task_config list \<Rightarrow> int" where
  "instanceCountFromConfigs configs = instanceCountFromRanges
     (foldl (\<lambda>flattened c. foldl (\<lambda>acc r. acc @ [r]) flattened (itc_instances c)) [] configs)"

text \<open>\<open>displayClassForInstanceStatus\<close> throws a \<open>TypeError\<close> on an action the lookup does not know.\<close>

definition displayClassForInstanceStatus :: "int \<Rightarrow> string result" where
  "displayClassForInstanceStatus action =
     (case obj_get instanceActionLookup (string_of_int action) of
        None \<Rightarrow> Inl TypeError
      | Some s \<Rightarrow> Inr (replace_all (CHR ''_'') ''-'' (to_lower s)))"

text \<open>\<open>processInstanceIdsFromRanges(ranges, cb)\<close>, with the state \<open>cb\<close> mutates made explicit.\<close>

function ids_loop :: "int \<Rightarrow> int \<Rightarrow> (int \<Rightarrow> 's \<Rightarrow> 's) \<Rightarrow> 's \<Rightarrow> 's" where
  "ids_loop i hi cb s = (if i \<le> hi then ids_loop (i + 1) hi cb (cb i s) else s)"
  by pat_completeness auto
termination
  by (relation "measure (\<lambda>(i, hi, cb, s). nat (hi + 1 - i))") auto

declare ids_loop.simps [simp del]

definition processInstanceIdsFromRanges :: "id_range list \<Rightarrow> (int \<Rightarrow> 's \<Rightarrow> 's) \<Rightarrow> 's \<Rightarrow> 's" where
  "processInstanceIdsFromRanges ranges cb s =
     foldl (\<lambda>s r. ids_loop (r_first r) (r_last r) cb s) s ranges"

record instance_ids =
  allIds :: "bool obj"
  newIds :: "bool obj"
  oldIds :: "bool obj"

definition addNewId :: "int \<Rightarrow> instance_ids \<Rightarrow> instance_ids" where
  "addNewId i s = s\<lparr>newIds := obj_set (string_of_int i) True (newIds s),
                    allIds := obj_set (string_of_int i) True (allIds s)\<rparr>"

definition addOldId :: "int \<Rightarrow> instance_ids \<Rightarrow> instance_ids" where
  "addOldId i s = s\<lparr>oldIds := obj_set (string_of_int i) True (oldIds s),
                    allIds := obj_set (string_of_int i) True (allIds s)\<rparr>"

text \<open>\<open>update.instructions.desiredState.instances\<close> is read without a test: without a desired state it throws.\<close>

definition getAllInstanceIds :: "job_update \<Rightarrow> instance_ids result" where
  "getAllInstanceIds update =
     (case ui_desiredState (ju_instructions update) of
        None \<Rightarrow> Inl TypeError
      | Some desiredState \<Rightarrow>
         (let s1 = processInstanceIdsFromRanges (itc_instances desiredState)
                     addNewId \<lparr>allIds = [], newIds = [], oldIds = []\<rparr>
          in Inr (foldl (\<lambda>s c. processInstanceIdsFromRanges (itc_instances c) addOldId s) s1
               (ui_initialState (ju_instructions update)))))"

text \<open>The loop of \<open>getLatestInstanceEvents\<close>, from the last sorted event down to the first.\<close>

fun latest_loop :: "instance_event list \<Rightarrow> (instance_event \<Rightarrow> bool) \<Rightarrow> nat
    \<Rightarrow> instance_event obj \<Rightarrow> instance_event obj" where
  "latest_loop events condition 0 m = m"
| "latest_loop events condition (Suc i) m =
     (let e = events ! i in
      latest_loop events condition i
        (if \<not> obj_has m (string_of_int (ie_instanceId e)) \<and> condition e
         then obj_set (string_of_int (ie_instanceId e)) e m else m))"

definition getLatestInstanceEvents ::
    "instance_event list option \<Rightarrow> (instance_event \<Rightarrow> bool) option \<Rightarrow> instance_event obj" where
  "getLatestInstanceEvents instanceEvents condition =
     (let events = us_sortBy (\<lambda>e. Some (ie_timestampMs e)) instanceEvents;
          c = (case condition of None \<Rightarrow> (\<lambda>_. True) | Some c \<Rightarrow> c)
      in latest_loop events c (length events) [])"

definition progressFromEvents :: "instance_event list option \<Rightarrow> nat" where
  "progressFromEvents instanceEvents =
     length (obj_keys (getLatestInstanceEvents instanceEvents
       (Some (\<lambda>e. isInstanceSuccessful (ie_action e)))))"

record instance_summary =
  is_instanceId :: string
  is_className :: string
  is_event :: "instance_event option"

definition summarizeInstance ::
    "instance_event obj \<Rightarrow> instance_ids \<Rightarrow> string \<Rightarrow> instance_summary result" where
  "summarizeInstance instanceMap allInstances i =
     (case obj_get instanceMap i of
        Some event \<Rightarrow>
          if isInstanceSuccessful (ie_action event) \<and> obj_has (oldIds allInstances) i
             \<and> \<not> obj_has (newIds allInstances) i
          then Inr \<lparr>is_instanceId = i, is_className = ''instance-removed'', is_event = None\<rparr>
          else res_bind (displayClassForInstanceStatus (ie_action event)) (\<lambda>className.
            Inr \<lparr>is_instanceId = i, is_className = className, is_event = Some event\<rparr>)
      | None \<Rightarrow> Inr \<lparr>is_instanceId = i, is_className = ''pending'', is_event = None\<rparr>)"

text \<open>\<open>details.update\<close> is read without a test: a details object without it throws.\<close>

definition fillInstanceSummary :: "job_update_details \<Rightarrow> instance_summary list result" where
  "fillInstanceSummary details =
     (let instanceMap = getLatestInstanceEvents (jud_instanceEvents details) None in
      case jud_update details of
        None \<Rightarrow> Inl TypeError
      | Some update \<Rightarrow>
          res_bind (getAllInstanceIds update) (\<lambda>allInstances.
            res_map (summarizeInstance instanceMap allInstances) (obj_keys (allIds allInstances))))"

record update_stats =
  totalInstancesToBeUpdated :: nat
  instancesUpdatedSoFar :: nat
  progress :: num

text \<open>\<open>Inr None\<close> is the empty object returned when there are no details yet.\<close>

definition getUpdateStats :: "job_update_details option \<Rightarrow> update_stats option result" where
  "getUpdateStats details =
     (case details of None \<Rightarrow> Inr None
      | Some d \<Rightarrow> (case jud_update d of None \<Rightarrow> Inr None
        | Some update \<Rightarrow> res_bind (getAllInstanceIds update) (\<lambda>allInstances.
           (let total = length (obj_keys (allIds allInstances));
                updated = progressFromEvents (jud_instanceEvents d)
            in Inr (Some \<lparr>totalInstancesToBeUpdated = total, instancesUpdatedSoFar = updated,
                 progress = js_round (js_mul (js_div (Fin (of_nat updated)) (Fin (of_nat total)))
                   (Fin 100))\<rparr>)))))"

section \<open>Key sets\<close>

lemma toSet_has: "obj_has (toSet vs) (string_of_int k) \<longleftrightarrow> k \<in> set vs"
  using od.fold_insert_dom [of string_of_int "\<lambda>_. True" "[]" vs "string_of_int k"]
  by (auto simp: toSet_def obj_has_def obj_get_empty)

lemma toSet_has_iff: "obj_has (toSet vs) k \<longleftrightarrow> k \<in> string_of_int ` set vs"
  using od.fold_insert_dom [of string_of_int "\<lambda>_. True" "[]" vs k]
  by (auto simp: toSet_def obj_has_def obj_get_empty)

lemma toSet_wf: "obj_wf (toSet vs)"
  unfolding toSet_def by (rule od.fold_insert_ok) (rule obj_wf_empty)

definition index_range :: "int \<Rightarrow> bool" where
  "index_range i \<longleftrightarrow> 0 \<le> i \<and> i < 4294967295"

lemma is_index_int: "index_range i \<Longrightarrow> is_index (string_of_int i)"
  by (simp add: index_range_def string_of_int_nat nat_less_iff)

lemma digits_int: "index_range i \<Longrightarrow> int (nat_of_digits (string_of_int i)) = i"
  by (simp add: index_range_def string_of_int_nat)

lemma toSet_index: "list_all index_range vs \<Longrightarrow> \<forall>p \<in> set (toSet vs). is_index (fst p)"
  unfolding toSet_def by (rule fold_obj_set_all) (auto simp: list_all_iff is_index_int)

text \<open>The keys of a set of instance ids, in the order \<open>Object.keys\<close> gives them.\<close>

lemma toSet_keys:
  assumes "list_all index_range vs"
  shows "obj_keys (toSet vs) = map string_of_int (sorted_list_of_set (set vs))"
proof -
  let ?ks = "obj_keys (toSet vs)" and ?f = "\<lambda>k. int (nat_of_digits k)"
  have ks: "set ?ks = string_of_int ` set vs"
    by (auto simp: obj_keys_has toSet_has_iff)
  have inv: "\<forall>k \<in> set ?ks. string_of_int (?f k) = k"
    using assms by (auto simp: ks list_all_iff digits_int)
  have "sorted (map nat_of_digits ?ks)"
    by (rule obj_keys_sorted) (rule toSet_index [OF assms])
  then have "sorted (map ?f ?ks)" by (simp add: sorted_map)
  moreover have "distinct (map ?f ?ks)"
    using inv obj_keys_distinct [OF toSet_wf, of vs] unfolding distinct_map inj_on_def by metis
  moreover have "set (map ?f ?ks) = set vs"
    using assms by (force simp: ks list_all_iff digits_int image_image)
  ultimately have "map ?f ?ks = sorted_list_of_set (set vs)"
    by (metis sorted_list_of_set.idem_if_sorted_distinct)
  then have "map string_of_int (sorted_list_of_set (set vs)) = map (\<lambda>k. string_of_int (?f k)) ?ks"
    by (simp add: comp_def flip: \<open>map ?f ?ks = sorted_list_of_set (set vs)\<close>)
  also have "\<dots> = ?ks" using inv by (simp add: map_idI)
  finally show ?thesis by simp
qed

section \<open>Classification of states\<close>

lemma isTerminal_iff: "isTerminal s \<longleftrightarrow> s \<in> {4, 5, 6, 7, 8}"
  by (simp add: isTerminal_def UPDATE_TERMINAL_def toSet_has UPDATE_TERMINAL_STATUSES_def api_simps)

lemma isInstanceSuccessful_iff: "isInstanceSuccessful a \<longleftrightarrow> a = 1"
  by (simp add: isInstanceSuccessful_def INSTANCE_SUCCESSFUL_def toSet_has api_simps)

lemma isInstanceTerminal_iff: "isInstanceTerminal a \<longleftrightarrow> a \<in> {1, 2, 5, 6}"
  by (simp add: isInstanceTerminal_def INSTANCE_TERMINAL_def toSet_has api_simps)

section \<open>Instance ids\<close>

definition ids_of :: "id_range list \<Rightarrow> int list" where
  "ids_of ranges = concat (map (\<lambda>r. [r_first r .. r_last r]) ranges)"

definition desires :: "job_update \<Rightarrow> bool" where
  "desires u \<longleftrightarrow> ui_desiredState (ju_instructions u) \<noteq> None"

definition new_instance_ids :: "job_update \<Rightarrow> int list" where
  "new_instance_ids u = (case ui_desiredState (ju_instructions u) of None \<Rightarrow> [] | Some c \<Rightarrow> ids_of (itc_instances c))"

definition old_instance_ids :: "job_update \<Rightarrow> int list" where
  "old_instance_ids u = concat (map (\<lambda>c. ids_of (itc_instances c)) (ui_initialState (ju_instructions u)))"

lemma ids_loop_foldl: "ids_loop i hi cb s = foldl (\<lambda>s j. cb j s) s [i .. hi]"
proof (induction i hi cb s rule: ids_loop.induct)
  case (1 i hi cb s)
  then show ?case by (cases "i \<le> hi") (simp_all add: ids_loop.simps [of i hi cb s] upto_rec1)
qed

lemma process_foldl:
  "processInstanceIdsFromRanges ranges cb s = foldl (\<lambda>s j. cb j s) s (ids_of ranges)"
  unfolding processInstanceIdsFromRanges_def ids_of_def
  by (induction ranges arbitrary: s) (simp_all add: ids_loop_foldl)

lemma toSet_snoc: "obj_set (string_of_int i) True (toSet vs) = toSet (vs @ [i])"
  by (simp add: toSet_def)

lemma fold_addNewId:
  "foldl (\<lambda>s i. addNewId i s) \<lparr>allIds = toSet a, newIds = toSet n, oldIds = o'\<rparr> ws
     = \<lparr>allIds = toSet (a @ ws), newIds = toSet (n @ ws), oldIds = o'\<rparr>"
  by (induction ws arbitrary: a n) (simp_all add: addNewId_def toSet_snoc)

lemma fold_addOldId:
  "foldl (\<lambda>s i. addOldId i s) \<lparr>allIds = toSet a, newIds = n, oldIds = toSet b\<rparr> ws
     = \<lparr>allIds = toSet (a @ ws), newIds = n, oldIds = toSet (b @ ws)\<rparr>"
  by (induction ws arbitrary: a b) (simp_all add: addOldId_def toSet_snoc)

lemma fold_addOldId_configs:
  "foldl (\<lambda>s c. foldl (\<lambda>s i. addOldId i s) s (f c)) \<lparr>allIds = toSet a, newIds = n, oldIds = toSet b\<rparr> cs
     = \<lparr>allIds = toSet (a @ concat (map f cs)), newIds = n, oldIds = toSet (b @ concat (map f cs))\<rparr>"
  by (induction cs arbitrary: a b) (simp_all add: fold_addOldId)

definition instance_sets :: "job_update \<Rightarrow> instance_ids" where
  "instance_sets u = \<lparr>allIds = toSet (new_instance_ids u @ old_instance_ids u),
     newIds = toSet (new_instance_ids u), oldIds = toSet (old_instance_ids u)\<rparr>"

lemma getAllInstanceIds_eq: "getAllInstanceIds u = (if desires u then Inr (instance_sets u) else Inl TypeError)"
proof (cases "ui_desiredState (ju_instructions u)")
  case (Some c)
  have nil: "([] :: bool obj) = toSet []" by (simp add: toSet_def)
  have "getAllInstanceIds u = Inr (foldl (\<lambda>s c. processInstanceIdsFromRanges (itc_instances c) addOldId s)
      (processInstanceIdsFromRanges (itc_instances c) addNewId \<lparr>allIds = [], newIds = [], oldIds = []\<rparr>)
      (ui_initialState (ju_instructions u)))"
    by (simp add: getAllInstanceIds_def Some)
  then show ?thesis
    unfolding process_foldl nil fold_addNewId
    by (simp add: fold_addOldId_configs new_instance_ids_def old_instance_ids_def instance_sets_def desires_def Some)
qed (simp add: getAllInstanceIds_def desires_def)

lemma instanceCountFromRanges_sum:
  "instanceCountFromRanges rs = sum_list (map (\<lambda>r. r_last r - r_first r + 1) rs)"
proof -
  have "foldl (\<lambda>n r. n + (r_last r - r_first r + 1)) k rs
      = k + sum_list (map (\<lambda>r. r_last r - r_first r + 1) rs)" for k
    by (induction rs arbitrary: k) auto
  then show ?thesis by (simp add: instanceCountFromRanges_def)
qed

text \<open>A range is well formed when it is not inverted by more than one.\<close>

definition range_ok :: "id_range \<Rightarrow> bool" where
  "range_ok r \<longleftrightarrow> r_first r \<le> r_last r + 1"

lemma instanceCount_length: "list_all range_ok rs \<Longrightarrow> instanceCountFromRanges rs = int (length (ids_of rs))"
  unfolding instanceCountFromRanges_sum ids_of_def
  by (induction rs) (auto simp: range_ok_def)

lemma instanceCountFromConfigs_concat:
  "instanceCountFromConfigs cs = instanceCountFromRanges (concat (map itc_instances cs))"
proof -
  have "foldl (\<lambda>acc c. foldl (\<lambda>acc r. acc @ [r]) acc (itc_instances c)) a cs
      = a @ concat (map itc_instances cs)" for a
    by (induction cs arbitrary: a) (simp_all add: foldl_snoc_id)
  then show ?thesis by (simp add: instanceCountFromConfigs_def)
qed

section \<open>Latest events\<close>

definition event_key :: "instance_event \<Rightarrow> string" where
  "event_key e = string_of_int (ie_instanceId e)"

lemma latest_loop_foldl:
  "n \<le> length events \<Longrightarrow> latest_loop events c n m =
     foldl (\<lambda>d e. if obj_get d (event_key e) = None \<and> c e then obj_set (event_key e) e d else d) m
       (rev (take n events))"
proof (induction n arbitrary: m)
  case (Suc n)
  then show ?case
    by (simp add: take_Suc_conv_app_nth Let_def obj_has_def event_key_def)
qed simp

lemma getLatest_get:
  "obj_get (getLatestInstanceEvents (Some evs) (Some c)) k =
     (case filter (\<lambda>e. event_key e = k \<and> c e) (rev (sort_key ie_timestampMs evs)) of
        [] \<Rightarrow> None | e # _ \<Rightarrow> Some e)"
proof -
  have "getLatestInstanceEvents (Some evs) (Some c) =
      foldl (\<lambda>d e. if obj_get d (event_key e) = None \<and> c e then obj_set (event_key e) e d else d) []
        (rev (sort_key ie_timestampMs evs))"
    by (simp add: getLatestInstanceEvents_def us_simps latest_loop_foldl)
  then show ?thesis
    using od.fold_insert_new_lookup [of event_key c "\<lambda>e. e" "[]" "rev (sort_key ie_timestampMs evs)" k]
    by (simp add: obj_get_empty)
qed

lemma getLatest_default:
  "getLatestInstanceEvents evs None = getLatestInstanceEvents evs (Some (\<lambda>_. True))"
  by (simp add: getLatestInstanceEvents_def)

lemma getLatest_wf: "obj_wf (getLatestInstanceEvents evs c)"
proof -
  have "obj_wf (latest_loop events d n m)" if "obj_wf m" for events d n m
    using that by (induction events d n m rule: latest_loop.induct) (auto simp: Let_def obj_wf_set)
  then show ?thesis by (simp add: getLatestInstanceEvents_def Let_def obj_wf_empty)
qed

lemma filter_rev_hd: "filter P (rev xs) = e # es \<Longrightarrow> filter P xs \<noteq> [] \<and> e = last (filter P xs)"
  by (metis list.distinct(1) rev_filter rev_is_Nil_conv last_rev list.sel(1) rev_rev_ident hd_rev)

lemma getLatest_Some:
  assumes "obj_get (getLatestInstanceEvents (Some evs) (Some c)) (string_of_int i) = Some e"
  shows "e \<in> set evs \<and> ie_instanceId e = i \<and> c e
    \<and> (\<forall>e' \<in> set evs. ie_instanceId e' = i \<and> c e' \<longrightarrow> ie_timestampMs e' \<le> ie_timestampMs e)"
proof -
  let ?P = "\<lambda>e. event_key e = string_of_int i \<and> c e" and ?s = "sort_key ie_timestampMs evs"
  obtain es where "filter ?P (rev ?s) = e # es"
    using assms unfolding getLatest_get by (auto split: list.splits)
  note h = filter_rev_hd [OF this]
  then have ne: "filter ?P ?s \<noteq> []" and e: "e = last (filter ?P ?s)" by blast+
  have "?P e" "e \<in> set ?s" using filter_last_last [OF ne] e by auto
  moreover have "ie_timestampMs e' \<le> ie_timestampMs e" if "e' \<in> set evs" "?P e'" for e'
    unfolding e by (rule last_filter_max) (use that in auto)
  ultimately show ?thesis by (auto simp: event_key_def)
qed

lemma getLatest_None:
  "obj_get (getLatestInstanceEvents (Some evs) (Some c)) (string_of_int i) = None
     \<longleftrightarrow> (\<forall>e \<in> set evs. ie_instanceId e = i \<longrightarrow> \<not> c e)"
proof -
  have "obj_get (getLatestInstanceEvents (Some evs) (Some c)) (string_of_int i) = None
     \<longleftrightarrow> filter (\<lambda>e. event_key e = string_of_int i \<and> c e) (rev (sort_key ie_timestampMs evs)) = []"
    unfolding getLatest_get by (simp split: list.split)
  also have "\<dots> \<longleftrightarrow> (\<forall>e \<in> set evs. ie_instanceId e = i \<longrightarrow> \<not> c e)"
    by (auto simp: filter_empty_conv event_key_def)
  finally show ?thesis .
qed

text \<open>The keys are exactly the ids of the events that pass the test.\<close>

lemma getLatest_keys:
  "{k. obj_get (getLatestInstanceEvents (Some evs) (Some c)) k \<noteq> None}
     = string_of_int ` {ie_instanceId e | e. e \<in> set evs \<and> c e}"
proof -
  have "obj_get (getLatestInstanceEvents (Some evs) (Some c)) k \<noteq> None
     \<longleftrightarrow> (\<exists>e \<in> set evs. c e \<and> event_key e = k)" for k
  proof -
    have "obj_get (getLatestInstanceEvents (Some evs) (Some c)) k \<noteq> None
       \<longleftrightarrow> filter (\<lambda>e. event_key e = k \<and> c e) (rev (sort_key ie_timestampMs evs)) \<noteq> []"
      unfolding getLatest_get by (simp split: list.split)
    then show ?thesis by (auto simp: filter_empty_conv)
  qed
  then show ?thesis by (auto simp: event_key_def)
qed

lemma getLatest_size:
  "length (obj_keys (getLatestInstanceEvents (Some evs) (Some c)))
     = card {ie_instanceId e | e. e \<in> set evs \<and> c e}"
proof -
  have "inj_on string_of_int A" for A by (rule inj_onI) simp
  then show ?thesis
    unfolding od.keys_card [OF getLatest_wf] getLatest_keys by (rule card_image)
qed

section \<open>Display classes and the summary\<close>

lemma instanceActionLookup_eq:
  "instanceActionLookup = [(''1'', ''INSTANCE_UPDATED''), (''2'', ''INSTANCE_ROLLED_BACK''),
     (''3'', ''INSTANCE_UPDATING''), (''4'', ''INSTANCE_ROLLING_BACK''),
     (''5'', ''INSTANCE_UPDATE_FAILED''), (''6'', ''INSTANCE_ROLLBACK_FAILED'')]"
  by code_simp

definition known_action :: "int \<Rightarrow> bool" where
  "known_action a \<longleftrightarrow> 1 \<le> a \<and> a \<le> 6"

definition action_class :: "int \<Rightarrow> string" where
  "action_class a = (if a = 1 then ''instance-updated'' else if a = 2 then ''instance-rolled-back''
     else if a = 3 then ''instance-updating'' else if a = 4 then ''instance-rolling-back''
     else if a = 5 then ''instance-update-failed'' else ''instance-rollback-failed'')"

lemma string_of_small: "string_of_int 1 = ''1''" "string_of_int 2 = ''2''" "string_of_int 3 = ''3''"
  "string_of_int 4 = ''4''" "string_of_int 5 = ''5''" "string_of_int 6 = ''6''"
  by (simp_all add: string_of_int_def string_of_nat.simps digit_char_def)

lemma known_action_cases: "known_action a \<Longrightarrow> a \<in> {1, 2, 3, 4, 5, 6}"
  by (auto simp: known_action_def)

lemma display_known: "known_action a \<Longrightarrow> displayClassForInstanceStatus a = Inr (action_class a)"
  by (drule known_action_cases, elim insertE emptyE)
    (simp_all add: displayClassForInstanceStatus_def instanceActionLookup_eq string_of_small
      obj_get_def action_class_def, code_simp+)

lemma display_unknown: "\<not> known_action a \<Longrightarrow> displayClassForInstanceStatus a = Inl TypeError"
proof -
  assume "\<not> known_action a"
  then have "a \<noteq> 1" "a \<noteq> 2" "a \<noteq> 3" "a \<noteq> 4" "a \<noteq> 5" "a \<noteq> 6" by (auto simp: known_action_def)
  then have "string_of_int a \<notin> string_of_int ` {1, 2, 3, 4, 5, 6}" by auto
  then show ?thesis
    by (simp add: displayClassForInstanceStatus_def instanceActionLookup_eq string_of_small obj_get_def)
qed

text \<open>What the summary of instance \<open>i\<close> should say.\<close>

definition instance_class :: "job_update \<Rightarrow> instance_event option \<Rightarrow> int \<Rightarrow> string" where
  "instance_class u latest i =
     (case latest of None \<Rightarrow> ''pending''
      | Some e \<Rightarrow>
          if ie_action e = 1 \<and> i \<in> set (old_instance_ids u) \<and> i \<notin> set (new_instance_ids u)
          then ''instance-removed'' else action_class (ie_action e))"

definition update_ids :: "job_update \<Rightarrow> int list" where
  "update_ids u = sorted_list_of_set (set (new_instance_ids u) \<union> set (old_instance_ids u))"

lemma update_ids_sort: "update_ids u = sort (remdups (new_instance_ids u @ old_instance_ids u))"
  by (simp only: update_ids_def sorted_list_of_set_sort_remdups flip: set_append)

lemma allIds_keys:
  assumes "list_all index_range (new_instance_ids u @ old_instance_ids u)"
  shows "obj_keys (allIds (instance_sets u)) = map string_of_int (update_ids u)"
  using toSet_keys [OF assms] by (simp add: instance_sets_def update_ids_def)

definition summary_of :: "job_update \<Rightarrow> instance_event obj \<Rightarrow> int \<Rightarrow> instance_summary" where
  "summary_of u m i = (let latest = obj_get m (string_of_int i); cls = instance_class u latest i in
     \<lparr>is_instanceId = string_of_int i, is_className = cls,
      is_event = (if cls = ''instance-removed'' then None else latest)\<rparr>)"

lemma action_class_not_removed: "action_class a \<noteq> ''instance-removed''"
  by (simp add: action_class_def)

lemma summarizeInstance_spec:
  assumes "\<And>e. obj_get m (string_of_int i) = Some e \<Longrightarrow> known_action (ie_action e)"
  shows "summarizeInstance m (instance_sets u) (string_of_int i) = Inr (summary_of u m i)"
proof (cases "obj_get m (string_of_int i)")
  case None
  then show ?thesis by (simp add: summarizeInstance_def summary_of_def instance_class_def Let_def)
next
  case (Some e)
  note act = assms [OF Some]
  show ?thesis
  proof (cases "ie_action e = 1 \<and> i \<in> set (old_instance_ids u) \<and> i \<notin> set (new_instance_ids u)")
    case True
    with Some show ?thesis
      by (simp add: summarizeInstance_def summary_of_def instance_class_def Let_def
          isInstanceSuccessful_iff instance_sets_def toSet_has)
  next
    case False
    with Some act show ?thesis
      by (auto simp: summarizeInstance_def summary_of_def instance_class_def Let_def
          isInstanceSuccessful_iff instance_sets_def toSet_has display_known action_class_not_removed)
  qed
qed

text \<open>An instance whose latest event has an action that is not known, which cannot be shown.\<close>

definition unknown_latest :: "job_update \<Rightarrow> instance_event list \<Rightarrow> int \<Rightarrow> bool" where
  "unknown_latest u evs i \<longleftrightarrow> i \<in> set (update_ids u) \<and>
     (case obj_get (getLatestInstanceEvents (Some evs) None) (string_of_int i) of
        None \<Rightarrow> False | Some e \<Rightarrow> \<not> known_action (ie_action e))"

lemma summarizeInstance_unknown:
  assumes "obj_get m (string_of_int i) = Some e" and "\<not> known_action (ie_action e)"
  shows "summarizeInstance m a (string_of_int i) = Inl TypeError"
proof -
  have "ie_action e \<noteq> 1" using assms(2) by (auto simp: known_action_def)
  then show ?thesis
    using assms by (simp add: summarizeInstance_def isInstanceSuccessful_iff display_unknown)
qed

lemma res_map_map: "res_map f (map g xs) = res_map (\<lambda>x. f (g x)) xs"
  by (induction xs) simp_all

lemma res_map_TypeError:
  "(\<And>x. x \<in> set xs \<Longrightarrow> f x = Inl TypeError \<or> (\<exists>y. f x = Inr y)) \<Longrightarrow> x \<in> set xs \<Longrightarrow> f x = Inl TypeError \<Longrightarrow>
   res_map f xs = Inl TypeError"
proof (induction xs)
  case (Cons y ys)
  have "f y = Inl TypeError \<or> (\<exists>z. f y = Inr z)" using Cons.prems(1) [of y] by simp
  then show ?case
  proof
    assume "\<exists>z. f y = Inr z"
    then obtain z where z: "f y = Inr z" by blast
    then have "res_map f ys = Inl TypeError" using Cons by auto
    with z show ?thesis by simp
  qed simp
qed simp

lemma fillInstanceSummary_eq:
  assumes u: "jud_update d = Some u" and evs: "jud_instanceEvents d = Some evs"
    and idx: "list_all index_range (new_instance_ids u @ old_instance_ids u)"
  shows "fillInstanceSummary d = (if \<not> desires u \<or> (\<exists>i. unknown_latest u evs i) then Inl TypeError
    else Inr (map (summary_of u (getLatestInstanceEvents (Some evs) None)) (update_ids u)))"
proof (cases "desires u")
  case True
  let ?m = "getLatestInstanceEvents (Some evs) None" and ?f = "\<lambda>i. summarizeInstance (getLatestInstanceEvents (Some evs) None) (instance_sets u) (string_of_int i)"
  have fill: "fillInstanceSummary d = res_map ?f (update_ids u)"
    by (simp add: fillInstanceSummary_def u evs Let_def getAllInstanceIds_eq True allIds_keys [OF idx] res_map_map)
  have each: "?f i = (if unknown_latest u evs i then Inl TypeError else Inr (summary_of u ?m i))" if "i \<in> set (update_ids u)" for i
  proof (cases "unknown_latest u evs i")
    case True
    then show ?thesis by (auto simp: unknown_latest_def intro: summarizeInstance_unknown split: option.splits)
  next
    case False
    with that have "\<And>e. obj_get ?m (string_of_int i) = Some e \<Longrightarrow> known_action (ie_action e)"
      by (auto simp: unknown_latest_def)
    with False show ?thesis using summarizeInstance_spec [of ?m i u] by simp
  qed
  show ?thesis
  proof (cases "\<exists>i. unknown_latest u evs i")
    case bad: True
    then obtain i where i: "unknown_latest u evs i" "i \<in> set (update_ids u)" by (auto simp: unknown_latest_def)
    have "res_map ?f (update_ids u) = Inl TypeError"
      by (rule res_map_TypeError [OF _ i(2)]) (use each i in auto)
    with fill bad show ?thesis by simp
  next
    case False
    then have "res_map ?f (update_ids u) = Inr (map (summary_of u ?m) (update_ids u))"
      using each by (intro res_map_Inr) simp
    with fill False True show ?thesis by simp
  qed
qed (simp add: fillInstanceSummary_def u getAllInstanceIds_eq Let_def)

section \<open>Progress figures\<close>

definition percent :: "nat \<Rightarrow> nat \<Rightarrow> num" where
  "percent u t = js_round (js_mul (js_div (Fin (of_nat u)) (Fin (of_nat t))) (Fin 100))"

lemma js_round_between: "0 \<le> z \<Longrightarrow> z \<le> 100 \<Longrightarrow> \<exists>p. js_round (Fin z) = Fin (of_int p) \<and> 0 \<le> p \<and> p \<le> 100"
proof -
  assume "0 \<le> z" "z \<le> 100"
  then have "0 \<le> \<lfloor>z + 1 / 2\<rfloor>" "\<lfloor>z + 1 / 2\<rfloor> \<le> 100" by linarith+
  then show ?thesis using \<open>0 \<le> z\<close> by auto
qed

lemma ratio_between:
  assumes "u \<le> t" and "0 < t"
  shows "\<exists>z. js_mul (js_div (Fin (of_nat u)) (Fin (of_nat t))) (Fin 100) = Fin z \<and> 0 \<le> z \<and> z \<le> 100"
proof (cases "u = 0")
  case True
  then show ?thesis using assms by (simp add: is_zero_def is_neg_def zero_def)
next
  case False
  let ?q = "of_nat u / of_nat t :: rat"
  have q: "0 < ?q" "?q \<le> of_int 1" using assms False by (simp_all add: field_simps)
  obtain y where y: "fl ?q = Fin y" "0 \<le> y" "y \<le> 1" using fl_between [OF q] by auto
  have div: "js_div (Fin (of_nat u)) (Fin (of_nat t)) = Fin y"
    using assms False y(1) by (simp add: is_zero_def)
  show ?thesis
  proof (cases "y = 0")
    case True
    then show ?thesis unfolding div by (simp add: is_zero_def is_neg_def zero_def)
  next
    case False
    then obtain z where "fl (y * 100) = Fin z" "0 \<le> z" "z \<le> 100"
      using fl_between [of "y * 100" 100] y by auto
    then show ?thesis using False unfolding div by (simp add: is_zero_def)
  qed
qed

lemma percent_between:
  assumes "u \<le> t" and "0 < t"
  shows "\<exists>p. percent u t = Fin (of_int p) \<and> 0 \<le> p \<and> p \<le> 100"
proof -
  obtain z where "js_mul (js_div (Fin (of_nat u)) (Fin (of_nat t))) (Fin 100) = Fin z" "0 \<le> z" "z \<le> 100"
    using ratio_between [OF assms] by auto
  then show ?thesis using js_round_between [of z] unfolding percent_def by simp
qed

lemma percent_full: "0 < t \<Longrightarrow> percent t t = Fin 100"
proof -
  have "\<lfloor>201 / 2 :: rat\<rfloor> = 100" by linarith
  then show "0 < t \<Longrightarrow> percent t t = Fin 100"
    using fl_int [of 1] fl_int [of 100] by (simp add: percent_def is_zero_def)
qed

lemma percent_none: "percent 0 0 = NaN"
  by (simp add: percent_def is_zero_def)

lemma getUpdateStats_eq:
  assumes "jud_update d = Some u"
    and "list_all index_range (new_instance_ids u @ old_instance_ids u)"
  shows "getUpdateStats (Some d) = (if \<not> desires u then Inl TypeError else
    Inr (Some \<lparr>totalInstancesToBeUpdated = length (update_ids u),
      instancesUpdatedSoFar = progressFromEvents (jud_instanceEvents d),
      progress = percent (progressFromEvents (jud_instanceEvents d)) (length (update_ids u))\<rparr>))"
  using assms by (simp add: getUpdateStats_def allIds_keys percent_def Let_def getAllInstanceIds_eq)

lemma progressFromEvents_card:
  "progressFromEvents (Some evs) = card {ie_instanceId e | e. e \<in> set evs \<and> ie_action e = 1}"
  by (simp add: progressFromEvents_def getLatest_size isInstanceSuccessful_iff)

section \<open>Properties\<close>

text \<open>C2: \<open>getLatestInstanceEvents\<close> keeps, for every instance, an event that passes the condition and
  carries the greatest timestamp among those of the instance that pass it; an instance without such
  an event has no entry.\<close>

theorem getLatestInstanceEvents_latest:
  "case obj_get (getLatestInstanceEvents (Some evs) (Some c)) (string_of_int i) of
     None \<Rightarrow> filter (\<lambda>e. ie_instanceId e = i \<and> c e) evs = []
   | Some e \<Rightarrow> e \<in> set (filter (\<lambda>e. ie_instanceId e = i \<and> c e) evs)
       \<and> ie_timestampMs e = Max (ie_timestampMs ` set (filter (\<lambda>e. ie_instanceId e = i \<and> c e) evs))"
proof (cases "obj_get (getLatestInstanceEvents (Some evs) (Some c)) (string_of_int i)")
  case None
  then show ?thesis using getLatest_None [of evs c i] by (auto simp: filter_empty_conv)
next
  case (Some e)
  let ?A = "ie_timestampMs ` set (filter (\<lambda>e. ie_instanceId e = i \<and> c e) evs)"
  have "Max ?A = ie_timestampMs e" using getLatest_Some [OF Some] by (intro Max_eqI) auto
  with Some show ?thesis using getLatest_Some [OF Some] by simp
qed

text \<open>the ids an update touches: \<open>newIds\<close> holds the ids of the desired state, \<open>oldIds\<close> those of the
  initial state, \<open>allIds\<close> their union, and for ids in the range of array indices \<open>Object.keys\<close> lists
  them once each and in ascending numeric order.\<close>

theorem getAllInstanceIds_union:
  assumes "list_all index_range (new_instance_ids u @ old_instance_ids u)" and "desires u"
  shows "\<exists>s. getAllInstanceIds u = Inr s \<and> obj_keys (allIds s) = map string_of_int (update_ids u)
    \<and> update_ids u = sorted_list_of_set (set (new_instance_ids u) \<union> set (old_instance_ids u))
    \<and> (obj_has (newIds s) (string_of_int i) \<longleftrightarrow> i \<in> set (new_instance_ids u))
    \<and> (obj_has (oldIds s) (string_of_int i) \<longleftrightarrow> i \<in> set (old_instance_ids u))
    \<and> (obj_has (allIds s) (string_of_int i)
         \<longleftrightarrow> i \<in> set (new_instance_ids u) \<union> set (old_instance_ids u))"
  using allIds_keys [OF assms(1)] assms(2)
  by (simp add: getAllInstanceIds_eq) (simp add: instance_sets_def toSet_has update_ids_def)

definition example_update :: job_update where
  "example_update =
     \<lparr>ju_summary = \<lparr>jsm_key = \<lparr>juk_job = \<lparr>jk_role = None, jk_environment = None, jk_name = None\<rparr>, juk_id = None\<rparr>,
        jsm_state = \<lparr>jus_status = 0, jus_createdTimestampMs = 10, jus_lastModifiedTimestampMs = 70\<rparr>\<rparr>,
      ju_instructions =
        \<lparr>ui_initialState = [\<lparr>itc_task = JNull, itc_instances = [\<lparr>r_first = 2, r_last = 3\<rparr>]\<rparr>],
         ui_desiredState = Some \<lparr>itc_task = JNull, itc_instances = [\<lparr>r_first = 0, r_last = 2\<rparr>]\<rparr>\<rparr>\<rparr>"

lemma example_update_ids:
  "new_instance_ids example_update = [0, 1, 2]" "old_instance_ids example_update = [2, 3]"
  "update_ids example_update = [0, 1, 2, 3]" "desires example_update"
  unfolding update_ids_sort
  by (simp_all add: example_update_def new_instance_ids_def old_instance_ids_def ids_of_def upto_rec1 desires_def)

text \<open>An update in progress that only removes instances.\<close>

definition removal_update :: job_update where
  "removal_update = example_update\<lparr>ju_instructions :=
     \<lparr>ui_initialState = [\<lparr>itc_task = JNull, itc_instances = [\<lparr>r_first = 2, r_last = 3\<rparr>]\<rparr>], ui_desiredState = None\<rparr>\<rparr>"

lemma removal_update_ids: "new_instance_ids removal_update = []" "old_instance_ids removal_update = [2, 3]"
    "\<not> desires removal_update"
  by (simp_all add: removal_update_def new_instance_ids_def old_instance_ids_def ids_of_def upto_rec1 desires_def)

theorem getAllInstanceIds_union_witness:
  "\<exists>s. getAllInstanceIds example_update = Inr s \<and> obj_keys (allIds s) = [''0'', ''1'', ''2'', ''3'']"
  using getAllInstanceIds_union [of example_update 0]
  by (auto simp: example_update_ids index_range_def string_of_small string_of_int_def [of 0] string_of_nat_0)

text \<open>when no range is inverted by more than one, the counts of \<open>instanceCountFromRanges\<close> and
  \<open>instanceCountFromConfigs\<close> never fall below the number of different ids, and they equal it when the
  ranges do not overlap, the case the scheduler guarantees.\<close>

theorem instance_count_bounds:
  assumes "list_all range_ok (concat (map itc_instances cs))"
  shows "int (card (set (ids_of (concat (map itc_instances cs))))) \<le> instanceCountFromConfigs cs
    \<and> (instanceCountFromConfigs cs = int (card (set (ids_of (concat (map itc_instances cs)))))
        \<longleftrightarrow> distinct (ids_of (concat (map itc_instances cs))))
    \<and> instanceCountFromConfigs cs = instanceCountFromRanges (concat (map itc_instances cs))"
proof -
  let ?ids = "ids_of (concat (map itc_instances cs))"
  have "instanceCountFromConfigs cs = int (length ?ids)"
    using instanceCount_length [OF assms] by (simp add: instanceCountFromConfigs_concat)
  moreover have "length ?ids = card (set ?ids) \<longleftrightarrow> distinct ?ids"
    using card_distinct [of ?ids] distinct_card [of ?ids] by auto
  ultimately show ?thesis
    using card_length [of ?ids] by (simp add: instanceCountFromConfigs_concat)
qed

theorem instance_count_bounds_witness:
  "instanceCountFromConfigs [\<lparr>itc_task = JNull, itc_instances = [\<lparr>r_first = 0, r_last = 2\<rparr>, \<lparr>r_first = 2, r_last = 3\<rparr>]\<rparr>] = 5
   \<and> card (set (ids_of [\<lparr>r_first = 0, r_last = 2\<rparr>, \<lparr>r_first = 2, r_last = 3\<rparr>])) \<le> 5"
  using instance_count_bounds [of "[\<lparr>itc_task = JNull, itc_instances = [\<lparr>r_first = 0, r_last = 2\<rparr>, \<lparr>r_first = 2, r_last = 3\<rparr>]\<rparr>]"]
  by (simp add: range_ok_def instanceCountFromRanges_def)

text \<open>C7: what \<open>fillInstanceSummary\<close> shows of an update. It throws exactly when the update has no
  desired state, as one that only removes instances, or when the latest event of one of its instances has an action
  that is not known. Otherwise it lists every instance of the update once, in ascending order of id: one without
  an event is pending, one whose latest event is a successful update and that is in
  the initial but not in the desired state is removed, and any other shows the class of its latest
  event. (The ids are array indices and the list of events is there.)\<close>

theorem fillInstanceSummary_spec:
  assumes "jud_update d = Some u" and "jud_instanceEvents d = Some evs"
    and "list_all index_range (new_instance_ids u @ old_instance_ids u)"
  shows "if ui_desiredState (ju_instructions u) = None \<or> (\<exists>i. unknown_latest u evs i)
    then fillInstanceSummary d = Inl TypeError
    else \<exists>ss. fillInstanceSummary d = Inr ss
      \<and> map (\<lambda>s. (is_instanceId s, is_className s)) ss
        = map (\<lambda>i. (string_of_int i,
             instance_class u (obj_get (getLatestInstanceEvents (Some evs) None) (string_of_int i)) i))
           (update_ids u)"
  using fillInstanceSummary_eq [OF assms] by (simp add: desires_def summary_of_def Let_def comp_def)

theorem fillInstanceSummary_spec_witness:
  "(\<exists>ss. fillInstanceSummary \<lparr>jud_update = Some example_update,
        jud_instanceEvents = Some [\<lparr>ie_instanceId = 3, ie_timestampMs = 5, ie_action = 1\<rparr>]\<rparr> = Inr ss
      \<and> map (\<lambda>s. (is_instanceId s, is_className s)) ss
        = [(''0'', ''pending''), (''1'', ''pending''), (''2'', ''pending''), (''3'', ''instance-removed'')])
   \<and> fillInstanceSummary \<lparr>jud_update = Some removal_update, jud_instanceEvents = Some []\<rparr> = Inl TypeError"
proof
  let ?evs = "[\<lparr>ie_instanceId = 3, ie_timestampMs = 5, ie_action = 1\<rparr>]"
  let ?d = "\<lparr>jud_update = Some example_update, jud_instanceEvents = Some ?evs\<rparr>"
  have h: "list_all index_range (new_instance_ids example_update @ old_instance_ids example_update)"
    by (simp add: example_update_ids index_range_def)
  have m: "obj_get (getLatestInstanceEvents (Some ?evs) None) k = (if k = ''3'' then Some (hd ?evs) else None)" for k
    by (simp add: getLatestInstanceEvents_def us_simps Let_def obj_has_def obj_get_def string_of_small)
  have "\<not> unknown_latest example_update ?evs i" for i
    by (simp add: unknown_latest_def m known_action_def)
  moreover have "ui_desiredState (ju_instructions example_update) \<noteq> None" by (simp add: example_update_def)
  ultimately obtain ss where "fillInstanceSummary ?d = Inr ss"
    "map (\<lambda>s. (is_instanceId s, is_className s)) ss
      = map (\<lambda>i. (string_of_int i, instance_class example_update
          (obj_get (getLatestInstanceEvents (Some ?evs) None) (string_of_int i)) i)) (update_ids example_update)"
    using fillInstanceSummary_spec [of ?d example_update ?evs, OF _ _ h] by auto
  then show "\<exists>ss. fillInstanceSummary ?d = Inr ss \<and> map (\<lambda>s. (is_instanceId s, is_className s)) ss
        = [(''0'', ''pending''), (''1'', ''pending''), (''2'', ''pending''), (''3'', ''instance-removed'')]"
    unfolding m by (simp add: example_update_ids instance_class_def string_of_small string_of_int_def [of 0] string_of_nat_0)
  show "fillInstanceSummary \<lparr>jud_update = Some removal_update, jud_instanceEvents = Some []\<rparr> = Inl TypeError"
    using fillInstanceSummary_spec [of "\<lparr>jud_update = Some removal_update, jud_instanceEvents = Some []\<rparr>" removal_update "[]"]
    by (simp add: removal_update_ids index_range_def) (simp add: removal_update_def)
qed

text \<open>C36: the progress figures of an update. They cannot be computed, and the caller gets an exception,
  exactly when the update has no desired state. Otherwise, whenever the successful events belong to instances of the
  update, the progress is a whole percentage between 0 and 100, computed with the rounding of binary64, it is 100 when all
  instances have been updated, and it is \<open>NaN\<close> for an update without instances.\<close>

theorem progress_bounds:
  assumes "jud_update d = Some u" and "jud_instanceEvents d = Some evs"
    and "list_all index_range (new_instance_ids u @ old_instance_ids u)"
    and "{ie_instanceId e | e. e \<in> set evs \<and> ie_action e = 1} \<subseteq> set (new_instance_ids u) \<union> set (old_instance_ids u)"
  shows "if ui_desiredState (ju_instructions u) = None then getUpdateStats (Some d) = Inl TypeError
    else \<exists>s. getUpdateStats (Some d) = Inr (Some s)
    \<and> instancesUpdatedSoFar s \<le> totalInstancesToBeUpdated s
    \<and> (totalInstancesToBeUpdated s = 0 \<longrightarrow> progress s = NaN)
    \<and> (0 < totalInstancesToBeUpdated s \<longrightarrow>
         (\<exists>p. progress s = Fin (of_int p) \<and> 0 \<le> p \<and> p \<le> 100
            \<and> (instancesUpdatedSoFar s = totalInstancesToBeUpdated s \<longrightarrow> p = 100)))"
proof (cases "desires u")
  case True
  let ?t = "length (update_ids u)" and ?n = "progressFromEvents (Some evs)"
  have "?t = card (set (new_instance_ids u) \<union> set (old_instance_ids u))" by (simp add: update_ids_def)
  then have le: "?n \<le> ?t" unfolding progressFromEvents_card using assms(4) by (simp add: card_mono)
  have "\<exists>p. percent ?n ?t = Fin (of_int p) \<and> 0 \<le> p \<and> p \<le> 100 \<and> (?n = ?t \<longrightarrow> p = 100)" if "0 < ?t"
    using percent_between [OF le that] percent_full [OF that] by fastforce
  moreover have "percent ?n ?t = NaN" if "?t = 0" using le that percent_none by simp
  ultimately show ?thesis
    using le True by (simp add: getUpdateStats_eq [OF assms(1,3)] assms(2) desires_def)
qed (simp add: getUpdateStats_eq [OF assms(1,3)] desires_def)

theorem progress_bounds_witness:
  "(\<exists>s. getUpdateStats (Some \<lparr>jud_update = Some example_update,
        jud_instanceEvents = Some [\<lparr>ie_instanceId = 3, ie_timestampMs = 5, ie_action = 1\<rparr>]\<rparr>) = Inr (Some s)
    \<and> instancesUpdatedSoFar s \<le> totalInstancesToBeUpdated s)
   \<and> getUpdateStats (Some \<lparr>jud_update = Some removal_update, jud_instanceEvents = Some []\<rparr>) = Inl TypeError"
proof
  have "ui_desiredState (ju_instructions example_update) \<noteq> None" by (simp add: example_update_def)
  then show "\<exists>s. getUpdateStats (Some \<lparr>jud_update = Some example_update,
        jud_instanceEvents = Some [\<lparr>ie_instanceId = 3, ie_timestampMs = 5, ie_action = 1\<rparr>]\<rparr>) = Inr (Some s)
    \<and> instancesUpdatedSoFar s \<le> totalInstancesToBeUpdated s"
    using progress_bounds [of "\<lparr>jud_update = Some example_update,
        jud_instanceEvents = Some [\<lparr>ie_instanceId = 3, ie_timestampMs = 5, ie_action = 1\<rparr>]\<rparr>" example_update
        "[\<lparr>ie_instanceId = 3, ie_timestampMs = 5, ie_action = 1\<rparr>]"]
    by (auto simp: example_update_ids index_range_def)
  show "getUpdateStats (Some \<lparr>jud_update = Some removal_update, jud_instanceEvents = Some []\<rparr>) = Inl TypeError"
    using progress_bounds [of "\<lparr>jud_update = Some removal_update, jud_instanceEvents = Some []\<rparr>" removal_update "[]"]
    by (simp add: removal_update_ids index_range_def) (simp add: removal_update_def)
qed

text \<open>progress never goes back. A further event leaves the number of updated instances as it is, or
  raises it by one when it is the first successful update of its instance; in particular an
  \<open>INSTANCE_ROLLED_BACK\<close> event does not take the instance out of the count.\<close>

theorem progress_monotone:
  "progressFromEvents (Some (evs @ [e])) = progressFromEvents (Some evs)
     + (if ie_action e = INSTANCE_UPDATED \<and> ie_instanceId e \<notin> {ie_instanceId x | x. x \<in> set evs \<and> ie_action x = INSTANCE_UPDATED}
        then 1 else 0)"
proof -
  let ?A = "{ie_instanceId x | x. x \<in> set evs \<and> ie_action x = 1}"
  have fin: "finite ?A" by simp
  have "{ie_instanceId x | x. x \<in> set (evs @ [e]) \<and> ie_action x = 1}
      = (if ie_action e = 1 then insert (ie_instanceId e) ?A else ?A)" by auto
  then show ?thesis
    using card_insert_if [OF fin, of "ie_instanceId e"] by (auto simp: progressFromEvents_card api_simps)
qed

end
