(* ===== verification/Polling.thy ===== *)
theory Polling
  imports AuroraClient UpdateUtil
begin

text \<open>
  The polling loops of \<open>controllers.js\<close> as one state machine: a request is sent when the loop starts
  and whenever its \<open>$timeout\<close> fires; the handler of the answer updates the scope and says whether it
  set the timer again.  A call whose callback throws is \<open>Lost\<close>: its promise is never resolved.  The
  second part is \<open>AllUpdatesController\<close>, which runs two such loops.
\<close>

section \<open>The machine\<close>

record 's poll =
  pl_requests :: nat \<comment> \<open>calls sent and not answered\<close>
  pl_timers :: nat \<comment> \<open>timers set and not fired\<close>
  pl_scope :: 's
  pl_sent :: nat

definition poll_start :: "'s \<Rightarrow> 's poll" where
  "poll_start s = \<lparr>pl_requests = 1, pl_timers = 0, pl_scope = s, pl_sent = 1\<rparr>"

datatype 'r poll_event = Answer 'r | Lost | Tick

inductive poll_step :: "('r \<Rightarrow> 's \<Rightarrow> 's \<times> bool) \<Rightarrow> 's poll \<Rightarrow> 'r poll_event \<Rightarrow> 's poll \<Rightarrow> bool"
  for handle where
  answer: "0 < pl_requests p \<Longrightarrow> handle r (pl_scope p) = (s', again) \<Longrightarrow>
    poll_step handle p (Answer r) (p\<lparr>pl_requests := pl_requests p - 1, pl_scope := s',
      pl_timers := pl_timers p + (if again then 1 else 0)\<rparr>)"
| lost: "0 < pl_requests p \<Longrightarrow> poll_step handle p Lost (p\<lparr>pl_requests := pl_requests p - 1\<rparr>)"
| tick: "0 < pl_timers p \<Longrightarrow> poll_step handle p Tick (p\<lparr>pl_timers := pl_timers p - 1,
    pl_requests := pl_requests p + 1, pl_sent := pl_sent p + 1\<rparr>)"

inductive_cases poll_answerE: "poll_step handle p (Answer r) p'"
inductive_cases poll_lostE: "poll_step handle p Lost p'"
inductive_cases poll_tickE: "poll_step handle p Tick p'"

inductive poll_run :: "('r \<Rightarrow> 's \<Rightarrow> 's \<times> bool) \<Rightarrow> 's poll \<Rightarrow> 'r poll_event list \<Rightarrow> 's poll \<Rightarrow> bool"
  for handle where
  stop: "poll_run handle p [] p"
| more: "poll_run handle p es p' \<Longrightarrow> poll_step handle p' e p'' \<Longrightarrow> poll_run handle p (es @ [e]) p''"

fun answers :: "'r poll_event list \<Rightarrow> 'r list" where
  "answers [] = []"
| "answers (Answer r # es) = r # answers es"
| "answers (_ # es) = answers es"

fun ticks :: "'r poll_event list \<Rightarrow> nat" where
  "ticks [] = 0"
| "ticks (Tick # es) = Suc (ticks es)"
| "ticks (_ # es) = ticks es"

lemma answers_append [simp]: "answers (es @ fs) = answers es @ answers fs"
  by (induction es rule: answers.induct) auto

lemma ticks_append [simp]: "ticks (es @ fs) = ticks es + ticks fs"
  by (induction es rule: ticks.induct) auto

definition scope_after :: "('r \<Rightarrow> 's \<Rightarrow> 's \<times> bool) \<Rightarrow> 'r list \<Rightarrow> 's \<Rightarrow> 's" where
  "scope_after handle rs s = foldl (\<lambda>s r. fst (handle r s)) s rs"

section \<open>What every loop guarantees\<close>

locale poller =
  fixes handle :: "'r \<Rightarrow> 's \<Rightarrow> 's \<times> bool"
    and again :: "'r \<Rightarrow> bool"
  assumes handle_again: "snd (handle r s) = again r"
begin

text \<open>The loop is alive as long as every answer asked for more and no call was lost.\<close>

definition alive :: "'r poll_event list \<Rightarrow> bool" where
  "alive es \<longleftrightarrow> Lost \<notin> set es \<and> list_all again (answers es)"

lemma run_state:
  assumes "poll_run handle (poll_start s) es p"
  shows "pl_requests p + pl_timers p = (if alive es then 1 else 0)
    \<and> pl_sent p = Suc (ticks es) \<and> pl_scope p = scope_after handle (answers es) s"
  using assms
proof (induction "poll_start s" es p rule: poll_run.induct)
  case stop
  then show ?case by (simp add: poll_start_def alive_def scope_after_def)
next
  case (more es p' e p'')
  show ?case
  proof (cases e)
    case (Answer r)
    have "snd (handle r (pl_scope p')) = again r" by (rule handle_again)
    then show ?thesis
      using more Answer by (auto elim!: poll_answerE simp: alive_def scope_after_def split: if_splits)
  next
    case Lost
    then show ?thesis using more by (auto elim!: poll_lostE simp: alive_def split: if_splits)
  next
    case Tick
    then show ?thesis using more by (auto elim!: poll_tickE simp: alive_def split: if_splits)
  qed
qed

text \<open>An answer that does not ask for more is the last one.\<close>

lemma run_last:
  assumes "poll_run handle (poll_start s) es p" and "r \<in> set (answers es)" and "\<not> again r"
  shows "\<exists>rs. answers es = rs @ [r]"
  using assms
proof (induction "poll_start s" es p rule: poll_run.induct)
  case (more es p' e p'')
  have outstanding: "0 < pl_requests p' + pl_timers p'" using more.hyps(3) by cases simp_all
  have "alive es" using outstanding run_state [OF more.hyps(1)] by (auto split: if_splits)
  then have "r \<notin> set (answers es)" using more.prems(2) by (auto simp: alive_def list_all_iff)
  then show ?case using more.prems(1) by (cases e) auto
qed simp

text \<open>A loop that is alive can go on, and a dead one never sends again.\<close>

lemma run_progress:
  assumes "poll_run handle (poll_start s) es p"
  shows "(\<exists>e p'. poll_step handle p e p') \<longleftrightarrow> alive es"
proof
  assume "\<exists>e p'. poll_step handle p e p'"
  then obtain e p' where step: "poll_step handle p e p'" by blast
  then have "0 < pl_requests p + pl_timers p" by cases simp_all
  then show "alive es" using run_state [OF assms] by (auto split: if_splits)
next
  assume "alive es"
  then have "pl_requests p = 1 \<or> pl_timers p = 1" using run_state [OF assms] by auto
  then show "\<exists>e p'. poll_step handle p e p'" using lost [of p handle] tick [of p handle] by fastforce
qed

end

text \<open>A loop that shows the last answer and sets its timer whatever the answer is.\<close>

locale mirror =
  fixes handle :: "'r \<Rightarrow> 's \<Rightarrow> 's \<times> bool"
    and shown :: "'r \<Rightarrow> 's"
  assumes handle_shown: "handle r s = (shown r, True)"

sublocale mirror \<subseteq> poller handle "\<lambda>_. True"
  by unfold_locales (simp add: handle_shown)

context mirror
begin

lemma scope_last: "scope_after handle rs s = (if rs = [] then s else shown (last rs))"
  by (induction rs rule: rev_induct) (simp_all add: scope_after_def handle_shown)

lemma alive_lost: "alive es \<longleftrightarrow> Lost \<notin> set es"
  by (simp add: alive_def list_all_iff)

lemma mirror_run:
  assumes "poll_run handle (poll_start s) es p"
  shows "pl_requests p + pl_timers p = (if Lost \<in> set es then 0 else 1) \<and> pl_sent p = Suc (ticks es)
    \<and> pl_scope p = (let rs = answers es in if rs = [] then s else shown (last rs))"
  using run_state [OF assms] by (simp add: alive_lost scope_last Let_def)

end

section \<open>AllUpdatesController\<close>

definition IN_PROGRESS_UPDATE_MS :: nat where "IN_PROGRESS_UPDATE_MS = 15000"
definition COMPLETED_UPDATES_MS :: nat where "COMPLETED_UPDATES_MS = 60000"

definition completedQuery :: job_update_query where
  "completedQuery = getTerminalQuery\<lparr>juq_limit := Some 20\<rparr>"

text \<open>Each loop writes its own list; both set their timer without looking at the answer.\<close>

definition inProgressUpdates_then ::
    "job_update_summary list call_result \<Rightarrow> job_update_summary list option
     \<Rightarrow> job_update_summary list option \<times> bool" where
  "inProgressUpdates_then response inProgress = (Some (cr_payload response), True)"

definition completedUpdates_then ::
    "job_update_summary list call_result \<Rightarrow> job_update_summary list option
     \<Rightarrow> job_update_summary list option \<times> bool" where
  "completedUpdates_then response completed = (Some (cr_payload response), True)"

record all_updates =
  au_inProgress :: "job_update_summary list option poll"
  au_completed :: "job_update_summary list option poll"
  au_client :: client

text \<open>Sending a request of a loop; the two loops share the Thrift client.\<close>

definition AllUpdatesController_init :: "client \<Rightarrow> (nat \<times> request) list \<times> all_updates" where
  "AllUpdatesController_init cl =
     (let (r1, cl1) = getJobUpdateSummaries (Some getInProgressQuery) cl;
          (r2, cl2) = getJobUpdateSummaries (Some completedQuery) cl1
      in ([r1, r2], \<lparr>au_inProgress = poll_start None, au_completed = poll_start None, au_client = cl2\<rparr>))"

text \<open>An event of the page is an event of one of its loops; an answer comes as the raw response.\<close>

datatype updates_event =
    InProgressAnswer "job_update_summary list response"
  | CompletedAnswer "job_update_summary list response"
  | InProgressTick
  | CompletedTick

definition answer_event ::
    "job_update_summary list response \<Rightarrow> client \<Rightarrow> job_update_summary list call_result poll_event \<times> client" where
  "answer_event rsp cl = (case getJobUpdateSummaries_callback rsp cl of
       (Inl e, cl') \<Rightarrow> (Lost, cl') | (Inr r, cl') \<Rightarrow> (Answer r, cl'))"

inductive updates_step :: "all_updates \<Rightarrow> updates_event \<Rightarrow> all_updates \<Rightarrow> bool" where
  in_progress_answer: "answer_event rsp (au_client u) = (e, cl) \<Longrightarrow>
    poll_step inProgressUpdates_then (au_inProgress u) e p \<Longrightarrow>
    updates_step u (InProgressAnswer rsp) (u\<lparr>au_inProgress := p, au_client := cl\<rparr>)"
| completed_answer: "answer_event rsp (au_client u) = (e, cl) \<Longrightarrow>
    poll_step completedUpdates_then (au_completed u) e p \<Longrightarrow>
    updates_step u (CompletedAnswer rsp) (u\<lparr>au_completed := p, au_client := cl\<rparr>)"
| in_progress_tick: "poll_step inProgressUpdates_then (au_inProgress u) Tick p \<Longrightarrow>
    updates_step u InProgressTick (u\<lparr>au_inProgress := p,
      au_client := snd (getJobUpdateSummaries (Some getInProgressQuery) (au_client u))\<rparr>)"
| completed_tick: "poll_step completedUpdates_then (au_completed u) Tick p \<Longrightarrow>
    updates_step u CompletedTick (u\<lparr>au_completed := p,
      au_client := snd (getJobUpdateSummaries (Some completedQuery) (au_client u))\<rparr>)"

inductive_cases updates_stepE: "updates_step u e u'"

inductive updates_run :: "all_updates \<Rightarrow> updates_event list \<Rightarrow> all_updates \<Rightarrow> bool" where
  updates_stop: "updates_run u [] u"
| updates_more: "updates_run u es u' \<Longrightarrow> updates_step u' e u'' \<Longrightarrow> updates_run u (es @ [e]) u''"

interpretation ip: mirror inProgressUpdates_then "\<lambda>r. Some (cr_payload r)"
  by unfold_locales (simp add: inProgressUpdates_then_def)

interpretation cp: mirror completedUpdates_then "\<lambda>r. Some (cr_payload r)"
  by unfold_locales (simp add: completedUpdates_then_def)

text \<open>The events of one loop within the events of the page.  The outcome of an answer does not depend
  on the client, which only carries the title.\<close>

definition outcome :: "job_update_summary list response \<Rightarrow> job_update_summary list call_result poll_event" where
  "outcome rsp = fst (answer_event rsp (initial_client ''''))"

lemma answer_event_outcome: "fst (answer_event rsp cl) = outcome rsp"
  unfolding outcome_def answer_event_def getJobUpdateSummaries_callback_def callback_def processResponse_def
  by (simp add: payload_def Let_def split: option.split)

fun in_progress_events :: "updates_event list \<Rightarrow> job_update_summary list call_result poll_event list" where
  "in_progress_events [] = []"
| "in_progress_events (InProgressAnswer r # es) = outcome r # in_progress_events es"
| "in_progress_events (InProgressTick # es) = Tick # in_progress_events es"
| "in_progress_events (_ # es) = in_progress_events es"

fun completed_events :: "updates_event list \<Rightarrow> job_update_summary list call_result poll_event list" where
  "completed_events [] = []"
| "completed_events (CompletedAnswer r # es) = outcome r # completed_events es"
| "completed_events (CompletedTick # es) = Tick # completed_events es"
| "completed_events (_ # es) = completed_events es"

lemma in_progress_events_append [simp]:
  "in_progress_events (es @ fs) = in_progress_events es @ in_progress_events fs"
  by (induction es rule: in_progress_events.induct) auto

lemma completed_events_append [simp]: "completed_events (es @ fs) = completed_events es @ completed_events fs"
  by (induction es rule: completed_events.induct) auto

lemma updates_run_loops:
  assumes "updates_run u es u'"
  shows "poll_run inProgressUpdates_then (au_inProgress u) (in_progress_events es) (au_inProgress u')
    \<and> poll_run completedUpdates_then (au_completed u) (completed_events es) (au_completed u')"
  using assms
proof induction
  case (updates_stop u)
  show ?case by (simp add: poll_run.stop)
next
  case (updates_more u es u' e u'')
  have oc: "\<And>rsp cl e cl'. answer_event rsp cl = (e, cl') \<Longrightarrow> outcome rsp = e"
    by (metis answer_event_outcome fst_conv)
  from updates_more.hyps(2) updates_more.IH show ?case
    by (elim updates_stepE) (auto dest!: oc intro: poll_run.more)
qed

section \<open>Properties\<close>

text \<open>C11: the updates page keeps polling. In every reachable state each of its two loops has exactly one
  call or one timer outstanding, unless one of its own calls was lost, has sent one call more than
  its timer has fired, and shows the list of its last answer; the loops do not disturb each other.\<close>

theorem all_updates_polling:
  assumes "updates_run (snd (AllUpdatesController_init cl)) es u"
  shows "pl_requests (au_inProgress u) + pl_timers (au_inProgress u) = (if Lost \<in> set (in_progress_events es) then 0 else 1)
    \<and> pl_requests (au_completed u) + pl_timers (au_completed u) = (if Lost \<in> set (completed_events es) then 0 else 1)
    \<and> pl_sent (au_inProgress u) = Suc (ticks (in_progress_events es))
    \<and> pl_sent (au_completed u) = Suc (ticks (completed_events es))
    \<and> pl_scope (au_inProgress u) = (let rs = answers (in_progress_events es) in
        if rs = [] then None else Some (cr_payload (last rs)))
    \<and> pl_scope (au_completed u) = (let rs = answers (completed_events es) in
        if rs = [] then None else Some (cr_payload (last rs)))"
proof -
  have init: "au_inProgress (snd (AllUpdatesController_init cl)) = poll_start None"
    "au_completed (snd (AllUpdatesController_init cl)) = poll_start None"
    by (simp_all add: AllUpdatesController_init_def Let_def split: prod.split)
  from updates_run_loops [OF assms, unfolded init]
  have "poll_run inProgressUpdates_then (poll_start None) (in_progress_events es) (au_inProgress u)"
    and "poll_run completedUpdates_then (poll_start None) (completed_events es) (au_completed u)" by blast+
  from ip.mirror_run [OF this(1)] cp.mirror_run [OF this(2)] show ?thesis by simp
qed

definition empty_response :: "'r response" where
  "empty_response = \<lparr>resp_responseCode = 1, resp_serverInfo = None, resp_result = None, resp_details = []\<rparr>"

lemma outcome_empty: "answer_event empty_response cl =
   (Answer \<lparr>cr_error = '''', cr_statsUrlPrefix = '''', cr_payload = []\<rparr>, setPageTitle None cl)"
  by (simp add: answer_event_def getJobUpdateSummaries_callback_def callback_def processResponse_def
      payload_def empty_response_def)

theorem all_updates_polling_witness:
  "\<exists>u. updates_run (snd (AllUpdatesController_init (initial_client ''''))) [CompletedAnswer empty_response, CompletedTick] u
     \<and> pl_sent (au_completed u) = 2 \<and> pl_sent (au_inProgress u) = 1 \<and> pl_scope (au_completed u) = Some []"
proof -
  let ?u0 = "snd (AllUpdatesController_init (initial_client ''''))"
  have init: "au_completed ?u0 = poll_start None"
    by (simp add: AllUpdatesController_init_def Let_def split: prod.split)
  obtain u1 where s1: "updates_step ?u0 (CompletedAnswer empty_response) u1" "pl_timers (au_completed u1) = 1"
    using completed_answer [of empty_response ?u0, OF outcome_empty answer [OF _ surjective_pairing]]
    by (fastforce simp: init poll_start_def completedUpdates_then_def)
  obtain u2 where s2: "updates_step u1 CompletedTick u2"
    using completed_tick [OF tick, of u1] s1(2) by auto
  have run: "updates_run ?u0 ([CompletedAnswer empty_response] @ [CompletedTick]) u2"
    using updates_more [OF updates_more [OF updates_stop s1(1)] s2] by simp
  have oc: "outcome empty_response = Answer \<lparr>cr_error = '''', cr_statsUrlPrefix = '''', cr_payload = []\<rparr>"
    unfolding outcome_def outcome_empty by simp
  show ?thesis
    using all_updates_polling [OF run] run by (intro exI [of _ u2]) (simp add: oc)
qed

end
