(* ===== verification/PrettyJSON.thy ===== *)
theory PrettyJSON
  imports JSON
begin

text \<open>
  \<open>JSON.stringify(value, undefined, 2)\<close>, with which \<open>UpdateController\<close> shows the configuration of the
  tasks an update rolls out (\<open>controllers.js\<close>): every element and property on a line of its own,
  indented by two spaces a level.
\<close>

section \<open>The indented text\<close>

definition new_line :: "nat \<Rightarrow> string" where
  "new_line n = CHR 0x0A # replicate n (CHR '' '')"

fun pretty :: "nat \<Rightarrow> json \<Rightarrow> string"
  and pretty_elems :: "nat \<Rightarrow> json list \<Rightarrow> string list"
  and pretty_props :: "nat \<Rightarrow> (string \<times> json) list \<Rightarrow> string list" where
  "pretty n (JArr (x # xs)) =
     ''['' @ new_line (n + 2) @ join ('','' @ new_line (n + 2)) (pretty_elems (n + 2) (x # xs)) @ new_line n @ '']''"
| "pretty n (JObj (p # ps)) =
     ''{'' @ new_line (n + 2) @ join ('','' @ new_line (n + 2)) (pretty_props (n + 2) (p # ps)) @ new_line n @ ''}''"
| "pretty n (JArr []) = ''[]''"
| "pretty n (JObj []) = ''{}''"
| "pretty n JNull = ''null''"
| "pretty n (JBool b) = (if b then ''true'' else ''false'')"
| "pretty n (JNum x) = json_num x"
| "pretty n (JStr s) = json_quote s"
| "pretty_elems n [] = []"
| "pretty_elems n (x # xs) = pretty n x # pretty_elems n xs"
| "pretty_props n [] = []"
| "pretty_props n ((k, x) # ps) = (json_quote k @ '': '' @ pretty n x) # pretty_props n ps"

section \<open>Leaving out the white space\<close>

text \<open>A text without the white space outside its string literals; the flag says whether it begins inside.\<close>

fun compact :: "bool \<Rightarrow> string \<Rightarrow> string" where
  "compact b [] = []"
| "compact False (c # s) = (if c = CHR '' '' \<or> c = CHR 0x0A then compact False s
     else c # compact (c = CHR 0x22) s)"
| "compact True [c] = [c]"
| "compact True (c # d # s) = (if c = CHR 0x5C then c # d # compact True s else c # compact (c \<noteq> CHR 0x22) (d # s))"

definition plain :: "char \<Rightarrow> bool" where
  "plain c \<longleftrightarrow> c \<noteq> CHR '' '' \<and> c \<noteq> CHR 0x0A \<and> c \<noteq> CHR 0x22 \<and> c \<noteq> CHR 0x5C"

lemma compact_plain: "list_all plain t \<Longrightarrow> compact False (t @ s) = t @ compact False s"
  by (induction t) (auto simp: plain_def)

lemma compact_inside: "c \<noteq> CHR 0x5C \<Longrightarrow> compact True (c # s) = c # compact (c \<noteq> CHR 0x22) s"
  by (cases s) auto

lemma compact_inside_plain: "list_all plain t \<Longrightarrow> compact True (t @ s) = t @ compact True s"
  by (induction t) (auto simp: plain_def compact_inside)

lemma new_line_compact: "compact False (new_line n @ s) = compact False s"
proof -
  have "compact False (replicate n (CHR '' '') @ s) = compact False s" by (induction n) simp_all
  then show ?thesis by (simp add: new_line_def)
qed

text \<open>String literals are kept as they are.\<close>

lemma hex_digit_plain: "n < 16 \<Longrightarrow> plain (hex_digit n)"
proof -
  have "list_all (\<lambda>n. plain (hex_digit n)) [0..<16]" by code_simp
  then show "n < 16 \<Longrightarrow> plain (hex_digit n)" by (simp only: list_all_iff set_upt atLeastLessThan_iff le0 simp_thms)
qed

lemma quote_char_compact: "compact True (quote_char c @ s) = quote_char c @ compact True s"
proof -
  have "plain (hex_digit (char_code c div 16)) \<and> plain (hex_digit (char_code c mod 16))" if "char_code c < 32"
    using that by (simp add: hex_digit_plain)
  then show ?thesis by (auto simp: quote_char_def compact_inside plain_def)
qed

lemma json_quote_compact: "compact False (json_quote k @ s) = json_quote k @ compact False s"
proof -
  have "compact True (concat (map quote_char k) @ CHR 0x22 # s) = concat (map quote_char k) @ CHR 0x22 # compact False s"
    by (induction k) (simp_all add: quote_char_compact compact_inside)
  then show ?thesis by (simp add: json_quote_def)
qed

text \<open>The text of a number has no white space, quote or backslash.\<close>

lemma digits_plain: "list_all plain (string_of_nat n)"
proof -
  have "is_digit c \<Longrightarrow> plain c" for c by (auto simp: plain_def is_digit_def)
  then show ?thesis using string_of_nat_digits [of n] by (auto simp: list_all_iff)
qed

lemma layout_plain:
  assumes "list_all plain ds"
  shows "list_all plain (layout ds k n)"
proof -
  have "list_all plain (take m ds)" "list_all plain (drop m ds)" for m
    using assms by (metis append_take_drop_id list_all_append)+
  moreover have "list_all plain (replicate m (CHR ''0''))" for m by (induction m) (simp_all add: plain_def)
  moreover have "list_all plain ''.''" "list_all plain ''0.''" "list_all plain ''e+''" "list_all plain ''e-''"
    by (simp_all add: plain_def)
  ultimately show ?thesis
    using assms digits_plain unfolding layout_def Let_def
    by (simp only: list_all_append split: if_split) (simp only: simp_thms)
qed

lemma json_num_plain: "list_all plain (json_num x)"
proof -
  have "list_all plain (pos_to_string q)" for q
    unfolding pos_to_string_def Let_def case_prod_unfold by (rule layout_plain, rule digits_plain)
  then show ?thesis by (cases x) (simp_all add: num_to_string_def plain_def)
qed

section \<open>The indented and the plain text\<close>

lemma pretty_compact:
  "compact False (pretty n j @ s) = stringify j @ compact False s"
  "compact False (join ('','' @ new_line m) (pretty_elems m js) @ s) = join '','' (stringify_elems js) @ compact False s"
  "compact False (join ('','' @ new_line l) (pretty_props l ps) @ s) = join '','' (stringify_props ps) @ compact False s"
proof (induction n j and m js and l ps arbitrary: s and s and s rule: pretty_pretty_elems_pretty_props.induct)
  case (10 n x xs)
  then show ?case by (cases xs) (simp_all add: new_line_compact)
next
  case (12 n k x ps)
  then show ?case by (cases ps; cases "hd ps") (simp_all add: new_line_compact json_quote_compact)
qed (simp_all add: new_line_compact json_quote_compact compact_plain json_num_plain)

lemma compact_pretty: "compact False (pretty n j) = stringify j"
  using pretty_compact(1) [of n j "[]"] by simp

end
