(* ===== verification/UpdatePage.thy ===== *)
theory UpdatePage
  imports Polling Moment PrettyJSON
begin

text \<open>
  \<open>UpdateController\<close> of \<open>controllers.js\<close>: the page of one update.  Each answer overwrites the scope
  step by step; where a step throws, the assignments before it stay and the page stops polling.
\<close>

section \<open>Slices\<close>

text \<open>\<open>Array.prototype.slice\<close> with integer bounds: a negative one counts from the end.\<close>

definition slice_bound :: "int \<Rightarrow> nat \<Rightarrow> nat" where
  "slice_bound i n = (if i < 0 then nat (max (int n + i) 0) else min (nat i) n)"

definition js_slice :: "'a list \<Rightarrow> int \<Rightarrow> int \<Rightarrow> 'a list" where
  "js_slice xs lo hi = (let a = slice_bound lo (length xs); b = slice_bound hi (length xs) in
     take (b - a) (drop a xs))"

lemma js_slice_nonneg: "0 \<le> a \<Longrightarrow> a \<le> b \<Longrightarrow> js_slice xs a b = take (nat (b - a)) (drop (nat a) xs)"
proof -
  assume ab: "0 \<le> a" "a \<le> b"
  show ?thesis
  proof (cases "nat a \<le> length xs")
    case True
    then have "take (min (nat b) (length xs) - nat a) (drop (nat a) xs) = take (nat b - nat a) (drop (nat a) xs)"
      by (cases "nat b \<le> length xs") (simp_all add: take_all)
    then show ?thesis using ab True by (simp add: js_slice_def slice_bound_def Let_def nat_diff_distrib)
  qed (use ab in \<open>simp add: js_slice_def slice_bound_def Let_def\<close>)
qed

section \<open>The scope\<close>

record update_scope =
  up_update :: "job_update_details option"
  up_inProgress :: bool
  up_duration :: string
  up_stats :: "update_stats option"
  up_configJson :: "string option"
  up_allEvents :: "instance_event list" \<comment> \<open>the variable \<open>changeInstancePage\<close> closes over\<close>
  up_instanceEvents :: "instance_event list"
  up_eventsPerPage :: int
  up_totalEvents :: nat
  up_currentPage :: int
  up_instanceSummary :: "instance_summary list"
  up_instanceGridSize :: string

definition UpdateController_init :: update_scope where
  "UpdateController_init = \<lparr>up_update = None, up_inProgress = False, up_duration = '''', up_stats = None,
     up_configJson = None, up_allEvents = [], up_instanceEvents = [], up_eventsPerPage = 0, up_totalEvents = 0,
     up_currentPage = 0, up_instanceSummary = [], up_instanceGridSize = ''''\<rparr>"

definition update_key :: "string option \<Rightarrow> string option \<Rightarrow> string option \<Rightarrow> string option \<Rightarrow> job_update_key" where
  "update_key role environment job update =
     \<lparr>juk_job = \<lparr>jk_role = role, jk_environment = environment, jk_name = job\<rparr>, juk_id = update\<rparr>"

definition changeInstancePage :: "update_scope \<Rightarrow> update_scope" where
  "changeInstancePage scope =
     (let start = (up_currentPage scope - 1) * up_eventsPerPage scope;
          stop = start + up_eventsPerPage scope
      in scope\<lparr>up_instanceEvents := js_slice (up_allEvents scope) start stop\<rparr>)"

definition grid_size :: "nat \<Rightarrow> string" where
  "grid_size n = (if n \<le> 20 then ''big'' else if n \<le> 1000 then ''medium'' else ''small'')"

text \<open>The printed configuration of the tasks the update rolls out; without a desired state there is none to read.\<close>

definition configJson :: "job_update \<Rightarrow> string result" where
  "configJson u = (case ui_desiredState (ju_instructions u) of
     None \<Rightarrow> Inl TypeError
   | Some desiredState \<Rightarrow> Inr (pretty 0 (itc_task desiredState)))"

text \<open>The end of the callback: the table of events and the instances.\<close>

definition show_events :: "job_update_details \<Rightarrow> bool \<Rightarrow> update_scope \<Rightarrow> update_scope \<times> bool" where
  "show_events details inProgress scope =
     (case jud_instanceEvents details of
        None \<Rightarrow> (scope\<lparr>up_instanceEvents := [], up_eventsPerPage := 10\<rparr>, False)
      | Some instanceEvents \<Rightarrow>
         (let s1 = changeInstancePage (scope\<lparr>up_allEvents := instanceEvents,
                up_instanceEvents := instanceEvents, up_eventsPerPage := 10,
                up_totalEvents := length instanceEvents, up_currentPage := 1\<rparr>)
          in case fillInstanceSummary details of
               Inl e \<Rightarrow> (s1, False)
             | Inr ss \<Rightarrow> (s1\<lparr>up_instanceSummary := ss, up_instanceGridSize := grid_size (length ss)\<rparr>, inProgress)))"

text \<open>The callback of \<open>getJobUpdateDetails\<close>; the flag says whether it sets the timer.\<close>

definition update_then :: "job_update_details call_result \<Rightarrow> update_scope \<Rightarrow> update_scope \<times> bool" where
  "update_then response scope =
     (let details = cr_payload response; s1 = scope\<lparr>up_update := Some details\<rparr> in
      case jud_update details of
        None \<Rightarrow> (s1, False)
      | Some u \<Rightarrow>
         (let state = jsm_state (ju_summary u);
              s2 = s1\<lparr>up_inProgress := isInProgress (jus_status state),
                up_duration := humanize (moment_duration (js_sub
                  (num_of_int (jus_lastModifiedTimestampMs state)) (num_of_int (jus_createdTimestampMs state))))\<rparr>
          in case getUpdateStats (Some details) of
               Inl e \<Rightarrow> (s2, False)
             | Inr stats \<Rightarrow>
                (case configJson u of
                   Inl e \<Rightarrow> (s2\<lparr>up_stats := stats\<rparr>, False)
                 | Inr json \<Rightarrow> show_events details (isInProgress (jus_status state))
                     (s2\<lparr>up_stats := stats, up_configJson := Some json\<rparr>))))"

text \<open>The page asks again exactly for an update in progress all of whose parts could be shown.\<close>

definition update_shown :: "job_update_details \<Rightarrow> bool" where
  "update_shown d \<longleftrightarrow> jud_update d \<noteq> None \<and> jud_instanceEvents d \<noteq> None
     \<and> (\<exists>ss. fillInstanceSummary d = Inr ss)"

definition update_again :: "job_update_details call_result \<Rightarrow> bool" where
  "update_again response \<longleftrightarrow> update_shown (cr_payload response)
     \<and> (case jud_update (cr_payload response) of None \<Rightarrow> False
        | Some u \<Rightarrow> isInProgress (jus_status (jsm_state (ju_summary u))))"

lemma fill_desires: "fillInstanceSummary d = Inr ss \<Longrightarrow> jud_update d = Some u \<Longrightarrow> jud_instanceEvents d = Some evs \<Longrightarrow> desires u"
  by (rule ccontr) (simp add: fillInstanceSummary_def getAllInstanceIds_eq Let_def)

lemma desires_shows:
  assumes "desires u" and "jud_update d = Some u"
  shows "\<exists>stats json. getUpdateStats (Some d) = Inr stats \<and> configJson u = Inr json"
  using assms
  by (auto simp: getUpdateStats_def getAllInstanceIds_eq configJson_def desires_def Let_def)

lemma undesired_throws: "\<not> desires u \<Longrightarrow> jud_update d = Some u \<Longrightarrow> getUpdateStats (Some d) = Inl TypeError"
  by (simp add: getUpdateStats_def getAllInstanceIds_eq Let_def)

lemma show_events_again: "snd (show_events d b s)
    = (b \<and> jud_instanceEvents d \<noteq> None \<and> (\<exists>ss. fillInstanceSummary d = Inr ss))"
  by (auto simp: show_events_def Let_def split: option.split sum.split)

lemma update_then_again: "snd (update_then r s) = update_again r"
proof (cases "jud_update (cr_payload r)")
  case (Some u)
  show ?thesis
  proof (cases "desires u")
    case True
    from desires_shows [OF True Some] show ?thesis
      by (auto simp: update_then_def Some show_events_again update_again_def update_shown_def Let_def)
  next
    case False
    then show ?thesis
      using undesired_throws [OF False Some] fill_desires [OF _ Some]
      by (auto simp: update_then_def Some update_again_def update_shown_def Let_def)
  qed
qed (simp add: update_then_def update_again_def Let_def)

interpretation up: poller update_then update_again
  by unfold_locales (rule update_then_again)

section \<open>Pagination\<close>

definition page :: "'a list \<Rightarrow> nat \<Rightarrow> 'a list" where
  "page xs k = take 10 (drop (10 * k) xs)"

lemma pages_concat: "concat (map (page xs) [0 ..< n]) = take (10 * n) xs"
proof (induction n)
  case (Suc n)
  have "take (10 * n) xs @ page xs n = take (10 * Suc n) xs"
    by (simp add: page_def take_add add.commute [of 10])
  with Suc show ?case by simp
qed simp

lemma changeInstancePage_page:
  assumes "1 \<le> k" "up_eventsPerPage s = 10"
  shows "up_instanceEvents (changeInstancePage (s\<lparr>up_currentPage := k\<rparr>)) = page (up_allEvents s) (nat (k - 1))"
proof -
  have "nat ((k - 1) * 10) = 10 * nat (k - 1)" using assms(1) by (simp add: nat_mult_distrib)
  then show ?thesis
    using assms by (simp add: changeInstancePage_def Let_def js_slice_nonneg page_def)
qed

section \<open>Properties\<close>

text \<open>C22: the page of an update polls as long as the update is in progress and can be shown. In every
  reachable state one call or one timer is outstanding exactly when no call was lost and every
  answer so far described an update in progress with a desired state, with its events and with known actions; a state
  with nothing outstanding is final.\<close>

theorem update_page_polling:
  assumes "poll_run update_then (poll_start UpdateController_init) es p"
  shows "pl_requests p + pl_timers p = (if Lost \<notin> set es \<and> list_all update_again (answers es) then 1 else 0)
    \<and> ((\<exists>e p'. poll_step update_then p e p') \<longleftrightarrow> Lost \<notin> set es \<and> list_all update_again (answers es))
    \<and> pl_scope p = scope_after update_then (answers es) UpdateController_init"
  using up.run_state [OF assms] up.run_progress [OF assms] by (simp add: up.alive_def)

definition finished_details :: job_update_details where
  "finished_details = \<lparr>jud_update = None, jud_instanceEvents = Some []\<rparr>"

theorem update_page_polling_witness:
  "\<exists>p. poll_run update_then (poll_start UpdateController_init)
       [Answer \<lparr>cr_error = '''', cr_statsUrlPrefix = '''', cr_payload = finished_details\<rparr>] p
     \<and> pl_requests p + pl_timers p = 0"
proof -
  let ?r = "\<lparr>cr_error = '''', cr_statsUrlPrefix = '''', cr_payload = finished_details\<rparr>"
  have "0 < pl_requests (poll_start UpdateController_init)" by (simp add: poll_start_def)
  from poll_run.more [OF poll_run.stop poll_step.answer [OF this surjective_pairing]]
  obtain p where run: "poll_run update_then (poll_start UpdateController_init) [Answer ?r] p" by fastforce
  show ?thesis
    using update_page_polling [OF run] run
    by (intro exI [of _ p]) (simp add: update_again_def update_shown_def finished_details_def)
qed

text \<open>the pages of the event table partition the events: each page has at most ten, the pages one
  after the other are all events in order, and a page past the last one is empty. Each answer of
  the poll puts the table back to its first page.\<close>

theorem event_pages:
  assumes "update_shown (cr_payload r)"
  shows "let s = fst (update_then r s0); evs = up_allEvents s;
       shown = (\<lambda>k. up_instanceEvents (changeInstancePage (s\<lparr>up_currentPage := int k + 1\<rparr>))) in
     Some evs = jud_instanceEvents (cr_payload r) \<and> up_totalEvents s = length evs
     \<and> up_instanceEvents s = take 10 evs \<and> up_currentPage s = 1
     \<and> length (shown k) \<le> 10
     \<and> concat (map shown [0 ..< n]) = take (10 * n) evs
     \<and> (shown k = [] \<longleftrightarrow> length evs \<le> 10 * k)"
proof -
  let ?s = "fst (update_then r s0)"
  obtain u evs ss where d: "jud_update (cr_payload r) = Some u" "jud_instanceEvents (cr_payload r) = Some evs"
    "fillInstanceSummary (cr_payload r) = Inr ss"
    using assms unfolding update_shown_def by auto
  obtain stats json where j: "getUpdateStats (Some (cr_payload r)) = Inr stats" "configJson u = Inr json"
    using desires_shows [OF fill_desires [OF d(3,1,2)] d(1)] by blast
  have s: "up_allEvents ?s = evs" "up_totalEvents ?s = length evs" "up_eventsPerPage ?s = 10" "up_currentPage ?s = 1"
    "up_instanceEvents ?s = take 10 evs"
    by (simp_all add: update_then_def show_events_def d j Let_def changeInstancePage_def js_slice_nonneg)
  have "up_instanceEvents (changeInstancePage (?s\<lparr>up_currentPage := int k + 1\<rparr>)) = page evs k" for k
    using changeInstancePage_page [of "int k + 1" ?s] s by simp
  moreover have "length (page evs k) \<le> 10" "page evs k = [] \<longleftrightarrow> length evs \<le> 10 * k" by (simp_all add: page_def)
  ultimately show ?thesis using s d pages_concat [of evs n] by (simp add: Let_def)
qed

lemma example_events_known: "\<not> unknown_latest example_update [\<lparr>ie_instanceId = 3, ie_timestampMs = 5, ie_action = 1\<rparr>] i"
  by (simp add: unknown_latest_def known_action_def getLatestInstanceEvents_def us_simps Let_def obj_has_def
      obj_get_def string_of_small)

theorem event_pages_witness:
  "up_instanceEvents (fst (update_then \<lparr>cr_error = '''', cr_statsUrlPrefix = '''',
       cr_payload = \<lparr>jud_update = Some example_update,
         jud_instanceEvents = Some [\<lparr>ie_instanceId = 3, ie_timestampMs = 5, ie_action = 1\<rparr>]\<rparr>\<rparr> UpdateController_init))
   = [\<lparr>ie_instanceId = 3, ie_timestampMs = 5, ie_action = 1\<rparr>]"
proof -
  let ?evs = "[\<lparr>ie_instanceId = 3, ie_timestampMs = 5, ie_action = 1\<rparr>]"
  let ?d = "\<lparr>jud_update = Some example_update, jud_instanceEvents = Some ?evs\<rparr>"
  have idx: "list_all index_range (new_instance_ids example_update @ old_instance_ids example_update)"
    by (simp add: example_update_ids index_range_def)
  from fillInstanceSummary_eq [OF _ _ this, of ?d ?evs] have "update_shown ?d"
    by (simp add: update_shown_def example_update_ids example_events_known)
  then show ?thesis
    using event_pages [of "\<lparr>cr_error = '''', cr_statsUrlPrefix = '''', cr_payload = ?d\<rparr>" UpdateController_init 0 0]
    by (simp add: Let_def)
qed

text \<open>C34: an update without a desired state, such as one that only removes instances, stops its page. The
  answer that describes it is the last one of the page: no call and no timer is outstanding after it, even when the update
  is in progress, and no further event can happen. Of that answer the page takes over the details, whether the
  update is in progress and its duration; the figures, the configuration, the events, the
  instances and the pages keep what the answers before have set.\<close>

theorem removal_update_stops_page:
  assumes "poll_run update_then (poll_start UpdateController_init) es p" and "r \<in> set (answers es)"
    and "jud_update (cr_payload r) = Some u" and "ui_desiredState (ju_instructions u) = None"
  shows "\<exists>rs. answers es = rs @ [r] \<and> pl_requests p = 0 \<and> pl_timers p = 0
    \<and> (\<forall>e p'. \<not> poll_step update_then p e p')
    \<and> pl_scope p = (scope_after update_then rs UpdateController_init)\<lparr>up_update := Some (cr_payload r),
        up_inProgress := isInProgress (jus_status (jsm_state (ju_summary u))),
        up_duration := humanize (moment_duration (js_sub
          (num_of_int (jus_lastModifiedTimestampMs (jsm_state (ju_summary u))))
          (num_of_int (jus_createdTimestampMs (jsm_state (ju_summary u))))))\<rparr>"
proof -
  have u: "\<not> desires u" using assms(4) by (simp add: desires_def)
  have stop: "\<not> update_again r"
    using fill_desires [OF _ assms(3)] u by (auto simp: update_again_def update_shown_def)
  obtain rs where rs: "answers es = rs @ [r]" using up.run_last [OF assms(1,2) stop] by blast
  have dead: "\<not> up.alive es" using stop assms(2) by (auto simp: up.alive_def list_all_iff)
  have "fst (update_then r s) = s\<lparr>up_update := Some (cr_payload r),
        up_inProgress := isInProgress (jus_status (jsm_state (ju_summary u))),
        up_duration := humanize (moment_duration (js_sub
          (num_of_int (jus_lastModifiedTimestampMs (jsm_state (ju_summary u))))
          (num_of_int (jus_createdTimestampMs (jsm_state (ju_summary u))))))\<rparr>" for s
    by (simp add: update_then_def assms(3) undesired_throws [OF u assms(3)] Let_def)
  then show ?thesis
    using up.run_state [OF assms(1)] up.run_progress [OF assms(1)] dead rs
    by (intro exI [of _ rs]) (simp add: scope_after_def)
qed

theorem removal_update_stops_page_witness:
  "\<exists>p. poll_run update_then (poll_start UpdateController_init)
       [Answer \<lparr>cr_error = '''', cr_statsUrlPrefix = '''',
          cr_payload = \<lparr>jud_update = Some removal_update, jud_instanceEvents = Some []\<rparr>\<rparr>] p
     \<and> (\<forall>e p'. \<not> poll_step update_then p e p') \<and> up_inProgress (pl_scope p) \<and> up_stats (pl_scope p) = None"
proof -
  let ?r = "\<lparr>cr_error = '''', cr_statsUrlPrefix = '''',
          cr_payload = \<lparr>jud_update = Some removal_update, jud_instanceEvents = Some []\<rparr>\<rparr>"
  have "0 < pl_requests (poll_start UpdateController_init)" by (simp add: poll_start_def)
  from poll_run.more [OF poll_run.stop poll_step.answer [OF this surjective_pairing]]
  obtain p where run: "poll_run update_then (poll_start UpdateController_init) [Answer ?r] p" by fastforce
  have "isInProgress (jus_status (jsm_state (ju_summary removal_update)))" by code_simp
  then show ?thesis
    using removal_update_stops_page [OF run, of ?r removal_update] run
    by (intro exI [of _ p]) (simp add: removal_update_def scope_after_def UpdateController_init_def)
qed

end
