(* ===== verification/TaskUtil.thy ===== *)
theory TaskUtil
  imports Api JSON Underscore
begin

text \<open>
  The \<open>taskUtil\<close> service of \<open>services.js\<close>: which tasks are active, how a task configuration is
  reduced to the details shown in the UI, and how instances with equal details are collapsed into
  contiguous ranges of ids.
\<close>

definition isActiveTask :: "scheduled_task \<Rightarrow> bool" where
  "isActiveTask task = us_contains (Some ACTIVE_STATES) (st_status task)"

section \<open>Ranges of instance ids\<close>

text \<open>Reading an array out of bounds gives \<open>undefined\<close>.\<close>

definition nth_opt :: "'a list \<Rightarrow> nat \<Rightarrow> 'a option" where
  "nth_opt xs i = (if i < length xs then Some (xs ! i) else None)"

record id_span =
  span_start :: "int option"
  span_end :: int

function toRanges_loop :: "int list \<Rightarrow> nat \<Rightarrow> int option \<Rightarrow> id_span list \<Rightarrow> id_span list" where
  "toRanges_loop instanceIds i start ranges =
     (if i < length instanceIds then
        (if i + 1 = length instanceIds \<or> instanceIds ! i + 1 \<noteq> instanceIds ! (i + 1)
         then toRanges_loop instanceIds (i + 1) (nth_opt instanceIds (i + 1))
                (ranges @ [\<lparr>span_start = start, span_end = instanceIds ! i\<rparr>])
         else toRanges_loop instanceIds (i + 1) start ranges)
      else ranges)"
  by pat_completeness auto
termination
  by (relation "measure (\<lambda>(ids, i, start, ranges). length ids - i)") auto

declare toRanges_loop.simps [simp del]

definition toRanges :: "int list \<Rightarrow> id_span list" where
  "toRanges instanceIds =
     (let ids = us_sortBy (\<lambda>i. Some i) (Some instanceIds) in
      toRanges_loop ids 0 (nth_opt ids 0) [])"

section \<open>Task configurations\<close>

text \<open>
  A value constraint shows its values, a limit constraint shows the JSON of its struct; the limit
  wins when both are present.  \<open>valueConstraint.values\<close> is tested before it is joined.
\<close>

definition formatConstraint :: "constraint \<Rightarrow> string" where
  "formatConstraint c =
     (let taskConstraint = c_constraint c;
          valueConstraintStr =
            (case tc_value taskConstraint of None \<Rightarrow> ''''
             | Some v \<Rightarrow> (case vc_values v of None \<Rightarrow> ''''
               | Some values \<Rightarrow> (let s = join '','' values in if vc_negated v then ''not '' @ s else s)));
          limitConstraintStr =
            (case tc_limit taskConstraint of None \<Rightarrow> ''''
             | Some n \<Rightarrow> stringify (JObj [(''limit'', JNum (Fin (of_int n)))]))
      in if us_isEmpty (Some limitConstraintStr) \<and> us_isEmpty (Some valueConstraintStr) then ''''
         else c_name c @ '':'' @
           (if us_isEmpty (Some limitConstraintStr) then valueConstraintStr else limitConstraintStr))"

record config_details =
  cd_numCpus :: num
  cd_ramMb :: int
  cd_diskMb :: int
  cd_isService :: bool
  cd_production :: "bool option"
  cd_contact :: string
  cd_ports :: string
  cd_constraints :: string
  cd_metadata :: string
  cd_container :: "string option"

definition configToDetails :: "task_config \<Rightarrow> config_details" where
  "configToDetails task =
     \<lparr>cd_numCpus = cfg_numCpus task,
      cd_ramMb = cfg_ramMb task,
      cd_diskMb = cfg_diskMb task,
      cd_isService = cfg_isService task,
      cd_production = cfg_production task,
      cd_contact = (case cfg_contactEmail task of None \<Rightarrow> '''' | Some e \<Rightarrow> e),
      cd_ports = join '', '' (us_sortBy (\<lambda>p. Some p) (cfg_requestedPorts task)),
      cd_constraints = join '', ''
        (us_map formatConstraint (Some (us_sortBy (\<lambda>c. Some (c_name c)) (cfg_constraints task)))),
      cd_metadata = join '', ''
        (us_map (\<lambda>m. md_key m @ '':'' @ md_value m)
          (Some (us_sortBy (\<lambda>m. Some (md_key m)) (cfg_metadata task)))),
      cd_container = cfg_docker task\<rparr>"

text \<open>The object \<open>JSON.stringify(task.schedulingDetail)\<close> prints; an undefined container is left out.\<close>

definition details_json :: "config_details \<Rightarrow> json" where
  "details_json d = JObj
     ([(''numCpus'', JNum (cd_numCpus d)),
       (''ramMb'', JNum (Fin (of_int (cd_ramMb d)))),
       (''diskMb'', JNum (Fin (of_int (cd_diskMb d)))),
       (''isService'', JBool (cd_isService d)),
       (''production'', case cd_production d of None \<Rightarrow> JNull | Some b \<Rightarrow> JBool b),
       (''contact'', JStr (cd_contact d)),
       (''ports'', JStr (cd_ports d)),
       (''constraints'', JStr (cd_constraints d)),
       (''metadata'', JStr (cd_metadata d))]
      @ (case cd_container d of None \<Rightarrow> [] | Some img \<Rightarrow> [(''container'', JObj [(''image'', JStr img)])]))"

record task_detail =
  td_instanceId :: int
  td_schedulingDetail :: config_details

record range_detail =
  rd_range :: id_span
  rd_schedulingDetail :: config_details

text \<open>\<open>_.map\<close> over the own properties of an object visits its values in key order.\<close>

definition us_map_values :: "('v \<Rightarrow> 'b) \<Rightarrow> 'v obj \<Rightarrow> 'b list" where
  "us_map_values f d = map f (List.map_filter (obj_get d) (obj_keys d))"

definition task_detail_of :: "scheduled_task \<Rightarrow> task_detail" where
  "task_detail_of task =
     \<lparr>td_instanceId = at_instanceId (st_assignedTask task),
      td_schedulingDetail = configToDetails (at_task (st_assignedTask task))\<rparr>"

definition detail_key :: "task_detail \<Rightarrow> string" where
  "detail_key t = stringify (details_json (td_schedulingDetail t))"

text \<open>One group of tasks with the same details, as ranges; \<open>_.first\<close> of an empty group would be
  \<open>undefined\<close>, and reading its details would throw, but \<open>groupBy\<close> makes no empty group.\<close>

definition group_ranges :: "task_detail list \<Rightarrow> range_detail list" where
  "group_ranges tasks =
     (case us_first tasks of None \<Rightarrow> []
      | Some t \<Rightarrow> us_map (\<lambda>range. \<lparr>rd_range = range, rd_schedulingDetail = td_schedulingDetail t\<rparr>)
          (Some (toRanges (us_map td_instanceId (Some tasks)))))"

definition summarizeActiveTaskConfigs :: "scheduled_task list option \<Rightarrow> range_detail list" where
  "summarizeActiveTaskConfigs tasks =
     us_sortBy (\<lambda>d. span_start (rd_range d))
       (Some (us_flatten_shallow
         (us_map_values group_ranges
           (us_groupBy detail_key (Some (us_map task_detail_of (Some (us_filter isActiveTask tasks))))))))"

section \<open>What the range loop computes\<close>

text \<open>The same grouping as a recursion on the remaining ids: \<open>a\<close> opens the current run, \<open>b\<close> ends it.\<close>

fun runs_from :: "int \<Rightarrow> int \<Rightarrow> int list \<Rightarrow> (int \<times> int) list" where
  "runs_from a b [] = [(a, b)]"
| "runs_from a b (y # ys) = (if b + 1 = y then runs_from a y ys else (a, b) # runs_from y y ys)"

definition span_of :: "int \<times> int \<Rightarrow> id_span" where
  "span_of p = \<lparr>span_start = Some (fst p), span_end = snd p\<rparr>"

definition span_ids :: "id_span \<Rightarrow> int list" where
  "span_ids r = (case span_start r of None \<Rightarrow> [] | Some a \<Rightarrow> [a .. span_end r])"

lemma toRanges_loop_runs:
  "i < length ids \<Longrightarrow> toRanges_loop ids i (Some a) ranges =
     ranges @ map span_of (runs_from a (ids ! i) (drop (i + 1) ids))"
proof (induction "length ids - i" arbitrary: i a ranges)
  case (Suc n)
  note step = toRanges_loop.simps [of ids i "Some a" ranges]
  show ?case
  proof (cases "i + 1 = length ids")
    case True
    then have "toRanges_loop ids (i + 1) s rs = rs" for s rs by (simp add: toRanges_loop.simps)
    with True Suc.prems show ?thesis by (simp add: step span_of_def)
  next
    case False
    then have lt: "i + 1 < length ids" using Suc.prems by simp
    then have d: "drop (i + 1) ids = ids ! (i + 1) # drop (i + 1 + 1) ids"
      by (simp add: Cons_nth_drop_Suc)
    have IH: "toRanges_loop ids (Suc i) (Some a') rs =
        rs @ map span_of (runs_from a' (ids ! (Suc i)) (drop (Suc (Suc i)) ids))" for a' rs
      using Suc.hyps(1) [of "Suc i" a' rs] Suc.hyps(2) lt by simp
    show ?thesis
      using Suc.prems False lt d by (simp add: step IH nth_opt_def span_of_def)
  qed
qed simp

lemma toRanges_runs:
  "toRanges ids = (case sort ids of [] \<Rightarrow> [] | x # xs \<Rightarrow> map span_of (runs_from x x xs))"
proof (cases "sort ids")
  case Nil
  then show ?thesis by (simp add: toRanges_def us_simps toRanges_loop.simps)
next
  case (Cons x xs)
  then show ?thesis
    using toRanges_loop_runs [of 0 "x # xs" x "[]"] by (simp add: toRanges_def us_simps nth_opt_def)
qed

lemma runs_from_concat:
  "a \<le> b \<Longrightarrow> concat (map (span_ids \<circ> span_of) (runs_from a b ys)) = [a .. b] @ ys"
proof (induction ys arbitrary: a b)
  case Nil
  then show ?case by (simp add: span_ids_def span_of_def)
next
  case (Cons y ys)
  show ?case
  proof (cases "b + 1 = y")
    case True
    then have "[a .. y] = [a .. b] @ [y]" using Cons.prems upto_rec2 [of a y] by auto
    with True Cons show ?thesis by simp
  next
    case False
    with Cons show ?thesis by (simp add: span_ids_def span_of_def)
  qed
qed

lemma runs_from_ne: "runs_from a b ys \<noteq> [] \<and> fst (hd (runs_from a b ys)) = a"
  by (induction a b ys rule: runs_from.induct) auto

lemma runs_from_gaps: "successively (\<lambda>p q. snd p + 1 \<noteq> fst q) (runs_from a b ys)"
  by (induction a b ys rule: runs_from.induct) (auto simp: successively_Cons runs_from_ne)

lemma runs_from_ordered: "a \<le> b \<Longrightarrow> list_all (\<lambda>p. fst p \<le> snd p) (runs_from a b ys)"
  by (induction a b ys rule: runs_from.induct) auto

lemma toRanges_concat: "concat (map span_ids (toRanges ids)) = sort ids"
  by (cases "sort ids") (simp_all add: toRanges_runs runs_from_concat)

lemma toRanges_mset: "mset (concat (map span_ids (toRanges ids))) = mset ids"
  by (simp add: toRanges_concat)

lemma toRanges_starts: "r \<in> set (toRanges ids) \<Longrightarrow> \<exists>a. span_start r = Some a \<and> a \<le> span_end r"
proof -
  assume r: "r \<in> set (toRanges ids)"
  obtain x xs where s: "sort ids = x # xs" using r by (cases "sort ids") (auto simp: toRanges_runs)
  have "list_all (\<lambda>p. fst p \<le> snd p) (runs_from x x xs)" by (rule runs_from_ordered) simp
  then show ?thesis using r s by (auto simp: toRanges_runs span_of_def list_all_iff)
qed

section \<open>Grouping keeps every task\<close>

lemma map_filter_get_fst: "obj_wf d \<Longrightarrow> List.map_filter (obj_get d) (map fst d) = map snd d"
proof -
  assume wf: "obj_wf d"
  have "List.map_filter (obj_get d) (map fst e) = map snd e" if "\<forall>p \<in> set e. obj_get d (fst p) = Some (snd p)" for e
    using that by (induction e) (auto simp: List.map_filter_simps)
  moreover have "\<forall>p \<in> set d. obj_get d (fst p) = Some (snd p)"
    using wf by (auto simp: obj_get_def obj_wf_def)
  ultimately show ?thesis by blast
qed

lemma values_mset: "obj_wf d \<Longrightarrow> mset (List.map_filter (obj_get d) (obj_keys d)) = mset (map snd d)"
proof -
  assume wf: "obj_wf d"
  have "mset (List.map_filter (obj_get d) (obj_keys d)) = mset (List.map_filter (obj_get d) (map fst d))"
    by (simp add: List.map_filter_def mset_filter obj_keys_mset)
  then show ?thesis by (simp add: map_filter_get_fst [OF wf])
qed

lemma obj_set_append_mset:
  "obj_wf d \<Longrightarrow> mset (concat (map snd (obj_set k ((case obj_get d k of Some vs \<Rightarrow> vs | None \<Rightarrow> []) @ [x]) d)))
     = add_mset x (mset (concat (map snd d)))"
  by (induction d) (auto simp: obj_get_def obj_wf_def)

lemma us_groupBy_wf_mset:
  "obj_wf (us_groupBy f (Some xs)) \<and> mset (concat (map snd (us_groupBy f (Some xs)))) = mset xs"
proof -
  let ?step = "\<lambda>r v. obj_set (f v) ((case obj_get r (f v) of Some vs \<Rightarrow> vs | None \<Rightarrow> []) @ [v]) r"
  have "obj_wf (foldl ?step d xs) \<and>
      mset (concat (map snd (foldl ?step d xs))) = mset (concat (map snd d)) + mset xs"
    if "obj_wf d" for d
    using that by (induction xs arbitrary: d) (simp_all only: foldl.simps obj_set_append_mset obj_wf_set, simp_all)
  from this [OF obj_wf_empty] show ?thesis unfolding us_groupBy_fold by simp
qed

lemma concat_mset_perm: "mset xss = mset yss \<Longrightarrow> mset (concat (map f xss)) = mset (concat (map f yss))"
proof -
  assume eq: "mset xss = mset yss"
  have "mset (concat (map f zss)) = \<Sum>\<^sub># (image_mset (\<lambda>z. mset (f z)) (mset zss))" for zss
    by (induction zss) auto
  then show ?thesis using eq by simp
qed

lemma groupBy_values_mset:
  "mset (concat (List.map_filter (obj_get (us_groupBy f (Some xs))) (obj_keys (us_groupBy f (Some xs))))) = mset xs"
proof -
  let ?d = "us_groupBy f (Some xs)"
  have "mset (List.map_filter (obj_get ?d) (obj_keys ?d)) = mset (map snd ?d)"
    by (rule values_mset) (use us_groupBy_wf_mset in blast)
  from concat_mset_perm [OF this, of "\<lambda>x. x"] show ?thesis
    using us_groupBy_wf_mset [of f xs] by simp
qed

lemma groupBy_values_member:
  assumes "g \<in> set (List.map_filter (obj_get (us_groupBy f (Some xs))) (obj_keys (us_groupBy f (Some xs))))"
  shows "\<exists>k. g = filter (\<lambda>x. f x = k) xs \<and> k \<in> f ` set xs"
proof -
  obtain k where "obj_get (us_groupBy f (Some xs)) k = Some g"
    using assms by (auto simp: List.map_filter_def)
  then show ?thesis by (auto simp: us_groupBy_get split: if_splits)
qed

section \<open>What the summary shows\<close>

lemma group_ranges_ids:
  assumes "tasks \<noteq> []"
  shows "map rd_range (group_ranges tasks) = toRanges (map td_instanceId tasks)"
  using assms by (cases tasks) (simp_all add: group_ranges_def us_simps comp_def)

lemma group_ranges_detail:
  "r \<in> set (group_ranges tasks) \<Longrightarrow>
   rd_range r \<in> set (toRanges (map td_instanceId tasks)) \<and> rd_schedulingDetail r = td_schedulingDetail (hd tasks)"
  by (cases tasks) (auto simp: group_ranges_def us_simps)

text \<open>The groups \<open>summarizeActiveTaskConfigs\<close> works on, and its entries before the last sort.\<close>

definition active_details :: "scheduled_task list \<Rightarrow> task_detail list" where
  "active_details ts = map task_detail_of (filter isActiveTask ts)"

definition detail_groups :: "scheduled_task list \<Rightarrow> task_detail list list" where
  "detail_groups ts = (let d = us_groupBy detail_key (Some (active_details ts)) in
     List.map_filter (obj_get d) (obj_keys d))"

lemma detail_groups_mset: "mset (concat (detail_groups ts)) = mset (active_details ts)"
  by (simp add: detail_groups_def Let_def groupBy_values_mset)

lemma detail_groups_member:
  assumes "g \<in> set (detail_groups ts)"
  shows "g \<noteq> [] \<and> set g \<subseteq> set (active_details ts) \<and> list_all (\<lambda>t. detail_key t = detail_key (hd g)) g"
proof -
  obtain k where k: "g = filter (\<lambda>x. detail_key x = k) (active_details ts)" "k \<in> detail_key ` set (active_details ts)"
    using groupBy_values_member assms unfolding detail_groups_def Let_def by blast
  then have ne: "g \<noteq> []" by (auto simp: filter_empty_conv)
  have "\<forall>t \<in> set g. detail_key t = k" using k(1) by simp
  then show ?thesis using ne hd_in_set [OF ne] k(1) by (auto simp: list_all_iff)
qed

lemma summarize_starts:
  assumes "g \<in> set (detail_groups ts)" and "r \<in> set (group_ranges g)"
  shows "span_start (rd_range r) = Some (the (span_start (rd_range r)))"
  using group_ranges_detail [OF assms(2)] toRanges_starts by fastforce

lemma summarize_sorted:
  "summarizeActiveTaskConfigs (Some ts) =
     sort_key (\<lambda>r. the (span_start (rd_range r))) (concat (map group_ranges (detail_groups ts)))"
proof -
  have "summarizeActiveTaskConfigs (Some ts) =
      us_sortBy (\<lambda>d. span_start (rd_range d)) (Some (concat (map group_ranges (detail_groups ts))))"
    by (simp add: summarizeActiveTaskConfigs_def us_map_values_def detail_groups_def active_details_def
        us_simps Let_def)
  also have "\<dots> = sort_key (\<lambda>r. the (span_start (rd_range r))) (concat (map group_ranges (detail_groups ts)))"
    by (rule us_sortBy_cong) (auto dest: summarize_starts)
  finally show ?thesis .
qed

lemma span_ids_groups:
  "(\<And>g. g \<in> set gs \<Longrightarrow> g \<noteq> []) \<Longrightarrow>
   mset (concat (map (\<lambda>r. span_ids (rd_range r)) (concat (map group_ranges gs)))) = mset (map td_instanceId (concat gs))"
proof (induction gs)
  case (Cons g gs)
  have "mset (concat (map (\<lambda>r. span_ids (rd_range r)) (group_ranges g))) = mset (map td_instanceId g)"
    using Cons.prems [of g] group_ranges_ids [of g] toRanges_mset [of "map td_instanceId g"]
    by (simp flip: map_map add: comp_def [of span_ids rd_range, symmetric])
  then show ?case using Cons by simp
qed simp

lemma runs_spans_gaps:
  "successively (\<lambda>r s. span_start s \<noteq> Some (span_end r + 1)) (map span_of (runs_from a b ys))"
  using runs_from_gaps [of a b ys] by (simp add: successively_map span_of_def eq_commute)

text \<open>C4: \<open>toRanges\<close> loses and invents nothing and merges all it can. Written out, the ranges are the
  sorted ids; every range has a start that is at most its end; and no range begins right after the
  one before it ends.\<close>

theorem toRanges_maximal_runs:
  "concat (map span_ids (toRanges ids)) = sort ids
   \<and> list_all (\<lambda>r. \<exists>a. span_start r = Some a \<and> a \<le> span_end r) (toRanges ids)
   \<and> successively (\<lambda>r s. span_start s \<noteq> Some (span_end r + 1)) (toRanges ids)"
proof (intro conjI)
  show "concat (map span_ids (toRanges ids)) = sort ids" by (rule toRanges_concat)
  show "list_all (\<lambda>r. \<exists>a. span_start r = Some a \<and> a \<le> span_end r) (toRanges ids)"
    by (simp add: list_all_iff toRanges_starts)
  show "successively (\<lambda>r s. span_start s \<noteq> Some (span_end r + 1)) (toRanges ids)"
    by (cases "sort ids") (simp_all add: toRanges_runs runs_spans_gaps)
qed

text \<open>C18: the configuration summary covers the active tasks exactly: counted with multiplicity the ids
  of its ranges are the instance ids of the active tasks, the entries come in ascending order of
  their first id, and the details shown for an entry are those of the active tasks it stands for.\<close>

theorem summarizeActiveTaskConfigs_covers:
  "mset (concat (map (\<lambda>r. span_ids (rd_range r)) (summarizeActiveTaskConfigs (Some ts))))
     = mset (map (\<lambda>t. at_instanceId (st_assignedTask t)) (filter isActiveTask ts))
   \<and> sorted (map (\<lambda>r. the (span_start (rd_range r))) (summarizeActiveTaskConfigs (Some ts)))
   \<and> list_all (\<lambda>r. list_all (\<lambda>i. list_ex (\<lambda>t. isActiveTask t \<and> at_instanceId (st_assignedTask t) = i
        \<and> stringify (details_json (configToDetails (at_task (st_assignedTask t))))
            = stringify (details_json (rd_schedulingDetail r))) ts) (span_ids (rd_range r)))
      (summarizeActiveTaskConfigs (Some ts))"
proof -
  let ?cs = "concat (map group_ranges (detail_groups ts))"
  have "mset (concat (map (\<lambda>r. span_ids (rd_range r)) (summarizeActiveTaskConfigs (Some ts))))
      = mset (concat (map (\<lambda>r. span_ids (rd_range r)) ?cs))"
    unfolding summarize_sorted by (rule concat_mset_perm) simp
  also have "\<dots> = mset (map td_instanceId (concat (detail_groups ts)))"
    using detail_groups_member by (intro span_ids_groups) blast
  also have "\<dots> = mset (map td_instanceId (active_details ts))" by (metis detail_groups_mset mset_map)
  finally have ids: "mset (concat (map (\<lambda>r. span_ids (rd_range r)) (summarizeActiveTaskConfigs (Some ts))))
      = mset (map (\<lambda>t. at_instanceId (st_assignedTask t)) (filter isActiveTask ts))"
    by (simp add: active_details_def task_detail_of_def comp_def)
  have sorted: "sorted (map (\<lambda>r. the (span_start (rd_range r))) (summarizeActiveTaskConfigs (Some ts)))"
    unfolding summarize_sorted by (rule sorted_sort_key)
  have "list_all (\<lambda>r. list_all (\<lambda>i. list_ex (\<lambda>t. isActiveTask t \<and> at_instanceId (st_assignedTask t) = i
        \<and> stringify (details_json (configToDetails (at_task (st_assignedTask t))))
            = stringify (details_json (rd_schedulingDetail r))) ts) (span_ids (rd_range r)))
      (summarizeActiveTaskConfigs (Some ts))"
    unfolding summarize_sorted list_all_iff list_ex_iff set_sort
  proof (intro ballI)
    fix r i assume r: "r \<in> set ?cs" and i: "i \<in> set (span_ids (rd_range r))"
    obtain g where g: "g \<in> set (detail_groups ts)" "r \<in> set (group_ranges g)" using r by auto
    have "i \<in> set (concat (map span_ids (toRanges (map td_instanceId g))))"
      using i group_ranges_detail [OF g(2)] by (simp only: set_concat set_map) blast
    then obtain d where d: "d \<in> set g" "td_instanceId d = i" unfolding toRanges_concat by auto
    have "set g \<subseteq> set (active_details ts)" "list_all (\<lambda>t. detail_key t = detail_key (hd g)) g"
      using detail_groups_member [OF g(1)] by blast+
    then have act: "d \<in> set (active_details ts)" and key: "detail_key d = detail_key (hd g)"
      using d(1) unfolding list_all_iff by blast+
    have rd: "rd_schedulingDetail r = td_schedulingDetail (hd g)" using group_ranges_detail [OF g(2)] by blast
    obtain t where t: "t \<in> set ts" "isActiveTask t" "d = task_detail_of t"
      using act by (auto simp: active_details_def)
    then show "\<exists>t \<in> set ts. isActiveTask t \<and> at_instanceId (st_assignedTask t) = i
        \<and> stringify (details_json (configToDetails (at_task (st_assignedTask t))))
            = stringify (details_json (rd_schedulingDetail r))"
      using d(2) key rd by (intro bexI [of _ t]) (simp_all add: task_detail_of_def detail_key_def)
  qed
  with ids sorted show ?thesis by blast
qed

text \<open>The details of a configuration do not depend on the order in which the scheduler lists the
  elements of its sets: constraints with different names, requested ports and metadata with
  different keys may come in any order.\<close>

theorem configToDetails_order_independent:
  assumes "mset cs = mset cs'" and "distinct (map c_name cs)"
    and "mset ps = mset ps'"
    and "mset ms = mset ms'" and "distinct (map md_key ms)"
  shows "configToDetails (cfg\<lparr>cfg_constraints := Some cs, cfg_requestedPorts := Some ps, cfg_metadata := Some ms\<rparr>)
    = configToDetails (cfg\<lparr>cfg_constraints := Some cs', cfg_requestedPorts := Some ps', cfg_metadata := Some ms'\<rparr>)"
  using us_sortBy_perm [OF assms(1), of c_name] us_sortBy_perm [OF assms(3), of "\<lambda>p. p"]
    us_sortBy_perm [OF assms(4), of md_key] assms(2,5)
  by (simp add: configToDetails_def distinct_map)

definition example_config :: task_config where
  "example_config = \<lparr>cfg_jobName = ''web'', cfg_isService = True, cfg_numCpus = Fin 1, cfg_ramMb = 128,
     cfg_diskMb = 64, cfg_production = Some True, cfg_constraints = None, cfg_requestedPorts = None,
     cfg_contactEmail = None, cfg_metadata = None, cfg_docker = None\<rparr>"

theorem configToDetails_order_independent_witness:
  "cd_ports (configToDetails (example_config\<lparr>cfg_constraints := Some [], cfg_requestedPorts := Some [''http'', ''admin''],
      cfg_metadata := Some [\<lparr>md_key = ''a'', md_value = ''1''\<rparr>, \<lparr>md_key = ''b'', md_value = ''2''\<rparr>]\<rparr>))
   = cd_ports (configToDetails (example_config\<lparr>cfg_constraints := Some [], cfg_requestedPorts := Some [''admin'', ''http''],
      cfg_metadata := Some [\<lparr>md_key = ''b'', md_value = ''2''\<rparr>, \<lparr>md_key = ''a'', md_value = ''1''\<rparr>]\<rparr>))"
  using configToDetails_order_independent [of "[]" "[]" "[''http'', ''admin'']" "[''admin'', ''http'']"
      "[\<lparr>md_key = ''a'', md_value = ''1''\<rparr>, \<lparr>md_key = ''b'', md_value = ''2''\<rparr>]"
      "[\<lparr>md_key = ''b'', md_value = ''2''\<rparr>, \<lparr>md_key = ''a'', md_value = ''1''\<rparr>]" example_config]
  by (simp add: add_mset_commute)

end
