(* ===== verification/Summaries.thy ===== *)
theory Summaries
  imports AuroraClient Filters
begin

text \<open>
  \<open>RoleSummaryController\<close>, \<open>JobSummaryController\<close> and \<open>QuotaController\<close> of \<open>controllers.js\<close>: the tables
  of roles, of the jobs of a role, and of the resources of a role.  A scope is a record; a
  controller's callback maps the value its promise was resolved with and the scope to the new
  scope, or throws.
\<close>

section \<open>Tables\<close>

record table_config =
  tc_isGlobalSearchActivated :: bool
  tc_isPaginationEnabled :: bool
  tc_itemsByPage :: "nat option"
  tc_maxSize :: "nat option"
  tc_selectionMode :: string
  tc_columnSpan :: "nat option"

definition infoTableConfig :: table_config where
  "infoTableConfig = \<lparr>tc_isGlobalSearchActivated = True, tc_isPaginationEnabled = True,
     tc_itemsByPage = Some 25, tc_maxSize = Some 8, tc_selectionMode = ''single'', tc_columnSpan = None\<rparr>"

definition summaryTableConfig :: table_config where
  "summaryTableConfig = \<lparr>tc_isGlobalSearchActivated = False, tc_isPaginationEnabled = False,
     tc_itemsByPage = None, tc_maxSize = None, tc_selectionMode = ''none'', tc_columnSpan = None\<rparr>"

record column =
  col_label :: string
  col_map :: string
  col_template :: "string option"

definition mk_column :: "string \<Rightarrow> string \<Rightarrow> column" where
  "mk_column label m = \<lparr>col_label = label, col_map = m, col_template = None\<rparr>"

definition link_column :: "string \<Rightarrow> string \<Rightarrow> string \<Rightarrow> column" where
  "link_column label m url = \<lparr>col_label = label, col_map = m, col_template = Some url\<rparr>"

section \<open>RoleSummaryController\<close>

definition roleSummaryColumns :: "column list" where
  "roleSummaryColumns =
     [link_column ''Role'' ''role'' ''/assets/roleLink.html'',
      mk_column ''Jobs'' ''jobCount'',
      mk_column ''Cron Jobs'' ''cronJobCount'']"

record role_scope =
  rsc_title :: string
  rsc_error :: string
  rsc_roleSummaries :: "role_summary list"
  rsc_columns :: "column list"
  rsc_tableConfig :: "table_config option"

definition RoleSummaryController_init :: role_scope where
  "RoleSummaryController_init = \<lparr>rsc_title = ''Scheduled Jobs Summary'', rsc_error = '''',
     rsc_roleSummaries = [], rsc_columns = [], rsc_tableConfig = None\<rparr>"

definition compare_roles :: "role_summary \<Rightarrow> role_summary \<Rightarrow> int" where
  "compare_roles a b =
     (if to_lower (rs_role a) > to_lower (rs_role b) then 1
      else if to_lower (rs_role a) < to_lower (rs_role b) then -1 else 0)"

definition role_parseResponse ::
    "role_summary list call_result \<Rightarrow> role_scope \<Rightarrow> role_summary list \<times> role_scope" where
  "role_parseResponse response scope =
     (let error = (if cr_error response \<noteq> '''' then ''Error requesting role summary: '' @ cr_error response else '''');
          scope' = scope\<lparr>rsc_error := error\<rparr> in
      if error \<noteq> '''' then ([], scope') else (array_sort compare_roles (cr_payload response), scope'))"

text \<open>\<open>infoTableConfig\<close> is one object shared by the controllers: it is passed in and returned.\<close>

definition RoleSummaryController_then ::
    "role_summary list call_result \<Rightarrow> role_scope \<times> table_config \<Rightarrow> role_scope \<times> table_config" where
  "RoleSummaryController_then response st =
     (let (summaries, scope) = role_parseResponse response (fst st);
          config = (snd st)\<lparr>tc_columnSpan := Some (length roleSummaryColumns)\<rparr>
      in (scope\<lparr>rsc_roleSummaries := summaries, rsc_columns := roleSummaryColumns,
            rsc_tableConfig := Some config\<rparr>, config))"

section \<open>JobSummaryController\<close>

definition jobsTableColumns :: "column list" where
  "jobsTableColumns =
     [mk_column ''Job Type'' ''jobType'',
      link_column ''Environment'' ''environment'' ''/assets/roleEnvLink.html'',
      link_column ''Job'' ''jobName'' ''/assets/jobLink.html'',
      mk_column ''production'' ''isProduction'',
      mk_column ''Pending Tasks'' ''pendingTasks'',
      mk_column ''Active Tasks'' ''activeTasks'',
      mk_column ''Finished Tasks'' ''finishedTasks'',
      mk_column ''Failed Tasks'' ''failedTasks'']"

record job_row =
  jr_role :: "string option"
  jr_environment :: string
  jr_jobName :: string
  jr_jobType :: string
  jr_isProduction :: string
  jr_pendingTasks :: int
  jr_activeTasks :: int
  jr_finishedTasks :: int
  jr_failedTasks :: int

record jobs_scope =
  jsc_role :: "string option"
  jsc_environment :: "string option"
  jsc_error :: string
  jsc_columns :: "column list"
  jsc_jobs :: "job_row list"

definition JobSummaryController_init ::
    "string option \<Rightarrow> string option \<Rightarrow> table_config \<Rightarrow> jobs_scope \<times> table_config" where
  "JobSummaryController_init role environment config =
     (\<lparr>jsc_role = role, jsc_environment = environment, jsc_error = '''',
       jsc_columns = jobsTableColumns, jsc_jobs = []\<rparr>,
      config\<lparr>tc_columnSpan := Some (length jobsTableColumns)\<rparr>)"

definition getJobType :: "job_configuration \<Rightarrow> string" where
  "getJobType job =
     (if cfg_isService (jc_taskConfig job) then ''service''
      else if jc_cronSchedule job \<noteq> None then ''cron'' else ''adhoc'')"

definition job_row_of :: "string option \<Rightarrow> job_summary \<Rightarrow> job_row" where
  "job_row_of role summary =
     \<lparr>jr_role = role,
      jr_environment = jc_key_environment (jsum_job summary),
      jr_jobName = cfg_jobName (jc_taskConfig (jsum_job summary)),
      jr_jobType = getJobType (jsum_job summary),
      jr_isProduction = (if cfg_production (jc_taskConfig (jsum_job summary)) = Some True then ''yes'' else ''''),
      jr_pendingTasks = js_pending (jsum_stats summary),
      jr_activeTasks = js_active (jsum_stats summary),
      jr_finishedTasks = js_finished (jsum_stats summary),
      jr_failedTasks = js_failed (jsum_stats summary)\<rparr>"

text \<open>An absent or empty environment shows the jobs of all environments.\<close>

definition getJobs :: "job_summary list call_result \<Rightarrow> jobs_scope \<Rightarrow> job_row list \<times> jobs_scope" where
  "getJobs summaries scope =
     (let error = (if cr_error summaries \<noteq> '''' then ''Error fetching job summaries: '' @ cr_error summaries else '''');
          scope' = scope\<lparr>jsc_error := error\<rparr> in
      if error \<noteq> '''' then ([], scope')
      else (let jobSummaries = (case jsc_environment scope of
                None \<Rightarrow> cr_payload summaries
              | Some env \<Rightarrow> if env = '''' then cr_payload summaries
                  else us_filter (\<lambda>s. jc_key_environment (jsum_job s) = env) (Some (cr_payload summaries)))
            in (us_sortBy (\<lambda>r. Some (jr_jobName r)) (Some (us_map (job_row_of (jsc_role scope)) (Some jobSummaries))), scope')))"

definition JobSummaryController_then :: "job_summary list call_result \<Rightarrow> jobs_scope \<Rightarrow> jobs_scope" where
  "JobSummaryController_then summaries scope =
     (let (jobs, scope') = getJobs summaries scope in scope'\<lparr>jsc_jobs := jobs\<rparr>)"

section \<open>QuotaController\<close>

definition resourcesTableColumns :: "column list" where
  "resourcesTableColumns =
     [mk_column ''Resource'' ''resource'',
      mk_column ''Production Consumption'' ''prodConsumption'',
      mk_column ''Quota'' ''quota'',
      mk_column ''Non-Production Consumption'' ''nonProdConsumption'']"

record resource_row =
  rr_resource :: string
  rr_prodConsumption :: string
  rr_quota :: string
  rr_nonProdConsumption :: string

record quota_scope =
  qsc_error :: string
  qsc_resources :: "resource_row list"

text \<open>Reading a field of a \<open>null\<close> aggregate, of a \<open>null\<close> result or of the empty array throws.\<close>

definition resource_row_of ::
    "string \<Rightarrow> (resource_aggregate \<Rightarrow> string) \<Rightarrow> quota_result \<Rightarrow> resource_row result" where
  "resource_row_of name show_it q =
     (case (qr_prodConsumption q, qr_quota q, qr_nonProdConsumption q) of
        (Some p, Some t, Some n) \<Rightarrow> Inr \<lparr>rr_resource = name, rr_prodConsumption = show_it p,
            rr_quota = show_it t, rr_nonProdConsumption = show_it n\<rparr>
      | _ \<Rightarrow> Inl TypeError)"

definition quota_rows :: "quota_value \<Rightarrow> resource_row list result" where
  "quota_rows consumption = (case consumption of
       Quota q \<Rightarrow> res_bind (resource_row_of ''CPU'' (\<lambda>a. toCores (ra_numCpus a)) q) (\<lambda>cpu.
         res_bind (resource_row_of ''RAM'' (\<lambda>a. scaleMb (num_of_int (ra_ramMb a))) q) (\<lambda>ram.
         res_bind (resource_row_of ''Disk'' (\<lambda>a. scaleMb (num_of_int (ra_diskMb a))) q) (\<lambda>disk.
         Inr [cpu, ram, disk])))
     | _ \<Rightarrow> Inl TypeError)"

definition QuotaController_getQuota ::
    "quota_value call_result \<Rightarrow> quota_scope \<Rightarrow> resource_row list result \<times> quota_scope" where
  "QuotaController_getQuota quotaResponse scope =
     (let error = (if cr_error quotaResponse \<noteq> '''' then ''Error fetching quota: '' @ cr_error quotaResponse else '''');
          scope' = scope\<lparr>qsc_error := error\<rparr> in
      (if error \<noteq> '''' then Inr [] else quota_rows (cr_payload quotaResponse), scope'))"

text \<open>When \<open>getQuota\<close> throws, \<open>$scope.resources\<close> is not assigned.\<close>

definition QuotaController_then :: "quota_value call_result \<Rightarrow> quota_scope \<Rightarrow> quota_scope" where
  "QuotaController_then quotaResponse scope =
     (case QuotaController_getQuota quotaResponse scope of
        (Inl e, scope') \<Rightarrow> scope'
      | (Inr rows, scope') \<Rightarrow> scope'\<lparr>qsc_resources := rows\<rparr>)"

section \<open>Properties\<close>

lemma insert_by_key:
  "(\<And>x y. cmp x y \<le> 0 \<longleftrightarrow> f x \<le> f y) \<Longrightarrow> insert_by cmp x ys = insort_key f x ys"
  by (induction ys) auto

lemma array_sort_key:
  assumes "\<And>x y. cmp x y \<le> 0 \<longleftrightarrow> (f x :: 'b::linorder) \<le> f y"
  shows "array_sort cmp xs = sort_key f xs"
  by (induction xs) (simp_all add: insert_by_key [OF assms])

lemma roles_sorted: "array_sort compare_roles xs = sort_key (\<lambda>r. to_lower (rs_role r)) xs"
  by (rule array_sort_key) (simp add: compare_roles_def not_less [symmetric])

text \<open>the front page lists all roles of a successful response, ordered without regard to case, and
  nothing but the error of a failed one; the shared table configuration spans the columns shown.\<close>

theorem role_page:
  "let (scope, config) = RoleSummaryController_then response (RoleSummaryController_init, config0) in
     mset (rsc_roleSummaries scope) = (if cr_error response = '''' then mset (cr_payload response) else {#})
     \<and> sorted (map (\<lambda>r. to_lower (rs_role r)) (rsc_roleSummaries scope))
     \<and> (rsc_error scope = '''' \<longleftrightarrow> cr_error response = '''')
     \<and> tc_columnSpan config = Some (length (rsc_columns scope))"
  by (simp add: RoleSummaryController_then_def role_parseResponse_def RoleSummaryController_init_def Let_def
      roles_sorted)

text \<open>the job table of a role has one row per job of the environment asked for (of all environments
  when none is given), sorted by name, with the kind of the job: a service even when it has a
  schedule, else cron when it has one, else adhoc.\<close>

theorem job_table:
  "let scope = JobSummaryController_then summaries (fst (JobSummaryController_init role env config));
       shown = filter (\<lambda>s. env = None \<or> env = Some '''' \<or> env = Some (jc_key_environment (jsum_job s))) (cr_payload summaries) in
     mset (jsc_jobs scope) = (if cr_error summaries = '''' then mset (map (job_row_of role) shown) else {#})
     \<and> sorted (map jr_jobName (jsc_jobs scope))
     \<and> (jsc_error scope = '''' \<longleftrightarrow> cr_error summaries = '''')
     \<and> list_all (\<lambda>s. jr_jobType (job_row_of role s) = (if cfg_isService (jc_taskConfig (jsum_job s)) then ''service''
          else case jc_cronSchedule (jsum_job s) of None \<Rightarrow> ''adhoc'' | Some _ \<Rightarrow> ''cron'')) shown"
proof -
  have ty: "list_all (\<lambda>s. jr_jobType (job_row_of role s) = (if cfg_isService (jc_taskConfig (jsum_job s)) then ''service''
      else case jc_cronSchedule (jsum_job s) of None \<Rightarrow> ''adhoc'' | Some _ \<Rightarrow> ''cron'')) xs" for xs
    by (simp add: list_all_iff job_row_of_def getJobType_def split: option.split)
  consider "env = None" | "env = Some ''''" | e where "env = Some e" "e \<noteq> ''''" by (cases env) auto
  then show ?thesis
    by cases (simp_all add: JobSummaryController_then_def getJobs_def JobSummaryController_init_def Let_def us_simps ty
        eq_commute [of _ "jc_key_environment _"])
qed

text \<open>the quota table has its three rows exactly when the call succeeded and all three aggregates of
  the result are there; a failed call empties the table, and in every other case the table keeps
  its old rows without any error shown.\<close>

theorem quota_table:
  "let scope' = QuotaController_then response scope in
     (qsc_error scope' = '''' \<longleftrightarrow> cr_error response = '''')
     \<and> map rr_resource (qsc_resources scope') =
        (if cr_error response \<noteq> '''' then []
         else case cr_payload response of
             Quota q \<Rightarrow> if qr_quota q \<noteq> None \<and> qr_prodConsumption q \<noteq> None \<and> qr_nonProdConsumption q \<noteq> None
               then [''CPU'', ''RAM'', ''Disk''] else map rr_resource (qsc_resources scope)
           | _ \<Rightarrow> map rr_resource (qsc_resources scope))"
proof (cases "cr_payload response")
  case (Quota q)
  then show ?thesis
    by (cases "qr_quota q"; cases "qr_prodConsumption q"; cases "qr_nonProdConsumption q")
      (simp_all add: QuotaController_then_def QuotaController_getQuota_def quota_rows_def resource_row_of_def Let_def)
qed (simp_all add: QuotaController_then_def QuotaController_getQuota_def quota_rows_def Let_def)

end
