(* ===== verification/JobPage.thy ===== *)
theory JobPage
  imports Polling TaskUtil Summaries
begin

text \<open>
  \<open>JobController\<close> of \<open>controllers.js\<close>: the page of a job with its active and completed tasks, the
  summary of its configurations and the update in progress.  The three calls it makes are answered
  independently; each answer has a handler here.  The clock is the argument \<open>now\<close>.
\<close>

section \<open>Columns\<close>

definition taskTableConfig :: table_config where
  "taskTableConfig = \<lparr>tc_isGlobalSearchActivated = False, tc_isPaginationEnabled = True,
     tc_itemsByPage = Some 50, tc_maxSize = Some 8, tc_selectionMode = ''single'', tc_columnSpan = None\<rparr>"

definition taskColumns :: "column list" where
  "taskColumns =
     [mk_column ''Instance'' ''instanceId'',
      link_column ''Status'' ''status'' ''/assets/taskStatus.html'',
      link_column ''Host'' ''host'' ''/assets/taskSandbox.html'']"

definition addColumn :: "int \<Rightarrow> column list \<Rightarrow> column \<Rightarrow> column list" where
  "addColumn idxPosition currentColumns newColumn =
     us_union [us_first_n currentColumns idxPosition, [newColumn],
       us_last_n currentColumns (int (length currentColumns) - idxPosition)]"

definition completedTaskColumns :: "column list" where
  "completedTaskColumns = addColumn 2 taskColumns (mk_column ''Running duration'' ''duration'')"

definition taskIdColumn :: column where
  "taskIdColumn = link_column ''Task ID'' ''taskId'' ''/assets/taskLink.html''"

section \<open>The scope\<close>

record event_row =
  er_timestamp :: int
  er_status :: "string option"
  er_message :: "string option"

record task_row =
  tr_instanceId :: int
  tr_status :: "string option"
  tr_statusMessage :: "string option"
  tr_host :: string
  tr_latestActivity :: int
  tr_duration :: int
  tr_isActive :: bool
  tr_taskId :: string
  tr_taskEvents :: "event_row list"
  tr_showDetails :: bool
  tr_sandboxExists :: bool

record group_row =
  gr_label :: string
  gr_value :: nat
  gr_percentage :: num
  gr_schedulingDetail :: config_details
  gr_color :: string

record job_scope =
  jb_error :: string
  jb_role :: string
  jb_environment :: string
  jb_job :: string
  jb_activeColumns :: "column list"
  jb_completedColumns :: "column list"
  jb_showTaskInfoLink :: bool
  jb_jobDashboardUrl :: string
  jb_activeTasks :: "task_row list"
  jb_completedTasks :: "task_row list"
  jb_tasksReady :: bool
  jb_groupSummary :: "group_row list"
  jb_updates :: "job_update_summary list"

definition JobController_scope :: "string \<Rightarrow> string \<Rightarrow> string \<Rightarrow> job_scope" where
  "JobController_scope role environment job =
     \<lparr>jb_error = '''', jb_role = role, jb_environment = environment, jb_job = job,
      jb_activeColumns = taskColumns, jb_completedColumns = completedTaskColumns,
      jb_showTaskInfoLink = False, jb_jobDashboardUrl = '''', jb_activeTasks = [],
      jb_completedTasks = [], jb_tasksReady = False, jb_groupSummary = [], jb_updates = []\<rparr>"

text \<open>The calls made when the page opens, in order.\<close>

definition JobController_calls :: "job_scope \<Rightarrow> client \<Rightarrow> (nat \<times> request) list \<times> client" where
  "JobController_calls scope cl =
     (let role = Some (jb_role scope); env = Some (jb_environment scope); job = Some (jb_job scope);
          (rs, cl1) = getTasksWithoutConfigs role env job cl;
          (r, cl2) = getConfigSummary role env job cl1;
          query = new_JobUpdateQuery\<lparr>juq_jobKey :=
            Some \<lparr>jk_role = role, jk_environment = env, jk_name = job\<rparr>\<rparr>;
          (u, cl3) = getJobUpdateSummaries (Some query) cl2
      in (rs @ [r, u], cl3))"

definition toggleTaskInfoLinkVisibility :: "job_scope \<Rightarrow> job_scope" where
  "toggleTaskInfoLinkVisibility scope =
     (let visible = (\<not> jb_showTaskInfoLink scope) in
      scope\<lparr>jb_showTaskInfoLink := visible,
        jb_activeColumns := (if visible then addColumn 2 taskColumns taskIdColumn else taskColumns),
        jb_completedColumns := (if visible then addColumn 3 completedTaskColumns taskIdColumn
          else completedTaskColumns)\<rparr>)"

section \<open>The configuration summary\<close>

definition colors :: "string list" where
  "colors = [''steelblue'', ''darkseagreen'', ''sandybrown'', ''plum'', ''khaki'']"

definition range_label :: "id_span \<Rightarrow> string" where
  "range_label r = (case span_start r of
       Some s \<Rightarrow> if s = span_end r then string_of_int s else string_of_int s @ ''-'' @ string_of_int (span_end r)
     | None \<Rightarrow> ''undefined-'' @ string_of_int (span_end r))"

definition group_total :: "config_group list \<Rightarrow> nat" where
  "group_total groups = us_reduce (\<lambda>m n. m + length (cg_instanceIds n)) 0 (Some groups)"

definition group_row_of :: "nat \<Rightarrow> nat \<Rightarrow> config_group \<Rightarrow> group_row" where
  "group_row_of tot i grp =
     (let n = length (cg_instanceIds grp);
          percentage = js_mul (js_div (Fin (of_nat n)) (Fin (of_nat tot))) (Fin 100);
          ranges = map range_label (toRanges (cg_instanceIds grp))
      in \<lparr>gr_label = join '', '' ranges, gr_value = n, gr_percentage = percentage,
          gr_schedulingDetail = configToDetails (cg_config grp),
          gr_color = colors ! (i mod length colors)\<rparr>)"

definition buildGroupSummary :: "config_group list call_result \<Rightarrow> job_scope \<Rightarrow> job_scope" where
  "buildGroupSummary response scope =
     (if cr_error response \<noteq> ''''
      then scope\<lparr>jb_error := ''Error fetching configuration summary: '' @ cr_error response\<rparr>
      else (let groups = cr_payload response; tot = group_total groups in
        scope\<lparr>jb_groupSummary := map (\<lambda>(i, g). group_row_of tot i g) (enumerate 0 groups)\<rparr>))"

section \<open>Tasks\<close>

definition statusName :: "int \<Rightarrow> string option" where
  "statusName status = obj_get (us_invert ScheduleStatus) (string_of_int status)"

text \<open>The time from the first RUNNING event to the event after it, or to now.\<close>

definition getDuration :: "int \<Rightarrow> task_event list \<Rightarrow> int" where
  "getDuration now sortedTaskEvents =
     (case us_find (\<lambda>e. te_status e = RUNNING) (Some sortedTaskEvents) of
        None \<Rightarrow> 0
      | Some runningTaskEvent \<Rightarrow>
          (case nth_opt sortedTaskEvents (nat (us_indexOf (Some sortedTaskEvents) runningTaskEvent + 1)) of
             Some nextEvent \<Rightarrow> te_timestamp nextEvent - te_timestamp runningTaskEvent
           | None \<Rightarrow> now - te_timestamp runningTaskEvent))"

definition summarizeTaskEvents :: "task_event list \<Rightarrow> event_row list" where
  "summarizeTaskEvents taskEvents =
     us_map (\<lambda>e. \<lparr>er_timestamp = te_timestamp e, er_status = statusName (te_status e),
       er_message = te_message e\<rparr>) (Some taskEvents)"

text \<open>\<open>latestTaskEvent.status\<close> is read before the events are tested for emptiness.\<close>

definition summarizeTask :: "int \<Rightarrow> scheduled_task \<Rightarrow> task_row result" where
  "summarizeTask now task =
     (let isActive = isActiveTask task;
          sortedTaskEvents = us_sortBy (\<lambda>e. Some (te_timestamp e)) (Some (st_taskEvents task))
      in case us_last sortedTaskEvents of
           None \<Rightarrow> Inl TypeError
         | Some latestTaskEvent \<Rightarrow> Inr
            \<lparr>tr_instanceId = at_instanceId (st_assignedTask task),
             tr_status = statusName (te_status latestTaskEvent),
             tr_statusMessage = te_message latestTaskEvent,
             tr_host = (case at_slaveHost (st_assignedTask task) of Some h \<Rightarrow> h | None \<Rightarrow> ''''),
             tr_latestActivity = (if us_isEmpty (Some sortedTaskEvents) then 0 else te_timestamp latestTaskEvent),
             tr_duration = getDuration now sortedTaskEvents,
             tr_isActive = isActive,
             tr_taskId = at_taskId (st_assignedTask task),
             tr_taskEvents = summarizeTaskEvents sortedTaskEvents,
             tr_showDetails = False,
             tr_sandboxExists = True\<rparr>)"

definition getJobDashboardUrl :: "string \<Rightarrow> job_scope \<Rightarrow> string" where
  "getJobDashboardUrl statsUrlPrefix scope =
     (if us_isEmpty (Some statsUrlPrefix) then ''''
      else statsUrlPrefix @ jb_role scope @ ''.'' @ jb_environment scope @ ''.'' @ jb_job scope)"

definition getTasksForJob :: "int \<Rightarrow> scheduled_task list call_result \<Rightarrow> job_scope \<Rightarrow> job_scope" where
  "getTasksForJob now response scope =
     (if cr_error response \<noteq> ''''
      then scope\<lparr>jb_error := ''Error fetching tasks: '' @ cr_error response\<rparr>
      else (let s1 = scope\<lparr>jb_jobDashboardUrl := getJobDashboardUrl (cr_statsUrlPrefix response) scope\<rparr> in
        case res_map (summarizeTask now) (cr_payload response) of
          Inl e \<Rightarrow> s1
        | Inr tasks \<Rightarrow> s1\<lparr>
            jb_activeTasks := us_sortBy (\<lambda>t. Some (tr_instanceId t)) (Some (us_filter tr_isActive (Some tasks))),
            jb_completedTasks := us_sortBy (\<lambda>t. Some (- tr_latestActivity t)) (Some (us_reject tr_isActive (Some tasks))),
            jb_tasksReady := True\<rparr>))"

section \<open>The update in progress\<close>

record progress_scope =
  pg_updateInProgress :: "job_update_details option"
  pg_updateStats :: "update_stats option"

definition progress_scope0 :: progress_scope where
  "progress_scope0 = \<lparr>pg_updateInProgress = None, pg_updateStats = None\<rparr>"

definition getUpdateInProgress_then ::
    "job_update_details call_result \<Rightarrow> progress_scope \<Rightarrow> progress_scope \<times> bool" where
  "getUpdateInProgress_then response scope =
     (let details = cr_payload response; s1 = scope\<lparr>pg_updateInProgress := Some details\<rparr> in
      case getUpdateStats (Some details) of
        Inl e \<Rightarrow> (s1, False)
      | Inr stats \<Rightarrow> (s1\<lparr>pg_updateStats := stats\<rparr>, case jud_update details of
            None \<Rightarrow> False
          | Some u \<Rightarrow> isInProgress (jus_status (jsm_state (ju_summary u)))))"

text \<open>The list of updates; the loop is started on the first of them when that one is in progress.\<close>

definition getUpdatesForJob ::
    "job_update_summary list call_result \<Rightarrow> job_scope \<Rightarrow> job_scope \<times> (job_update_key \<times> progress_scope poll) option" where
  "getUpdatesForJob response scope =
     (scope\<lparr>jb_updates := cr_payload response\<rparr>,
      case cr_payload response of
        [] \<Rightarrow> None
      | u # _ \<Rightarrow> if isInProgress (jus_status (jsm_state u)) then Some (jsm_key u, poll_start progress_scope0) else None)"

definition progress_again :: "job_update_details call_result \<Rightarrow> bool" where
  "progress_again response = (case jud_update (cr_payload response) of
     None \<Rightarrow> False | Some u \<Rightarrow> desires u \<and> isInProgress (jus_status (jsm_state (ju_summary u))))"

interpretation jp: poller getUpdateInProgress_then progress_again
  by unfold_locales (simp add: getUpdateInProgress_then_def progress_again_def getUpdateStats_def
      getAllInstanceIds_eq Let_def split: option.split)

section \<open>What the handlers compute\<close>

lemma group_total_sum: "group_total groups = sum_list (map (\<lambda>g. length (cg_instanceIds g)) groups)"
proof -
  have "foldl (\<lambda>m n. m + length (cg_instanceIds n)) a groups = a + sum_list (map (\<lambda>g. length (cg_instanceIds g)) groups)" for a
    by (induction groups arbitrary: a) auto
  then show ?thesis by (simp add: group_total_def us_reduce_def)
qed

lemma addColumn_distinct:
  assumes "0 \<le> n" "nat n \<le> length cols" "distinct cols" "c \<notin> set cols"
  shows "addColumn n cols c = take (nat n) cols @ c # drop (nat n) cols"
proof -
  have "distinct (take (nat n) cols @ [c] @ drop (nat n) cols)"
    using assms(3,4) set_take_disj_set_drop_if_distinct [of cols "nat n" "nat n"]
    by (auto dest: in_set_takeD in_set_dropD)
  then show ?thesis
    using assms(1,2) by (simp add: addColumn_def us_union_def us_simps us_first_n_def us_last_n_def us_uniq_distinct)
qed

lemma column_lists:
  "map col_label taskColumns = [''Instance'', ''Status'', ''Host'']"
  "map col_label completedTaskColumns = [''Instance'', ''Status'', ''Running duration'', ''Host'']"
  "map col_label (addColumn 2 taskColumns taskIdColumn) = [''Instance'', ''Status'', ''Task ID'', ''Host'']"
  "map col_label (addColumn 3 completedTaskColumns taskIdColumn) = [''Instance'', ''Status'', ''Running duration'', ''Task ID'', ''Host'']"
  unfolding completedTaskColumns_def
  by (simp_all add: addColumn_distinct taskColumns_def taskIdColumn_def mk_column_def link_column_def numeral_2_eq_2 numeral_3_eq_3)

text \<open>The first RUNNING event splits the events.\<close>

lemma find_split:
  "find P xs = (case dropWhile (\<lambda>x. \<not> P x) xs of [] \<Rightarrow> None | x # _ \<Rightarrow> Some x)"
  by (induction xs) auto

lemma index_loop_split: "x \<notin> set ys \<Longrightarrow> index_loop x (ys @ x # zs) i = i + int (length ys)"
  by (induction ys arbitrary: i) auto

lemma getDuration_split:
  "getDuration now evs = (case dropWhile (\<lambda>e. te_status e \<noteq> RUNNING) evs of
     [] \<Rightarrow> 0
   | [e] \<Rightarrow> now - te_timestamp e
   | e # e' # _ \<Rightarrow> te_timestamp e' - te_timestamp e)"
proof (cases "dropWhile (\<lambda>e. te_status e \<noteq> RUNNING) evs")
  case Nil
  show ?thesis unfolding getDuration_def us_find_list find_split Nil by simp
next
  case (Cons e es)
  let ?pre = "takeWhile (\<lambda>e. te_status e \<noteq> RUNNING) evs"
  have evs: "evs = ?pre @ e # es" by (metis Cons takeWhile_dropWhile_id)
  have "te_status e = RUNNING" using hd_dropWhile [of "\<lambda>e. te_status e \<noteq> RUNNING" evs] Cons by simp
  then have "e \<notin> set ?pre" by (auto dest: set_takeWhileD)
  from index_loop_split [OF this, of es 0] have i: "us_indexOf (Some evs) e = int (length ?pre)"
    unfolding us_indexOf_def using evs by simp
  have "nth_opt evs (nat (int (length ?pre) + 1)) = (case es of [] \<Rightarrow> None | x # _ \<Rightarrow> Some x)"
  proof -
    have "nat (int (length ?pre) + 1) = Suc (length ?pre)" by simp
    moreover have "nth_opt (?pre @ e # es) (Suc (length ?pre)) = (case es of [] \<Rightarrow> None | x # _ \<Rightarrow> Some x)"
      by (cases es) (simp_all add: nth_opt_def nth_append)
    ultimately show ?thesis using evs by simp
  qed
  then show ?thesis
    unfolding getDuration_def us_find_list find_split Cons by (simp add: i split: list.split)
qed

lemma summarizeTask_outcome:
  "summarizeTask now t = Inl e \<Longrightarrow> e = TypeError \<and> st_taskEvents t = []"
  "summarizeTask now t = Inr r \<Longrightarrow> st_taskEvents t \<noteq> [] \<and> tr_instanceId r = at_instanceId (st_assignedTask t)
     \<and> tr_isActive r = isActiveTask t
     \<and> tr_latestActivity r = Max (te_timestamp ` set (st_taskEvents t))"
proof -
  let ?s = "sort_key te_timestamp (st_taskEvents t)"
  have empty: "?s = [] \<longleftrightarrow> st_taskEvents t = []" by (metis length_0_conv length_sort)
  show "summarizeTask now t = Inl e \<Longrightarrow> e = TypeError \<and> st_taskEvents t = []"
    by (cases "?s = []") (auto simp: summarizeTask_def us_simps Let_def empty split: option.splits)
  assume r: "summarizeTask now t = Inr r"
  have ne: "?s \<noteq> []" using r by (auto simp: summarizeTask_def us_simps Let_def)
  have max: "te_timestamp (last ?s) = Max (te_timestamp ` set (st_taskEvents t))"
  proof (rule Max_eqI [symmetric])
    show "te_timestamp (last ?s) \<in> te_timestamp ` set (st_taskEvents t)"
      using last_in_set [OF ne] by simp
    fix y assume "y \<in> te_timestamp ` set (st_taskEvents t)"
    then obtain x where x: "x \<in> set (filter (\<lambda>_. True) ?s)" "y = te_timestamp x" by auto
    have "te_timestamp x \<le> te_timestamp (last (filter (\<lambda>_. True) ?s))"
      by (rule last_filter_max [OF sorted_sort_key x(1)])
    then show "y \<le> te_timestamp (last ?s)" using x(2) by simp
  qed simp
  show "st_taskEvents t \<noteq> [] \<and> tr_instanceId r = at_instanceId (st_assignedTask t)
     \<and> tr_isActive r = isActiveTask t
     \<and> tr_latestActivity r = Max (te_timestamp ` set (st_taskEvents t))"
    using r ne max empty by (auto simp: summarizeTask_def us_simps Let_def)
qed

lemma rows_of_tasks:
  assumes "res_map (summarizeTask now) ts = Inr rows"
  shows "map tr_instanceId (filter tr_isActive rows) = map (\<lambda>t. at_instanceId (st_assignedTask t)) (filter isActiveTask ts)"
    and "map tr_instanceId (filter (\<lambda>r. \<not> tr_isActive r) rows)
      = map (\<lambda>t. at_instanceId (st_assignedTask t)) (filter (\<lambda>t. \<not> isActiveTask t) ts)"
    and "list_all (\<lambda>t. st_taskEvents t \<noteq> []) ts"
proof -
  have "list_all2 (\<lambda>t r. summarizeTask now t = Inr r) ts rows" using assms by (simp add: res_map_Inr_all2)
  then have "map tr_instanceId (filter tr_isActive rows) = map (\<lambda>t. at_instanceId (st_assignedTask t)) (filter isActiveTask ts)
    \<and> map tr_instanceId (filter (\<lambda>r. \<not> tr_isActive r) rows)
      = map (\<lambda>t. at_instanceId (st_assignedTask t)) (filter (\<lambda>t. \<not> isActiveTask t) ts)
    \<and> list_all (\<lambda>t. st_taskEvents t \<noteq> []) ts"
    by (induction rule: list_all2_induct) (auto dest: summarizeTask_outcome(2))
  then show "map tr_instanceId (filter tr_isActive rows) = map (\<lambda>t. at_instanceId (st_assignedTask t)) (filter isActiveTask ts)"
    and "map tr_instanceId (filter (\<lambda>r. \<not> tr_isActive r) rows)
      = map (\<lambda>t. at_instanceId (st_assignedTask t)) (filter (\<lambda>t. \<not> isActiveTask t) ts)"
    and "list_all (\<lambda>t. st_taskEvents t \<noteq> []) ts" by blast+
qed

section \<open>Properties\<close>

text \<open>C19: the task tables of a job hold every task once, in the table its status belongs to: the active
  tasks in ascending order of instance, the others with the most recently active first. One task
  without events is enough to leave both tables as they were, without an error.\<close>

theorem job_task_tables:
  "let scope' = getTasksForJob now response scope; ts = cr_payload response in
   if cr_error response = '''' \<and> list_all (\<lambda>t. st_taskEvents t \<noteq> []) ts
   then jb_tasksReady scope'
     \<and> mset (map tr_instanceId (jb_activeTasks scope')) = mset (map (\<lambda>t. at_instanceId (st_assignedTask t)) (filter isActiveTask ts))
     \<and> mset (map tr_instanceId (jb_completedTasks scope')) = mset (map (\<lambda>t. at_instanceId (st_assignedTask t)) (filter (\<lambda>t. \<not> isActiveTask t) ts))
     \<and> sorted (map tr_instanceId (jb_activeTasks scope'))
     \<and> sorted (map (\<lambda>t. - tr_latestActivity t) (jb_completedTasks scope'))
   else (jb_tasksReady scope', jb_activeTasks scope', jb_completedTasks scope')
       = (jb_tasksReady scope, jb_activeTasks scope, jb_completedTasks scope)
     \<and> (cr_error response = '''' \<and> jb_error scope' = jb_error scope
        \<or> jb_error scope' = ''Error fetching tasks: '' @ cr_error response)"
proof (cases "cr_error response = ''''")
  case False
  then show ?thesis by (simp add: getTasksForJob_def Let_def)
next
  case True
  show ?thesis
  proof (cases "res_map (summarizeTask now) (cr_payload response)")
    case (Inl e)
    then obtain t where "t \<in> set (cr_payload response)" "summarizeTask now t = Inl e" by (blast dest: res_map_Inl_ex)
    then have "\<not> list_all (\<lambda>t. st_taskEvents t \<noteq> []) (cr_payload response)"
      using summarizeTask_outcome(1) by (auto simp: list_all_iff)
    with True Inl show ?thesis by (simp add: getTasksForJob_def Let_def)
  next
    case (Inr rows)
    note r = rows_of_tasks [OF Inr]
    from r(1,2) have m: "mset (map tr_instanceId (filter tr_isActive rows)) = mset (map (\<lambda>t. at_instanceId (st_assignedTask t)) (filter isActiveTask (cr_payload response)))"
      "mset (map tr_instanceId (filter (\<lambda>r. \<not> tr_isActive r) rows)) = mset (map (\<lambda>t. at_instanceId (st_assignedTask t)) (filter (\<lambda>t. \<not> isActiveTask t) (cr_payload response)))"
      by simp_all
    have sorted: "sorted (map (\<lambda>t. - tr_latestActivity t) (sort_key (\<lambda>t. - tr_latestActivity t) xs))" for xs
      by (rule sorted_sort_key)
    show ?thesis
      using True Inr r(3) m sorted by (simp add: getTasksForJob_def Let_def us_simps)
  qed
qed

text \<open>the running time of a task whose events are sorted by time and lie in the past is never
  negative; it is 0 for a task that never ran, and otherwise it starts at the earliest RUNNING event
  and ends at the event that follows it, or now when there is none.\<close>

theorem getDuration_bounds:
  assumes "sorted (map te_timestamp evs)" and "list_all (\<lambda>e. te_timestamp e \<le> now) evs"
  shows "0 \<le> getDuration now evs
    \<and> (if list_ex (\<lambda>e. te_status e = RUNNING) evs
       then \<exists>until. getDuration now evs = until - Min (te_timestamp ` set (filter (\<lambda>e. te_status e = RUNNING) evs))
         \<and> until \<in> insert now (te_timestamp ` set evs)
       else getDuration now evs = 0)"
proof (cases "dropWhile (\<lambda>e. te_status e \<noteq> RUNNING) evs")
  case Nil
  then have "\<not> list_ex (\<lambda>e. te_status e = RUNNING) evs" by (simp add: list_ex_iff)
  then show ?thesis unfolding getDuration_split Nil by simp
next
  case (Cons e es)
  let ?pre = "takeWhile (\<lambda>e. te_status e \<noteq> RUNNING) evs"
  have evs: "evs = ?pre @ e # es" by (metis Cons takeWhile_dropWhile_id)
  have run: "te_status e = RUNNING" using hd_dropWhile [of "\<lambda>e. te_status e \<noteq> RUNNING" evs] Cons by simp
  have ex: "list_ex (\<lambda>e. te_status e = RUNNING) evs" using run by (subst evs) simp
  have srt: "sorted (map te_timestamp (e # es))" using assms(1) by (subst (asm) evs) (simp add: sorted_append)
  have past: "list_all (\<lambda>e. te_timestamp e \<le> now) (e # es)" using assms(2) by (subst (asm) evs) simp
  have "filter (\<lambda>e. te_status e = RUNNING) ?pre = []" by (auto simp: filter_empty_conv dest: set_takeWhileD)
  then have "filter (\<lambda>e. te_status e = RUNNING) evs = e # filter (\<lambda>e. te_status e = RUNNING) es"
    using run by (subst evs) simp
  then have min: "Min (te_timestamp ` set (filter (\<lambda>e. te_status e = RUNNING) evs)) = te_timestamp e"
    using srt by (intro Min_eqI) auto
  show ?thesis
  proof (cases es)
    case Nil
    then have "getDuration now evs = now - te_timestamp e" unfolding getDuration_split Cons by simp
    then show ?thesis using past ex min by auto
  next
    case (Cons e' es')
    then have d: "getDuration now evs = te_timestamp e' - te_timestamp e"
      unfolding getDuration_split \<open>dropWhile _ _ = e # es\<close> by simp
    have "e' \<in> set evs" using Cons by (subst evs) simp
    then show ?thesis using d srt ex min Cons by auto
  qed
qed

theorem getDuration_bounds_witness:
  "getDuration 90 [\<lparr>te_timestamp = 10, te_status = 0, te_message = None\<rparr>, \<lparr>te_timestamp = 20, te_status = 2, te_message = None\<rparr>,
     \<lparr>te_timestamp = 50, te_status = 3, te_message = None\<rparr>] = 30
   \<and> (0::int) \<le> 30"
proof -
  let ?evs = "[\<lparr>te_timestamp = 10, te_status = 0, te_message = None\<rparr>, \<lparr>te_timestamp = 20, te_status = 2, te_message = None\<rparr>,
     \<lparr>te_timestamp = 50, te_status = 3, te_message = None\<rparr>]"
  have "getDuration 90 ?evs = 30" by (simp add: getDuration_split api_simps)
  then show ?thesis using getDuration_bounds [of ?evs 90] by simp
qed

text \<open>the link column is inserted before the host in the table of active tasks and after the running
  duration in the other, and toggling twice gives back the first tables.\<close>

theorem task_link_toggle:
  "let s0 = JobController_scope role env job; s1 = toggleTaskInfoLinkVisibility s0 in
     map col_label (jb_activeColumns s1) = [''Instance'', ''Status'', ''Task ID'', ''Host'']
     \<and> map col_label (jb_completedColumns s1) = [''Instance'', ''Status'', ''Running duration'', ''Task ID'', ''Host'']
     \<and> toggleTaskInfoLinkVisibility s1 = s0"
  by (simp add: toggleTaskInfoLinkVisibility_def JobController_scope_def Let_def column_lists)

lemma colors_differ: "colors ! (i mod length colors) \<noteq> colors ! (Suc i mod length colors)"
proof -
  have "distinct colors" "length colors = 5" by (simp_all add: colors_def)
  then have "colors ! (i mod 5) = colors ! (Suc i mod 5) \<longleftrightarrow> i mod 5 = Suc i mod 5" by (subst nth_eq_iff_index_eq) simp_all
  moreover have "i mod 5 \<noteq> Suc i mod 5" by presburger
  ultimately show ?thesis using \<open>length colors = 5\<close> by simp
qed

text \<open>the configuration summary has one row per group with the number of its instances; the numbers
  add up to the total the percentages refer to, every percentage is a number from 0 to 100 as soon
  as there is an instance, and neighbouring groups never share a colour.\<close>

theorem group_summary_rows:
  assumes "cr_error response = ''''"
  shows "let rows = jb_groupSummary (buildGroupSummary response scope); n = group_total (cr_payload response) in
     map gr_value rows = map (\<lambda>g. length (cg_instanceIds g)) (cr_payload response)
     \<and> sum_list (map gr_value rows) = n
     \<and> (n = 0 \<or> list_all (\<lambda>r. \<exists>z. gr_percentage r = Fin z \<and> 0 \<le> z \<and> z \<le> 100) rows)
     \<and> successively (\<lambda>r r'. gr_color r \<noteq> gr_color r') rows"
proof -
  let ?gs = "cr_payload response"
  let ?n = "group_total ?gs"
  let ?rows = "map (\<lambda>(i, g). group_row_of ?n i g) (enumerate 0 ?gs)"
  have rows: "jb_groupSummary (buildGroupSummary response scope) = ?rows"
    using assms by (simp add: buildGroupSummary_def Let_def)
  have nth: "?rows ! i = group_row_of ?n i (?gs ! i)" if "i < length ?gs" for i
    using that by (simp add: nth_enumerate_eq)
  have vals: "map gr_value ?rows = map (\<lambda>g. length (cg_instanceIds g)) ?gs"
    by (rule nth_equalityI) (simp_all add: nth_enumerate_eq group_row_of_def Let_def)
  have pct: "\<exists>z. gr_percentage (?rows ! i) = Fin z \<and> 0 \<le> z \<and> z \<le> 100" if "i < length ?gs" "?n \<noteq> 0" for i
  proof -
    have "length (cg_instanceIds (?gs ! i)) \<le> ?n"
      unfolding group_total_sum using that(1) by (intro member_le_sum_list) simp_all
    then show ?thesis using ratio_between [of _ ?n] that unfolding nth [OF that(1)]
      by (simp add: group_row_of_def Let_def)
  qed
  have col: "successively (\<lambda>r r'. gr_color r \<noteq> gr_color r') ?rows"
    unfolding successively_conv_nth
  proof (intro allI impI)
    fix i assume "Suc i < length ?rows"
    then show "gr_color (?rows ! i) \<noteq> gr_color (?rows ! Suc i)"
      using nth [of i] nth [of "Suc i"] colors_differ [of i] by (simp add: group_row_of_def Let_def)
  qed
  have "?n = 0 \<or> list_all (\<lambda>r. \<exists>z. gr_percentage r = Fin z \<and> 0 \<le> z \<and> z \<le> 100) ?rows"
    using pct by (auto simp: list_all_length)
  moreover have "sum_list (map gr_value ?rows) = ?n" unfolding vals by (rule group_total_sum [symmetric])
  ultimately show ?thesis
    unfolding rows Let_def using vals col by blast
qed

theorem group_summary_rows_witness:
  "map gr_value (jb_groupSummary (buildGroupSummary
     \<lparr>cr_error = '''', cr_statsUrlPrefix = '''', cr_payload =
       [\<lparr>cg_config = example_config, cg_instanceIds = [0, 1, 2]\<rparr>, \<lparr>cg_config = example_config, cg_instanceIds = [3]\<rparr>]\<rparr>
     (JobController_scope ''r'' ''e'' ''j''))) = [3, 1]"
  using group_summary_rows [of "\<lparr>cr_error = '''', cr_statsUrlPrefix = '''', cr_payload =
       [\<lparr>cg_config = example_config, cg_instanceIds = [0, 1, 2]\<rparr>, \<lparr>cg_config = example_config, cg_instanceIds = [3]\<rparr>]\<rparr>"
     "JobController_scope ''r'' ''e'' ''j''"]
  by (simp add: Let_def)

end
