(* ===== verification/Routes.thy ===== *)
theory Routes
  imports JSObject
begin

text \<open>
  The routes of \<open>app.js\<close> and the router that runs them (\<open>angular-route.js\<close>): a path pattern is
  compiled to a regular expression, the routes are tried in the order of their declaration, and each
  declaration adds a second route that redirects the variant with the trailing slash changed.
  The patterns of the application use neither optional nor starred parameters; \<open>pathRegExp\<close> is
  modelled for patterns without them.
\<close>

section \<open>Path patterns\<close>

text \<open>A compiled pattern: literal characters and groups \<open>(?:([^/]+))\<close> named by a key.\<close>

datatype piece = Lit char | Group string

text \<open>\<open>:(\w+)\<close> becomes a group; every other character stands for itself, the special ones being
  escaped by the two other replacements.\<close>

function pathRegExp :: "string \<Rightarrow> piece list" where
  "pathRegExp [] = []"
| "pathRegExp (c # path) =
     (if c = CHR '':'' \<and> takeWhile word_char path \<noteq> []
      then Group (takeWhile word_char path) # pathRegExp (dropWhile word_char path)
      else Lit c # pathRegExp path)"
  by pat_completeness auto
termination
  by (relation "measure length") (auto simp: less_Suc_eq_le length_dropWhile_le)

text \<open>Matching with backtracking, the longest group first; the captured texts in order.\<close>

fun match_pieces :: "piece list \<Rightarrow> string \<Rightarrow> string list option"
  and match_group :: "nat \<Rightarrow> piece list \<Rightarrow> string \<Rightarrow> string list option" where
  "match_pieces [] s = (if s = [] then Some [] else None)"
| "match_pieces (Lit c # ps) s = (case s of [] \<Rightarrow> None | x # xs \<Rightarrow> if x = c then match_pieces ps xs else None)"
| "match_pieces (Group k # ps) s = match_group (length (takeWhile (\<lambda>c. c \<noteq> CHR ''/'') s)) ps s"
| "match_group 0 ps s = None"
| "match_group (Suc n) ps s = (case match_pieces ps (drop (Suc n) s) of
       Some caps \<Rightarrow> Some (take (Suc n) s # caps)
     | None \<Rightarrow> match_group n ps s)"

fun group_keys :: "piece list \<Rightarrow> string list" where
  "group_keys [] = []"
| "group_keys (Lit c # ps) = group_keys ps"
| "group_keys (Group k # ps) = k # group_keys ps"

text \<open>\<open>decodeURIComponent\<close> on escapes of ASCII characters; a malformed escape throws.\<close>

fun decodeURIComponent :: "string \<Rightarrow> string result" where
  "decodeURIComponent [] = Inr []"
| "decodeURIComponent (c # s) =
     (if c \<noteq> CHR ''%'' then res_bind (decodeURIComponent s) (\<lambda>t. Inr (c # t))
      else (case s of
          a # b # s' \<Rightarrow> (case (hex_val a, hex_val b) of
              (Some h, Some l) \<Rightarrow> if 16 * h + l < 128
                then res_bind (decodeURIComponent s') (\<lambda>t. Inr (char_of (16 * h + l) # t))
                else Inl (Thrown ''URIError'')
            | _ \<Rightarrow> Inl (Thrown ''URIError''))
        | _ \<Rightarrow> Inl (Thrown ''URIError'')))"

section \<open>Routes\<close>

datatype target = Page string string \<comment> \<open>template and controller\<close> | Redirect string

record route =
  rt_regexp :: "piece list"
  rt_target :: target

text \<open>\<open>routes[path] = ...\<close>\<close>

definition when_route :: "string \<Rightarrow> target \<Rightarrow> route obj \<Rightarrow> route obj" where
  "when_route path target routes =
     (let routes1 = obj_set path \<lparr>rt_regexp = pathRegExp path, rt_target = target\<rparr> routes;
          redirectPath = (if path \<noteq> [] \<and> last path = CHR ''/'' then butlast path else path @ ''/'')
      in if path = [] then routes1
         else obj_set redirectPath \<lparr>rt_regexp = pathRegExp redirectPath, rt_target = Redirect path\<rparr> routes1)"

definition app_routes :: "route obj" where
  "app_routes =
     when_route ''/updates'' (Page ''/assets/updateList.html'' ''AllUpdatesController'')
    (when_route ''/scheduler/:role/:environment/:job/:update'' (Page ''/assets/update.html'' ''UpdateController'')
    (when_route ''/scheduler/:role/:environment/:job'' (Page ''/assets/job.html'' ''JobController'')
    (when_route ''/scheduler/:role/:environment'' (Page ''/assets/role.html'' ''JobSummaryController'')
    (when_route ''/scheduler/:role'' (Page ''/assets/role.html'' ''JobSummaryController'')
    (when_route ''/scheduler'' (Page ''/assets/home.html'' ''RoleSummaryController'') [])))))"

section \<open>Matching a path\<close>

text \<open>\<open>if (key && val) params[key.name] = val\<close>: an empty capture sets nothing.\<close>

fun set_params :: "string list \<Rightarrow> string list \<Rightarrow> string obj \<Rightarrow> string obj result" where
  "set_params (k # ks) (m # ms) params =
     res_bind (decodeURIComponent m) (\<lambda>v. set_params ks ms (if v = [] then params else obj_set k v params))"
| "set_params _ _ params = Inr params"

text \<open>\<open>None\<close>: no match.\<close>

definition switchRouteMatcher :: "string \<Rightarrow> route \<Rightarrow> string obj result option" where
  "switchRouteMatcher on route =
     (case match_pieces (rt_regexp route) on of
        None \<Rightarrow> None
      | Some m \<Rightarrow> Some (set_params (group_keys (rt_regexp route)) m []))"

fun first_match :: "string \<Rightarrow> route list \<Rightarrow> (target \<times> string obj) result option" where
  "first_match on [] = None"
| "first_match on (r # rs) = (case switchRouteMatcher on r of
       None \<Rightarrow> first_match on rs
     | Some p \<Rightarrow> Some (res_bind p (\<lambda>params. Inr (rt_target r, params))))"

text \<open>\<open>None\<close> here stands for \<open>otherwise\<close>: the browser leaves the application for the path.\<close>

definition parseRoute :: "string \<Rightarrow> (target \<times> string obj) result option" where
  "parseRoute path = first_match path (List.map_filter (obj_get app_routes) (obj_keys app_routes))"

text \<open>The path a redirect goes to: every \<open>:key\<close> of the target is replaced by its parameter, which is deleted
  from the parameters; those that are left become the query of the new address.\<close>

definition obj_delete :: "string \<Rightarrow> 'v obj \<Rightarrow> 'v obj" where
  "obj_delete k d = filter (\<lambda>e. fst e \<noteq> k) d"

fun interpolate_segments :: "string list \<Rightarrow> string obj \<Rightarrow> string \<times> string obj" where
  "interpolate_segments [] params = ('''', params)"
| "interpolate_segments (segment # segments) params =
     (let key = takeWhile word_char segment;
          val = (case obj_get params key of Some v \<Rightarrow> v | None \<Rightarrow> '''');
          (path, params') = interpolate_segments segments (obj_delete key params)
      in (val @ dropWhile word_char segment @ path, params'))"

definition interpolate :: "string \<Rightarrow> string obj \<Rightarrow> string \<times> string obj" where
  "interpolate s params = (case split_on (CHR '':'') s of
       [] \<Rightarrow> ('''', params)
     | first # segments \<Rightarrow> (let (path, params') = interpolate_segments segments params in (first @ path, params')))"

section \<open>Matching paths made of segments\<close>

text \<open>A segment that is matched by a group and decodes to itself.\<close>

definition plain :: "string \<Rightarrow> bool" where
  "plain s \<longleftrightarrow> s \<noteq> [] \<and> CHR ''/'' \<notin> set s \<and> CHR ''%'' \<notin> set s"

lemma decode_plain: "CHR ''%'' \<notin> set s \<Longrightarrow> decodeURIComponent s = Inr s"
  by (induction s) auto

lemma match_lits: "match_pieces (map Lit p @ ps) (p @ s) = match_pieces ps s"
  by (induction p) auto

lemma take_segment: "CHR ''/'' \<notin> set x \<Longrightarrow> takeWhile (\<lambda>c. c \<noteq> CHR ''/'') (x @ CHR ''/'' # s) = x"
  by (induction x) auto

lemma take_segment_end: "CHR ''/'' \<notin> set x \<Longrightarrow> takeWhile (\<lambda>c. c \<noteq> CHR ''/'') x = x"
  by (induction x) auto

text \<open>A shorter group would have to be followed by a character that is not a slash.\<close>

lemma match_group_slash:
  assumes "n < length x" "CHR ''/'' \<notin> set x"
  shows "match_group n (Lit (CHR ''/'') # ps) (x @ s) = None" "match_group n [] (x @ s) = None"
proof -
  have "match_group n (Lit (CHR ''/'') # ps) (x @ s) = None \<and> match_group n [] (x @ s) = None"
    using assms(1)
  proof (induction n)
    case (Suc n)
    then have "drop (Suc n) (x @ s) = x ! Suc n # drop (Suc (Suc n)) (x @ s)"
      by (metis Cons_nth_drop_Suc length_append nth_append trans_less_add1)
    moreover have "x ! Suc n \<noteq> CHR ''/''" using Suc.prems assms(2) by (metis nth_mem)
    ultimately show ?case using Suc by simp
  qed simp
  then show "match_group n (Lit (CHR ''/'') # ps) (x @ s) = None" "match_group n [] (x @ s) = None" by blast+
qed

lemma match_group_full:
  "x \<noteq> [] \<Longrightarrow> CHR ''/'' \<notin> set x \<Longrightarrow>
   match_pieces (Group k # Lit (CHR ''/'') # ps) (x @ CHR ''/'' # s) = map_option (Cons x) (match_pieces ps s)"
proof -
  assume x: "x \<noteq> []" "CHR ''/'' \<notin> set x"
  obtain n where n: "length x = Suc n" using x(1) by (cases x) auto
  have "match_group n (Lit (CHR ''/'') # ps) (x @ CHR ''/'' # s) = None"
    using match_group_slash(1) [OF _ x(2)] n by simp
  then show ?thesis using n by (simp add: take_segment [OF x(2)] split: option.split)
qed

lemma match_group_last:
  "x \<noteq> [] \<Longrightarrow> CHR ''/'' \<notin> set x \<Longrightarrow> match_pieces [Group k] x = Some [x]"
proof -
  assume x: "x \<noteq> []" "CHR ''/'' \<notin> set x"
  obtain n where "length x = Suc n" using x(1) by (cases x) auto
  then show ?thesis by (simp add: take_segment_end [OF x(2)])
qed

lemma match_group_end_slash:
  "x \<noteq> [] \<Longrightarrow> CHR ''/'' \<notin> set x \<Longrightarrow> match_pieces [Group k] (x @ CHR ''/'' # s) = None"
proof -
  assume x: "x \<noteq> []" "CHR ''/'' \<notin> set x"
  obtain n where n: "length x = Suc n" using x(1) by (cases x) auto
  have "match_group n [] (x @ CHR ''/'' # s) = None" using match_group_slash(2) [OF _ x(2)] n by simp
  then show ?thesis using n by (simp add: take_segment [OF x(2)])
qed

lemma match_group_more:
  "x \<noteq> [] \<Longrightarrow> CHR ''/'' \<notin> set x \<Longrightarrow> match_pieces (Group k # Lit (CHR ''/'') # ps) x = None"
proof -
  assume x: "x \<noteq> []" "CHR ''/'' \<notin> set x"
  obtain n where n: "length x = Suc n" using x(1) by (cases x) auto
  have "match_group n (Lit (CHR ''/'') # ps) x = None" using match_group_slash(1) [of n x ps "[]"] x n by simp
  then show ?thesis using n by (simp add: take_segment_end [OF x(2)])
qed

lemma match_group_empty: "match_pieces (Group k # ps) [] = None"
  by simp

lemmas match_rules = match_group_full match_group_last match_group_end_slash match_group_more match_group_empty

section \<open>The routes of the application\<close>

lemma app_route_list:
  "List.map_filter (obj_get app_routes) (obj_keys app_routes) =
    [\<lparr>rt_regexp = map Lit ''/scheduler'', rt_target = Page ''/assets/home.html'' ''RoleSummaryController''\<rparr>,
     \<lparr>rt_regexp = map Lit ''/scheduler/'', rt_target = Redirect ''/scheduler''\<rparr>,
     \<lparr>rt_regexp = map Lit ''/scheduler/'' @ [Group ''role''],
       rt_target = Page ''/assets/role.html'' ''JobSummaryController''\<rparr>,
     \<lparr>rt_regexp = map Lit ''/scheduler/'' @ [Group ''role'', Lit (CHR ''/'')],
       rt_target = Redirect ''/scheduler/:role''\<rparr>,
     \<lparr>rt_regexp = map Lit ''/scheduler/'' @ [Group ''role'', Lit (CHR ''/''), Group ''environment''],
       rt_target = Page ''/assets/role.html'' ''JobSummaryController''\<rparr>,
     \<lparr>rt_regexp = map Lit ''/scheduler/'' @ [Group ''role'', Lit (CHR ''/''), Group ''environment'', Lit (CHR ''/'')],
       rt_target = Redirect ''/scheduler/:role/:environment''\<rparr>,
     \<lparr>rt_regexp = map Lit ''/scheduler/'' @ [Group ''role'', Lit (CHR ''/''), Group ''environment'', Lit (CHR ''/''), Group ''job''],
       rt_target = Page ''/assets/job.html'' ''JobController''\<rparr>,
     \<lparr>rt_regexp = map Lit ''/scheduler/'' @ [Group ''role'', Lit (CHR ''/''), Group ''environment'', Lit (CHR ''/''), Group ''job'', Lit (CHR ''/'')],
       rt_target = Redirect ''/scheduler/:role/:environment/:job''\<rparr>,
     \<lparr>rt_regexp = map Lit ''/scheduler/'' @ [Group ''role'', Lit (CHR ''/''), Group ''environment'', Lit (CHR ''/''), Group ''job'', Lit (CHR ''/''), Group ''update''],
       rt_target = Page ''/assets/update.html'' ''UpdateController''\<rparr>,
     \<lparr>rt_regexp = map Lit ''/scheduler/'' @ [Group ''role'', Lit (CHR ''/''), Group ''environment'', Lit (CHR ''/''), Group ''job'', Lit (CHR ''/''), Group ''update'', Lit (CHR ''/'')],
       rt_target = Redirect ''/scheduler/:role/:environment/:job/:update''\<rparr>,
     \<lparr>rt_regexp = map Lit ''/updates'', rt_target = Page ''/assets/updateList.html'' ''AllUpdatesController''\<rparr>,
     \<lparr>rt_regexp = map Lit ''/updates/'', rt_target = Redirect ''/updates''\<rparr>]"
  by code_simp

text \<open>Reduce a path below \<open>/scheduler/\<close> to the groups.\<close>

fun groups_path :: "string list \<Rightarrow> string" where
  "groups_path [] = []"
| "groups_path [x] = x"
| "groups_path (x # y # xs) = x @ CHR ''/'' # groups_path (y # xs)"

lemma plainD: "plain x \<Longrightarrow> x \<noteq> [] \<and> CHR ''/'' \<notin> set x \<and> decodeURIComponent x = Inr x"
  by (simp add: plain_def decode_plain)

lemmas route_simps = parseRoute_def app_route_list switchRouteMatcher_def match_rules plainD obj_get_def

lemma parse_role:
  "plain r \<Longrightarrow> parseRoute (''/scheduler/'' @ r) =
     Some (Inr (Page ''/assets/role.html'' ''JobSummaryController'', [(''role'', r)]))"
  by (simp add: route_simps del: match_pieces.simps(3))

lemma parse_role_env:
  "plain r \<Longrightarrow> plain e \<Longrightarrow> parseRoute (''/scheduler/'' @ r @ ''/'' @ e) =
     Some (Inr (Page ''/assets/role.html'' ''JobSummaryController'', [(''role'', r), (''environment'', e)]))"
  by (simp add: route_simps del: match_pieces.simps(3))

lemma parse_job:
  "plain r \<Longrightarrow> plain e \<Longrightarrow> plain j \<Longrightarrow> parseRoute (''/scheduler/'' @ r @ ''/'' @ e @ ''/'' @ j) =
     Some (Inr (Page ''/assets/job.html'' ''JobController'', [(''role'', r), (''environment'', e), (''job'', j)]))"
  by (simp add: route_simps del: match_pieces.simps(3))

lemma parse_update:
  "plain r \<Longrightarrow> plain e \<Longrightarrow> plain j \<Longrightarrow> plain u \<Longrightarrow>
   parseRoute (''/scheduler/'' @ r @ ''/'' @ e @ ''/'' @ j @ ''/'' @ u) =
     Some (Inr (Page ''/assets/update.html'' ''UpdateController'',
       [(''role'', r), (''environment'', e), (''job'', j), (''update'', u)]))"
  by (simp add: route_simps del: match_pieces.simps(3))

lemma parse_bare:
  "parseRoute ''/scheduler'' = Some (Inr (Page ''/assets/home.html'' ''RoleSummaryController'', []))"
  "parseRoute ''/updates'' = Some (Inr (Page ''/assets/updateList.html'' ''AllUpdatesController'', []))"
  by (simp_all add: route_simps)

text \<open>With a slash at the end.\<close>

lemma parse_slash0:
  "parseRoute (''/scheduler'' @ ''/'') = Some (Inr (Redirect ''/scheduler'', []))"
  "parseRoute (''/updates'' @ ''/'') = Some (Inr (Redirect ''/updates'', []))"
  by (simp_all add: route_simps)

lemma parse_slash1:
  "plain r \<Longrightarrow> parseRoute ((''/scheduler/'' @ r) @ ''/'') = Some (Inr (Redirect ''/scheduler/:role'', [(''role'', r)]))"
  by (simp add: route_simps del: match_pieces.simps(3))

lemma parse_slash2:
  "plain r \<Longrightarrow> plain e \<Longrightarrow> parseRoute ((''/scheduler/'' @ r @ ''/'' @ e) @ ''/'') =
     Some (Inr (Redirect ''/scheduler/:role/:environment'', [(''role'', r), (''environment'', e)]))"
  by (simp add: route_simps del: match_pieces.simps(3))

lemma parse_slash3:
  "plain r \<Longrightarrow> plain e \<Longrightarrow> plain j \<Longrightarrow> parseRoute ((''/scheduler/'' @ r @ ''/'' @ e @ ''/'' @ j) @ ''/'') =
     Some (Inr (Redirect ''/scheduler/:role/:environment/:job'', [(''role'', r), (''environment'', e), (''job'', j)]))"
  by (simp add: route_simps del: match_pieces.simps(3))

lemma parse_slash4:
  "plain r \<Longrightarrow> plain e \<Longrightarrow> plain j \<Longrightarrow> plain u \<Longrightarrow>
   parseRoute ((''/scheduler/'' @ r @ ''/'' @ e @ ''/'' @ j @ ''/'' @ u) @ ''/'') =
     Some (Inr (Redirect ''/scheduler/:role/:environment/:job/:update'',
       [(''role'', r), (''environment'', e), (''job'', j), (''update'', u)]))"
  by (simp add: route_simps del: match_pieces.simps(3))

text \<open>The targets of the redirects filled with their parameters; what else is in \<open>q\<close> is left.\<close>

lemma app_segments:
  "split_on (CHR '':'') ''/scheduler'' = [''/scheduler'']"
  "split_on (CHR '':'') ''/updates'' = [''/updates'']"
  "split_on (CHR '':'') ''/scheduler/:role'' = [''/scheduler/'', ''role'']"
  "split_on (CHR '':'') ''/scheduler/:role/:environment'' = [''/scheduler/'', ''role/'', ''environment'']"
  "split_on (CHR '':'') ''/scheduler/:role/:environment/:job'' = [''/scheduler/'', ''role/'', ''environment/'', ''job'']"
  "split_on (CHR '':'') ''/scheduler/:role/:environment/:job/:update''
    = [''/scheduler/'', ''role/'', ''environment/'', ''job/'', ''update'']"
  by code_simp+

lemma app_words:
  "takeWhile word_char ''role'' = ''role''" "dropWhile word_char ''role'' = ''''"
  "takeWhile word_char ''role/'' = ''role''" "dropWhile word_char ''role/'' = ''/''"
  "takeWhile word_char ''environment'' = ''environment''" "dropWhile word_char ''environment'' = ''''"
  "takeWhile word_char ''environment/'' = ''environment''" "dropWhile word_char ''environment/'' = ''/''"
  "takeWhile word_char ''job'' = ''job''" "dropWhile word_char ''job'' = ''''"
  "takeWhile word_char ''job/'' = ''job''" "dropWhile word_char ''job/'' = ''/''"
  "takeWhile word_char ''update'' = ''update''" "dropWhile word_char ''update'' = ''''"
  by code_simp+

definition route_keys :: "string list" where
  "route_keys = [''role'', ''environment'', ''job'', ''update'']"

lemma obj_delete_append: "obj_delete k (q @ d) = obj_delete k q @ obj_delete k d"
  by (simp add: obj_delete_def)

lemma obj_delete_free: "k \<notin> set (map fst q) \<Longrightarrow> obj_delete k q = q"
  by (force simp: obj_delete_def intro: filter_True)

lemma obj_get_append: "k \<notin> set (map fst q) \<Longrightarrow> obj_get (q @ d) k = obj_get d k"
  by (induction q) (auto simp: obj_get_def)

lemma obj_get_Cons: "obj_get ((a, v) # d) k = (if a = k then Some v else obj_get d k)"
  by (simp add: obj_get_def)

lemma obj_get_delete: "obj_get (obj_delete k d) j = (if j = k then None else obj_get d j)"
  by (induction d) (auto simp: obj_delete_def obj_get_def)

lemma interpolate_plain: "interpolate ''/scheduler'' q = (''/scheduler'', q)" "interpolate ''/updates'' q = (''/updates'', q)"
  by (simp_all add: interpolate_def app_segments)

lemma interpolate_targets:
  assumes "set (map fst q) \<inter> set route_keys = {}"
  shows "interpolate ''/scheduler/:role'' (q @ [(''role'', r)]) = (''/scheduler/'' @ r, q)"
    "interpolate ''/scheduler/:role/:environment'' (q @ [(''role'', r), (''environment'', e)])
      = (''/scheduler/'' @ r @ ''/'' @ e, q)"
    "interpolate ''/scheduler/:role/:environment/:job'' (q @ [(''role'', r), (''environment'', e), (''job'', j)])
      = (''/scheduler/'' @ r @ ''/'' @ e @ ''/'' @ j, q)"
    "interpolate ''/scheduler/:role/:environment/:job/:update''
       (q @ [(''role'', r), (''environment'', e), (''job'', j), (''update'', u)])
      = (''/scheduler/'' @ r @ ''/'' @ e @ ''/'' @ j @ ''/'' @ u, q)"
proof -
  have free: "''role'' \<notin> set (map fst q)" "''environment'' \<notin> set (map fst q)" "''job'' \<notin> set (map fst q)"
      "''update'' \<notin> set (map fst q)"
    using assms by (auto simp: route_keys_def)
  note eval = interpolate_def app_segments app_words Let_def obj_delete_append free [THEN obj_delete_free]
    free [THEN obj_get_append] obj_delete_def [of _ "[]"] obj_delete_def [of _ "_ # _"] obj_get_Cons
  show "interpolate ''/scheduler/:role'' (q @ [(''role'', r)]) = (''/scheduler/'' @ r, q)"
    "interpolate ''/scheduler/:role/:environment'' (q @ [(''role'', r), (''environment'', e)])
      = (''/scheduler/'' @ r @ ''/'' @ e, q)"
    "interpolate ''/scheduler/:role/:environment/:job'' (q @ [(''role'', r), (''environment'', e), (''job'', j)])
      = (''/scheduler/'' @ r @ ''/'' @ e @ ''/'' @ j, q)"
    "interpolate ''/scheduler/:role/:environment/:job/:update''
       (q @ [(''role'', r), (''environment'', e), (''job'', j), (''update'', u)])
      = (''/scheduler/'' @ r @ ''/'' @ e @ ''/'' @ j @ ''/'' @ u, q)"
    by (simp_all add: eval del: takeWhile.simps dropWhile.simps)
qed

lemmas interpolate_bare = interpolate_targets [of "[]", simplified]

text \<open>A trailing slash is redirected away: the path of a role, an environment, a job or an update
  followed by a slash leads to a redirect whose target, filled with the parameters the router read,
  is the path without the slash.\<close>

theorem trailing_slash_redirect:
  assumes "plain r" "plain e" "plain j" "plain u"
  shows "list_all (\<lambda>path. case parseRoute (path @ ''/'') of
       Some (Inr (Redirect to, params)) \<Rightarrow> fst (interpolate to params) = path
     | _ \<Rightarrow> False)
    [''/scheduler'', ''/scheduler/'' @ r, ''/scheduler/'' @ r @ ''/'' @ e, ''/scheduler/'' @ r @ ''/'' @ e @ ''/'' @ j,
     ''/scheduler/'' @ r @ ''/'' @ e @ ''/'' @ j @ ''/'' @ u, ''/updates'']"
proof -
  note redirects = parse_slash0 parse_slash1 [OF assms(1)] parse_slash2 [OF assms(1,2)] parse_slash3 [OF assms(1-3)] parse_slash4 [OF assms]
  show ?thesis
    unfolding list.pred_inject redirects
    by (simp add: interpolate_plain interpolate_bare)
qed

theorem trailing_slash_redirect_witness:
  "case parseRoute ''/scheduler/web/'' of
     Some (Inr (Redirect to, params)) \<Rightarrow> fst (interpolate to params) = ''/scheduler/web''
   | _ \<Rightarrow> False"
  using trailing_slash_redirect [of "''web''" "''prod''" "''hello''" "''u1''"] by (simp add: plain_def)

end
