(* ===== verification/Directives.thy ===== *)
theory Directives
  imports Routes Underscore UpdateUtil
begin

text \<open>
  The directives of \<open>directives.js\<close> with behaviour of their own: the links of the tables, the two
  toggles, the selection of configuration groups, and the markup of the instance grid.  The other
  directives only name a template.
\<close>

section \<open>Links\<close>

definition roleLink_href :: "string \<Rightarrow> string" where
  "roleLink_href formatedValue = ''/scheduler/'' @ formatedValue"

definition roleEnvLink_href :: "string \<Rightarrow> string \<Rightarrow> string" where
  "roleEnvLink_href role formatedValue = ''/scheduler/'' @ role @ ''/'' @ formatedValue"

definition jobLink_href :: "string \<Rightarrow> string \<Rightarrow> string \<Rightarrow> string" where
  "jobLink_href role environment formatedValue =
     ''/scheduler/'' @ role @ ''/'' @ environment @ ''/'' @ formatedValue"

definition taskLink_href :: "string \<Rightarrow> string" where
  "taskLink_href formatedValue = ''/structdump/task/'' @ formatedValue"

definition toggleShowDetails :: "bool \<Rightarrow> bool" where
  "toggleShowDetails showDetails = (\<not> showDetails)"

section \<open>The group selection\<close>

text \<open>\<open>array.sort()\<close> without a comparison function compares the elements as strings.\<close>

definition compare_strings :: "int \<Rightarrow> int \<Rightarrow> int" where
  "compare_strings x y =
     (if string_of_int x < string_of_int y then -1
      else if string_of_int y < string_of_int x then 1 else 0)"

definition toggleVisibleGroup :: "int \<Rightarrow> int list \<Rightarrow> int list" where
  "toggleVisibleGroup index visibleGroups =
     (let i = us_indexOf_sorted (Some visibleGroups) index in
      if i > -1 then take (nat i) visibleGroups @ drop (nat i + 1) visibleGroups
      else array_sort compare_strings (visibleGroups @ [index]))"

definition showAllGroups :: "'g list \<Rightarrow> int list" where
  "showAllGroups groups = us_range (int (length groups))"

definition hideAllGroups :: "int list" where
  "hideAllGroups = []"

definition watchVisibleGroups :: "int list option \<Rightarrow> int list" where
  "watchVisibleGroups visibleGroups = (case visibleGroups of None \<Rightarrow> [] | Some v \<Rightarrow> v)"

section \<open>The instance grid\<close>

text \<open>The markup of one instance; \<open>dquote\<close> is the double quote.\<close>

definition dquote :: string where "dquote = [CHR 0x22]"

definition instance_item :: "instance_summary \<Rightarrow> string" where
  "instance_item i =
     ''<li class='' @ dquote @ is_className i @ dquote @ '' tooltip='' @ dquote @ ''INSTANCE '' @ is_instanceId i @ '': ''
     @ to_upper (is_className i) @ dquote @ ''><span class='' @ dquote @ ''instance-id'' @ dquote @ ''>'' @ is_instanceId i
     @ ''</span></li>''"

definition instance_progress :: "update_stats \<Rightarrow> string" where
  "instance_progress stats =
     string_of_nat (instancesUpdatedSoFar stats) @ '' / ''
     @ string_of_nat (totalInstancesToBeUpdated stats) @ '' ('' @ num_to_string (progress stats) @ ''%)''"

text \<open>\<open>None\<close>: the watch returns without touching the element. The title and the items in order.\<close>

definition instance_grid :: "instance_summary list option \<Rightarrow> string \<Rightarrow> update_stats
    \<Rightarrow> (string \<times> string \<times> string list) option" where
  "instance_grid instances sz stats = (case instances of
       None \<Rightarrow> None
     | Some [] \<Rightarrow> None
     | Some zs \<Rightarrow> Some (instance_progress stats, ''instance-grid '' @ sz,
         foldl (\<lambda>items i. items @ [instance_item i]) [] zs))"

section \<open>The selection with few groups\<close>

text \<open>Up to ten groups the indices are single digits, whose order as strings is their numeric order.\<close>

definition single_digit :: "int \<Rightarrow> bool" where
  "single_digit i \<longleftrightarrow> 0 \<le> i \<and> i < 10"

lemma digit_string: "single_digit i \<Longrightarrow> string_of_int i = [digit_char (nat i)]"
  by (simp add: single_digit_def string_of_int_def) (subst string_of_nat.simps, auto)

lemma digit_char_less: "m < 10 \<Longrightarrow> n < 10 \<Longrightarrow> digit_char m < digit_char n \<longleftrightarrow> m < n"
  by (drule less_10_cases, drule less_10_cases) (auto simp: digit_char_def less_char_def)

lemma compare_digits: "single_digit i \<Longrightarrow> single_digit j \<Longrightarrow> compare_strings i j \<le> 0 \<longleftrightarrow> i \<le> j"
proof -
  assume d: "single_digit i" "single_digit j"
  have "digit_char (nat j) < digit_char (nat i) \<longleftrightarrow> nat j < nat i"
    using d by (intro digit_char_less) (auto simp: single_digit_def)
  then show ?thesis
    using d by (auto simp: compare_strings_def digit_string single_digit_def)
qed

lemma insert_digits: "list_all single_digit (x # ys) \<Longrightarrow> insert_by compare_strings x ys = insort_key (\<lambda>i. i) x ys"
  by (induction ys) (auto simp: compare_digits)

lemma sort_digits: "list_all single_digit xs \<Longrightarrow> array_sort compare_strings xs = sort xs"
proof (induction xs)
  case (Cons x xs)
  have "list_all single_digit (x # sort xs)" using Cons.prems by (simp add: list_all_iff)
  from insert_digits [OF this] Cons show ?case by simp
qed simp

text \<open>The selection as a set: sorted, without duplicates, single digits.\<close>

definition selection_ok :: "int list \<Rightarrow> bool" where
  "selection_ok v \<longleftrightarrow> sorted v \<and> distinct v \<and> list_all single_digit v"

lemma remove_at: "i < length v \<Longrightarrow> distinct v \<Longrightarrow> take i v @ drop (Suc i) v = remove1 (v ! i) v"
proof (induction v arbitrary: i)
  case (Cons x v)
  then show ?case by (cases i) auto
qed simp

lemma toggle_member:
  assumes "selection_ok v" "i \<in> set v"
  shows "toggleVisibleGroup i v = remove1 i v"
proof -
  let ?k = "us_indexOf_sorted (Some v) i"
  have found: "?k \<noteq> -1" using us_indexOf_sorted_found [of v i] assms by (simp add: selection_ok_def)
  then have k: "0 \<le> ?k" "nat ?k < length v" "v ! nat ?k = i" using us_indexOf_sorted_nth [of v i ?k] by auto
  then show ?thesis
    using remove_at [of "nat ?k" v] assms(1) by (simp add: toggleVisibleGroup_def selection_ok_def Let_def)
qed

lemma toggle_new:
  assumes "selection_ok v" "i \<notin> set v" "single_digit i"
  shows "toggleVisibleGroup i v = insort i v"
proof -
  have "us_indexOf_sorted (Some v) i = -1" using us_indexOf_sorted_found [of v i] assms by (simp add: selection_ok_def)
  moreover have "sort (v @ [i]) = insort i v"
    using assms(1) by (intro properties_for_sort) (simp_all add: selection_ok_def sorted_insort)
  ultimately show ?thesis using assms by (simp add: toggleVisibleGroup_def sort_digits selection_ok_def)
qed

lemma toggle_set:
  assumes "selection_ok v" "single_digit i"
  shows "selection_ok (toggleVisibleGroup i v)
    \<and> set (toggleVisibleGroup i v) = (if i \<in> set v then set v - {i} else insert i (set v))"
proof (cases "i \<in> set v")
  case True
  then show ?thesis
    using assms by (auto simp: toggle_member selection_ok_def sorted_remove1 list_all_iff dest: notin_set_remove1)
next
  case False
  then show ?thesis
    using assms by (auto simp: toggle_new selection_ok_def sorted_insort distinct_insort set_insort_key list_all_iff)
qed

lemma toggles_set:
  assumes "selection_ok v" "list_all single_digit zs"
  shows "selection_ok (foldl (\<lambda>v i. toggleVisibleGroup i v) v zs)
    \<and> (j \<in> set (foldl (\<lambda>v i. toggleVisibleGroup i v) v zs) \<longleftrightarrow> (j \<in> set v) \<noteq> odd (count_list zs j))"
  using assms
proof (induction "zs" arbitrary: v)
  case (Cons i zs)
  then have "selection_ok (toggleVisibleGroup i v)" using toggle_set [of v i] by simp
  from Cons.IH [OF this] Cons.prems show ?case using toggle_set [of v i] by auto
qed simp

section \<open>Properties\<close>

text \<open>The links of the tables lead to the pages they name: for roles, environments and jobs without
  slashes and percent signs the router reads back from the link of a role, of an environment and of
  a job exactly the values it was made of, and selects the role page, the role page and the job
  page.\<close>

theorem links_reach_pages:
  assumes "plain role" "plain env" "plain job"
  shows "parseRoute (roleLink_href role) =
      Some (Inr (Page ''/assets/role.html'' ''JobSummaryController'', [(''role'', role)]))
    \<and> parseRoute (roleEnvLink_href role env) =
      Some (Inr (Page ''/assets/role.html'' ''JobSummaryController'', [(''role'', role), (''environment'', env)]))
    \<and> parseRoute (jobLink_href role env job) =
      Some (Inr (Page ''/assets/job.html'' ''JobController'', [(''role'', role), (''environment'', env), (''job'', job)]))"
  unfolding roleLink_href_def roleEnvLink_href_def jobLink_href_def
  using assms parse_role parse_role_env parse_job by blast

theorem links_reach_pages_witness:
  "parseRoute (jobLink_href ''web'' ''prod'' ''hello'') =
     Some (Inr (Page ''/assets/job.html'' ''JobController'',
       [(''role'', ''web''), (''environment'', ''prod''), (''job'', ''hello'')]))"
  using links_reach_pages [of "''web''" "''prod''" "''hello''"] by (simp add: plain_def)

text \<open>with at most ten configuration groups the selection is a set: after any sequence of toggles a
  group is visible exactly when it was toggled an odd number of times (an even number after
  \<open>show all\<close>), and no group is listed twice.\<close>

theorem toggle_groups:
  assumes "list_all single_digit zs" and "length groups \<le> 10"
  shows "distinct (foldl (\<lambda>v i. toggleVisibleGroup i v) hideAllGroups zs)
    \<and> (j \<in> set (foldl (\<lambda>v i. toggleVisibleGroup i v) hideAllGroups zs) \<longleftrightarrow> odd (count_list zs j))
    \<and> distinct (foldl (\<lambda>v i. toggleVisibleGroup i v) (showAllGroups groups) zs)
    \<and> (j \<in> set (foldl (\<lambda>v i. toggleVisibleGroup i v) (showAllGroups groups) zs)
        \<longleftrightarrow> (0 \<le> j \<and> j < int (length groups)) \<noteq> odd (count_list zs j))"
proof -
  have hide: "selection_ok hideAllGroups" by (simp add: selection_ok_def hideAllGroups_def)
  have "selection_ok (showAllGroups groups)"
    using assms(2) by (auto simp: selection_ok_def showAllGroups_def us_simps list_all_iff single_digit_def)
  from toggles_set [OF this assms(1), of j] toggles_set [OF hide assms(1), of j] show ?thesis
    by (simp add: selection_ok_def showAllGroups_def hideAllGroups_def us_simps)
qed

theorem toggle_groups_witness:
  "distinct (foldl (\<lambda>v i. toggleVisibleGroup i v) hideAllGroups [3, 7, 3])
   \<and> 7 \<in> set (foldl (\<lambda>v i. toggleVisibleGroup i v) hideAllGroups [3, 7, 3])
   \<and> 3 \<notin> set (foldl (\<lambda>v i. toggleVisibleGroup i v) hideAllGroups [3, 7, 3])"
proof -
  have s: "list_all single_digit [3, 7, 3]" by (simp add: single_digit_def)
  show ?thesis
    using toggle_groups [OF s, of "[]::unit list" 7] toggle_groups [OF s, of "[]::unit list" 3] by simp
qed

text \<open>with eleven groups or more the selection breaks: the array is sorted as strings but searched
  as numbers. Showing group 2 and then group 10 gives \<open>[10, 2]\<close>, in which group 2 is not found, so
  that hiding it lists it a second time instead.\<close>

theorem toggle_eleven_groups:
  "toggleVisibleGroup 10 (toggleVisibleGroup 2 hideAllGroups) = [10, 2]
   \<and> toggleVisibleGroup 2 [10, 2] = [10, 2, 2]"
proof -
  have s2: "string_of_int 2 = ''2''" and s10: "string_of_int 10 = ''10''"
    by (simp_all add: string_of_int_def string_of_nat.simps digit_char_def)
  have lt: "''10'' < ''2''" "\<not> ''2'' < ''10''" by (simp_all add: less_char_def)
  have i1: "us_sortedIndex [2::int] 10 = 1" "us_sortedIndex [10::int, 2] 2 = 0" "us_sortedIndex [] (2::int) = 0"
    by (simp_all add: us_sortedIndex_def sortedIndex_loop.simps)
  show ?thesis
    by (simp add: toggleVisibleGroup_def hideAllGroups_def us_indexOf_sorted_def i1 Let_def compare_strings_def s2 s10 lt)
qed

text \<open>the grid has one item per instance in the order given, each naming the instance and its class,
  and it is drawn exactly when there is an instance.\<close>

theorem instance_grid_items:
  "instance_grid (Some zs) sz stats =
     (if zs = [] then None else Some (instance_progress stats, ''instance-grid '' @ sz, map instance_item zs))
   \<and> instance_grid None sz stats = None"
  by (simp add: instance_grid_def foldl_snoc_map split: list.split)

end
