(* ===== verification/NumberText.thy ===== *)
theory NumberText
  imports JSNumber
begin

text \<open>
  Reading numbers from text: \<open>Number(s)\<close>, \<open>isNaN(s)\<close> on a string, \<open>parseFloat\<close> and
  \<open>parseInt\<close>, by the grammar of ECMA-262 (\<open>StringNumericLiteral\<close>), over the 8-bit characters.
\<close>

section \<open>The grammar\<close>

definition is_space :: "char \<Rightarrow> bool" where
  "is_space c \<longleftrightarrow> c \<in> {CHR 0x09, CHR 0x0A, CHR 0x0B, CHR 0x0C, CHR 0x0D, CHR 0x20, CHR 0xA0}"

definition trim_left :: "string \<Rightarrow> string" where
  "trim_left s = dropWhile is_space s"

definition trim :: "string \<Rightarrow> string" where
  "trim s = rev (dropWhile is_space (rev (trim_left s)))"

text \<open>An optional sign, then the rest of the text.\<close>

fun take_sign :: "string \<Rightarrow> bool \<times> string" where
  "take_sign [] = (False, [])"
| "take_sign (c # cs) =
     (if c = CHR ''-'' then (True, cs) else if c = CHR ''+'' then (False, cs) else (False, c # cs))"

text \<open>The exponent part: nothing is taken when no digit follows.\<close>

definition take_exponent :: "string \<Rightarrow> int \<times> string" where
  "take_exponent s = (case s of
       [] \<Rightarrow> (0, [])
     | c # cs \<Rightarrow>
         if c = CHR ''e'' \<or> c = CHR ''E'' then
           (let (neg, r) = take_sign cs; ds = takeWhile is_digit r in
            if ds = [] then (0, s)
            else ((if neg then - 1 else 1) * int (nat_of_digits ds), dropWhile is_digit r))
         else (0, s))"

definition take_fraction :: "string \<Rightarrow> string \<times> string" where
  "take_fraction s = (case s of
       [] \<Rightarrow> ([], [])
     | c # cs \<Rightarrow> if c = CHR ''.'' then (takeWhile is_digit cs, dropWhile is_digit cs) else ([], s))"

text \<open>The longest decimal literal a text starts with, and the rest of the text.\<close>

definition take_decimal :: "string \<Rightarrow> (num \<times> string) option" where
  "take_decimal s =
     (let (neg, r) = take_sign s; sgn = (\<lambda>x. if neg then js_neg x else x) in
      if take 8 r = ''Infinity'' then Some (sgn (Infinity False), drop 8 r)
      else
        (let ds = takeWhile is_digit r; (fs, r') = take_fraction (dropWhile is_digit r) in
         if ds = [] \<and> fs = [] then None
         else (let (e, r'') = take_exponent r' in
           Some (sgn (fl (of_nat (nat_of_digits (ds @ fs)) * pow10 (e - int (length fs)))), r''))))"

definition hex_number :: "string \<Rightarrow> num" where
  "hex_number s =
     (if s = [] \<or> list_ex (\<lambda>c. hex_val c = None) s then NaN
      else fl (of_nat (foldl (\<lambda>n c. n * 16 + the (hex_val c)) 0 s)))"

section \<open>The conversions\<close>

definition to_number :: "string \<Rightarrow> num" where
  "to_number s = (let t = trim s in
     if t = [] then Fin 0
     else if take 2 t = ''0x'' \<or> take 2 t = ''0X'' then hex_number (drop 2 t)
     else (case take_decimal t of Some (x, []) \<Rightarrow> x | _ \<Rightarrow> NaN))"

definition is_nan_text :: "string \<Rightarrow> bool" where
  "is_nan_text s \<longleftrightarrow> to_number s = NaN"

definition parse_float :: "string \<Rightarrow> num" where
  "parse_float s = (case take_decimal (trim_left s) of Some (x, _) \<Rightarrow> x | None \<Rightarrow> NaN)"

text \<open>\<open>parseInt(s)\<close> with the default radix: a hexadecimal prefix selects sixteen.\<close>

definition parse_int :: "string \<Rightarrow> num" where
  "parse_int s =
     (let (neg, r) = take_sign (trim_left s);
          x = (if take 2 r = ''0x'' \<or> take 2 r = ''0X''
               then hex_number (takeWhile (\<lambda>c. hex_val c \<noteq> None) (drop 2 r))
               else (let ds = takeWhile is_digit r in if ds = [] then NaN else fl (of_nat (nat_of_digits ds))))
      in if neg then js_neg x else x)"

section \<open>Texts that are not numbers\<close>

lemma take_decimal_letter:
  assumes "\<not> is_digit c" "c \<notin> set ''+-.I''"
  shows "take_decimal (c # cs) = None"
  using assms by (simp add: take_decimal_def take_fraction_def)

lemma space_not_word: "is_space c \<Longrightarrow> \<not> word_char c"
  unfolding is_space_def by (elim insertE) (simp_all add: word_char_def is_digit_def uppers_def lowers_def)

lemma sign_not_word: "c \<in> set ''+-.()'' \<Longrightarrow> \<not> word_char c"
  unfolding list.set by (elim insertE) (simp_all add: word_char_def is_digit_def uppers_def lowers_def)

text \<open>A text that starts with a letter other than \<open>I\<close>, or an underscore, is never a number.\<close>

lemma trim_cons: "\<not> is_space c \<Longrightarrow> \<exists>t. trim (c # cs) = c # t"
proof -
  assume "\<not> is_space c"
  then have "dropWhile is_space (rev cs @ [c]) = dropWhile is_space (rev cs) @ [c]"
    by (induction cs rule: rev_induct) auto
  with \<open>\<not> is_space c\<close> show ?thesis by (simp add: trim_def trim_left_def)
qed

lemma is_nan_letter:
  assumes "word_char c" "\<not> is_digit c" "c \<noteq> CHR ''I''"
  shows "is_nan_text (c # cs)"
proof -
  have s: "\<not> is_space c" using assms(1) space_not_word by blast
  have n: "c \<notin> set ''+-.I''" using sign_not_word [of c] assms(1,3) by auto
  obtain t where t: "trim (c # cs) = c # t" using trim_cons [OF s] by blast
  show ?thesis
    using take_decimal_letter [OF assms(2) n, of t] assms(2)
    by (auto simp: is_nan_text_def to_number_def t Let_def is_digit_def)
qed

end
