(* ===== verification/GraphParser.thy ===== *)
theory GraphParser
  imports NumberText JSObject
begin

text \<open>
  The expression language of the scheduler's graph page (\<open>graphview/parser.js\<close>): tokens, parts,
  the recursive parser with the two global regular expressions it keeps its position in, and the
  evaluation of a part on a row of the time series, which changes the samples a \<open>rate()\<close> keeps.
  The recursion of \<open>parser.parse\<close> is given by a depth bound; \<open>parse\<close> passes one more than the
  length of the query, which \<open>parse_returns\<close> shows to be enough.
\<close>

section \<open>Data\<close>

text \<open>
  \<open>parser._operators\<close> and \<open>parser.functions\<close> are object literals, so a lookup also finds what
  they inherit from \<open>Object.prototype\<close>.
\<close>

datatype operator = Plus | Minus | Times | Divide | InheritedOp string

datatype jsvalue = Undefined | Null | Num num

datatype evaluator = Abs | Ceil | Floor | Log | Rate num "(jsvalue \<times> jsvalue) list" nat
    \<comment> \<open>window length, samples, and which argument is sampled\<close>
  | Round | Sqrt | InheritedFn string

datatype token = Token (tok_start: nat) (tok_text: string)

text \<open>
  A part of a parsed query.  The evaluator of a function reads its argument from the function's
  own argument list, the array the two share in the code.
\<close>

datatype graph_part = Constant nat num | Var nat string
  | Operation nat operator "graph_part option list" | Function nat evaluator "graph_part list"

section \<open>Errors\<close>

text \<open>\<open>addError\<close> of \<open>grapher.js\<close>\<close>

definition addError :: "string \<Rightarrow> string \<Rightarrow> nat \<Rightarrow> 'a result" where
  "addError expr error pos =
     Inl (Thrown (expr @ [CHR 0x0A] @ replicate pos (CHR '' '') @ ''^ '' @ error))"

section \<open>Tables\<close>

definition inherited_names :: "string list" where
  "inherited_names = [''constructor'', ''toString'', ''toLocaleString'', ''valueOf'', ''hasOwnProperty'',
     ''isPrototypeOf'', ''propertyIsEnumerable'', ''__proto__'', ''__defineGetter__'',
     ''__defineSetter__'', ''__lookupGetter__'', ''__lookupSetter__'']"

definition operators :: "(string \<times> operator) list" where
  "operators = [(''+'', Plus), (''-'', Minus), (''*'', Times), (''/'', Divide)]"

definition find_operator :: "string \<Rightarrow> operator option" where
  "find_operator s = (case map_of operators s of Some p \<Rightarrow> Some p
     | None \<Rightarrow> if List.member inherited_names s then Some (InheritedOp s) else None)"

definition function_names :: "string list" where
  "function_names = [''abs'', ''ceil'', ''floor'', ''log'', ''rate'', ''round'', ''sqrt'']"

definition function_help :: "string \<Rightarrow> string" where
  "function_help f = (if f = ''rate'' then ''rate([window size,] var)'' else f @ ''(num)'')"

definition known_function :: "string \<Rightarrow> bool" where
  "known_function f \<longleftrightarrow> List.member function_names f \<or> List.member inherited_names f"

text \<open>\<open>new parser.functions[f](args)\<close>; the inherited names other than \<open>constructor\<close> (which is
  \<open>Object\<close>, and returns its argument) are not constructors.\<close>

definition new_rate :: "graph_part list \<Rightarrow> evaluator result" where
  "new_rate args = (case args of
       [a] \<Rightarrow> Inr (Rate (Fin 1) [] 0)
     | [a, b] \<Rightarrow> (case a of
           Constant _ c \<Rightarrow> Inr (Rate c [] 1)
         | _ \<Rightarrow> Inl (Thrown ''the first argument to rate() must be a constant.''))
     | _ \<Rightarrow> Inl (Thrown ''rate() accepts one or two arguments.''))"

definition new_unary :: "string \<Rightarrow> evaluator \<Rightarrow> graph_part list \<Rightarrow> evaluator result" where
  "new_unary f e args =
     (if length args \<noteq> 1 then Inl (Thrown (f @ ''() accepts exactly one argument.'')) else Inr e)"

definition new_abs :: "graph_part list \<Rightarrow> evaluator result" where "new_abs = new_unary ''abs'' Abs"
definition new_ceil :: "graph_part list \<Rightarrow> evaluator result" where "new_ceil = new_unary ''ceil'' Ceil"
definition new_floor :: "graph_part list \<Rightarrow> evaluator result" where "new_floor = new_unary ''floor'' Floor"
definition new_log :: "graph_part list \<Rightarrow> evaluator result" where "new_log = new_unary ''log'' Log"
definition new_round :: "graph_part list \<Rightarrow> evaluator result" where "new_round = new_unary ''round'' Round"
definition new_sqrt :: "graph_part list \<Rightarrow> evaluator result" where "new_sqrt = new_unary ''sqrt'' Sqrt"

definition new_evaluator :: "string \<Rightarrow> graph_part list \<Rightarrow> evaluator result" where
  "new_evaluator f args =
     (case map_of (zip function_names
        [new_abs, new_ceil, new_floor, new_log, new_rate, new_round, new_sqrt]) f of
        Some mk \<Rightarrow> mk args
      | None \<Rightarrow> if f = ''constructor'' then Inr (InheritedFn f) else Inl TypeError)"

section \<open>Tokens\<close>

text \<open>
  \<open>tokenize_loop\<close> is the loop over the characters: \<open>cs\<close> is what is left, \<open>i\<close> the index,
  \<open>level\<close> the depth of parentheses and \<open>start\<close> where the current token begins.
\<close>

definition substring :: "string \<Rightarrow> nat \<Rightarrow> nat \<Rightarrow> string" where
  "substring s a b = take (b - a) (drop a s)"

fun tokenize_loop :: "string \<Rightarrow> nat \<Rightarrow> (char \<Rightarrow> bool) \<Rightarrow> string \<Rightarrow> nat \<Rightarrow> int \<Rightarrow> nat \<Rightarrow> token list \<Rightarrow>
    (token list \<times> nat) result" where
  "tokenize_loop str offset isDelimiter [] i level start tokens = Inr (tokens, start)"
| "tokenize_loop str offset isDelimiter (c # cs) i level start tokens =
     (if c = CHR ''('' then tokenize_loop str offset isDelimiter cs (i + 1) (level + 1) start tokens
      else if c = CHR '')'' then tokenize_loop str offset isDelimiter cs (i + 1) (level - 1) start tokens
      else if level = 0 \<and> isDelimiter c then
        (let token = substring str start i in
         if token = [] then addError str ''Missing operand'' (i + offset)
         else tokenize_loop str offset isDelimiter cs (i + 1) level (i + 1)
                (tokens @ [Token (start + offset) token, Token start [c]]))
      else tokenize_loop str offset isDelimiter cs (i + 1) level start tokens)"

definition tokenize :: "string \<Rightarrow> nat \<Rightarrow> (char \<Rightarrow> bool) \<Rightarrow> token list result" where
  "tokenize str offset isDelimiter =
     res_bind (tokenize_loop str offset isDelimiter str 0 0 0 []) (\<lambda>(tokens, start).
       if drop start str = [] then addError str ''Expected expression but found operator'' (start + offset)
       else Inr (tokens @ [Token (start + offset) (drop start str)]))"

definition is_operator :: "char \<Rightarrow> bool" where
  "is_operator c \<longleftrightarrow> find_operator [c] \<noteq> None"

section \<open>The regular expressions\<close>

text \<open>
  Both carry the flag \<open>g\<close> and live in globals, so \<open>exec\<close> starts at the index where the last match
  ended; anchored at the start of the text, they can then only fail, which resets the index.
\<close>

record regexes =
  function_last :: nat
  sub_last :: nat

definition is_dot :: "char \<Rightarrow> bool" where
  "is_dot c \<longleftrightarrow> c \<noteq> CHR 0x0A \<and> c \<noteq> CHR 0x0D"

text \<open>\<open>(.*)\)$\<close>\<close>

definition match_close :: "string \<Rightarrow> string option" where
  "match_close s = (if s \<noteq> [] \<and> last s = CHR '')'' \<and> list_all is_dot (butlast s) then Some (butlast s) else None)"

text \<open>\<open>/^(\w+)\((.*)\)$/\<close> and \<open>/^\((.*)\)$/\<close>\<close>

definition match_function :: "string \<Rightarrow> (string \<times> string) option" where
  "match_function s = (case dropWhile word_char s of
       [] \<Rightarrow> None
     | c # r \<Rightarrow> if takeWhile word_char s \<noteq> [] \<and> c = CHR ''('' then map_option (Pair (takeWhile word_char s)) (match_close r)
               else None)"

definition match_sub :: "string \<Rightarrow> string option" where
  "match_sub s = (case s of [] \<Rightarrow> None | c # r \<Rightarrow> if c = CHR ''('' then match_close r else None)"

text \<open>\<open>RegExp.prototype.exec\<close> of a global expression anchored at the start.\<close>

definition exec_anchored :: "(string \<Rightarrow> 'm option) \<Rightarrow> string \<Rightarrow> nat \<Rightarrow> nat \<times> 'm option" where
  "exec_anchored match s lastIndex =
     (if lastIndex = 0 then (case match s of Some m \<Rightarrow> (length s, Some m) | None \<Rightarrow> (0, None)) else (0, None))"

definition exec_function :: "string \<Rightarrow> regexes \<Rightarrow> regexes \<times> (string \<times> string) option" where
  "exec_function s rx = (let (l, m) = exec_anchored match_function s (function_last rx) in
     (rx\<lparr>function_last := l\<rparr>, m))"

definition exec_sub :: "string \<Rightarrow> regexes \<Rightarrow> regexes \<times> string option" where
  "exec_sub s rx = (let (l, m) = exec_anchored match_sub s (sub_last rx) in (rx\<lparr>sub_last := l\<rparr>, m))"

text \<open>\<open>token.text.indexOf\<close> of the first parenthesis, the match of \<open>_PAREN_RE\<close>.\<close>

definition paren_index :: "string \<Rightarrow> nat option" where
  "paren_index s = (let n = length (takeWhile (\<lambda>c. c \<noteq> CHR ''('' \<and> c \<noteq> CHR '')'') s) in
     if n < length s then Some n else None)"

section \<open>The parser\<close>

text \<open>
  A step of the parser takes the regular expressions' state and returns it with a result;
  \<open>None\<close> is a recursion deeper than the bound.
\<close>

type_synonym 'a parsing = "regexes \<Rightarrow> (regexes \<times> 'a result) option"

definition ret :: "'a result \<Rightarrow> 'a parsing" where
  "ret r rx = Some (rx, r)"

definition bind :: "'a parsing \<Rightarrow> ('a \<Rightarrow> 'b parsing) \<Rightarrow> 'b parsing" where
  "bind m f rx = (case m rx of
       None \<Rightarrow> None
     | Some (rx', Inl e) \<Rightarrow> Some (rx', Inl e)
     | Some (rx', Inr x) \<Rightarrow> f x rx')"

datatype item = OpItem nat operator | TextItem nat string

definition classify :: "token \<Rightarrow> item" where
  "classify t = (case find_operator (tok_text t) of
       Some p \<Rightarrow> OpItem (tok_start t) p
     | None \<Rightarrow> TextItem (tok_start t) (tok_text t))"

text \<open>A leaf: neither a call nor a sub expression.\<close>

definition parse_leaf :: "string \<Rightarrow> nat \<Rightarrow> string \<Rightarrow> graph_part result" where
  "parse_leaf query start txt = (case paren_index txt of
       Some n \<Rightarrow> addError query ''Unmatched paren'' (start + n)
     | None \<Rightarrow> if is_nan_text txt then Inr (Var start txt) else Inr (Constant start (parse_float txt)))"

text \<open>The \<open>$.map\<close> over the argument tokens; \<open>P\<close> is the recursive call.\<close>

fun parse_args :: "(string \<Rightarrow> nat \<Rightarrow> graph_part parsing) \<Rightarrow> token list \<Rightarrow> graph_part list parsing" where
  "parse_args P [] = ret (Inr [])"
| "parse_args P (t # ts) = bind (P (tok_text t) (tok_start t)) (\<lambda>p.
     bind (parse_args P ts) (\<lambda>ps. ret (Inr (p # ps))))"

definition parse_call :: "(string \<Rightarrow> nat \<Rightarrow> graph_part parsing) \<Rightarrow> string \<Rightarrow> nat \<Rightarrow> string \<Rightarrow> string \<Rightarrow> graph_part parsing" where
  "parse_call P query start f arg =
     (if \<not> known_function f then ret (addError query (''Unrecognized function '' @ f) start)
      else bind (P arg (start + 1)) (\<lambda>parsedArg.
        bind (ret (tokenize arg (start + 1) (\<lambda>c. c = CHR '',''))) (\<lambda>argTokens.
        bind (parse_args P (filter (\<lambda>t. tok_text t \<noteq> '','') argTokens)) (\<lambda>parsedArgs.
        ret (res_bind (new_evaluator f parsedArgs) (\<lambda>e. Inr (Function start e parsedArgs)))))))"

definition parse_operand :: "(string \<Rightarrow> nat \<Rightarrow> graph_part parsing) \<Rightarrow> string \<Rightarrow> nat \<Rightarrow> string \<Rightarrow> graph_part parsing" where
  "parse_operand P query start txt rx = (case exec_function txt rx of
       (rx1, Some (f, arg)) \<Rightarrow> parse_call P query start f arg rx1
     | (rx1, None) \<Rightarrow> (case exec_sub txt rx1 of
           (rx2, Some inner) \<Rightarrow> P inner (start + 1) rx2
         | (rx2, None) \<Rightarrow> ret (parse_leaf query start txt) rx2))"

text \<open>What an operator does with the parts read so far, and where an operand goes.\<close>

definition take_operator :: "nat \<Rightarrow> operator \<Rightarrow> graph_part list \<Rightarrow> graph_part list" where
  "take_operator start p res =
     butlast res @ [Operation start p [if res = [] then None else Some (last res)]]"

definition take_operand :: "graph_part \<Rightarrow> graph_part list \<Rightarrow> graph_part list" where
  "take_operand p res = (if res = [] then [p] else (case last res of
       Operation st q args \<Rightarrow> butlast res @ [Operation st q (args @ [Some p])]
     | _ \<Rightarrow> res @ [p]))"

fun parse_items :: "(string \<Rightarrow> nat \<Rightarrow> graph_part parsing) \<Rightarrow> string \<Rightarrow> item list \<Rightarrow> graph_part list \<Rightarrow> graph_part list parsing" where
  "parse_items P query [] res = ret (Inr res)"
| "parse_items P query (OpItem start p # ts) res = parse_items P query ts (take_operator start p res)"
| "parse_items P query (TextItem start txt # ts) res =
     bind (parse_operand P query start txt) (\<lambda>p. parse_items P query ts (take_operand p res))"

definition parse_body :: "(string \<Rightarrow> nat \<Rightarrow> graph_part parsing) \<Rightarrow> string \<Rightarrow> nat \<Rightarrow> graph_part parsing" where
  "parse_body P query offset =
     bind (ret (tokenize query offset is_operator)) (\<lambda>tokens.
     bind (parse_items P query (map classify tokens) []) (\<lambda>res.
     ret (if length res \<noteq> 1 then Inl (Thrown ''Unexpected state.'') else Inr (hd res))))"

fun parse_fuel :: "nat \<Rightarrow> string \<Rightarrow> nat \<Rightarrow> graph_part parsing" where
  "parse_fuel 0 query offset rx = None"
| "parse_fuel (Suc n) query offset rx = parse_body (parse_fuel n) query offset rx"

definition parse :: "string \<Rightarrow> nat \<Rightarrow> regexes \<Rightarrow> regexes \<times> graph_part result" where
  "parse query offset rx = the (parse_fuel (Suc (length query)) query offset rx)"

section \<open>Variables and evaluation\<close>

text \<open>\<open>getVars\<close>: a missing argument (an operator with nothing before it) is \<open>undefined\<close>.\<close>

fun getVars :: "graph_part \<Rightarrow> string list result"
  and getVars_opts :: "graph_part option list \<Rightarrow> string list result"
  and getVars_args :: "graph_part list \<Rightarrow> string list result" where
  "getVars (Constant st c) = Inr []"
| "getVars (Var st name) = Inr [name]"
| "getVars (Operation st p args) = getVars_opts args"
| "getVars (Function st e args) = getVars_args args"
| "getVars_opts [] = Inr []"
| "getVars_opts (None # ps) = Inl TypeError"
| "getVars_opts (Some p # ps) = res_bind (getVars p) (\<lambda>xs. res_bind (getVars_opts ps) (\<lambda>ys. Inr (xs @ ys)))"
| "getVars_args [] = Inr []"
| "getVars_args (p # ps) = res_bind (getVars p) (\<lambda>xs. res_bind (getVars_args ps) (\<lambda>ys. Inr (xs @ ys)))"

text \<open>\<open>ToNumber\<close>, and a row of the table read at the index the global \<open>metrics\<close> has for a name.\<close>

fun toNumber :: "jsvalue \<Rightarrow> num" where
  "toNumber Undefined = NaN"
| "toNumber Null = Fin 0"
| "toNumber (Num x) = x"

definition read_var :: "nat obj \<Rightarrow> jsvalue list \<Rightarrow> string \<Rightarrow> jsvalue" where
  "read_var metrics vars name = (case obj_get metrics name of
       None \<Rightarrow> Undefined
     | Some i \<Rightarrow> if i < length vars then vars ! i else Undefined)"

fun apply_operator :: "operator \<Rightarrow> jsvalue \<Rightarrow> jsvalue \<Rightarrow> jsvalue result" where
  "apply_operator Plus a b = Inr (Num (js_add (toNumber a) (toNumber b)))"
| "apply_operator Minus a b = Inr (Num (js_sub (toNumber a) (toNumber b)))"
| "apply_operator Times a b = Inr (Num (js_mul (toNumber a) (toNumber b)))"
| "apply_operator Divide a b = Inr (Num (js_div (toNumber a) (toNumber b)))"
| "apply_operator (InheritedOp s) a b = Inl TypeError"

text \<open>
  One call of \<open>Rate.evaluate\<close> once the argument's value \<open>y\<close> and the time \<open>t\<close> are known: the
  samples kept and the value.  \<open>excess\<close> is the count \<open>splice\<close> converts to an integer.
\<close>

definition rate_excess :: "nat \<Rightarrow> num \<Rightarrow> nat" where
  "rate_excess n w = (case js_sub (Fin (of_nat n)) w of
       Fin q \<Rightarrow> nat \<lfloor>q\<rfloor>
     | Infinity False \<Rightarrow> n
     | _ \<Rightarrow> 0)"

definition rate_step :: "num \<Rightarrow> jsvalue \<Rightarrow> jsvalue \<Rightarrow> (jsvalue \<times> jsvalue) list \<Rightarrow>
    (jsvalue \<times> jsvalue) list \<times> jsvalue" where
  "rate_step w y t samples0 =
     (let samples = samples0 @ [(y, t)]; (y0, t0) = hd samples;
          kept = (if js_ge (Fin (of_nat (length samples))) w \<and> \<not> js_eq (Fin (of_nat (length samples))) w
                  then drop (rate_excess (length samples) w) samples else samples);
          denom = js_sub (toNumber t) (toNumber t0) in
      (kept, if js_eq denom (Fin 0) then Num (Fin 0)
             else Num (js_div (js_mul (Fin 1000) (js_sub (toNumber y) (toNumber y0))) denom)))"

text \<open>
  The evaluator on the value of its argument; \<open>log()\<close> reads \<open>this.args\<close>, which its constructor
  never sets.
\<close>

fun apply_evaluator :: "evaluator \<Rightarrow> jsvalue \<Rightarrow> jsvalue \<Rightarrow> evaluator \<times> jsvalue result" where
  "apply_evaluator Abs t y = (Abs, Inr (Num (js_abs (toNumber y))))"
| "apply_evaluator Ceil t y = (Ceil, Inr (Num (js_ceil (toNumber y))))"
| "apply_evaluator Floor t y = (Floor, Inr (Num (js_floor (toNumber y))))"
| "apply_evaluator Round t y = (Round, Inr (Num (js_round (toNumber y))))"
| "apply_evaluator Sqrt t y = (Sqrt, Inr (Num (js_sqrt (toNumber y))))"
| "apply_evaluator (Rate w samples k) t y =
     (let (samples', v) = rate_step w y t samples in (Rate w samples' k, Inr v))"
| "apply_evaluator Log t y = (Log, Inl TypeError)"
| "apply_evaluator (InheritedFn s) t y = (InheritedFn s, Inl TypeError)"

definition evaluates_arg :: "evaluator \<Rightarrow> nat option" where
  "evaluates_arg e = (case e of Log \<Rightarrow> None | InheritedFn _ \<Rightarrow> None | Rate _ _ k \<Rightarrow> Some k | _ \<Rightarrow> Some 0)"

text \<open>
  \<open>evaluate\<close> returns the part as it is afterwards and the value or the error; \<open>eval_rest\<close> is the
  loop of \<open>Operation.evaluate\<close> and \<open>eval_nth\<close> evaluates one argument of a function.
\<close>

fun evaluate :: "nat obj \<Rightarrow> jsvalue list \<Rightarrow> graph_part \<Rightarrow> graph_part \<times> jsvalue result"
  and eval_rest :: "nat obj \<Rightarrow> jsvalue list \<Rightarrow> operator \<Rightarrow> jsvalue \<Rightarrow> graph_part option list \<Rightarrow>
    graph_part option list \<times> jsvalue result"
  and eval_nth :: "nat obj \<Rightarrow> jsvalue list \<Rightarrow> nat \<Rightarrow> graph_part list \<Rightarrow> graph_part list \<times> jsvalue result" where
  "evaluate m vars (Constant st c) = (Constant st c, Inr (Num c))"
| "evaluate m vars (Var st name) = (Var st name, Inr (read_var m vars name))"
| "evaluate m vars (Operation st p []) = (Operation st p [], Inl TypeError)"
| "evaluate m vars (Operation st p (None # as)) = (Operation st p (None # as), Inl TypeError)"
| "evaluate m vars (Operation st p (Some a # as)) = (case evaluate m vars a of
       (a', Inl e) \<Rightarrow> (Operation st p (Some a' # as), Inl e)
     | (a', Inr x) \<Rightarrow> (case eval_rest m vars p x as of (as', r) \<Rightarrow> (Operation st p (Some a' # as'), r)))"
| "evaluate m vars (Function st e args) = (case evaluates_arg e of
       None \<Rightarrow> (Function st e args, Inl TypeError)
     | Some k \<Rightarrow> (case eval_nth m vars k args of
           (args', Inl err) \<Rightarrow> (Function st e args', Inl err)
         | (args', Inr y) \<Rightarrow> (case apply_evaluator e (read_var m vars ''time'') y of
             (e', r) \<Rightarrow> (Function st e' args', r))))"
| "eval_rest m vars p x [] = ([], Inr x)"
| "eval_rest m vars p x (None # as) = (None # as, Inl TypeError)"
| "eval_rest m vars p x (Some a # as) = (case evaluate m vars a of
       (a', Inl e) \<Rightarrow> (Some a' # as, Inl e)
     | (a', Inr y) \<Rightarrow> (case apply_operator p x y of
           Inl e \<Rightarrow> (Some a' # as, Inl e)
         | Inr z \<Rightarrow> (case eval_rest m vars p z as of (as', r) \<Rightarrow> (Some a' # as', r))))"
| "eval_nth m vars k [] = ([], Inl TypeError)"
| "eval_nth m vars k (a # as) =
     (if k = 0 then (case evaluate m vars a of (a', r) \<Rightarrow> (a' # as, r))
      else (case eval_nth m vars (k - 1) as of (as', r) \<Rightarrow> (a # as', r)))"

section \<open>What the tokenizer returns\<close>

text \<open>
  Text tokens and delimiters alternate, no text is empty or starts with a delimiter, and no token
  is longer than the string.
\<close>

definition text_token :: "(char \<Rightarrow> bool) \<Rightarrow> nat \<Rightarrow> token \<Rightarrow> bool" where
  "text_token d n t \<longleftrightarrow> tok_text t \<noteq> [] \<and> \<not> (d (hd (tok_text t)) \<and> hd (tok_text t) \<notin> {CHR ''('', CHR '')''})
     \<and> length (tok_text t) \<le> n"

definition delim_token :: "(char \<Rightarrow> bool) \<Rightarrow> token \<Rightarrow> bool" where
  "delim_token d t \<longleftrightarrow> (\<exists>c. tok_text t = [c] \<and> d c)"

fun alternating :: "(char \<Rightarrow> bool) \<Rightarrow> nat \<Rightarrow> token list \<Rightarrow> bool" where
  "alternating d n [] = True"
| "alternating d n [t] = text_token d n t"
| "alternating d n (t # u # ts) \<longleftrightarrow> text_token d n t \<and> delim_token d u \<and> alternating d n ts"

lemma alternating_snoc:
  "alternating d n ts \<Longrightarrow> even (length ts) \<Longrightarrow> text_token d n t \<Longrightarrow>
     alternating d n (ts @ [t]) \<and> (delim_token d u \<longrightarrow> alternating d n (ts @ [t, u]))"
  by (induction d n ts rule: alternating.induct) auto

lemma tokenize_loop_shape:
  assumes "tokenize_loop str offset d cs i level start tokens = Inr (tokens', start')"
    "cs = drop i str" "i \<le> length str" "start \<le> i"
    "start = i \<longrightarrow> level = 0"
    "start < i \<longrightarrow> \<not> (d (str ! start) \<and> str ! start \<notin> {CHR ''('', CHR '')''})"
    "alternating d (length str) tokens" "even (length tokens)"
  shows "alternating d (length str) tokens' \<and> even (length tokens') \<and> start' \<le> length str
    \<and> (start' < length str \<longrightarrow> \<not> (d (str ! start') \<and> str ! start' \<notin> {CHR ''('', CHR '')''}))"
  using assms
proof (induction str offset d cs i level start tokens rule: tokenize_loop.induct)
  case (1 str offset d i level start tokens)
  then show ?case by auto
next
  case (2 str offset d c cs i level start tokens)
  have c: "i < length str" "str ! i = c" "cs = drop (i + 1) str"
    using 2(6,7) by (metis drop_eq_Nil2 linorder_not_less list.discI, metis nth_via_drop, metis Suc_eq_plus1 drop_Suc list.sel(3) tl_drop)
  consider (P) "c = CHR ''('' \<or> c = CHR '')''" | (D) "c \<noteq> CHR ''(''" "c \<noteq> CHR '')''" "level = 0" "d c"
    | (N) "c \<noteq> CHR ''(''" "c \<noteq> CHR '')''" "\<not> (level = 0 \<and> d c)" by blast
  then show ?case
  proof cases
    case P
    then show ?thesis using 2(1,2) 2(5-) c by (auto simp: less_Suc_eq)
  next
    case N
    then show ?thesis using 2(4) 2(5-) c by (auto simp: less_Suc_eq)
  next
    case D
    define t where "t = Token (start + offset) (substring str start i)"
    have ne: "substring str start i \<noteq> []"
      using 2(5) D by (auto simp: addError_def Let_def split: if_splits)
    then have si: "start < i" by (auto simp: substring_def)
    have t: "text_token d (length str) t"
      using ne 2(10) si by (auto simp: text_token_def t_def substring_def hd_drop_conv_nth hd_take c)
    have "alternating d (length str) (tokens @ [t, Token start [c]])"
      using alternating_snoc [OF 2(11,12) t, of "Token start [c]"] D by (simp add: delim_token_def)
    then show ?thesis
      using 2(3) [OF D(1,2) _ refl ne] 2(5-) c D ne by (auto simp: t_def Let_def)
  qed
qed

lemma tokenize_shape:
  assumes "tokenize str offset d = Inr ts"
  shows "alternating d (length str) ts \<and> odd (length ts)"
proof -
  obtain tokens start where l: "tokenize_loop str offset d str 0 0 0 [] = Inr (tokens, start)"
    and ts: "ts = tokens @ [Token (start + offset) (drop start str)]" and ne: "drop start str \<noteq> []"
    using assms by (auto simp: tokenize_def addError_def split: if_splits)
  have s: "alternating d (length str) tokens" "even (length tokens)" "start < length str"
      "\<not> (d (str ! start) \<and> str ! start \<notin> {CHR ''('', CHR '')''})"
    using tokenize_loop_shape [OF l] ne by auto
  have "text_token d (length str) (Token (start + offset) (drop start str))"
    using s ne by (auto simp: text_token_def hd_drop_conv_nth)
  then show ?thesis using alternating_snoc [OF s(1,2), of _ undefined] s(2) ts by simp
qed

lemma alternating_lengths:
  "alternating d n ts \<Longrightarrow> t \<in> set ts \<Longrightarrow> length (tok_text t) \<le> n"
  by (induction d n ts rule: alternating.induct) (auto simp: text_token_def delim_token_def Suc_le_eq simp flip: length_greater_0_conv)

lemma tokenize_lengths: "tokenize str offset d = Inr ts \<Longrightarrow> t \<in> set ts \<Longrightarrow> length (tok_text t) \<le> length str"
  using tokenize_shape alternating_lengths by blast

section \<open>The recursion ends\<close>

lemma bind_ret [simp]: "bind (ret r) f rx = (case r of Inl e \<Rightarrow> Some (rx, Inl e) | Inr x \<Rightarrow> f x rx)"
  by (simp add: bind_def ret_def)

lemma bind_None: "bind m f rx = None \<longleftrightarrow> m rx = None \<or> (\<exists>rx' x. m rx = Some (rx', Inr x) \<and> f x rx' = None)"
  by (auto simp: bind_def split: option.splits sum.splits)

lemma bind_Inr: "bind m f rx = Some (rx', Inr y) \<longleftrightarrow> (\<exists>rx1 x. m rx = Some (rx1, Inr x) \<and> f x rx1 = Some (rx', Inr y))"
  by (auto simp: bind_def split: option.splits sum.splits)

lemma bind_cong: "m = m' \<Longrightarrow> (\<And>x. f x = f' x) \<Longrightarrow> bind m f = bind m' f'"
  by (auto simp: bind_def fun_eq_iff split: option.splits sum.splits)

lemma match_close_length: "match_close s = Some a \<Longrightarrow> length a < length s"
  by (auto simp: match_close_def split: if_splits)

lemma match_function_length: "match_function s = Some (f, a) \<Longrightarrow> length a < length s"
  using length_dropWhile_le [of word_char s]
  by (auto simp: match_function_def split: list.splits if_splits dest: match_close_length)

lemma match_sub_length: "match_sub s = Some a \<Longrightarrow> length a < length s"
  by (auto simp: match_sub_def split: list.splits if_splits dest: match_close_length)

lemma exec_function_length: "exec_function s rx = (rx', Some (f, a)) \<Longrightarrow> length a < length s"
  by (auto simp: exec_function_def exec_anchored_def Let_def split: if_splits option.splits prod.splits dest: match_function_length)

lemma exec_sub_length: "exec_sub s rx = (rx', Some a) \<Longrightarrow> length a < length s"
  by (auto simp: exec_sub_def exec_anchored_def Let_def split: if_splits option.splits prod.splits dest: match_sub_length)

text \<open>Two recursive calls that agree on texts shorter than \<open>n\<close> give the same parser up to \<open>n\<close>.\<close>

definition agree :: "nat \<Rightarrow> (string \<Rightarrow> nat \<Rightarrow> graph_part parsing) \<Rightarrow> (string \<Rightarrow> nat \<Rightarrow> graph_part parsing) \<Rightarrow> bool" where
  "agree n P Q \<longleftrightarrow> (\<forall>s off. length s < n \<longrightarrow> P s off = Q s off)"

lemma parse_args_agree:
  "agree n P Q \<Longrightarrow> (\<And>t. t \<in> set ts \<Longrightarrow> length (tok_text t) < n) \<Longrightarrow> parse_args P ts = parse_args Q ts"
  by (induction ts) (auto simp: agree_def)

lemma parse_call_agree:
  assumes "agree n P Q" "length arg < n"
  shows "parse_call P query start f arg rx = parse_call Q query start f arg rx"
proof -
  have "parse_args P (filter p ts) = parse_args Q (filter p ts)" if "tokenize arg off d = Inr ts" for p ts off d
    using tokenize_lengths [OF that] assms by (intro parse_args_agree [OF assms(1)]) (auto dest!: spec intro: le_less_trans)
  then have "bind (ret (tokenize arg off d)) (\<lambda>ts. bind (parse_args P (filter p ts)) g)
      = bind (ret (tokenize arg off d)) (\<lambda>ts. bind (parse_args Q (filter p ts)) g)" for off d p g
    by (auto simp: fun_eq_iff bind_def ret_def split: sum.splits)
  moreover have "P arg off = Q arg off" for off using assms by (auto simp: agree_def)
  ultimately show ?thesis
    by (auto simp: parse_call_def simp del: bind_ret intro!: fun_cong [OF bind_cong])
qed

lemma parse_operand_agree:
  assumes "agree n P Q" "length txt \<le> n"
  shows "parse_operand P query start txt rx = parse_operand Q query start txt rx"
proof (cases "exec_function txt rx")
  case (Pair rx1 m)
  show ?thesis
  proof (cases m)
    case None
    obtain rx2 m2 where e: "exec_sub txt rx1 = (rx2, m2)" by force
    then show ?thesis
      using Pair None assms exec_sub_length [of "txt" rx1 rx2]
      by (cases m2) (auto simp: parse_operand_def agree_def)
  next
    case (Some fa)
    then show ?thesis
      using Pair assms exec_function_length [of "txt" rx rx1] parse_call_agree [of n P Q]
      by (cases fa) (auto simp: parse_operand_def)
  qed
qed

definition item_text :: "item \<Rightarrow> string" where
  "item_text i = (case i of OpItem _ _ \<Rightarrow> [] | TextItem _ t \<Rightarrow> t)"

lemma parse_items_agree:
  assumes "agree n P Q"
  shows "(\<And>i. i \<in> set ts \<Longrightarrow> length (item_text i) \<le> n) \<Longrightarrow> parse_items P query ts res = parse_items Q query ts res"
proof (induction ts arbitrary: res)
  case (Cons i ts)
  show ?case
  proof (cases i)
    case (TextItem start s)
    have "parse_operand P query start s = parse_operand Q query start s"
      using parse_operand_agree [OF assms, of s] Cons.prems [of i] TextItem by (auto simp: item_text_def)
    moreover have "parse_items P query ts r = parse_items Q query ts r" for r
      using Cons by auto
    ultimately show ?thesis using TextItem by (auto intro: bind_cong)
  qed (use Cons in auto)
qed auto

lemma classify_length: "length (item_text (classify t)) \<le> length (tok_text t)"
  by (simp add: classify_def item_text_def split: option.split)

lemma parse_body_agree:
  assumes "agree (length query) P Q"
  shows "parse_body P query off = parse_body Q query off"
proof
  fix rx
  show "parse_body P query off rx = parse_body Q query off rx"
  proof (cases "tokenize query off is_operator")
    case (Inr ts)
    have "parse_items P query (map classify ts) [] = parse_items Q query (map classify ts) []"
      using tokenize_lengths [OF Inr] classify_length
      by (intro parse_items_agree [OF assms]) (fastforce intro: order_trans)
    with Inr show ?thesis
      by (simp add: parse_body_def bind_def ret_def)
  qed (simp add: parse_body_def)
qed

lemma fuel_irrelevant:
  "length query < n \<Longrightarrow> length query < m \<Longrightarrow> parse_fuel n query off = parse_fuel m query off"
proof (induction n arbitrary: query off m)
  case (Suc n)
  then obtain k where k: "m = Suc k" by (cases m) auto
  have "agree (length query) (parse_fuel n) (parse_fuel k)"
    unfolding agree_def
  proof (intro allI impI)
    fix s :: string and off
    assume "length s < length query"
    with Suc.prems k show "parse_fuel n s off = parse_fuel k s off" by (intro Suc.IH) linarith+
  qed
  from parse_body_agree [OF this] show ?case by (simp add: fun_eq_iff k)
qed simp

text \<open>Nothing below the bound runs out of fuel.\<close>

definition total :: "nat \<Rightarrow> (string \<Rightarrow> nat \<Rightarrow> graph_part parsing) \<Rightarrow> bool" where
  "total n P \<longleftrightarrow> (\<forall>s off rx. length s < n \<longrightarrow> P s off rx \<noteq> None)"

lemma parse_args_total:
  "total n P \<Longrightarrow> (\<And>t. t \<in> set ts \<Longrightarrow> length (tok_text t) < n) \<Longrightarrow> parse_args P ts rx \<noteq> None"
  by (induction ts arbitrary: rx) (auto simp: total_def bind_None ret_def)

lemma parse_operand_total:
  assumes "total n P" "length txt \<le> n"
  shows "parse_operand P query start txt rx \<noteq> None"
proof -
  have call: "parse_call P query start f arg rx1 \<noteq> None" if "length arg < n" for f arg rx1
  proof -
    have "parse_args P (filter p ts) rx2 \<noteq> None" if "tokenize arg off d = Inr ts" for p ts off d rx2
      using tokenize_lengths [OF that] assms \<open>length arg < n\<close>
      by (intro parse_args_total [OF assms(1)]) (auto dest!: spec intro: le_less_trans)
    with that assms show ?thesis
      by (auto simp: parse_call_def bind_None total_def ret_def simp del: not_None_eq split: sum.splits)
  qed
  show ?thesis
    using assms call
    by (auto simp: parse_operand_def total_def ret_def split: prod.splits option.splits
        dest!: exec_function_length exec_sub_length)
qed

lemma parse_items_total:
  assumes "total n P"
  shows "(\<And>i. i \<in> set ts \<Longrightarrow> length (item_text i) \<le> n) \<Longrightarrow> parse_items P query ts res rx \<noteq> None"
proof (induction ts arbitrary: res rx)
  case (Cons i ts)
  have IH: "parse_items P query ts r rx' \<noteq> None" for r rx' using Cons by simp
  show ?case
  proof (cases i)
    case (TextItem st s)
    then have "length s \<le> n" using Cons.prems [of i] by (simp add: item_text_def)
    with TextItem IH parse_operand_total [OF assms] show ?thesis by (simp add: bind_None)
  qed (use IH in simp)
qed (simp add: ret_def)

lemma parse_fuel_total: "total n (parse_fuel n)"
proof (induction n)
  case (Suc n)
  have "parse_body (parse_fuel n) s off rx \<noteq> None" if "length s \<le> n" for s off rx
  proof (cases "tokenize s off is_operator")
    case (Inr ts)
    have "parse_items (parse_fuel n) s (map classify ts) [] rx \<noteq> None"
      using tokenize_lengths [OF Inr] classify_length that
      by (intro parse_items_total [OF Suc]) (fastforce intro: order_trans)
    with Inr show ?thesis
      by (auto simp: parse_body_def bind_None ret_def)
  qed (simp add: parse_body_def)
  then show ?case by (simp add: total_def)
qed (simp add: total_def)

lemma parse_unfold: "length query < n \<Longrightarrow> parse_fuel n query off rx = Some (parse query off rx)"
  using fuel_irrelevant [of query n "Suc (length query)" off] parse_fuel_total [of "Suc (length query)"]
  by (force simp: parse_def total_def)

text \<open>C3: \<open>parser.parse\<close> returns for every query, offset and state of the regular expressions, and
  its calls never nest deeper than the query is long, since the argument of a call and a sub
  expression are shorter than the text they are taken from.\<close>

theorem parse_returns:
  "parse_fuel (length query + 1 + extra) query offset rx = Some (parse query offset rx)"
  by (rule parse_unfold) simp

section \<open>The shape of a result\<close>

text \<open>No two operands follow each other, so at most one part is left at any time.\<close>

fun separated :: "item list \<Rightarrow> bool" where
  "separated [] = True"
| "separated (OpItem st p # ts) = separated ts"
| "separated (TextItem st s # ts) = (case ts of [] \<Rightarrow> True | OpItem _ _ # us \<Rightarrow> separated us | TextItem _ _ # us \<Rightarrow> False)"

lemma separated_Cons: "separated (TextItem st s # ts) \<Longrightarrow> separated ts"
  by (auto split: list.splits item.splits)

lemma find_operator_char: "(\<exists>p. find_operator [c] = Some p) \<longleftrightarrow> is_operator c"
  by (simp add: is_operator_def)

lemma classify_delim: "delim_token is_operator t \<Longrightarrow> \<exists>st p. classify t = OpItem st p"
  by (auto simp: delim_token_def classify_def simp flip: find_operator_char)

lemma separated_tokens: "alternating is_operator n ts \<Longrightarrow> separated (map classify ts)"
proof (induction ts rule: induct_list012)
  case (2 t)
  then show ?case by (cases "classify t") auto
next
  case (3 t u ts)
  then show ?case using classify_delim [of u] by (cases "classify t") auto
qed simp

definition at_operator :: "graph_part list \<Rightarrow> bool" where
  "at_operator res \<longleftrightarrow> res = [] \<or> (\<exists>st p args. res = [Operation st p args])"

lemma take_operator_one: "length res \<le> 1 \<Longrightarrow> at_operator (take_operator st p res)"
  by (cases res) (auto simp: take_operator_def at_operator_def)

lemma take_operand_one: "at_operator res \<Longrightarrow> length (take_operand p res) = 1"
  by (auto simp: take_operand_def at_operator_def)

lemma parse_items_one:
  "parse_items P query ts res rx = Some (rx', Inr res') \<Longrightarrow> separated ts \<Longrightarrow> length res \<le> 1 \<Longrightarrow>
     (case ts of TextItem _ _ # _ \<Rightarrow> at_operator res | _ \<Rightarrow> True) \<Longrightarrow> ts \<noteq> [] \<or> length res = 1 \<Longrightarrow> length res' = 1"
proof (induction P query ts res arbitrary: rx rule: parse_items.induct)
  case (1 P query res)
  then show ?case by (simp add: ret_def)
next
  case (2 P query st p ts res)
  have a: "at_operator (take_operator st p res)" using 2(4) by (rule take_operator_one)
  moreover have "length (take_operator st p res) = 1"
    using 2(4) by (cases res) (auto simp: take_operator_def)
  ultimately show ?case using 2(1) [of rx] 2(2,3) by (auto split: list.split item.split)
next
  case (3 P query st s ts res)
  obtain rx1 p where p: "parse_operand P query st s rx = Some (rx1, Inr p)"
    and r: "parse_items P query ts (take_operand p res) rx1 = Some (rx', Inr res')"
    using 3(2) by (auto simp: bind_Inr)
  have "length (take_operand p res) = 1" using 3(5) by (intro take_operand_one) simp
  moreover have "(case ts of TextItem _ _ # _ \<Rightarrow> at_operator (take_operand p res) | _ \<Rightarrow> True)"
    using 3(3) by (auto split: list.splits item.splits)
  ultimately show ?case
    using 3(1) [OF r] separated_Cons [OF 3(3)] by simp
qed

lemma parse_items_total_one:
  assumes "tokenize query off is_operator = Inr ts"
    "parse_items P query (map classify ts) [] rx = Some (rx', Inr res)"
  shows "length res = 1"
proof -
  have "alternating is_operator (length query) ts" "ts \<noteq> []"
    using tokenize_shape [OF assms(1)] by auto
  then show ?thesis
    using parse_items_one [OF assms(2) separated_tokens]
    by (auto simp: at_operator_def split: list.split item.split)
qed

text \<open>A result free of inherited operators leaves both regular expressions at their start.\<close>

fun plain_part :: "graph_part \<Rightarrow> bool" where
  "plain_part (Constant st c) = True"
| "plain_part (Var st s) = True"
| "plain_part (Operation st p args) \<longleftrightarrow> \<not> List.member (map InheritedOp inherited_names) p \<and>
     list_all (\<lambda>a. case a of Some x \<Rightarrow> plain_part x | None \<Rightarrow> False) args"
| "plain_part (Function st e args) = list_all plain_part args"

definition fresh :: "regexes \<Rightarrow> bool" where
  "fresh rx \<longleftrightarrow> function_last rx = 0 \<and> sub_last rx = 0"

definition settles :: "(string \<Rightarrow> nat \<Rightarrow> graph_part parsing) \<Rightarrow> bool" where
  "settles P \<longleftrightarrow> (\<forall>s off rx rx' p. P s off rx = Some (rx', Inr p) \<and> plain_part p \<longrightarrow> fresh rx')"

lemma settlesD: "settles P \<Longrightarrow> P s off rx = Some (rx', Inr p) \<Longrightarrow> plain_part p \<Longrightarrow> fresh rx'"
  unfolding settles_def by blast

lemma parse_items_ops:
  "parse_items P query ts res rx = Some (rx', Inr res') \<Longrightarrow>
     \<not> list_ex (\<lambda>i. case i of TextItem _ _ \<Rightarrow> True | _ \<Rightarrow> False) ts \<Longrightarrow> rx' = rx"
proof (induction ts arbitrary: res)
  case (Cons i ts)
  then show ?case by (cases i) auto
qed (simp add: ret_def)

lemma parse_args_settles:
  assumes "settles P"
  shows "parse_args P ts rx = Some (rx', Inr ps) \<Longrightarrow> list_all plain_part ps \<Longrightarrow>
    length ps = length ts \<and> (ts \<noteq> [] \<longrightarrow> fresh rx')"
proof (induction ts arbitrary: rx ps)
  case (Cons t ts)
  then obtain rx1 p qs where "P (tok_text t) (tok_start t) rx = Some (rx1, Inr p)"
      "parse_args P ts rx1 = Some (rx', Inr qs)" "ps = p # qs"
    by (auto simp: bind_Inr ret_def)
  moreover from this Cons.prems have "fresh rx1" by (auto intro: settlesD [OF assms])
  ultimately show ?case using Cons by (cases ts) (auto simp: ret_def)
qed (simp add: ret_def)

lemma exec_miss:
  "exec_function s rx = (rx', None) \<Longrightarrow> function_last rx' = 0 \<and> sub_last rx' = sub_last rx"
  "exec_sub s rx = (rx', None) \<Longrightarrow> sub_last rx' = 0 \<and> function_last rx' = function_last rx"
  by (auto simp: exec_function_def exec_sub_def exec_anchored_def Let_def split: if_splits option.splits prod.splits)

lemma some_argument:
  assumes "tokenize arg off (\<lambda>c. c = CHR '','') = Inr ts"
  shows "filter (\<lambda>t. tok_text t \<noteq> '','') ts \<noteq> []"
proof -
  obtain t us where t: "ts = t # us" "text_token (\<lambda>c. c = CHR '','') (length arg) t"
    using tokenize_shape [OF assms] by (cases ts; cases "tl ts") auto
  then have "tok_text t \<noteq> '',''" by (auto simp: text_token_def)
  with t show ?thesis by simp
qed

lemma parse_operand_settles:
  assumes "settles P" "parse_operand P query st s rx = Some (rx', Inr p)" "plain_part p"
  shows "fresh rx'"
proof (cases "exec_function s rx")
  case (Pair rx1 m)
  show ?thesis
  proof (cases m)
    case None
    show ?thesis
    proof (cases "exec_sub s rx1")
      case (Pair rx2 m2)
      with None \<open>exec_function s rx = (rx1, m)\<close> assms exec_miss show ?thesis
        by (cases m2) (fastforce simp: parse_operand_def settles_def fresh_def ret_def)+
    qed
  next
    case (Some fa)
    obtain f arg where fa: "fa = (f, arg)" by force
    have c: "parse_call P query st f arg rx1 = Some (rx', Inr p)"
      using assms(2) Pair Some fa by (simp add: parse_operand_def)
    then obtain rx2 ts e ps where ts: "tokenize arg (st + 1) (\<lambda>c. c = CHR '','') = Inr ts"
      and a: "parse_args P (filter (\<lambda>t. tok_text t \<noteq> '','') ts) rx2 = Some (rx', Inr ps)"
      and p: "p = Function st e ps"
      by (cases "tokenize arg (Suc st) (\<lambda>c. c = CHR '','')")
        (auto simp: parse_call_def bind_Inr ret_def addError_def split: if_splits)
    from parse_args_settles [OF assms(1) a] some_argument [OF ts] p assms(3) show ?thesis by simp
  qed
qed

lemma parse_items_settles:
  "settles P \<Longrightarrow> parse_items P query ts res rx = Some (rx', Inr res') \<Longrightarrow> list_all plain_part res' \<Longrightarrow>
     list_all plain_part res \<and> list_all (\<lambda>i. case i of OpItem _ p \<Rightarrow> \<not> List.member (map InheritedOp inherited_names) p | _ \<Rightarrow> True) ts
     \<and> (list_ex (\<lambda>i. case i of TextItem _ _ \<Rightarrow> True | _ \<Rightarrow> False) ts \<longrightarrow> fresh rx')"
proof (induction P query ts res arbitrary: rx rule: parse_items.induct)
  case (1 P query res)
  then show ?case by (simp add: ret_def)
next
  case (2 P query st p ts res)
  then have "list_all plain_part (take_operator st p res)" by auto
  then have "list_all plain_part res" "\<not> List.member (map InheritedOp inherited_names) p"
    by (cases res rule: rev_cases; simp add: take_operator_def)+
  with 2 show ?case by auto
next
  case (3 P query st s ts res)
  obtain rx1 p where p: "parse_operand P query st s rx = Some (rx1, Inr p)"
    and r: "parse_items P query ts (take_operand p res) rx1 = Some (rx', Inr res')"
    using 3(3) by (auto simp: bind_Inr)
  note IH = 3(1) [OF 3(2) r 3(4)]
  then have "list_all plain_part res \<and> plain_part p"
    by (cases res rule: rev_cases) (auto simp: take_operand_def split: if_splits graph_part.splits)
  moreover have "fresh rx1" using parse_operand_settles [OF 3(2) p] calculation by simp
  moreover have "rx' = rx1" if "\<not> list_ex (\<lambda>i. case i of TextItem _ _ \<Rightarrow> True | _ \<Rightarrow> False) ts"
    using parse_items_ops [OF r that] .
  ultimately show ?case using IH by auto
qed

lemma classify_head:
  assumes "alternating is_operator n ts" "ts \<noteq> []"
  shows "\<not> list_ex (\<lambda>i. case i of TextItem _ _ \<Rightarrow> True | _ \<Rightarrow> False) (map classify ts) \<Longrightarrow>
    \<exists>st p us. map classify ts = OpItem st p # us \<and> List.member (map InheritedOp inherited_names) p"
proof -
  assume none: "\<not> list_ex (\<lambda>i. case i of TextItem _ _ \<Rightarrow> True | _ \<Rightarrow> False) (map classify ts)"
  obtain t us where ts: "ts = t # us" "text_token is_operator n t"
    using assms by (cases ts; cases "tl ts") auto
  have nop: "map_of operators (tok_text t) = None"
  proof (rule ccontr)
    assume "map_of operators (tok_text t) \<noteq> None"
    then have "tok_text t \<in> {''+'', ''-'', ''*'', ''/''}"
      by (auto simp: operators_def split: if_splits)
    then have "is_operator (hd (tok_text t)) \<and> hd (tok_text t) \<notin> {CHR ''('', CHR '')''}"
      by (auto simp: is_operator_def find_operator_def operators_def)
    with ts(2) show False by (simp add: text_token_def)
  qed
  then show ?thesis
    using none ts(1) by (auto simp: classify_def find_operator_def List.member_iff split: option.splits if_splits)
qed

lemma parse_body_settles:
  assumes "settles P"
  shows "settles (parse_body P)"
  unfolding settles_def
proof (intro allI impI, elim conjE)
  fix s off rx rx' p
  assume p: "parse_body P s off rx = Some (rx', Inr p)" "plain_part p"
  then obtain ts res where ts: "tokenize s off is_operator = Inr ts"
    and r: "parse_items P s (map classify ts) [] rx = Some (rx', Inr res)" "length res = 1" "p = hd res"
    by (cases "tokenize s off is_operator") (auto simp: parse_body_def bind_Inr ret_def split: if_splits)
  then have pl: "list_all plain_part res" using p(2) by (cases res) auto
  note I = parse_items_settles [OF assms r(1) pl]
  have a: "alternating is_operator (length s) ts" "ts \<noteq> []" using tokenize_shape [OF ts] by auto
  show "fresh rx'"
    using I classify_head [OF a] by auto
qed

lemma parse_settles: "parse q off rx = (rx', Inr p) \<Longrightarrow> plain_part p \<Longrightarrow> fresh rx'"
proof -
  have "settles (parse_fuel n)" for n
  proof (induction n)
    case (Suc n)
    from parse_body_settles [OF this] show ?case by (simp add: settles_def)
  qed (simp add: settles_def)
  then show "parse q off rx = (rx', Inr p) \<Longrightarrow> plain_part p \<Longrightarrow> fresh rx'"
    using parse_unfold [of q "Suc (length q)" off rx] settlesD by (metis lessI)
qed

text \<open>A parsing step that never fails with \<open>Unexpected state\<close>.\<close>

definition expected :: "'a parsing \<Rightarrow> bool" where
  "expected m \<longleftrightarrow> (\<forall>rx rx'. m rx \<noteq> Some (rx', Inl (Thrown ''Unexpected state.'')))"

lemma expected_ret: "r \<noteq> Inl (Thrown ''Unexpected state.'') \<Longrightarrow> expected (ret r)"
  by (simp add: expected_def ret_def)

lemma expected_bind: "expected m \<Longrightarrow> (\<And>x. expected (f x)) \<Longrightarrow> expected (bind m f)"
  by (auto simp: expected_def bind_def split: option.splits sum.splits)

lemma addError_expected: "addError expr err n \<noteq> Inl (Thrown ''Unexpected state.'')"
proof
  assume "addError expr err n = Inl (Thrown ''Unexpected state.'')"
  then have "CHR 0x0A \<in> set ''Unexpected state.''"
    unfolding addError_def by (metis Inl_inject append_Cons in_set_conv_decomp js_error.inject)
  then show False by simp
qed

lemma tokenize_loop_expected:
  "tokenize_loop str off d cs i level start tokens \<noteq> Inl (Thrown ''Unexpected state.'')"
  by (induction str off d cs i level start tokens rule: tokenize_loop.induct)
    (auto simp: Let_def addError_expected)

lemma tokenize_expected: "tokenize str off d \<noteq> Inl (Thrown ''Unexpected state.'')"
  using tokenize_loop_expected [of str off d str 0 0 0 "[]"]
  by (cases "tokenize_loop str off d str 0 0 0 []") (auto simp: tokenize_def addError_expected split: if_splits)

lemma new_unary_expected [simp]: "new_unary f e args \<noteq> Inl (Thrown ''Unexpected state.'')"
  by (auto simp: new_unary_def dest: arg_cong [where f = length])

lemma new_rate_expected [simp]: "new_rate args \<noteq> Inl (Thrown ''Unexpected state.'')"
  by (simp add: new_rate_def split: list.split graph_part.split)

lemma new_evaluator_expected: "new_evaluator f args \<noteq> Inl (Thrown ''Unexpected state.'')"
  by (simp add: new_evaluator_def function_names_def new_abs_def new_ceil_def new_floor_def new_log_def
      new_round_def new_sqrt_def)

lemma res_bind_Inl: "res_bind r (\<lambda>x. Inr (g x)) = Inl e \<longleftrightarrow> r = Inl e"
  by (cases r) auto

lemma parse_args_expected: "(\<And>s off. expected (P s off)) \<Longrightarrow> expected (parse_args P ts)"
  by (induction ts) (auto intro!: expected_bind expected_ret)

lemma parse_operand_expected:
  assumes P: "\<And>s off. expected (P s off)"
  shows "expected (parse_operand P query st s)"
proof -
  have c: "expected (parse_call P query st f arg)" for f arg
    using addError_expected new_evaluator_expected tokenize_expected
    by (auto simp: parse_call_def res_bind_Inl intro!: expected_bind P parse_args_expected expected_ret)
  have l: "parse_leaf query st s \<noteq> Inl (Thrown ''Unexpected state.'')"
    using addError_expected by (auto simp: parse_leaf_def split: option.splits)
  show ?thesis
    using c P expected_ret [OF l] by (auto simp: expected_def parse_operand_def split: prod.splits option.splits)
qed

lemma parse_items_expected:
  "(\<And>s off. expected (P s off)) \<Longrightarrow> expected (parse_items P query ts res)"
  by (induction P query ts res rule: parse_items.induct)
    (auto intro!: expected_bind expected_ret parse_operand_expected)

lemma parse_fuel_expected: "expected (parse_fuel n s off)"
proof (induction n arbitrary: s off)
  case (Suc n)
  have "parse_body (parse_fuel n) s off rx \<noteq> Some (rx', Inl (Thrown ''Unexpected state.''))" for rx rx'
  proof (cases "tokenize s off is_operator")
    case (Inr ts)
    then show ?thesis
      using parse_items_expected [OF Suc, where query = s and ts = "map classify ts" and res = "[]"] parse_items_total_one [OF Inr, of "parse_fuel n" rx]
      by (fastforce simp: parse_body_def bind_def ret_def expected_def split: option.splits sum.splits)
  qed (use tokenize_expected [of s off is_operator] in \<open>auto simp: parse_body_def\<close>)
  then show ?case by (simp add: expected_def)
qed (simp add: expected_def)

text \<open>a query the parser accepts leaves both global regular expressions at the start, whatever
  their state was before, unless it uses a property of \<open>Object.prototype\<close> as an operator; and the
  parser never ends with \<open>Unexpected state\<close>, however deep the failing call is.\<close>

theorem parse_state:
  "case parse query offset rx of
     (rx', Inr p) \<Rightarrow> if plain_part p then rx' = \<lparr>function_last = 0, sub_last = 0\<rparr> else True
   | (rx', Inl e) \<Rightarrow> e \<noteq> Thrown ''Unexpected state.''"
proof (cases "parse query offset rx")
  case (Pair rx' r)
  have "r \<noteq> Inl (Thrown ''Unexpected state.'')"
    using parse_fuel_expected [of "Suc (length query)" query offset] parse_unfold [of query "Suc (length query)" offset rx] Pair
    by (metis expected_def lessI)
  moreover have "rx' = \<lparr>function_last = 0, sub_last = 0\<rparr>" if "r = Inr p" "plain_part p" for p
    using parse_settles [of query offset rx rx' p] Pair that by (simp add: fresh_def)
  ultimately show ?thesis using Pair by (auto split: sum.split)
qed

section \<open>Chains of names\<close>

text \<open>
  The name of a time series as a query can contain it: a letter or underscore first, no
  parenthesis or operator, not a property of \<open>Object.prototype\<close>.
\<close>

definition metric_name :: "string \<Rightarrow> bool" where
  "metric_name s \<longleftrightarrow> s \<noteq> [] \<and> word_char (hd s) \<and> \<not> is_digit (hd s) \<and> hd s \<noteq> CHR ''I''
     \<and> list_all (\<lambda>c. c \<notin> set ''()+-*/'') s \<and> \<not> List.member inherited_names s"

text \<open>The value the chain should have: the operators applied from left to right.\<close>

fun arith :: "operator \<Rightarrow> num \<Rightarrow> num \<Rightarrow> num" where
  "arith Plus = js_add"
| "arith Minus = js_sub"
| "arith Times = js_mul"
| "arith Divide = js_div"
| "arith (InheritedOp s) = (\<lambda>x y. NaN)"

fun operator_char :: "operator \<Rightarrow> char" where
  "operator_char Plus = CHR ''+''"
| "operator_char Minus = CHR ''-''"
| "operator_char Times = CHR ''*''"
| "operator_char Divide = CHR ''/''"
| "operator_char (InheritedOp s) = CHR ''?''"

definition arithmetic :: "operator \<Rightarrow> bool" where
  "arithmetic p \<longleftrightarrow> p \<in> {Plus, Minus, Times, Divide}"

lemma is_operator_chars: "is_operator c \<longleftrightarrow> c \<in> set ''+-*/''"
  by (auto simp: is_operator_def find_operator_def operators_def inherited_names_def List.member_iff)

lemma find_operator_arith [simp]: "arithmetic p \<Longrightarrow> find_operator [operator_char p] = Some p"
  by (auto simp: arithmetic_def find_operator_def operators_def)

lemma metric_no_operator: "metric_name s \<Longrightarrow> find_operator s = None"
  by (auto simp: find_operator_def metric_name_def operators_def split: if_splits)

definition chain_text :: "string \<Rightarrow> (operator \<times> string) list \<Rightarrow> string" where
  "chain_text s ps = s @ concat (map (\<lambda>(p, t). operator_char p # t) ps)"

lemma tokenize_loop_name:
  "list_all (\<lambda>c. c \<notin> set ''()+-*/'') s \<Longrightarrow>
     tokenize_loop str off is_operator (s @ cs) i 0 start tokens
       = tokenize_loop str off is_operator cs (i + length s) 0 start tokens"
  by (induction s arbitrary: i) (auto simp: is_operator_chars)

fun chain_tokens :: "nat \<Rightarrow> nat \<Rightarrow> string \<Rightarrow> (operator \<times> string) list \<Rightarrow> token list" where
  "chain_tokens off start s [] = [Token (start + off) s]"
| "chain_tokens off start s ((p, t) # ps) =
     Token (start + off) s # Token start [operator_char p] # chain_tokens off (start + length s + 1) t ps"

lemma tokenize_chain_loop:
  assumes "metric_name s" "list_all (\<lambda>(p, t). arithmetic p \<and> metric_name t) ps"
    "drop start str = chain_text s ps"
  shows "res_bind (tokenize_loop str off is_operator (chain_text s ps) start 0 start tokens) (\<lambda>(tokens, start).
       if drop start str = [] then addError str ''Expected expression but found operator'' (start + off)
       else Inr (tokens @ [Token (start + off) (drop start str)])) = Inr (tokens @ chain_tokens off start s ps)"
  using assms
proof (induction ps arbitrary: s start tokens)
  case Nil
  then show ?case
    using tokenize_loop_name [of s str off "[]" start start tokens]
    by (auto simp: chain_text_def metric_name_def)
next
  case (Cons a ps)
  obtain p t where a: "a = (p, t)" by force
  have s: "list_all (\<lambda>c. c \<notin> set ''()+-*/'') s" "s \<noteq> []" using Cons(2) by (auto simp: metric_name_def)
  have p: "operator_char p \<notin> {CHR ''('', CHR '')''} \<and> is_operator (operator_char p)"
    using Cons(3) a by (auto simp: arithmetic_def is_operator_chars)
  have sub: "substring str start (start + length s) = s"
    using Cons(4) by (simp add: substring_def chain_text_def)
  have d: "drop (start + length s + 1) str = chain_text t ps"
  proof -
    have "drop (start + length s + 1) str = drop (length s + 1) (drop start str)" by (simp add: ac_simps)
    then show ?thesis using Cons(4) a by (simp add: chain_text_def)
  qed
  have e: "chain_text s (a # ps) = s @ operator_char p # chain_text t ps"
    by (simp add: chain_text_def a)
  have step: "tokenize_loop str off is_operator (chain_text s (a # ps)) start 0 start tokens
      = tokenize_loop str off is_operator (chain_text t ps) (start + length s + 1) 0 (start + length s + 1)
          (tokens @ [Token (start + off) s, Token start [operator_char p]])"
    using p sub s(2) by (simp add: e tokenize_loop_name [OF s(1)] Let_def)
  show ?case
    unfolding step
    using Cons(1) [of t "start + length s + 1" "tokens @ [Token (start + off) s, Token start [operator_char p]]"] Cons(3) d a
    by (simp del: res_bind_Inr split del: if_split)
qed

lemma tokenize_chain:
  assumes "metric_name s" "list_all (\<lambda>(p, t). arithmetic p \<and> metric_name t) ps"
  shows "tokenize (chain_text s ps) off is_operator = Inr (chain_tokens off 0 s ps)"
  using tokenize_chain_loop [OF assms, of 0 "chain_text s ps" off "[]"] by (simp add: tokenize_def)

abbreviation "at_start \<equiv> \<lparr>function_last = 0, sub_last = 0\<rparr>"

lemma no_paren_no_match:
  assumes "list_all (\<lambda>c. c \<notin> set ''()+-*/'') s"
  shows "match_function s = None" "match_sub s = None" "paren_index s = None"
proof -
  have in_s: "c \<in> set s \<Longrightarrow> c \<noteq> CHR ''('' \<and> c \<noteq> CHR '')''" for c using assms by (auto simp: list_all_iff)
  then show "match_function s = None"
    by (auto simp: match_function_def split: list.split) (metis set_dropWhileD list.set_intros(1))
  show "match_sub s = None" using in_s by (auto simp: match_sub_def split: list.split)
  have tw: "takeWhile (\<lambda>c. c \<noteq> CHR ''('' \<and> c \<noteq> CHR '')'') s = s" using in_s by (simp add: takeWhile_eq_all_conv)
  show "paren_index s = None" unfolding paren_index_def tw by simp
qed

lemma parse_operand_leaf:
  assumes "list_all (\<lambda>c. c \<notin> set ''()+-*/'') s"
  shows "parse_operand P query st s rx = Some (at_start,
     Inr (if is_nan_text s then Var st s else Constant st (parse_float s)))"
  using no_paren_no_match [OF assms]
  by (auto simp: parse_operand_def exec_function_def exec_sub_def exec_anchored_def parse_leaf_def ret_def)

lemma parse_operand_name:
  assumes "metric_name s"
  shows "parse_operand P query st s rx = Some (at_start, Inr (Var st s))"
proof -
  have "is_nan_text s" using assms is_nan_letter [of "hd s" "tl s"] by (auto simp: metric_name_def)
  then show ?thesis using assms by (simp add: parse_operand_leaf metric_name_def)
qed

fun chain_parts :: "nat \<Rightarrow> graph_part \<Rightarrow> nat \<Rightarrow> string \<Rightarrow> (operator \<times> string) list \<Rightarrow> graph_part" where
  "chain_parts off p start s [] = p"
| "chain_parts off p start s ((q, t) # ps) =
     chain_parts off (Operation start q [Some p, Some (Var (start + length s + 1 + off) t)]) (start + length s + 1) t ps"

lemma parse_chain_items:
  assumes "list_all (\<lambda>(p, t). arithmetic p \<and> metric_name t) ps"
  shows "parse_items P query (map classify (tl (chain_tokens off start s ps))) [p] at_start
    = Some (at_start, Inr [chain_parts off p start s ps])"
  using assms
proof (induction ps arbitrary: p start s)
  case (Cons a ps)
  obtain q t where a: "a = (q, t)" by force
  define n where "n = start + length s + 1"
  obtain us where h: "chain_tokens off n t ps = Token (n + off) t # us"
    by (cases ps) auto
  have t: "metric_name t" "arithmetic q" using Cons(2) a by auto
  show ?case
    using Cons(1) [where p = "Operation start q [Some p, Some (Var (n + off) t)]" and start = n and s = t] Cons(2) t
    by (simp add: a h n_def [symmetric] n_def [symmetric, simplified] classify_def metric_no_operator take_operator_def bind_def
        parse_operand_name take_operand_def)
qed (simp add: ret_def)

lemma parse_chain:
  assumes "metric_name s" "list_all (\<lambda>(p, t). arithmetic p \<and> metric_name t) ps"
  shows "parse (chain_text s ps) off rx = (at_start, Inr (chain_parts off (Var off s) 0 s ps))"
proof -
  obtain us where h: "chain_tokens off 0 s ps = Token off s # us"
    by (cases ps) auto
  have "parse_body P (chain_text s ps) off rx = Some (at_start, Inr (chain_parts off (Var off s) 0 s ps))" for P
    using parse_chain_items [OF assms(2), of P "chain_text s ps" off 0 s "Var off s"] assms(1)
    by (simp add: parse_body_def tokenize_chain [OF assms] h classify_def metric_no_operator parse_operand_name
        take_operand_def bind_def ret_def)
  then show ?thesis by (simp add: parse_def)
qed

lemma eval_chain_parts:
  assumes "list_all (\<lambda>(p, t). arithmetic p \<and> metric_name t) ps" "evaluate m vars p = (p, Inr v)" "getVars p = Inr xs"
  shows "evaluate m vars (chain_parts off p start s ps) = (chain_parts off p start s ps,
      Inr (foldl (\<lambda>v (q, t). Num (arith q (toNumber v) (toNumber (read_var m vars t)))) v ps))
    \<and> getVars (chain_parts off p start s ps) = Inr (xs @ map snd ps)"
  using assms
proof (induction ps arbitrary: p v start s xs)
  case (Cons a ps)
  obtain q t where a: "a = (q, t)" by force
  have "apply_operator q v (read_var m vars t) = Inr (Num (arith q (toNumber v) (toNumber (read_var m vars t))))"
    using Cons(2) a by (auto simp: arithmetic_def)
  then show ?case
    using Cons(1) [where p = "Operation start q [Some p, Some (Var (start + length s + 1 + off) t)]"
        and v = "Num (arith q (toNumber v) (toNumber (read_var m vars t)))" and xs = "xs @ [t]"
        and start = "start + length s + 1" and s = t] Cons(2-) a
    by simp
qed simp

text \<open>C10: a query that is a chain of series names joined by arithmetic operators is accepted in
  every state of the parser; the series it asks the server for are the names in order, and its
  value on a row is that of the operators applied from left to right, without precedence
  (\<open>a+b*c\<close> is \<open>(a+b)*c\<close>), missing series counting as not-a-number.\<close>

theorem chain_value:
  assumes "metric_name s" "list_all (\<lambda>(p, t). arithmetic p \<and> metric_name t) ps"
  shows "\<exists>p. parse (chain_text s ps) 0 rx = (at_start, Inr p)
    \<and> getVars p = Inr (s # map snd ps)
    \<and> evaluate m vars p = (p, Inr
        (foldl (\<lambda>v (p, t). Num (arith p (toNumber v) (toNumber (read_var m vars t)))) (read_var m vars s) ps))"
  using parse_chain [OF assms, of 0 rx] eval_chain_parts [OF assms(2), of m vars "Var 0 s" "read_var m vars s" "[s]" 0 0 s]
  by simp

theorem chain_value_witness:
  "\<exists>p. parse ''up+load*two_x'' 0 at_start = (at_start, Inr p)
    \<and> getVars p = Inr [''up'', ''load'', ''two_x'']
    \<and> evaluate [(''up'', 0), (''load'', 1), (''two_x'', 2)] [Num (Fin 1), Num (Fin 2), Num (Fin 3)] p
        = (p, Inr (Num (js_mul (js_add (Fin 1) (Fin 2)) (Fin 3))))"
  using chain_value [of "''up''" "[(Plus, ''load''), (Times, ''two_x'')]" at_start
      "[(''up'', 0), (''load'', 1), (''two_x'', 2)]" "[Num (Fin 1), Num (Fin 2), Num (Fin 3)]"]
  by (simp add: metric_name_def word_char_def is_digit_def uppers_def lowers_def arithmetic_def inherited_names_def
      chain_text_def read_var_def obj_get_def List.member_iff)

section \<open>Calls\<close>

definition ident_text :: "string \<Rightarrow> bool" where
  "ident_text s \<longleftrightarrow> metric_name s \<and> list_all word_char s"

definition call_text :: "string \<Rightarrow> string \<Rightarrow> string" where
  "call_text f arg = f @ ''('' @ arg @ '')''"

lemma word_chars: "list_all word_char s \<Longrightarrow> list_all (\<lambda>c. c \<notin> set ''()+-*/'' \<and> c \<noteq> CHR '','' \<and> is_dot c) s"
  by (induction s) (auto simp: is_dot_def word_char_def is_digit_def uppers_def lowers_def)

lemma tokenize_loop_inside:
  "list_all (\<lambda>c. c \<notin> set ''()'') s \<Longrightarrow> level \<noteq> 0 \<Longrightarrow>
     tokenize_loop str off d (s @ cs) i level start tokens = tokenize_loop str off d cs (i + length s) level start tokens"
  by (induction s arbitrary: i) auto

lemma tokenize_loop_outside:
  "list_all (\<lambda>c. c \<notin> set ''()'' \<and> \<not> d c) s \<Longrightarrow>
     tokenize_loop str off d (s @ cs) i level start tokens = tokenize_loop str off d cs (i + length s) level start tokens"
  by (induction s arbitrary: i) auto

lemma words_plain: "list_all word_char s \<Longrightarrow> list_all (\<lambda>c. c \<notin> set ''()'') s"
    "list_all word_char s \<Longrightarrow> list_all (\<lambda>c. c \<notin> set ''()'' \<and> \<not> is_operator c) s"
    "list_all word_char s \<Longrightarrow> list_all (\<lambda>c. c \<notin> set ''()'' \<and> \<not> c = CHR '','') s"
    "list_all word_char s \<Longrightarrow> list_all is_dot s"
    "list_all word_char s \<Longrightarrow> list_all (\<lambda>c. c \<notin> set ''()+-*/'') s"
  by (drule word_chars, force simp: list_all_iff is_operator_chars)+

text \<open>A call of names, and a call of a call, are one token.\<close>

lemma tokenize_call:
  assumes "list_all word_char f" "list_all word_char x"
  shows "tokenize (call_text f x) off is_operator = Inr [Token off (call_text f x)]"
  using words_plain [OF assms(1)] words_plain [OF assms(2)]
  by (simp add: tokenize_def call_text_def tokenize_loop_outside tokenize_loop_inside)

lemma tokenize_call_call:
  assumes "list_all word_char f" "list_all word_char g" "list_all word_char x"
  shows "tokenize (call_text f (call_text g x)) off is_operator = Inr [Token off (call_text f (call_text g x))]"
  using words_plain [OF assms(1)] words_plain [OF assms(2)] words_plain [OF assms(3)]
  by (simp add: tokenize_def call_text_def tokenize_loop_outside tokenize_loop_inside)

lemma match_close_call: "list_all is_dot s \<Longrightarrow> match_close (s @ '')'') = Some s"
  by (simp add: match_close_def)

lemma paren_not_word [simp]: "\<not> word_char (CHR ''('')" "\<not> word_char (CHR '')'')"
  by (simp_all add: sign_not_word)

lemma match_call:
  assumes "f \<noteq> []" "list_all word_char f" "list_all is_dot arg"
  shows "match_function (call_text f arg) = Some (f, arg)"
proof -
  have "dropWhile word_char (f @ CHR ''('' # arg @ '')'') = CHR ''('' # arg @ '')''"
      "takeWhile word_char (f @ CHR ''('' # arg @ '')'') = f"
    using assms(2) by (simp_all add: dropWhile_append takeWhile_append list_all_iff)
  then show ?thesis
    using assms(1) match_close_call [OF assms(3)] by (simp add: match_function_def call_text_def)
qed

lemma call_no_operator: "find_operator (call_text f x) = None"
proof -
  have "CHR ''('' \<in> set (call_text f x)" "length (call_text f x) > 1" by (auto simp: call_text_def)
  then show ?thesis
    by (auto simp: find_operator_def operators_def inherited_names_def List.member_iff split: option.split)
qed

lemma call_paren_index:
  assumes "list_all word_char g"
  shows "paren_index (call_text g x) = Some (length g)"
proof -
  have "takeWhile (\<lambda>c. c \<noteq> CHR ''('' \<and> c \<noteq> CHR '')'') (call_text g x) = g"
    using words_plain(1) [OF assms] by (auto simp: call_text_def takeWhile_append list_all_iff)
  then show ?thesis unfolding paren_index_def by (simp add: call_text_def Let_def)
qed

lemma word_match_sub: "list_all word_char g \<Longrightarrow> g \<noteq> [] \<Longrightarrow> match_sub (call_text g x) = None"
  by (cases g) (auto simp: call_text_def match_sub_def)

text \<open>A call right after a match of the same expression is not recognised.\<close>

lemma stale_operand:
  assumes "g \<noteq> []" "list_all word_char g" "function_last rx \<noteq> 0"
  shows "parse_operand P query st (call_text g x) rx
    = Some (at_start, addError query ''Unmatched paren'' (st + length g))"
  using assms word_match_sub call_paren_index
  by (simp add: parse_operand_def exec_function_def exec_sub_def exec_anchored_def parse_leaf_def ret_def addError_def)

lemma parse_one_token:
  assumes "tokenize q off is_operator = Inr [Token off q]" "find_operator q = None"
  shows "parse_body P q off rx = (case parse_operand P q off q rx of
      None \<Rightarrow> None | Some (rx', r) \<Rightarrow> Some (rx', r))"
  using assms by (auto simp: parse_body_def classify_def bind_def ret_def take_operand_def split: option.split sum.split)

lemma parse_by_body: "parse q off rx = the (parse_body (parse_fuel (length q)) q off rx)"
  by (simp add: parse_def)

lemma parse_ident: "ident_text x \<Longrightarrow> length x < n \<Longrightarrow> parse_fuel n x off rx = Some (at_start, Inr (Var off x))"
  using parse_chain [of x "[]" off rx] parse_unfold [of x n off rx]
  by (simp add: ident_text_def chain_text_def)

lemma ident_tokens: "ident_text x \<Longrightarrow> tokenize x off (\<lambda>c. c = CHR '','') = Inr [Token off x]"
  using tokenize_loop_outside [of "\<lambda>c. c = CHR '',''" x x off "[]" 0 0 0 "[]"] words_plain(3) [of x]
  by (auto simp: tokenize_def ident_text_def metric_name_def)

lemma ident_not_comma: "ident_text x \<Longrightarrow> x \<noteq> '',''"
  by (auto simp: ident_text_def word_char_def is_digit_def uppers_def lowers_def)

lemma parse_simple_call:
  assumes "list_all word_char f" "f \<noteq> []" "known_function f" "ident_text x" "function_last rx = 0"
  shows "parse (call_text f x) off rx
    = (at_start, res_bind (new_evaluator f [Var (off + 1) x]) (\<lambda>e. Inr (Function off e [Var (off + 1) x])))"
proof -
  have x: "list_all word_char x" using assms(4) by (simp add: ident_text_def)
  have l: "length x < length (call_text f x)" by (simp add: call_text_def)
  show ?thesis
    using assms ident_not_comma [OF assms(4)]
    by (simp add: parse_by_body parse_one_token [OF tokenize_call call_no_operator] x parse_operand_def exec_function_def
        exec_anchored_def match_call words_plain(4) parse_call_def parse_ident [OF assms(4) l] ident_tokens bind_def ret_def
        split: sum.split)
qed

text \<open>A function applied to a function call is always rejected, although both are supported: the
  expression that matches calls has not been reset when the argument is parsed, so the inner call is
  reported as an unmatched parenthesis.\<close>

theorem nested_calls_rejected:
  assumes "f \<in> set function_names" "g \<in> set function_names" "ident_text x"
  shows "snd (parse (call_text f (call_text g x)) 0 at_start)
      = addError (call_text g x) ''Unmatched paren'' (1 + length g)
    \<and> parse (call_text g x) 0 at_start = (at_start,
        res_bind (new_evaluator g [Var 1 x]) (\<lambda>e. Inr (Function 0 e [Var 1 x])))"
proof -
  have w: "list_all word_char h" "h \<noteq> []" "known_function h" if "h \<in> set function_names" for h
    using that by (auto simp: function_names_def known_function_def List.member_iff word_char_def is_digit_def uppers_def lowers_def)
  have x: "list_all word_char x" using assms(3) by (simp add: ident_text_def)
  have d: "list_all is_dot (call_text g x)"
    using words_plain(4) [OF w(1) [OF assms(2)]] words_plain(4) [OF x] by (simp add: call_text_def is_dot_def)
  define n where "n = length (call_text f (call_text g x))"
  obtain m where n: "n = Suc m" "m > 0" by (auto simp: n_def call_text_def)
  let ?rx = "\<lparr>function_last = n, sub_last = 0\<rparr>"
  have inner: "parse_fuel (Suc m) (call_text g x) 1 ?rx = Some (at_start, addError (call_text g x) ''Unmatched paren'' (1 + length g))"
    using w [OF assms(2)] n
    by (simp add: parse_one_token [OF tokenize_call call_no_operator] x stale_operand)
  have "parse (call_text f (call_text g x)) 0 at_start
      = (at_start, addError (call_text g x) ''Unmatched paren'' (1 + length g))"
    using w [OF assms(1)] w [OF assms(2)] inner
    by (simp add: parse_by_body parse_one_token [OF tokenize_call_call call_no_operator] x parse_operand_def exec_function_def
        exec_anchored_def match_call d parse_call_def bind_def addError_def n_def [symmetric] n(1) ret_def
        del: parse_fuel.simps)
  with parse_simple_call [OF w [OF assms(2)] assms(3), of at_start 0] show ?thesis by simp
qed

theorem nested_calls_rejected_witness:
  "snd (parse ''rate(abs(up))'' 0 at_start) = addError ''abs(up)'' ''Unmatched paren'' 4"
  using nested_calls_rejected [of "''rate''" "''abs''" "''up''"]
  by (simp add: function_names_def ident_text_def metric_name_def word_char_def is_digit_def uppers_def lowers_def
      inherited_names_def List.member_iff call_text_def eval_nat_numeral)

text \<open>a query that names an unknown function is reported as such, and spoils the next query: a
  supported call parsed right after it is rejected with an unmatched parenthesis, while from a fresh
  parser, or tried once more, the same call is accepted.\<close>

theorem unknown_function_spoils_next:
  assumes "list_all word_char u" "u \<noteq> []" "\<not> known_function u" "list_all word_char x"
    and "f \<in> set function_names" "ident_text y"
  shows "(let (rx1, r1) = parse (call_text u x) 0 at_start; (rx2, r2) = parse (call_text f y) 0 rx1;
        (rx3, r3) = parse (call_text f y) 0 rx2 in
      r1 = addError (call_text u x) (''Unrecognized function '' @ u) 0
      \<and> r2 = addError (call_text f y) ''Unmatched paren'' (length f)
      \<and> r3 = res_bind (new_evaluator f [Var 1 y]) (\<lambda>e. Inr (Function 0 e [Var 1 y])))"
proof -
  have f: "list_all word_char f" "f \<noteq> []" "known_function f"
    using assms(5) by (auto simp: function_names_def known_function_def List.member_iff word_char_def is_digit_def uppers_def lowers_def)
  have y: "list_all word_char y" using assms(6) by (simp add: ident_text_def)
  let ?rx = "\<lparr>function_last = length (call_text u x), sub_last = 0\<rparr>"
  have 1: "parse (call_text u x) 0 at_start = (?rx, addError (call_text u x) (''Unrecognized function '' @ u) 0)"
    using assms
    by (simp add: parse_by_body parse_one_token [OF tokenize_call call_no_operator] parse_operand_def exec_function_def
        exec_anchored_def match_call words_plain(4) parse_call_def ret_def)
  have 2: "parse (call_text f y) 0 ?rx = (at_start, addError (call_text f y) ''Unmatched paren'' (length f))"
    using f by (simp add: parse_by_body parse_one_token [OF tokenize_call call_no_operator] y stale_operand call_text_def [of u])
  show ?thesis
    using parse_simple_call [OF f(1-3) assms(6), of at_start 0] by (simp add: 1 2)
qed

theorem unknown_function_spoils_next_witness:
  "(let (rx1, r1) = parse ''max(up)'' 0 at_start; (rx2, r2) = parse ''rate(up)'' 0 rx1;
        (rx3, r3) = parse ''rate(up)'' 0 rx2 in
      r1 = addError ''max(up)'' ''Unrecognized function max'' 0
      \<and> r2 = addError ''rate(up)'' ''Unmatched paren'' 4
      \<and> r3 = Inr (Function 0 (Rate (Fin 1) [] 0) [Var 1 ''up'']))"
  using unknown_function_spoils_next [of "''max''" "''up''" "''rate''" "''up''"]
  by (simp add: function_names_def known_function_def ident_text_def metric_name_def word_char_def is_digit_def
      uppers_def lowers_def inherited_names_def List.member_iff call_text_def new_evaluator_def new_rate_def
      eval_nat_numeral)

section \<open>Rates\<close>

text \<open>
  Evaluating one part on rows of the table, in order, as the page does with every response: the
  part that comes out of a row is the one evaluated on the next.
\<close>

fun eval_rows :: "nat obj \<Rightarrow> graph_part \<Rightarrow> jsvalue list list \<Rightarrow> jsvalue result list" where
  "eval_rows m p [] = []"
| "eval_rows m p (row # rows) = (case evaluate m row p of (p', r) \<Rightarrow> r # eval_rows m p' rows)"

text \<open>Change per second between two samples, zero when no time has passed.\<close>

definition rate_between :: "jsvalue \<times> jsvalue \<Rightarrow> jsvalue \<times> jsvalue \<Rightarrow> jsvalue" where
  "rate_between new old =
     (let d = js_sub (toNumber (snd new)) (toNumber (snd old)) in
      if js_eq d (Fin 0) then Num (Fin 0)
      else Num (js_div (js_mul (Fin 1000) (js_sub (toNumber (fst new)) (toNumber (fst old)))) d))"

lemma js_eq_Fin [simp]: "js_eq (Fin a) (Fin b) \<longleftrightarrow> a = b"
  by (auto simp: js_eq_def is_zero_def)

lemma rate_step_window:
  assumes "1 \<le> k"
  shows "rate_step (Fin (of_nat k)) y t (drop (length S - k) S)
    = (drop (length S + 1 - k) (S @ [(y, t)]), rate_between (y, t) ((S @ [(y, t)]) ! (length S - k)))"
proof -
  let ?s = "drop (length S - k) S @ [(y, t)]"
  have s: "?s = drop (length S - k) (S @ [(y, t)])" by simp
  have hd: "hd ?s = (S @ [(y, t)]) ! (length S - k)"
    unfolding s by (rule hd_drop_conv_nth) simp
  have len: "length ?s = min (length S) k + 1" by auto
  have ex: "rate_excess (Suc k) (Fin (of_nat k)) = 1"
    using assms fl_int [of 1] by (simp add: rate_excess_def js_sub_def)
  show ?thesis
  proof (cases "k \<le> length S")
    case True
    then have "length ?s = Suc k" by simp
    moreover have "drop 1 ?s = drop (length S + 1 - k) (S @ [(y, t)])"
      unfolding s drop_drop using True by (intro arg_cong2 [where f = drop]) auto
    ultimately show ?thesis
      using hd ex
      by (simp add: rate_step_def rate_between_def Let_def case_prod_beta del: drop_append)
  next
    case False
    then have "length ?s \<le> k" "drop (length S + 1 - k) (S @ [(y, t)]) = ?s" by auto
    then show ?thesis
      using hd by (auto simp: rate_step_def rate_between_def Let_def case_prod_beta simp del: drop_append)
  qed
qed

lemma eval_nth_var:
  "j < length args \<Longrightarrow> args ! j = Var b x \<Longrightarrow> eval_nth m vars j args = (args, Inr (read_var m vars x))"
proof (induction args arbitrary: j)
  case (Cons a args)
  then show ?case by (cases j) auto
qed simp

lemma evaluate_rate:
  assumes "j < length args" "args ! j = Var b x"
  shows "evaluate m row (Function st (Rate w S j) args) =
    (Function st (Rate w (fst (rate_step w (read_var m row x) (read_var m row ''time'') S)) j) args,
      Inr (snd (rate_step w (read_var m row x) (read_var m row ''time'') S)))"
  by (simp add: evaluates_arg_def eval_nth_var [OF assms] case_prod_beta)

text \<open>C32: the value of \<open>rate(k, x)\<close> on the \<open>i\<close>-th row it is evaluated on is the change of \<open>x\<close> per
  second since the row \<open>k\<close> rows before, or since the first row when fewer than \<open>k\<close> came before:
  the samples a rate keeps between rows are exactly the last \<open>k\<close>.\<close>

theorem rate_window:
  assumes "1 \<le> k" "j < length args" "args ! j = Var b x"
  shows "eval_rows m (Function st (Rate (Fin (of_nat k)) [] j) args) rows
    = map (\<lambda>i. Inr (rate_between (read_var m (rows ! i) x, read_var m (rows ! i) ''time'')
          (read_var m (rows ! (i - k)) x, read_var m (rows ! (i - k)) ''time''))) [0..<length rows]"
proof -
  define smp where "smp row = (read_var m row x, read_var m row ''time'')" for row
  have "eval_rows m (Function st (Rate (Fin (of_nat k)) (drop (length h - k) (map smp h)) j) args) rs
      = map (\<lambda>i. Inr (rate_between (smp ((h @ rs) ! i)) (smp ((h @ rs) ! (i - k))))) [length h..<length h + length rs]" for h rs
  proof (induction rs arbitrary: h)
    case (Cons r rs)
    have n: "(map smp h @ [smp r]) ! (length h - k) = smp ((h @ r # rs) ! (length h - k))"
      using assms(1) by (cases "k \<le> length h") (auto simp: nth_append)
    have "[length h..<length h + length (r # rs)] = length h # [length (h @ [r])..<length (h @ [r]) + length rs]"
      by (simp add: upt_rec)
    then show ?case
      using Cons [of "h @ [r]"] n
        rate_step_window [OF assms(1), of "read_var m r x" "read_var m r ''time''" "map smp h", folded smp_def [of r]]
      by (simp only: eval_rows.simps evaluate_rate [OF assms(2,3)] case_prod_conv list.map nth_append_length)
        (simp del: drop_append upt.simps)
  qed simp
  from this [of "[]" rows] show ?thesis by (simp add: smp_def)
qed

theorem rate_window_witness:
  "eval_rows [(''up'', 0), (''time'', 1)] (Function 0 (Rate (Fin 2) [] 1) [Constant 1 (Fin 2), Var 2 ''up''])
      [[Num (Fin 5), Num (Fin 1000)], [Num (Fin 7), Num (Fin 2000)], [Num (Fin 13), Num (Fin 3000)]]
    = [Inr (rate_between (Num (Fin 5), Num (Fin 1000)) (Num (Fin 5), Num (Fin 1000))),
       Inr (rate_between (Num (Fin 7), Num (Fin 2000)) (Num (Fin 5), Num (Fin 1000))),
       Inr (rate_between (Num (Fin 13), Num (Fin 3000)) (Num (Fin 5), Num (Fin 1000)))]"
  using rate_window [of 2 1 "[Constant 1 (Fin 2), Var 2 ''up'']" 2 "''up''" "[(''up'', 0), (''time'', 1)]" 0
      "[[Num (Fin 5), Num (Fin 1000)], [Num (Fin 7), Num (Fin 2000)], [Num (Fin 13), Num (Fin 3000)]]"]
  by (simp add: read_var_def obj_get_def upt_rec eval_nat_numeral)

end
