(* ===== verification/Grapher.thy ===== *)
theory Grapher
  imports Routes GraphParser JSON "HOL-Library.List_Lexorder" "HOL-Library.Char_ord"
begin

text \<open>
  The page that plots expressions over the scheduler's time series (\<open>graphview/grapher.js\<close>): the
  globals of the script as one record, the requests it sends, what the answers do to the table and
  the plotted rows, the query box, its completion, and the link that carries a query.  A handler
  returns the state it leaves and the exception it lets escape, if any.  The graph object and the
  server are outside the model: of a graph only its y range is kept, and \<open>rng\<close> stands for the
  range the library picks for a new graph.
\<close>

section \<open>State\<close>

datatype response_handler = HandleData | HandleMetrics

record grapher =
  awaitingResponse :: bool
  sent :: "(string \<times> response_handler) list" \<comment> \<open>requests without an answer yet\<close>
  allMetrics :: "string list"
  metrics :: "nat obj"
  rawData :: "jsvalue list list option"
  evaluatedData :: "jsvalue list list"
  expressions :: "graph_part obj"
  lastTimestamp :: jsvalue
  realTime :: bool
  graph_range :: "(num \<times> num) option" \<comment> \<open>\<open>None\<close>: no graph yet\<close>
  graph_labels :: "string list"
  rollPeriod :: "num option"
  errors :: "string list" \<comment> \<open>what \<open>#errors\<close> contains\<close>
  links :: "string list" \<comment> \<open>the targets in \<open>#links\<close>\<close>
  regex_state :: regexes

text \<open>The globals as the script declares them.  A page runs from what the ready handler makes of them (\<open>ready\<close>).\<close>

definition grapher_start :: grapher where
  "grapher_start = \<lparr>awaitingResponse = False, sent = [], allMetrics = [], metrics = [], rawData = None,
     evaluatedData = [], expressions = [], lastTimestamp = Num (Fin (-1)), realTime = True,
     graph_range = None, graph_labels = [], rollPeriod = None, errors = [], links = [], regex_state = at_start\<rparr>"

definition maxPoints :: nat where "maxPoints = 3600"

type_synonym graph_library = "jsvalue list list \<Rightarrow> num \<times> num"

type_synonym graph_outcome = "grapher \<times> js_error option"

section \<open>Requests\<close>

definition sendQuery :: "string \<Rightarrow> response_handler \<Rightarrow> grapher \<Rightarrow> grapher" where
  "sendQuery query h s =
     (if awaitingResponse s then s else if \<not> realTime s then s
      else s\<lparr>awaitingResponse := True, sent := sent s @ [(''/graphdata/'' @ query, h)]\<rparr>)"

definition timestamp_text :: "jsvalue \<Rightarrow> string" where
  "timestamp_text v = (case v of Undefined \<Rightarrow> ''undefined'' | Null \<Rightarrow> ''null'' | Num x \<Rightarrow> num_to_string x)"

text \<open>The names of the series the expressions use, each once, in the order of first use.\<close>

definition wanted :: "graph_part obj \<Rightarrow> string list result" where
  "wanted es = res_bind (res_map (\<lambda>name. getVars (the (obj_get es name))) (obj_keys es))
     (\<lambda>vss. Inr (obj_keys (foldl (\<lambda>m metric. obj_set metric True m) [] (concat vss))))"

definition fetchData :: "grapher \<Rightarrow> graph_outcome" where
  "fetchData s = (case wanted (expressions s) of
       Inl e \<Rightarrow> (s, Some e)
     | Inr names \<Rightarrow>
         (if errors s = [] \<and> names \<noteq> []
          then sendQuery (''?metrics='' @ join '','' names @ ''&since='' @ timestamp_text (lastTimestamp s)) HandleData s
          else s, None))"

definition refreshGraph :: "grapher \<Rightarrow> graph_outcome" where
  "refreshGraph s = fetchData (s\<lparr>rawData := None, evaluatedData := [], metrics := [], lastTimestamp := Num (Fin (-1))\<rparr>)"

text \<open>\<open>redraw\<close> before the first graph exists throws, as \<open>dygraph\<close> is undefined then.\<close>

definition graph_names :: "grapher \<Rightarrow> string list" where
  "graph_names s = [''t''] @ obj_keys (expressions s)"

definition redraw :: "grapher \<Rightarrow> graph_outcome" where
  "redraw s = (s\<lparr>graph_labels := graph_names s\<rparr>,
     if graph_range s = None then Some TypeError else None)"

section \<open>Answers\<close>

text \<open>
  \<open>$.map\<close> over the expressions: each is evaluated on the point, and \<open>undefined\<close> and \<open>null\<close> are
  left out of the row.
\<close>

definition nullish :: "jsvalue \<Rightarrow> bool" where
  "nullish v \<longleftrightarrow> v = Undefined \<or> v = Null"

fun eval_names :: "nat obj \<Rightarrow> jsvalue list \<Rightarrow> string list \<Rightarrow> graph_part obj \<Rightarrow>
    graph_part obj \<times> jsvalue list result" where
  "eval_names m point [] es = (es, Inr [])"
| "eval_names m point (name # names) es =
     (case evaluate m point (the (obj_get es name)) of
        (p, Inl e) \<Rightarrow> (obj_set name p es, Inl e)
      | (p, Inr v) \<Rightarrow> (case eval_names m point names (obj_set name p es) of
            (es', r) \<Rightarrow> (es', res_bind r (\<lambda>vs. Inr (if nullish v then vs else v # vs)))))"

definition push_point :: "jsvalue list \<Rightarrow> grapher \<Rightarrow> graph_outcome" where
  "push_point point s =
     (case eval_names (metrics s) point (obj_keys (expressions s)) (expressions s) of
        (es, Inl e) \<Rightarrow> (s\<lparr>expressions := es\<rparr>, Some e)
      | (es, Inr vs) \<Rightarrow> (s\<lparr>expressions := es,
          evaluatedData := evaluatedData s @ [read_var (metrics s) point ''time'' # vs]\<rparr>, None))"

fun push_points :: "jsvalue list list \<Rightarrow> grapher \<Rightarrow> graph_outcome" where
  "push_points [] s = (s, None)"
| "push_points (point # points) s = (case push_point point s of
       (s', Some e) \<Rightarrow> (s', Some e)
     | (s', None) \<Rightarrow> push_points points s')"

definition keep_newest :: "'a list \<Rightarrow> 'a list" where
  "keep_newest xs = (if maxPoints < length xs then drop (length xs - maxPoints) xs else xs)"

text \<open>The first part of \<open>handleDataResponse\<close>: store or append the table.\<close>

definition store_table :: "string list \<Rightarrow> jsvalue list list \<Rightarrow> grapher \<Rightarrow> grapher" where
  "store_table names newData s = (case rawData s of
       None \<Rightarrow> s\<lparr>rawData := Some newData,
         metrics := foldl (\<lambda>m (i, name). obj_set name i m) (metrics s) (enumerate 0 names)\<rparr>
     | Some old \<Rightarrow> s\<lparr>rawData := Some (old @ newData)\<rparr>)"

definition finish_response :: "graph_library \<Rightarrow> bool \<Rightarrow> grapher \<Rightarrow> graph_outcome" where
  "finish_response rng appending s0 =
     (let rows = the (rawData s0);
          s = s0\<lparr>lastTimestamp := read_var (metrics s0) (last rows) ''time'',
                 rawData := Some (keep_newest rows),
                 evaluatedData := keep_newest (evaluatedData s0)\<rparr> in
      if appending then redraw s
      else (s\<lparr>graph_labels := graph_names s, graph_range := Some (rng (evaluatedData s))\<rparr>, None))"

definition handleDataResponse :: "graph_library \<Rightarrow> string list \<Rightarrow> jsvalue list list \<Rightarrow>
    grapher \<Rightarrow> graph_outcome" where
  "handleDataResponse rng names newData s =
     (if newData = [] then (s, None)
      else (case push_points newData (store_table names newData s) of
          (s', Some e) \<Rightarrow> (s', Some e)
        | (s', None) \<Rightarrow> finish_response rng (rawData s \<noteq> None) s'))"

text \<open>The default sort compares the names as strings.\<close>

definition handleMetrics :: "string list \<Rightarrow> grapher \<Rightarrow> grapher" where
  "handleMetrics names s = s\<lparr>allMetrics := sort names\<rparr>"

text \<open>
  The wrapped success handler and the error handler; \<open>parsed\<close> is what \<open>$.parseJSON\<close> makes of the
  error text: \<open>None\<close> when it throws or returns no object, else the field \<open>error\<close> if there is one.
\<close>

definition answered :: "nat \<Rightarrow> grapher \<Rightarrow> grapher" where
  "answered i s = s\<lparr>sent := take i (sent s) @ drop (Suc i) (sent s)\<rparr>"

definition on_success :: "graph_library \<Rightarrow> nat \<Rightarrow> string list \<Rightarrow> jsvalue list list \<Rightarrow>
    grapher \<Rightarrow> graph_outcome" where
  "on_success rng i names newData s =
     (let s' = (answered i s)\<lparr>awaitingResponse := False\<rparr> in
      case snd (sent s ! i) of
        HandleData \<Rightarrow> handleDataResponse rng names newData s'
      | HandleMetrics \<Rightarrow> (handleMetrics names s', None))"

definition on_error :: "nat \<Rightarrow> string option option \<Rightarrow> grapher \<Rightarrow> graph_outcome" where
  "on_error i parsed s = (case parsed of
       None \<Rightarrow> (answered i s, Some TypeError)
     | Some err \<Rightarrow> ((answered i s)\<lparr>awaitingResponse := False,
         errors := errors s @ [''Query failed: '' @ (case err of None \<Rightarrow> ''undefined'' | Some t \<Rightarrow> t)]\<rparr>, None))"

section \<open>The query box\<close>

text \<open>
  \<open>addErrorText\<close> appends the thrown value; a string becomes text, while an error object has neither
  markup nor elements, so appending it adds nothing.
\<close>

definition addErrorText :: "js_error \<Rightarrow> grapher \<Rightarrow> grapher" where
  "addErrorText e s = (case e of Thrown t \<Rightarrow> s\<lparr>errors := errors s @ [t]\<rparr> | TypeError \<Rightarrow> s)"

text \<open>One line of the box.  Assigning to \<open>__proto__\<close> creates no property.\<close>

definition parse_line :: "string \<Rightarrow> grapher \<Rightarrow> grapher" where
  "parse_line query s =
     (if query = [] then s
      else (case parse query 0 (regex_state s) of
          (rx, Inr p) \<Rightarrow> s\<lparr>regex_state := rx,
            expressions := (if query = ''__proto__'' then expressions s else obj_set query p (expressions s))\<rparr>
        | (rx, Inl e) \<Rightarrow> addErrorText e (s\<lparr>regex_state := rx\<rparr>)))"

definition query_lines :: "string \<Rightarrow> string list" where
  "query_lines contents = split_on (CHR 0x0A) (filter (\<lambda>c. c \<noteq> CHR '' '' \<and> c \<noteq> CHR 0x09) contents)"

text \<open>\<open>encodeURIComponent\<close>, on code points up to 255 (one or two bytes of UTF-8).\<close>

definition uri_safe :: "char \<Rightarrow> bool" where
  "uri_safe c \<longleftrightarrow> word_char c \<or> c \<in> {CHR ''-'', CHR ''.'', CHR ''!'', CHR ''~'', CHR ''*'', CHR 0x27, CHR ''('', CHR '')''}"

definition upper_hex :: "nat \<Rightarrow> char" where
  "upper_hex n = upper_char (hex_digit n)"

definition percent_byte :: "nat \<Rightarrow> string" where
  "percent_byte b = [CHR ''%'', upper_hex (b div 16), upper_hex (b mod 16)]"

definition encode_char :: "char \<Rightarrow> string" where
  "encode_char c =
     (if uri_safe c then [c]
      else if char_code c < 128 then percent_byte (char_code c)
      else percent_byte (192 + char_code c div 64) @ percent_byte (128 + char_code c mod 64))"

definition encodeURIComponent :: "string \<Rightarrow> string" where
  "encodeURIComponent s = concat (map encode_char s)"

definition applyQuery :: "string \<Rightarrow> grapher \<Rightarrow> graph_outcome" where
  "applyQuery contents s =
     (let s1 = s\<lparr>errors := [], links := [], expressions := []\<rparr>;
          s2 = fold parse_line (query_lines contents) s1 in
      case refreshGraph s2 of
        (s3, Some e) \<Rightarrow> (s3, Some e)
      | (s3, None) \<Rightarrow> (s3\<lparr>links := [''?query='' @ encodeURIComponent contents, ''#'']\<rparr>, None))"

text \<open>\<open>RegExp(name + '=' + '(.+?)(&|$)').exec\<close>: the first place where it matches.\<close>

fun url_param_match :: "string \<Rightarrow> string \<Rightarrow> string option" where
  "url_param_match name [] = None"
| "url_param_match name (c # s) =
     (let n = length name + 1; r = drop n (c # s) in
      if take n (c # s) = name @ ''='' \<and> r \<noteq> [] then Some (hd r # takeWhile (\<lambda>x. x \<noteq> CHR ''&'') (tl r))
      else url_param_match name s)"

definition getUrlParam :: "string \<Rightarrow> string \<Rightarrow> string option result" where
  "getUrlParam name search = (case url_param_match name search of
       None \<Rightarrow> Inr None
     | Some m \<Rightarrow> res_bind (decodeURIComponent m) (\<lambda>v. Inr (Some v)))"

text \<open>What the ready handler does before the first interval.\<close>

definition ready :: "string \<Rightarrow> grapher \<Rightarrow> graph_outcome" where
  "ready search s =
     (let s1 = sendQuery [] HandleMetrics s in
      case getUrlParam ''query'' search of
        Inl e \<Rightarrow> (s1, Some e)
      | Inr None \<Rightarrow> (s1, None)
      | Inr (Some q) \<Rightarrow> applyQuery q s1)"

section \<open>The other fields\<close>

definition tryApply :: "(string \<Rightarrow> num) \<Rightarrow> (num \<Rightarrow> grapher \<Rightarrow> graph_outcome) \<Rightarrow> string \<Rightarrow> grapher \<Rightarrow> graph_outcome" where
  "tryApply numberParser applyFunction contents s =
     (let number = numberParser contents in if number \<noteq> NaN then applyFunction number s else (s, None))"

definition applyOnEnter :: "nat \<Rightarrow> (string \<Rightarrow> num) \<Rightarrow> (num \<Rightarrow> grapher \<Rightarrow> graph_outcome) \<Rightarrow> string \<Rightarrow> grapher \<Rightarrow> graph_outcome" where
  "applyOnEnter keyCode numberParser applyFunction contents s =
     (if keyCode = 13 then tryApply numberParser applyFunction contents s else (s, None))"

text \<open>Enter with the alternate key submits the query box.\<close>

definition query_keypress :: "nat \<Rightarrow> bool \<Rightarrow> string \<Rightarrow> grapher \<Rightarrow> graph_outcome" where
  "query_keypress which altKey query s = (if which = 13 \<and> altKey then applyQuery query s else (s, None))"

definition set_yMin :: "num \<Rightarrow> grapher \<Rightarrow> graph_outcome" where
  "set_yMin ymin s = (case graph_range s of
       None \<Rightarrow> (s, Some TypeError)
     | Some (lo, hi) \<Rightarrow> (s\<lparr>graph_range := Some (ymin, hi)\<rparr>, None))"

definition set_yMax :: "num \<Rightarrow> grapher \<Rightarrow> graph_outcome" where
  "set_yMax ymax s = (case graph_range s of
       None \<Rightarrow> (s, Some TypeError)
     | Some (lo, hi) \<Rightarrow> (s\<lparr>graph_range := Some (lo, ymax)\<rparr>, None))"

definition set_smoothing :: "num \<Rightarrow> grapher \<Rightarrow> graph_outcome" where
  "set_smoothing v s = redraw (s\<lparr>rollPeriod := Some v\<rparr>)"

definition click_realTime :: "grapher \<Rightarrow> graph_outcome" where
  "click_realTime s = redraw (s\<lparr>realTime := \<not> realTime s\<rparr>)"

section \<open>Completion in the query box\<close>

text \<open>The text of the box and the position of the cursor.\<close>

definition insert_metric :: "string \<Rightarrow> string \<times> nat \<Rightarrow> string \<times> nat" where
  "insert_metric metric = (\<lambda>(contents, pos).
     if pos = length contents then (contents @ metric @ [CHR 0x0A], pos + length metric + 1)
     else (take pos contents @ metric @ drop pos contents, length (take pos contents) + length metric))"

definition isIdChar :: "char \<Rightarrow> bool" where
  "isIdChar c \<longleftrightarrow> word_char c \<or> c = CHR ''-''"

definition id_at :: "string \<Rightarrow> nat \<Rightarrow> bool" where
  "id_at s i \<longleftrightarrow> i < length s \<and> isIdChar (s ! i)"

fun walk_back :: "string \<Rightarrow> nat \<Rightarrow> nat" where
  "walk_back s 0 = 0"
| "walk_back s (Suc n) = (if id_at s n then walk_back s n else Suc n)"

definition termBounds :: "string \<Rightarrow> nat \<Rightarrow> (nat \<times> nat) option" where
  "termBounds fullQuery pos =
     (if 0 < pos \<and> id_at fullQuery (pos - 1) then
        (if pos < length fullQuery \<and> id_at fullQuery pos then None
         else Some (walk_back fullQuery pos, pos))
      else None)"

text \<open>\<open>$.ui.autocomplete.filter\<close>: the items whose label contains the text, ignoring case.\<close>

fun has_infix :: "string \<Rightarrow> string \<Rightarrow> bool" where
  "has_infix p [] \<longleftrightarrow> p = []"
| "has_infix p (c # s) \<longleftrightarrow> take (length p) (c # s) = p \<or> has_infix p s"

definition autocomplete_filter :: "(string \<times> string) list \<Rightarrow> string \<Rightarrow> (string \<times> string) list" where
  "autocomplete_filter items term = filter (\<lambda>(label, v). has_infix (to_lower term) (to_lower label)) items"

definition complete_source :: "string list \<Rightarrow> string \<Rightarrow> nat \<Rightarrow> (string \<times> string) list" where
  "complete_source names fullQuery pos = (case termBounds fullQuery pos of
       Some (wordStart, p) \<Rightarrow>
         autocomplete_filter (map (\<lambda>m. (m, m)) names @ map (\<lambda>f. (function_help f, f)) function_names)
           (substring fullQuery wordStart p)
     | None \<Rightarrow> [])"

definition complete_select :: "string \<Rightarrow> string \<times> nat \<Rightarrow> string \<times> nat" where
  "complete_select v = (\<lambda>(query, pos). case termBounds query pos of
       None \<Rightarrow> (query, pos)
     | Some (wordStart, p) \<Rightarrow> (take wordStart query @ v @ drop p query, wordStart + length v))"

section \<open>The page\<close>

datatype page_event = Interval | Submit string | Success nat "string list" "jsvalue list list"
  | Failure nat "string option option" | YMin string | YMax string | Smoothing string | ClickRealTime

definition handle_event :: "graph_library \<Rightarrow> page_event \<Rightarrow> grapher \<Rightarrow> graph_outcome" where
  "handle_event rng ev s = (case ev of
       Interval \<Rightarrow> fetchData s
     | Submit q \<Rightarrow> applyQuery q s
     | Success i names newData \<Rightarrow> on_success rng i names newData s
     | Failure i parsed \<Rightarrow> on_error i parsed s
     | YMin t \<Rightarrow> tryApply parse_float set_yMin t s
     | YMax t \<Rightarrow> tryApply parse_float set_yMax t s
     | Smoothing t \<Rightarrow> tryApply parse_int set_smoothing t s
     | ClickRealTime \<Rightarrow> click_realTime s)"

text \<open>Only a request that was sent is answered.\<close>

definition enabled :: "page_event \<Rightarrow> grapher \<Rightarrow> bool" where
  "enabled ev s = (case ev of
       Success i _ _ \<Rightarrow> i < length (sent s)
     | Failure i _ \<Rightarrow> i < length (sent s)
     | _ \<Rightarrow> True)"

inductive page_step :: "graph_library \<Rightarrow> grapher \<Rightarrow> page_event \<times> js_error option \<Rightarrow> grapher \<Rightarrow> bool"
  for rng where
  event: "enabled ev s \<Longrightarrow> handle_event rng ev s = (s', err) \<Longrightarrow> page_step rng s (ev, err) s'"

inductive page_run :: "graph_library \<Rightarrow> grapher \<Rightarrow> (page_event \<times> js_error option) list \<Rightarrow> grapher \<Rightarrow> bool"
  for rng where
  stop: "page_run rng s [] s"
| more: "page_run rng s evs s' \<Longrightarrow> page_step rng s' ev s'' \<Longrightarrow> page_run rng s (evs @ [ev]) s''"

inductive_simps page_step_iff: "page_step rng s (ev, err) s'"

section \<open>One request at a time\<close>

definition net :: "grapher \<Rightarrow> (string \<times> response_handler) list \<times> bool" where
  "net s = (sent s, awaitingResponse s)"

definition one_request :: "grapher \<Rightarrow> bool" where
  "one_request s \<longleftrightarrow> sent s = [] \<or> (\<exists>r. sent s = [r] \<and> awaitingResponse s)"

text \<open>Handlers that do not talk to the server.\<close>

lemma net_push_point: "net (fst (push_point p s)) = net s"
  by (simp add: push_point_def net_def split: prod.split sum.split)

lemma net_push_points: "net (fst (push_points ps s)) = net s"
proof (induction ps arbitrary: s)
  case (Cons p ps)
  show ?case
  proof (cases "push_point p s")
    case (Pair s' e)
    with net_push_point [of p s] Cons [of s'] show ?thesis by (cases e) auto
  qed
qed simp

lemma net_store_table: "net (store_table names d s) = net s"
  by (simp add: store_table_def net_def split: option.split)

lemma net_redraw: "net (fst (redraw s)) = net s"
  by (simp add: redraw_def net_def)

lemma net_finish: "net (fst (finish_response rng a s)) = net s"
  by (simp add: finish_response_def Let_def redraw_def net_def)

lemma net_data: "net (fst (handleDataResponse rng names d s)) = net s"
proof (cases "push_points d (store_table names d s)")
  case (Pair s' e)
  then show ?thesis
    using net_push_points [of d "store_table names d s"] net_store_table [of names d s] net_finish
    by (cases e) (auto simp: handleDataResponse_def)
qed

lemma net_parse_line: "net (parse_line q s) = net s"
  by (auto simp: parse_line_def addErrorText_def net_def split: prod.split sum.split js_error.split)

lemma net_parse_lines: "net (fold parse_line qs s) = net s"
  by (induction qs arbitrary: s) (simp_all add: net_parse_line)

lemma net_fields: "net (fst (tryApply f set_yMin t s)) = net s" "net (fst (tryApply f set_yMax t s)) = net s"
    "net (fst (tryApply f set_smoothing t s)) = net s" "net (fst (click_realTime s)) = net s"
  by (auto simp: tryApply_def set_yMin_def set_yMax_def set_smoothing_def click_realTime_def redraw_def net_def Let_def
      split: option.split)

lemma net_cong: "net s = net t \<Longrightarrow> one_request s = one_request t"
  by (simp add: net_def one_request_def)

text \<open>Sending keeps the invariant, and sends nothing while an answer is awaited.\<close>

lemma one_request_send: "one_request s \<Longrightarrow> one_request (sendQuery q h s)"
  by (auto simp: sendQuery_def one_request_def)

lemma send_awaiting: "awaitingResponse s \<Longrightarrow> sendQuery q h s = s"
  by (simp add: sendQuery_def)

lemma one_request_fetch: "one_request s \<Longrightarrow> one_request (fst (fetchData s))"
  by (auto simp: fetchData_def one_request_send split: sum.split)

lemma fetch_awaiting: "awaitingResponse s \<Longrightarrow> fst (fetchData s) = s"
  by (auto simp: fetchData_def send_awaiting split: sum.split)

lemma applyQuery_fst: "\<exists>s1. net s1 = net s \<and> net (fst (applyQuery q s)) = net (fst (fetchData s1))"
proof -
  let ?s1 = "s\<lparr>errors := [], links := [], expressions := []\<rparr>"
  let ?s2 = "fold parse_line (query_lines q) ?s1"
  let ?s3 = "?s2\<lparr>rawData := None, evaluatedData := [], metrics := [], lastTimestamp := Num (Fin (-1))\<rparr>"
  have "net ?s3 = net s"
    using net_parse_lines [of "query_lines q" ?s1] by (simp add: net_def)
  moreover have "net (fst (applyQuery q s)) = net (fst (fetchData ?s3))"
    by (cases "fetchData ?s3"; cases "snd (fetchData ?s3)")
      (simp_all add: applyQuery_def refreshGraph_def Let_def, simp_all add: net_def)
  ultimately show ?thesis by blast
qed

lemma one_request_apply: "one_request s \<Longrightarrow> one_request (fst (applyQuery q s))"
  using applyQuery_fst [of s q] one_request_fetch net_cong by metis

lemma apply_awaiting: "awaitingResponse s \<Longrightarrow> net (fst (applyQuery q s)) = net s"
  using applyQuery_fst [of s q] fetch_awaiting by (auto simp: net_def)

lemma answered_one: "one_request s \<Longrightarrow> i < length (sent s) \<Longrightarrow> sent (answered i s) = []"
  by (auto simp: one_request_def answered_def)

lemma one_request_step:
  assumes "one_request s" "enabled ev s" "handle_event rng ev s = (s', err)"
  shows "one_request s'"
proof -
  have s': "s' = fst (handle_event rng ev s)" using assms(3) by simp
  have ans: "one_request s'" if "i < length (sent s)" "net s' = net ((answered i s)\<lparr>awaitingResponse := b\<rparr>)" for i b
    using that answered_one [OF assms(1)] by (simp add: one_request_def net_def)
  show ?thesis
  proof (cases ev)
    case (Success i names d)
    let ?s = "(answered i s)\<lparr>awaitingResponse := False\<rparr>"
    have "net s' = net ?s"
      using assms(3) Success net_data [of rng names d ?s]
      by (auto simp: handle_event_def on_success_def Let_def handleMetrics_def net_def split: response_handler.splits)
    with ans [of i False] assms(2) Success show ?thesis by (simp add: enabled_def)
  next
    case (Failure i parsed)
    have "net s' = net ((answered i s)\<lparr>awaitingResponse := (if parsed = None then awaitingResponse s else False)\<rparr>)"
      using assms(3) Failure by (auto simp: handle_event_def on_error_def net_def answered_def split: option.splits)
    with ans [of i] assms(2) Failure show ?thesis by (simp add: enabled_def)
  qed (use one_request_fetch [OF assms(1)] one_request_apply [OF assms(1)] net_fields [THEN net_cong] assms(1) in
      \<open>simp_all add: s' handle_event_def\<close>)
qed

lemma one_request_run: "page_run rng s evs s' \<Longrightarrow> one_request s \<Longrightarrow> one_request s'"
  by (induction rule: page_run.induct) (auto elim!: page_step.cases intro: one_request_step)

lemma one_request_ready: "one_request (fst (ready search grapher_start))"
proof -
  have "one_request (sendQuery [] HandleMetrics grapher_start)"
    by (rule one_request_send) (simp add: one_request_def grapher_start_def)
  then show ?thesis
    using one_request_apply by (simp add: ready_def Let_def split: sum.split option.split)
qed

text \<open>C31: from the loading of the page on, whatever the user types and whenever answers arrive, at
  most one request is without an answer, and none is sent while one is.\<close>

theorem single_request:
  assumes "page_run rng (fst (ready search grapher_start)) evs s"
  shows "length (sent s) \<le> 1 \<and> (if sent s = [] then True else awaitingResponse s \<and> fst (fetchData s) = s)"
  using one_request_run [OF assms one_request_ready] fetch_awaiting [of s] by (auto simp: one_request_def)

theorem single_request_witness:
  "\<exists>s. page_run (\<lambda>_. (Fin 0, Fin 1)) (fst (ready [] grapher_start))
      [(Interval, None), (Success 0 [''up''] [], None)] s \<and> length (sent s) \<le> 1"
proof -
  let ?s0 = "fst (ready [] grapher_start)" and ?g = "\<lambda>_. (Fin 0, Fin 1)"
  have r: "expressions ?s0 = []" "sent ?s0 = [(''/graphdata/'', HandleMetrics)]"
    by (simp_all add: ready_def getUrlParam_def sendQuery_def grapher_start_def)
  have f: "fetchData ?s0 = (?s0, None)"
    by (simp add: r(1) fetchData_def wanted_def obj_keys_def)
  have "page_step ?g ?s0 (Interval, None) ?s0"
    by (simp add: page_step_iff enabled_def handle_event_def f)
  moreover have "page_step ?g ?s0 (Success 0 [''up''] [], None) (fst (on_success ?g 0 [''up''] [] ?s0))"
    by (simp add: page_step_iff enabled_def handle_event_def on_success_def Let_def r(2))
  ultimately have "page_run ?g ?s0 (([] @ [(Interval, None)]) @ [(Success 0 [''up''] [], None)]) (fst (on_success ?g 0 [''up''] [] ?s0))"
    by (rule page_run.more [OF page_run.more [OF page_run.stop]])
  then have "page_run ?g ?s0 [(Interval, None), (Success 0 [''up''] [], None)] (fst (on_success ?g 0 [''up''] [] ?s0))"
    by simp
  with single_request [OF this] show ?thesis by blast
qed

text \<open>Once a failed request is answered by something that is not a JSON object, nothing is sent again.\<close>

lemma awaiting_step:
  assumes "sent s = []" "awaitingResponse s" "enabled ev s" "handle_event rng ev s = (s', err)"
  shows "sent s' = [] \<and> awaitingResponse s'"
proof -
  have s': "s' = fst (handle_event rng ev s)" using assms(4) by simp
  have "net s' = net s"
    using assms(1-3) net_fields by (cases ev) (simp_all add: s' handle_event_def enabled_def fetch_awaiting apply_awaiting)
  then show ?thesis using assms(1,2) by (simp add: net_def)
qed

lemma awaiting_run: "page_run rng s evs s' \<Longrightarrow> sent s = [] \<and> awaitingResponse s \<Longrightarrow> sent s' = [] \<and> awaitingResponse s'"
  by (induction rule: page_run.induct) (auto elim!: page_step.cases dest: awaiting_step)

text \<open>when the server answers a request of the page with an error whose body is not a JSON object
  (a proxy's error page), the error handler throws before it clears \<open>awaitingResponse\<close>: no error is
  shown, and from then on the page never sends a request again, whatever the user does.\<close>

theorem unparsable_error_stops_page:
  assumes "page_run rng (fst (ready search grapher_start)) evs s" "sent s = [r]"
  shows "(let (s1, err) = on_error 0 None s in
      err = Some TypeError \<and> errors s1 = errors s \<and>
      (page_run rng s1 evs' s2 \<longrightarrow> sent s2 = [] \<and> awaitingResponse s2 \<and> fst (fetchData s2) = s2))"
proof -
  have "awaitingResponse s" using one_request_run [OF assms(1) one_request_ready] assms(2) by (auto simp: one_request_def)
  then show ?thesis
    using awaiting_run [of rng "answered 0 s" evs' s2] assms(2) fetch_awaiting [of s2]
    by (simp add: on_error_def answered_def)
qed

theorem unparsable_error_stops_page_witness:
  "\<exists>s. page_run (\<lambda>_. (Fin 0, Fin 1)) (fst (ready [] grapher_start)) [] s \<and>
     (let (s1, err) = on_error 0 None s in err = Some TypeError \<and> awaitingResponse s1 \<and> sent s1 = [])"
proof -
  let ?s0 = "fst (ready [] grapher_start)"
  have r: "sent ?s0 = [(''/graphdata/'', HandleMetrics)]"
    by (simp add: ready_def getUrlParam_def sendQuery_def grapher_start_def)
  have run: "page_run (\<lambda>_. (Fin 0, Fin 1)) ?s0 [] ?s0" by (rule page_run.stop)
  show ?thesis
    using unparsable_error_stops_page [OF run r, of "[]" "fst (on_error 0 None ?s0)"] run
    by (intro exI [of _ ?s0]) (auto simp: Let_def case_prod_beta intro: page_run.stop)
qed

section \<open>Rows\<close>

lemma eval_names_values:
  assumes "eval_names m point names es = (es', Inr vs)" "distinct names"
  shows "\<exists>rs. list_all2 (\<lambda>name r. snd (evaluate m point (the (obj_get es name))) = Inr r) names rs
    \<and> vs = filter (\<lambda>v. \<not> nullish v) rs"
  using assms
proof (induction names arbitrary: es vs)
  case (Cons name names)
  obtain p r0 where e: "evaluate m point (the (obj_get es name)) = (p, r0)" by force
  with Cons(2) obtain v where r0: "r0 = Inr v" by (cases r0) auto
  obtain ws where w: "eval_names m point names (obj_set name p es) = (es', Inr ws)"
      and vs: "vs = (if nullish v then ws else v # ws)"
    using Cons(2) by (auto simp: e r0 split: prod.splits)
  have d: "distinct names" "name \<notin> set names" using Cons(3) by auto
  from Cons(1) [OF w d(1)] obtain rs where rs:
    "list_all2 (\<lambda>n r. snd (evaluate m point (the (obj_get (obj_set name p es) n))) = Inr r) names rs"
    "ws = filter (\<lambda>v. \<not> nullish v) rs" by blast
  have "list_all2 (\<lambda>n r. snd (evaluate m point (the (obj_get es n))) = Inr r) names rs"
    by (rule list.rel_mono_strong [OF rs(1)]) (use d(2) in \<open>auto simp: obj_get_set split: if_splits\<close>)
  then show ?case using rs(2) vs e r0 by (intro exI [of _ "v # rs"]) simp
qed simp

text \<open>a plotted row is the time followed by the values of the expressions in the order of their
  labels, except that values that are \<open>undefined\<close> or \<open>null\<close> are left out without a gap; so the row
  lines up with the labels exactly when every expression had a value.\<close>

theorem row_labels:
  assumes "push_point point s = (s', None)" "obj_wf (expressions s)"
  shows "\<exists>vs rs. evaluatedData s' = evaluatedData s @ [read_var (metrics s) point ''time'' # vs]
    \<and> length rs = length (obj_keys (expressions s))
    \<and> map (\<lambda>name. snd (evaluate (metrics s) point (the (obj_get (expressions s) name)))) (obj_keys (expressions s)) = map Inr rs
    \<and> vs = filter (\<lambda>v. \<not> nullish v) rs
    \<and> (length (last (evaluatedData s')) = length (graph_names s) \<longleftrightarrow> \<not> list_ex nullish rs)"
proof -
  obtain es vs where e: "eval_names (metrics s) point (obj_keys (expressions s)) (expressions s) = (es, Inr vs)"
    and s': "evaluatedData s' = evaluatedData s @ [read_var (metrics s) point ''time'' # vs]"
    using assms(1) by (auto simp: push_point_def split: prod.splits sum.splits)
  from eval_names_values [OF e obj_keys_distinct [OF assms(2)]] obtain rs where rs:
    "list_all2 (\<lambda>name r. snd (evaluate (metrics s) point (the (obj_get (expressions s) name))) = Inr r) (obj_keys (expressions s)) rs"
    "vs = filter (\<lambda>v. \<not> nullish v) rs" by blast
  have "(length (filter (\<lambda>v. \<not> nullish v) rs) = length rs) = (\<not> list_ex nullish rs)"
    using length_filter_less [of _ rs "\<lambda>v. \<not> nullish v"] by (force simp: list_ex_iff)
  moreover have "map (\<lambda>name. snd (evaluate (metrics s) point (the (obj_get (expressions s) name)))) (obj_keys (expressions s)) = map Inr rs"
      "length rs = length (obj_keys (expressions s))"
    using rs(1) by (auto simp: list_all2_conv_all_nth intro: nth_equalityI)
  ultimately show ?thesis
    using s' rs(2) by (intro exI [of _ vs] exI [of _ rs]) (simp add: graph_names_def)
qed

theorem row_labels_witness:
  "\<exists>vs rs s'. push_point [Num (Fin 7)] (grapher_start\<lparr>expressions := [(''up'', Var 0 ''up''), (''1'', Constant 0 (Fin 1))],
      metrics := [(''time'', 0)]\<rparr>) = (s', None) \<and> rs = [Num (Fin 1), Undefined] \<and> vs = [Num (Fin 1)]
    \<and> evaluatedData s' = [Num (Fin 7) # vs] \<and> length (last (evaluatedData s')) = 2"
proof -
  let ?s = "grapher_start\<lparr>expressions := [(''up'', Var 0 ''up''), (''1'', Constant 0 (Fin 1))], metrics := [(''time'', 0)]\<rparr>"
  have k: "obj_keys (expressions ?s) = [''1'', ''up'']"
    by (simp add: obj_keys_def is_index_def is_digit_def nat_of_digits_def digit_val_def)
  have p: "push_point [Num (Fin 7)] ?s = (?s\<lparr>evaluatedData := [[Num (Fin 7), Num (Fin 1)]]\<rparr>, None)"
    using k by (simp add: push_point_def grapher_start_def obj_get_def read_var_def nullish_def)
  have w: "obj_wf (expressions ?s)" by (simp add: obj_wf_def)
  from row_labels [OF p w] k p show ?thesis
    by (intro exI [of _ "[Num (Fin 1)]"] exI [of _ "[Num (Fin 1), Undefined]"] exI [of _ "?s\<lparr>evaluatedData := [[Num (Fin 7), Num (Fin 1)]]\<rparr>"])
      (simp add: grapher_start_def read_var_def obj_get_def)
qed

lemma obj_wf_eval: "obj_wf es \<Longrightarrow> obj_wf (fst (eval_names m point names es))"
proof (induction names arbitrary: es)
  case (Cons name names)
  obtain p r where e: "evaluate m point (the (obj_get es name)) = (p, r)" by force
  show ?case
    using Cons(1) [of "obj_set name p es"] obj_wf_set [OF Cons(2)]
    by (cases r) (auto simp: e split: prod.splits)
qed simp

text \<open>While nothing escapes from a handler, row \<open>i\<close> of the plot starts with the time of row \<open>i\<close> of the
  table, the two never hold more than \<open>maxPoints\<close> rows, and the next request asks for what came after
  the last row.\<close>

definition times :: "nat obj \<Rightarrow> jsvalue list list \<Rightarrow> jsvalue list" where
  "times m rows = map (\<lambda>row. read_var m row ''time'') rows"

definition aligned :: "grapher \<Rightarrow> bool" where
  "aligned s = (case rawData s of
       None \<Rightarrow> evaluatedData s = []
     | Some rows \<Rightarrow> rows \<noteq> [] \<and> length rows \<le> maxPoints
         \<and> map (take 1) (evaluatedData s) = map (\<lambda>t. [t]) (times (metrics s) rows)
         \<and> lastTimestamp s = last (times (metrics s) rows))"

definition data :: "grapher \<Rightarrow> jsvalue list list option \<times> jsvalue list list \<times> nat obj \<times> jsvalue" where
  "data s = (rawData s, evaluatedData s, metrics s, lastTimestamp s)"

lemma aligned_cong: "data s = data t \<Longrightarrow> aligned s = aligned t"
  by (auto simp: aligned_def data_def split: option.split)

lemma push_point_data:
  "push_point p s = (s', None) \<Longrightarrow> rawData s' = rawData s \<and> metrics s' = metrics s
     \<and> map (take 1) (evaluatedData s') = map (take 1) (evaluatedData s) @ [[read_var (metrics s) p ''time'']]"
  by (auto simp: push_point_def split: prod.splits sum.splits)

lemma push_points_data:
  "push_points ps s = (s', None) \<Longrightarrow> rawData s' = rawData s \<and> metrics s' = metrics s
     \<and> map (take 1) (evaluatedData s') = map (take 1) (evaluatedData s) @ map (\<lambda>t. [t]) (times (metrics s) ps)"
proof (induction ps arbitrary: s)
  case (Cons p ps)
  then obtain s1 where "push_point p s = (s1, None)" "push_points ps s1 = (s', None)"
    by (auto split: prod.splits option.splits)
  with Cons(1) [of s1] push_point_data [of p s s1] show ?case by (simp add: times_def)
qed (simp add: times_def)

lemma keep_newest_props:
  "length (keep_newest xs) \<le> maxPoints" "map f (keep_newest xs) = keep_newest (map f xs)"
  "xs \<noteq> [] \<Longrightarrow> keep_newest xs \<noteq> [] \<and> last (keep_newest xs) = last xs"
  by (auto simp: keep_newest_def drop_map maxPoints_def last_drop)

lemma handleDataResponse_aligned:
  assumes "aligned s" "handleDataResponse rng names d s = (s', None)"
  shows "aligned s'"
proof (cases "d = []")
  case True
  then show ?thesis using assms by (simp add: handleDataResponse_def)
next
  case False
  let ?s = "store_table names d s"
  obtain s1 where p: "push_points d ?s = (s1, None)"
    and f: "finish_response rng (rawData s \<noteq> None) s1 = (s', None)"
    using assms(2) False by (auto simp: handleDataResponse_def split: prod.splits option.splits)
  obtain rows where rows: "rawData ?s = Some rows" "rows \<noteq> []"
      "map (take 1) (evaluatedData ?s) @ map (\<lambda>t. [t]) (times (metrics ?s) d) = map (\<lambda>t. [t]) (times (metrics ?s) rows)"
    using assms(1) False by (cases "rawData s") (auto simp: store_table_def aligned_def times_def)
  have s1: "rawData s1 = Some rows" "metrics s1 = metrics ?s"
      "map (take 1) (evaluatedData s1) = map (\<lambda>t. [t]) (times (metrics ?s) rows)"
    using push_points_data [OF p] rows by auto
  have s': "rawData s' = Some (keep_newest rows)" "evaluatedData s' = keep_newest (evaluatedData s1)"
      "metrics s' = metrics ?s" "lastTimestamp s' = read_var (metrics ?s) (last rows) ''time''"
    using f s1(1,2) by (auto simp: finish_response_def Let_def redraw_def split: if_splits)
  have "last (times (metrics ?s) (keep_newest rows)) = read_var (metrics ?s) (last rows) ''time''"
    using keep_newest_props(3) [OF rows(2)] by (auto simp: times_def last_map)
  moreover have "map (take 1) (keep_newest (evaluatedData s1)) = map (\<lambda>t. [t]) (times (metrics ?s) (keep_newest rows))"
    using s1(3) by (simp add: times_def keep_newest_props(2))
  ultimately show ?thesis
    using keep_newest_props(1,3) rows(2) by (auto simp: aligned_def s')
qed

lemma data_fetch: "data (fst (fetchData s)) = data s"
  by (simp add: fetchData_def sendQuery_def data_def split: sum.split)

lemma data_fields: "data (fst (tryApply f set_yMin t s)) = data s" "data (fst (tryApply f set_yMax t s)) = data s"
    "data (fst (tryApply f set_smoothing t s)) = data s" "data (fst (click_realTime s)) = data s"
  by (auto simp: tryApply_def set_yMin_def set_yMax_def set_smoothing_def click_realTime_def redraw_def data_def Let_def
      split: option.split)

lemma applyQuery_data: "data (fst (applyQuery q s)) = (None, [], [], Num (Fin (-1)))"
proof -
  let ?s2 = "fold parse_line (query_lines q) (s\<lparr>errors := [], links := [], expressions := []\<rparr>)"
  let ?s3 = "?s2\<lparr>rawData := None, evaluatedData := [], metrics := [], lastTimestamp := Num (Fin (-1))\<rparr>"
  have "data (fst (applyQuery q s)) = data (fst (fetchData ?s3))"
    by (cases "fetchData ?s3"; cases "snd (fetchData ?s3)")
      (simp_all add: applyQuery_def refreshGraph_def Let_def, simp_all add: data_def)
  then show ?thesis by (simp only: data_fetch) (simp add: data_def)
qed

lemma aligned_step:
  assumes "aligned s" "handle_event rng ev s = (s', None)"
  shows "aligned s'"
proof -
  have s': "s' = fst (handle_event rng ev s)" using assms(2) by simp
  have other: "aligned s'" if "data s' = data s" using that assms(1) aligned_cong by blast
  show ?thesis
  proof (cases ev)
    case (Submit q)
    then show ?thesis using applyQuery_data [of q s] by (simp add: s' handle_event_def aligned_def data_def)
  next
    case (Success i names d)
    let ?s = "(answered i s)\<lparr>awaitingResponse := False\<rparr>"
    have a: "aligned ?s" using assms(1) aligned_cong [of ?s s] by (simp add: data_def answered_def)
    show ?thesis
    proof (cases "snd (sent s ! i)")
      case HandleData
      with Success assms(2) handleDataResponse_aligned [OF a] show ?thesis
        by (simp add: handle_event_def on_success_def Let_def)
    next
      case HandleMetrics
      with Success show ?thesis
        by (intro other) (simp add: s' handle_event_def on_success_def Let_def handleMetrics_def data_def answered_def)
    qed
  next
    case (Failure i parsed)
    then show ?thesis
      by (intro other) (simp add: s' handle_event_def on_error_def data_def answered_def split: option.split)
  qed (simp_all add: s' handle_event_def aligned_cong [OF data_fetch] data_fields [THEN aligned_cong] assms(1))
qed

lemma aligned_run: "page_run rng s evs s' \<Longrightarrow> list_all (\<lambda>(ev, err). err = None) evs \<Longrightarrow> aligned s \<Longrightarrow> aligned s'"
  by (induction rule: page_run.induct) (auto elim!: page_step.cases intro: aligned_step)

lemma aligned_ready: "aligned (fst (ready search grapher_start))"
proof -
  have "aligned (sendQuery [] HandleMetrics grapher_start)"
    by (simp add: aligned_def sendQuery_def grapher_start_def)
  moreover have "aligned (fst (applyQuery q s))" for q s
    using applyQuery_data [of q s] by (simp add: aligned_def data_def)
  ultimately show ?thesis by (simp add: ready_def Let_def split: sum.split option.split)
qed

text \<open>C23: from the loading of the page on, with any query in its address, the plotted rows and the table stay in step
  for every sequence of events, as long as no exception escapes from a handler: the \<open>i\<close>-th plotted row starts with the time of the \<open>i\<close>-th row of the
  table, neither exceeds \<open>maxPoints\<close> rows, and the next request continues after the last row.\<close>

theorem plot_aligned:
  assumes "page_run rng (fst (ready search grapher_start)) evs s" "list_all (\<lambda>(ev, err). err = None) evs"
  shows "case rawData s of
      None \<Rightarrow> evaluatedData s = []
    | Some rows \<Rightarrow> length rows \<le> maxPoints \<and> length (evaluatedData s) = length rows
        \<and> map (take 1) (evaluatedData s) = map (\<lambda>row. [read_var (metrics s) row ''time'']) rows
        \<and> lastTimestamp s = read_var (metrics s) (last rows) ''time''"
  using aligned_run [OF assms aligned_ready]
  by (auto simp: aligned_def times_def last_map split: option.splits dest: map_eq_imp_length_eq)

section \<open>An answer to the previous query\<close>

definition plain_line :: "string \<Rightarrow> bool" where
  "plain_line x \<longleftrightarrow> metric_name x \<and> list_all (\<lambda>c. c \<noteq> CHR '' '' \<and> c \<noteq> CHR 0x09 \<and> c \<noteq> CHR 0x0A) x"

lemma split_on_free: "c \<notin> set s \<Longrightarrow> split_on c s = [s]"
  by (induction s) auto

lemma query_lines_plain: "plain_line x \<Longrightarrow> query_lines x = [x]"
  by (auto simp: query_lines_def plain_line_def list_all_iff filter_id_conv intro!: split_on_free)

lemma parse_name: "metric_name x \<Longrightarrow> parse x 0 rx = (at_start, Inr (Var 0 x))"
  using parse_chain [of x "[]" 0 rx] by (simp add: chain_text_def)

lemma apply_plain:
  assumes "plain_line x" "awaitingResponse s"
  shows "applyQuery x s = (s\<lparr>errors := [], links := [''?query='' @ encodeURIComponent x, ''#''],
    expressions := [(x, Var 0 x)], regex_state := at_start, rawData := None, evaluatedData := [],
    metrics := [], lastTimestamp := Num (Fin (-1))\<rparr>, None)"
proof -
  have m: "metric_name x" "x \<noteq> []" "x \<noteq> ''__proto__''"
    using assms(1) by (auto simp: plain_line_def metric_name_def inherited_names_def List.member_iff)
  show ?thesis
    using m assms(2)
    by (simp add: applyQuery_def query_lines_plain [OF assms(1)] parse_line_def parse_name [OF m(1)] refreshGraph_def
        fetchData_def wanted_def obj_keys_def obj_get_def sendQuery_def)
qed

text \<open>C24: submitting a query while a request of the previous one is unanswered sends nothing; the old
  answer is then taken for the new query, so the new series, which it does not contain, is plotted
  as rows with a time and no value, and the next request only asks for later data.\<close>

theorem stale_answer:
  assumes "plain_line x" "x \<notin> set names" "sent s = [(url, HandleData)]" "awaitingResponse s" "newData \<noteq> []"
  shows "(let (s1, e1) = applyQuery x s; (s2, e2) = on_success rng 0 names newData s1 in
      e1 = None \<and> e2 = None \<and> sent s1 = sent s \<and> graph_labels s2 = [''t'', x]
      \<and> evaluatedData s2 = keep_newest (map (\<lambda>row. [read_var (metrics s2) row ''time'']) newData)
      \<and> lastTimestamp s2 = read_var (metrics s2) (last newData) ''time'')"
proof -
  let ?m = "foldl (\<lambda>m (i, name). obj_set name i m) [] (enumerate 0 names)"
  have none: "obj_get (foldl (\<lambda>m (i, name). obj_set name i m) m (enumerate n ns)) x = obj_get m x"
    if "x \<notin> set ns" for m n ns
    using that by (induction ns arbitrary: m n) (auto simp: obj_get_set)
  have k: "obj_keys [(x, p)] = [x]" for p :: graph_part by (auto simp: obj_keys_def)
  have push: "push_points ps s0 = (s0\<lparr>evaluatedData := evaluatedData s0 @ map (\<lambda>row. [read_var ?m row ''time'']) ps\<rparr>, None)"
    if "expressions s0 = [(x, Var 0 x)]" "metrics s0 = ?m" for s0 ps
    using that
  proof (induction ps arbitrary: s0)
    case (Cons p ps)
    then show ?case
      using none [OF assms(2), of "[]" 0]
      by (simp add: push_point_def k obj_get_def [of "[(x, Var 0 x)]"] read_var_def [of _ _ x] nullish_def obj_get_empty)
  qed simp
  show ?thesis
    using assms(3,5)
    by (simp add: apply_plain [OF assms(1,4)] on_success_def answered_def handleDataResponse_def store_table_def push
        finish_response_def graph_names_def k)
qed

theorem stale_answer_witness:
  "(let (s1, e1) = applyQuery ''up'' (grapher_start\<lparr>sent := [(''old'', HandleData)], awaitingResponse := True\<rparr>);
        (s2, e2) = on_success (\<lambda>_. (Fin 0, Fin 1)) 0 [''time'', ''down''] [[Num (Fin 5), Num (Fin 1)]] s1 in
      sent s1 = [(''old'', HandleData)] \<and> graph_labels s2 = [''t'', ''up''] \<and> length (hd (evaluatedData s2)) = 1)"
  using stale_answer [of "''up''" "[''time'', ''down'']" "grapher_start\<lparr>sent := [(''old'', HandleData)], awaitingResponse := True\<rparr>"
      "''old''" "[[Num (Fin 5), Num (Fin 1)]]" "\<lambda>_. (Fin 0, Fin 1)"]
  by (auto simp: plain_line_def metric_name_def word_char_def is_digit_def uppers_def lowers_def inherited_names_def
      List.member_iff keep_newest_def maxPoints_def grapher_start_def)

text \<open>A page with a query in its address: the names of the series, the first interval, and its table.\<close>

theorem plot_aligned_witness:
  "\<exists>s. page_run (\<lambda>_. (Fin 0, Fin 1)) (fst (ready ''?query=up'' grapher_start))
      [(Success 0 [''up''] [], None), (Interval, None),
       (Success 0 [''time'', ''up''] [[Num (Fin 1), Num (Fin 5)], [Num (Fin 2), Num (Fin 6)]], None)] s
    \<and> rawData s = Some [[Num (Fin 1), Num (Fin 5)], [Num (Fin 2), Num (Fin 6)]]
    \<and> map (take 1) (evaluatedData s) = [[Num (Fin 1)], [Num (Fin 2)]] \<and> lastTimestamp s = Num (Fin 2)"
proof -
  let ?g = "\<lambda>_ :: jsvalue list list. (Fin 0, Fin 1)" and ?rows = "[[Num (Fin 1), Num (Fin 5)], [Num (Fin 2), Num (Fin 6)]]"
  let ?es = "[(''up'', Var 0 ''up'')]"
  have up: "plain_line ''up''" by code_simp
  have q: "getUrlParam ''query'' ''?query=up'' = Inr (Some ''up'')" by code_simp
  define s0 where "s0 = fst (ready ''?query=up'' grapher_start)"
  have s0: "sent s0 = [(''/graphdata/'', HandleMetrics)]" "expressions s0 = ?es" "rawData s0 = None" "errors s0 = []"
      "metrics s0 = []" "evaluatedData s0 = []" "realTime s0"
    by (simp_all add: s0_def ready_def q sendQuery_def apply_plain [OF up] Let_def) (simp_all add: grapher_start_def)
  define s1 where "s1 = fst (handle_event ?g (Success 0 [''up''] []) s0)"
  have e1: "handle_event ?g (Success 0 [''up''] []) s0 = (s1, None)"
    by (simp add: s1_def handle_event_def on_success_def s0 Let_def)
  have s1: "sent s1 = []" "\<not> awaitingResponse s1" "expressions s1 = ?es" "rawData s1 = None" "errors s1 = []"
      "metrics s1 = []" "evaluatedData s1 = []" "realTime s1"
    by (simp_all add: s1_def handle_event_def on_success_def Let_def s0 handleMetrics_def answered_def)
  have k: "obj_keys [(''up'', x)] = [''up'']" for x :: graph_part by (simp add: obj_keys_def)
  have "wanted ?es = Inr [''up'']" by code_simp
  then obtain u where e2: "handle_event ?g Interval s1 = (s1\<lparr>awaitingResponse := True, sent := [(u, HandleData)]\<rparr>, None)"
    by (simp add: handle_event_def fetchData_def s1 sendQuery_def)
  let ?s2 = "s1\<lparr>awaitingResponse := True, sent := [(u, HandleData)]\<rparr>"
  let ?m = "[(''time'', 0), (''up'', Suc 0)] :: nat obj"
  have m: "foldl (\<lambda>m (i, name). obj_set name i m) [] (enumerate 0 [''time'', ''up'']) = ?m" by code_simp
  have ev: "snd (evaluate ?m [Num (Fin a), Num (Fin b)] (Var 0 ''up'')) = Inr (Num (Fin b))" for a b
    by (simp add: read_var_def obj_get_def)
  have push: "push_points ?rows s = (s\<lparr>evaluatedData := evaluatedData s @ ?rows\<rparr>, None)"
    if "expressions s = ?es" "metrics s = ?m" for s
    using that by (simp add: push_point_def k obj_get_def read_var_def nullish_def)
  obtain s3 where e3: "handle_event ?g (Success 0 [''time'', ''up''] ?rows) ?s2 = (s3, None)" "rawData s3 = Some ?rows" "metrics s3 = ?m"
    by (simp add: handle_event_def on_success_def answered_def handleDataResponse_def store_table_def s1 m push
        finish_response_def keep_newest_def maxPoints_def Let_def del: push_points.simps)
  have "page_step ?g s0 (Success 0 [''up''] [], None) s1" by (simp add: page_step_iff enabled_def s0 e1)
  moreover have "page_step ?g s1 (Interval, None) ?s2" by (simp add: page_step_iff enabled_def e2)
  moreover have "page_step ?g ?s2 (Success 0 [''time'', ''up''] ?rows, None) s3" by (simp add: page_step_iff enabled_def e3)
  ultimately have "page_run ?g s0 ((([] @ [(Success 0 [''up''] [], None)]) @ [(Interval, None)]) @ [(Success 0 [''time'', ''up''] ?rows, None)]) s3"
    by (rule page_run.more [OF page_run.more [OF page_run.more [OF page_run.stop]]])
  then have run: "page_run ?g s0 [(Success 0 [''up''] [], None), (Interval, None), (Success 0 [''time'', ''up''] ?rows, None)] s3" by simp
  have "read_var ?m [Num (Fin a), Num (Fin b)] ''time'' = Num (Fin a)" for a b by (simp add: read_var_def obj_get_def)
  with plot_aligned [OF run [unfolded s0_def]] e3 run show ?thesis by (intro exI [of _ s3]) (simp add: s0_def)
qed

section \<open>The link and the query box\<close>

lemma nat_less_16_cases: "(n::nat) < 16 \<Longrightarrow> n \<in> set [0..<16]"
  by simp

lemma hex_upper: "n < 16 \<Longrightarrow> hex_val (upper_hex n) = Some n \<and> upper_hex n \<noteq> CHR ''&'' \<and> upper_hex n \<noteq> CHR ''%''"
proof -
  have "list_all (\<lambda>n. hex_val (upper_hex n) = Some n \<and> upper_hex n \<noteq> CHR ''&'' \<and> upper_hex n \<noteq> CHR ''%'') [0..<16]"
    by code_simp
  then show "n < 16 \<Longrightarrow> ?thesis" by (simp add: list_all_iff)
qed

lemma uri_safe_chars: "uri_safe c \<Longrightarrow> c \<noteq> CHR ''%'' \<and> c \<noteq> CHR ''&''"
  by (auto simp: uri_safe_def word_char_def is_digit_def uppers_def lowers_def)

lemma decode_encode_char:
  assumes "char_code c < 128"
  shows "decodeURIComponent (encode_char c @ s) = res_bind (decodeURIComponent s) (\<lambda>t. Inr (c # t))"
proof (cases "uri_safe c")
  case True
  then show ?thesis using uri_safe_chars by (simp add: encode_char_def)
next
  case False
  have "16 * (char_code c div 16) + char_code c mod 16 = char_code c" by simp
  then show ?thesis
    using False assms hex_upper [of "char_code c div 16"] hex_upper [of "char_code c mod 16"]
    by (simp add: encode_char_def percent_byte_def char_code_def)
qed

lemma decode_encode: "list_all (\<lambda>c. char_code c < 128) s \<Longrightarrow> decodeURIComponent (encodeURIComponent s) = Inr s"
  by (induction s) (simp_all add: encodeURIComponent_def decode_encode_char)

lemma encode_no_amp: "list_all (\<lambda>c. char_code c < 128) s \<Longrightarrow> CHR ''&'' \<notin> set (encodeURIComponent s)"
proof (induction s)
  case (Cons c s)
  have "CHR ''&'' \<notin> set (encode_char c)"
  proof (cases "uri_safe c")
    case True
    then show ?thesis using uri_safe_chars [of c] by (auto simp: encode_char_def)
  next
    case False
    have "char_code c div 16 < 16" "char_code c < 128" using Cons(2) by auto
    with False show ?thesis
      using hex_upper [of "char_code c div 16"] hex_upper [of "char_code c mod 16"]
      by (simp add: encode_char_def percent_byte_def) (metis mod_less_divisor zero_less_numeral)
  qed
  with Cons show ?case by (simp add: encodeURIComponent_def)
qed (simp add: encodeURIComponent_def)

text \<open>C25: the link the page offers for a query opens the page with exactly that query: the parameter
  read from its address is the text of the box, line breaks and operators included (ASCII text).\<close>

theorem query_link:
  assumes "contents \<noteq> []" "list_all (\<lambda>c. char_code c < 128) contents" "applyQuery contents s = (s', None)"
  shows "getUrlParam ''query'' (hd (links s')) = Inr (Some contents)"
proof -
  have l: "hd (links s') = ''?query='' @ encodeURIComponent contents"
    using assms(3) by (auto simp: applyQuery_def Let_def split: prod.splits option.splits)
  have ne: "encodeURIComponent contents \<noteq> []"
    using assms(1) by (cases contents) (auto simp: encodeURIComponent_def encode_char_def percent_byte_def)
  then obtain c cs where e: "encodeURIComponent contents = c # cs" by (cases "encodeURIComponent contents") auto
  have "takeWhile (\<lambda>x. x \<noteq> CHR ''&'') cs = cs"
    using encode_no_amp [OF assms(2)] by (auto simp: e takeWhile_eq_all_conv)
  then have "url_param_match ''query'' (''?query='' @ encodeURIComponent contents) = Some (encodeURIComponent contents)"
    by (simp only: e) (simp add: Let_def)
  then show ?thesis using decode_encode [OF assms(2)] by (simp add: l getUrlParam_def)
qed

theorem query_link_witness:
  "getUrlParam ''query'' (hd (links (fst (applyQuery ''up_time'' (grapher_start\<lparr>awaitingResponse := True\<rparr>)))))
    = Inr (Some ''up_time'')"
proof -
  have p: "plain_line ''up_time''"
    by (simp add: plain_line_def metric_name_def word_char_def is_digit_def uppers_def lowers_def inherited_names_def
        List.member_iff)
  have ok: "snd (applyQuery ''up_time'' (grapher_start\<lparr>awaitingResponse := True\<rparr>)) = None"
    by (simp add: apply_plain [OF p])
  show ?thesis
    by (rule query_link [of "''up_time''"]) (use ok in \<open>simp_all add: prod_eq_iff char_code_def\<close>)
qed

section \<open>Completion\<close>

lemma walk_back_le: "walk_back s n \<le> n"
  by (induction s n rule: walk_back.induct) auto

lemma walk_back_word:
  "list_all isIdChar w \<Longrightarrow> k \<le> length w \<Longrightarrow> pre = [] \<or> \<not> isIdChar (last pre) \<Longrightarrow>
     walk_back (pre @ w @ post) (length pre + k) = length pre"
proof (induction k)
  case 0
  then show ?case
    by (cases pre rule: rev_cases) (auto simp: id_at_def nth_append)
next
  case (Suc k)
  have "id_at (pre @ w @ post) (length pre + k)"
    using Suc.prems by (auto simp: id_at_def nth_append list_all_length)
  with Suc show ?case by simp
qed

lemma termBounds_word:
  assumes "list_all isIdChar w" "w \<noteq> []" "pre = [] \<or> \<not> isIdChar (last pre)" "post = [] \<or> \<not> isIdChar (hd post)"
  shows "termBounds (pre @ w @ post) (length pre + length w) = Some (length pre, length pre + length w)"
proof -
  have "id_at (pre @ w @ post) (length pre + length w - 1)"
    using assms(1,2) by (cases w rule: rev_cases) (auto simp: id_at_def nth_append)
  moreover have "\<not> (length pre + length w < length (pre @ w @ post) \<and> id_at (pre @ w @ post) (length pre + length w))"
    using assms(4) by (cases post) (auto simp: id_at_def nth_append)
  ultimately show ?thesis
    using walk_back_word [OF assms(1) le_refl assms(3), of post] assms(2) by (simp add: termBounds_def)
qed

text \<open>choosing a completion with the cursor at the end of a word replaces exactly that word and
  leaves the cursor after the inserted text; the choices offered are the series and functions whose
  label contains the word, ignoring case; with the cursor inside a word none is offered and choosing
  changes nothing.\<close>

theorem completion:
  assumes "list_all isIdChar w" "w \<noteq> []" "pre = [] \<or> \<not> isIdChar (last pre)" "post = [] \<or> \<not> isIdChar (hd post)"
    and "c \<noteq> 0" "c < length w"
  shows "complete_select v (pre @ w @ post, length pre + length w) = (pre @ v @ post, length pre + length v)
    \<and> complete_source names (pre @ w @ post) (length pre + length w)
        = filter (\<lambda>(label, v). has_infix (to_lower w) (to_lower label))
            (map (\<lambda>m. (m, m)) names @ map (\<lambda>f. (function_help f, f)) function_names)
    \<and> complete_source names (pre @ w @ post) (length pre + c) = []
    \<and> complete_select v (pre @ w @ post, length pre + c) = (pre @ w @ post, length pre + c)"
proof -
  have inside: "termBounds (pre @ w @ post) (length pre + c) = None"
    using assms(1,5,6) by (auto simp: termBounds_def id_at_def nth_append list_all_length)
  show ?thesis
    using termBounds_word [OF assms(1-4)]
    by (simp add: complete_select_def complete_source_def inside autocomplete_filter_def substring_def)
qed

theorem completion_witness:
  "complete_select ''uptime'' (''1+ti*2'', 4) = (''1+uptime*2'', 8)
    \<and> complete_source [''uptime'', ''load''] ''1+ti*2'' 4 = [(''uptime'', ''uptime'')]"
  using completion [of "''ti''" "''1+''" "''*2''" 1 "''uptime''" "[''uptime'', ''load'']"]
  by (simp add: isIdChar_def word_char_def is_digit_def uppers_def lowers_def to_lower_def lower_char_def function_names_def
      function_help_def eval_nat_numeral)

end
