(* ===== verification/PlotExport.thy ===== *)
theory PlotExport
  imports NumberText JSObject
begin

text \<open>
  The export of the graph page's plot to a picture (\<open>graphview/dygraph-extra.js\<close>, called for the link
  of \<open>grapher.js\<close>): the calls it makes on the context of a canvas.  A context keeps the attributes of
  the text to draw, the transformation in force, the states put aside by \<open>save\<close> and the log of what was
  drawn.  The plot has the fields of the chart library the code reads; \<open>measureText\<close> is the width of a text
  in a font.
\<close>

section \<open>Canvas contexts\<close>

datatype transformation = Translate num num | Quarter int

record drawing_state =
  fillStyle :: string
  font :: string
  textAlign :: string
  textBaseline :: string
  transform :: "transformation list"

datatype drawing =
  FillRect drawing_state num num num num
| DrawImage num num
| FillText drawing_state string num num

record canvas =
  width :: num
  height :: num
  state :: drawing_state
  saved :: "drawing_state list"
  drawn :: "drawing list"

definition initial_state :: drawing_state where
  "initial_state = \<lparr>fillStyle = ''#000000'', font = ''10px sans-serif'', textAlign = ''start'',
     textBaseline = ''alphabetic'', transform = []\<rparr>"

text \<open>Assigning an attribute: \<open>undefined\<close> and an unknown alignment are ignored.\<close>

definition set_fillStyle :: "string option \<Rightarrow> canvas \<Rightarrow> canvas" where
  "set_fillStyle v c = (case v of None \<Rightarrow> c | Some x \<Rightarrow> c\<lparr>state := (state c)\<lparr>fillStyle := x\<rparr>\<rparr>)"

definition set_font :: "string option \<Rightarrow> canvas \<Rightarrow> canvas" where
  "set_font v c = (case v of None \<Rightarrow> c | Some x \<Rightarrow> c\<lparr>state := (state c)\<lparr>font := x\<rparr>\<rparr>)"

definition set_textAlign :: "string \<Rightarrow> canvas \<Rightarrow> canvas" where
  "set_textAlign x c =
     (if x \<in> {''start'', ''end'', ''left'', ''right'', ''center''} then c\<lparr>state := (state c)\<lparr>textAlign := x\<rparr>\<rparr> else c)"

definition set_textBaseline :: "string \<Rightarrow> canvas \<Rightarrow> canvas" where
  "set_textBaseline x c = c\<lparr>state := (state c)\<lparr>textBaseline := x\<rparr>\<rparr>"

definition add_transform :: "transformation \<Rightarrow> canvas \<Rightarrow> canvas" where
  "add_transform t c = c\<lparr>state := (state c)\<lparr>transform := transform (state c) @ [t]\<rparr>\<rparr>"

definition save :: "canvas \<Rightarrow> canvas" where
  "save c = c\<lparr>saved := state c # saved c\<rparr>"

definition restore :: "canvas \<Rightarrow> canvas" where
  "restore c = (case saved c of [] \<Rightarrow> c | s # ss \<Rightarrow> c\<lparr>state := s, saved := ss\<rparr>)"

definition fillRect :: "num \<Rightarrow> num \<Rightarrow> num \<Rightarrow> num \<Rightarrow> canvas \<Rightarrow> canvas" where
  "fillRect x y w h c = c\<lparr>drawn := drawn c @ [FillRect (state c) x y w h]\<rparr>"

definition drawImage :: "num \<Rightarrow> num \<Rightarrow> canvas \<Rightarrow> canvas" where
  "drawImage x y c = c\<lparr>drawn := drawn c @ [DrawImage x y]\<rparr>"

definition fillText :: "string \<Rightarrow> num \<Rightarrow> num \<Rightarrow> canvas \<Rightarrow> canvas" where
  "fillText txt x y c = c\<lparr>drawn := drawn c @ [FillText (state c) txt x y]\<rparr>"

section \<open>Options\<close>

datatype opt = OptText string | OptNumber num

definition DEFAULT_ATTRS :: "opt obj" where
  "DEFAULT_ATTRS =
     [(''backgroundColor'', OptText ''transparent''),
      (''titleFont'', OptText ''bold 18px serif''), (''titleFontColor'', OptText ''black''),
      (''axisLabelFont'', OptText ''bold 14px serif''), (''axisLabelFontColor'', OptText ''black''),
      (''labelFont'', OptText ''normal 12px serif''), (''labelFontColor'', OptText ''black''),
      (''legendFont'', OptText ''bold 12px serif''), (''legendFontColor'', OptText ''black''),
      (''vLabelLeft'', OptNumber (Fin 20)), (''legendHeight'', OptNumber (Fin 20)), (''legendMargin'', OptNumber (Fin 20)),
      (''lineHeight'', OptNumber (Fin 30)), (''maxlabelsWidth'', OptNumber (Fin 0)), (''labelTopMargin'', OptNumber (Fin 35)),
      (''magicNumbertop'', OptNumber (Fin 8))]"

text \<open>
  \<open>Dygraph.update\<close> copies the properties of an object, if there is one.  The options of a caller have the
  types of the defaults.
\<close>

definition update :: "opt obj \<Rightarrow> opt obj option \<Rightarrow> opt obj" where
  "update self other = (case other of None \<Rightarrow> self | Some d \<Rightarrow> foldl (\<lambda>b (a, v). obj_set a v b) self d)"

definition opt_text :: "opt obj \<Rightarrow> string \<Rightarrow> string option" where
  "opt_text options k = (case obj_get options k of Some (OptText s) \<Rightarrow> Some s | _ \<Rightarrow> None)"

definition opt_number :: "opt obj \<Rightarrow> string \<Rightarrow> num" where
  "opt_number options k =
     (case obj_get options k of Some (OptNumber x) \<Rightarrow> x | Some (OptText s) \<Rightarrow> to_number s | None \<Rightarrow> NaN)"

section \<open>The plot\<close>

record style =
  s_top :: string
  s_left :: string
  s_bottom :: string
  s_right :: string
  s_height :: string
  s_width :: string
  s_textAlign :: string

record div_label =
  div_style :: "style option"
  innerText :: string
  textContent :: string

record plugin =
  plugin_name :: string
  ylabels :: "div_label option list"
  xlabels :: "div_label option list"
  title_div :: "div_label option"
  xlabel_div :: "div_label option"
  ylabel_div :: "div_label option"
  y2label_div :: "div_label option"

record plot =
  plot_width :: num
  plot_height :: num
  plugins :: "plugin list"
  annotations :: "div_label list"
  plot_colors :: "string list"
  plot_labels :: "string list"
  plot_visibility :: "bool list"

definition label_text :: "div_label \<Rightarrow> string" where
  "label_text l = (if innerText l \<noteq> [] then innerText l else textContent l)"

text \<open>\<open>parseInt(s, 10)\<close>\<close>

definition parse_int_10 :: "string \<Rightarrow> num" where
  "parse_int_10 s = (let (neg, r) = take_sign (trim_left s); ds = takeWhile is_digit r;
       x = (if ds = [] then NaN else fl (of_nat (nat_of_digits ds)))
     in if neg then js_neg x else x)"

definition js_falsy :: "num \<Rightarrow> bool" where
  "js_falsy x \<longleftrightarrow> x = NaN \<or> is_zero x"

section \<open>Drawing\<close>

definition putText :: "canvas \<Rightarrow> num \<Rightarrow> num \<Rightarrow> div_label \<Rightarrow> style \<Rightarrow> string option \<Rightarrow> string option \<Rightarrow> canvas" where
  "putText c left y_top l s fnt color =
     (let align = (if s_textAlign s \<noteq> [] then s_textAlign s else ''left'');
          c = set_fillStyle color c;
          c = set_font fnt c;
          c = set_textAlign align c;
          c = set_textBaseline ''middle'' c
      in fillText (label_text l) left y_top c)"

definition label_top :: "canvas \<Rightarrow> style \<Rightarrow> opt obj \<Rightarrow> num" where
  "label_top c s options =
     js_add (if s_top s \<noteq> [] then parse_int_10 (s_top s)
       else js_sub (js_sub (js_sub (height c) (opt_number options ''legendHeight'')) (parse_int_10 (s_bottom s))) (parse_int_10 (s_height s)))
     (opt_number options ''magicNumbertop'')"

definition label_left :: "style \<Rightarrow> num" where
  "label_left s = (let left = parse_int_10 (s_left s); w = parse_int_10 (s_width s) in
     if s_textAlign s = ''center'' then js_add left (js_ceil (js_div w (Fin 2)))
     else if s_textAlign s = ''right'' then js_add left w
     else left)"

definition putLabel :: "opt obj \<Rightarrow> string option \<Rightarrow> string option \<Rightarrow> div_label option \<Rightarrow> canvas \<Rightarrow> canvas" where
  "putLabel options fnt color divLabel c =
     (case divLabel of None \<Rightarrow> c
      | Some l \<Rightarrow> (case div_style l of None \<Rightarrow> c
          | Some s \<Rightarrow> putText c (label_left s) (label_top c s options) l s fnt color))"

definition putVerticalLabelY1 ::
    "(string \<Rightarrow> string \<Rightarrow> num) \<Rightarrow> opt obj \<Rightarrow> string option \<Rightarrow> string option \<Rightarrow> string \<Rightarrow> div_label option \<Rightarrow> canvas \<Rightarrow> canvas result" where
  "putVerticalLabelY1 measureText options fnt color align divLabel c =
     (case divLabel of None \<Rightarrow> Inr c
      | Some l \<Rightarrow> (case div_style l of None \<Rightarrow> Inl TypeError
          | Some s \<Rightarrow>
              (let txt = label_text l;
                   left = js_add (parse_int_10 (s_left s)) (js_div (parse_int_10 (s_width s)) (Fin 2));
                   left = (if js_falsy left then opt_number options ''vLabelLeft'' else left);
                   w = measureText (font (state c)) txt;
                   y_top = (if align = ''center'' then js_ceil (js_add (js_div (js_sub (height c) w) (Fin 2)) w)
                     else parse_int_10 (s_top s));
                   c = add_transform (Quarter (- 1)) (add_transform (Translate (Fin 0) (height c)) (save c));
                   c = set_textAlign align (set_font fnt (set_fillStyle color c))
               in Inr (restore (fillText txt y_top left c)))))"

definition putVerticalLabelY2 ::
    "string option \<Rightarrow> string option \<Rightarrow> string \<Rightarrow> div_label option \<Rightarrow> canvas \<Rightarrow> canvas result" where
  "putVerticalLabelY2 fnt color align divLabel c =
     (case divLabel of None \<Rightarrow> Inr c
      | Some l \<Rightarrow> (case div_style l of None \<Rightarrow> Inl TypeError
          | Some s \<Rightarrow>
              (let txt = label_text l;
                   right = js_add (parse_int_10 (s_right s)) (js_mul (parse_int_10 (s_width s)) (Fin 2));
                   y_top = (if align = ''center'' then js_ceil (js_div (height c) (Fin 2)) else parse_int_10 (s_top s));
                   w = width c;
                   c = add_transform (Quarter 1) (add_transform (Translate (parse_int_10 (s_width s)) (Fin 0)) (save c));
                   c = set_textAlign align (set_font fnt (set_fillStyle color c))
               in Inr (restore (fillText txt y_top (js_sub right w) c)))))"

definition getPlugin :: "plot \<Rightarrow> string \<Rightarrow> plugin option" where
  "getPlugin d name = find (\<lambda>p. plugin_name p = name) (plugins d)"

definition draw_axes :: "opt obj \<Rightarrow> plugin \<Rightarrow> canvas \<Rightarrow> canvas" where
  "draw_axes options p c =
     foldl (\<lambda>c l. putLabel options (opt_text options ''labelFont'') (opt_text options ''labelFontColor'') l c) c
       (ylabels p @ xlabels p)"

definition draw_labels :: "(string \<Rightarrow> string \<Rightarrow> num) \<Rightarrow> opt obj \<Rightarrow> plugin \<Rightarrow> canvas \<Rightarrow> canvas result" where
  "draw_labels measureText options p c =
     (let titleFont = opt_text options ''titleFont''; titleColor = opt_text options ''titleFontColor'';
          axisFont = opt_text options ''axisLabelFont''; axisColor = opt_text options ''axisLabelFontColor'';
          c = putLabel options titleFont titleColor (title_div p) c;
          c = putLabel options axisFont axisColor (xlabel_div p) c
      in res_bind (putVerticalLabelY1 measureText options axisFont axisColor ''center'' (ylabel_div p) c) (\<lambda>c.
         putVerticalLabelY2 axisFont axisColor ''center'' (y2label_div p) c))"

text \<open>Nothing defines \<open>Dygraph.Export.putLabelAnn\<close>: calling it throws.\<close>

definition draw_annotations :: "plot \<Rightarrow> canvas \<Rightarrow> canvas result" where
  "draw_annotations d c = (if annotations d = [] then Inr c else Inl TypeError)"

definition drawPlot :: "(string \<Rightarrow> string \<Rightarrow> num) \<Rightarrow> canvas \<Rightarrow> plot \<Rightarrow> opt obj \<Rightarrow> canvas result" where
  "drawPlot measureText c d options =
     (let c = fillRect (Fin 0) (Fin 0) (width c) (height c) (set_fillStyle (opt_text options ''backgroundColor'') c);
          c = drawImage (Fin 0) (Fin 0) c;
          c = (case getPlugin d ''Axes Plugin'' of None \<Rightarrow> c | Some p \<Rightarrow> draw_axes options p c)
      in res_bind (case getPlugin d ''ChartLabels Plugin'' of None \<Rightarrow> Inr c | Some p \<Rightarrow> draw_labels measureText options p c)
           (draw_annotations d))"

section \<open>The legend\<close>

definition legend_text :: "string \<Rightarrow> string" where
  "legend_text label = ''- '' @ label"

definition labelMargin :: num where "labelMargin = Fin 5"

definition labels_width :: "(string \<Rightarrow> num) \<Rightarrow> string list \<Rightarrow> num" where
  "labels_width wd labels = foldl (\<lambda>w l. js_add (js_add w (wd (legend_text l))) labelMargin) (Fin 0) labels"

text \<open>
  The loop over the labels: the labels left with their visibility (\<open>undefined\<close> past its end), the
  colors not yet used, the place of the next text.
\<close>

fun legend_loop :: "(string \<Rightarrow> string \<Rightarrow> num) \<Rightarrow> num \<Rightarrow> string list \<Rightarrow> bool list \<Rightarrow> string list \<Rightarrow> num \<Rightarrow> canvas \<Rightarrow> canvas" where
  "legend_loop measureText y [] vs cs x c = c"
| "legend_loop measureText y (l # ls) [] cs x c = legend_loop measureText y ls [] cs x c"
| "legend_loop measureText y (l # ls) (v # vs) cs x c =
     (if v then
        (let txt = legend_text l;
             c = set_fillStyle (case cs of [] \<Rightarrow> None | color # _ \<Rightarrow> Some color) c;
             c = fillText txt x y c
         in legend_loop measureText y ls vs (drop 1 cs) (js_add (js_add x (measureText (font (state c)) txt)) labelMargin) c)
      else legend_loop measureText y ls vs cs x c)"

definition drawLegend :: "(string \<Rightarrow> string \<Rightarrow> num) \<Rightarrow> canvas \<Rightarrow> plot \<Rightarrow> opt obj \<Rightarrow> canvas" where
  "drawLegend measureText c d options =
     (let labels = drop 1 (plot_labels d);
          labelsWidth = labels_width (measureText (font (state c))) labels;
          labelsX = js_floor (js_div (js_sub (width c) labelsWidth) (Fin 2));
          labelsY = js_add (js_sub (height c) (opt_number options ''legendHeight'')) (Fin 10);
          c = set_textBaseline ''middle'' (set_textAlign ''left'' (set_font (opt_text options ''legendFont'') c))
      in legend_loop measureText labelsY labels (plot_visibility d) (plot_colors d) labelsX c)"

definition asCanvas :: "(string \<Rightarrow> string \<Rightarrow> num) \<Rightarrow> plot \<Rightarrow> opt obj option \<Rightarrow> canvas result" where
  "asCanvas measureText d userOptions =
     (let options = update (update [] (Some DEFAULT_ATTRS)) userOptions;
          c = \<lparr>width = plot_width d, height = js_add (plot_height d) (opt_number options ''legendHeight''),
               state = initial_state, saved = [], drawn = []\<rparr>
      in res_bind (drawPlot measureText c d options) (\<lambda>c. Inr (drawLegend measureText c d options)))"

text \<open>\<open>asPNG\<close> sets the source of an image to what \<open>toDataURL\<close> gives for the canvas.\<close>

definition asPNG :: "(canvas \<Rightarrow> string) \<Rightarrow> (string \<Rightarrow> string \<Rightarrow> num) \<Rightarrow> plot \<Rightarrow> opt obj option \<Rightarrow> string result" where
  "asPNG toDataURL measureText d userOptions = res_bind (asCanvas measureText d userOptions) (\<lambda>c. Inr (toDataURL c))"

text \<open>
  The link \<open>img\<close> of the graph page: the page goes to the picture's data.  There is no plot before the
  first answer.
\<close>

definition download_click :: "(canvas \<Rightarrow> string) \<Rightarrow> (string \<Rightarrow> string \<Rightarrow> num) \<Rightarrow> plot option \<Rightarrow> string result" where
  "download_click toDataURL measureText dygraph =
     (case dygraph of None \<Rightarrow> Inl TypeError
      | Some d \<Rightarrow> res_bind (asCanvas measureText d None) (\<lambda>c. Inr (toDataURL c)))"

section \<open>What drawing leaves alone\<close>

text \<open>Two contexts in the same frame: same canvas, transformation and saved states.\<close>

definition same_frame :: "canvas \<Rightarrow> canvas \<Rightarrow> bool" where
  "same_frame c c' \<longleftrightarrow> width c' = width c \<and> height c' = height c \<and> saved c' = saved c
     \<and> transform (state c') = transform (state c)"

lemma same_frame_refl [simp]: "same_frame c c"
  by (simp add: same_frame_def)

lemma same_frame_trans [trans]: "same_frame a b \<Longrightarrow> same_frame b c \<Longrightarrow> same_frame a c"
  by (simp add: same_frame_def)

lemma same_frame_foldl: "(\<And>x c. same_frame c (f c x)) \<Longrightarrow> same_frame c (foldl f c xs)"
proof (induction xs arbitrary: c)
  case (Cons x xs)
  have "same_frame (f c x) (foldl f (f c x) xs)" by (rule Cons.IH, rule Cons.prems)
  then show ?case using same_frame_trans [OF Cons.prems] by simp
qed simp

named_theorems canvas_defs "the operations of a canvas context"

lemmas [canvas_defs] = set_fillStyle_def set_font_def set_textAlign_def set_textBaseline_def add_transform_def save_def
  restore_def fillRect_def drawImage_def fillText_def Let_def

lemma putLabel_frame: "same_frame c (putLabel options fnt color l c)"
  by (simp add: putLabel_def putText_def same_frame_def canvas_defs split: option.split)

lemma turned_frame:
  "same_frame c (restore (fillText t x y (set_textAlign a (set_font f (set_fillStyle v (add_transform q (add_transform p (save c))))))))"
  by (simp add: same_frame_def canvas_defs split: option.split)

lemma vertical_frame:
  "putVerticalLabelY1 measureText options fnt color align l c = Inr c1 \<Longrightarrow> same_frame c c1"
  "putVerticalLabelY2 fnt color align l c = Inr c2 \<Longrightarrow> same_frame c c2"
  by (auto simp only: putVerticalLabelY1_def putVerticalLabelY2_def Let_def turned_frame same_frame_refl sum.inject sum.distinct
      split: option.splits)

lemma draw_labels_frame:
  assumes "draw_labels measureText options p c = Inr c'"
  shows "same_frame c c'"
proof -
  let ?text = "opt_text options"
  let ?c = "putLabel options (?text ''axisLabelFont'') (?text ''axisLabelFontColor'') (xlabel_div p)
    (putLabel options (?text ''titleFont'') (?text ''titleFontColor'') (title_div p) c)"
  have "same_frame c ?c" by (rule same_frame_trans [OF putLabel_frame putLabel_frame])
  also obtain d where "same_frame ?c d" "same_frame d c'"
    using assms unfolding draw_labels_def Let_def by (auto dest: vertical_frame)
  then have "same_frame ?c c'" by (rule same_frame_trans)
  finally show ?thesis .
qed

lemma draw_axes_frame: "same_frame c (draw_axes options p c)"
  unfolding draw_axes_def by (rule same_frame_foldl, rule putLabel_frame)

lemma legend_loop_frame: "same_frame c (legend_loop measureText y ls vs cs x c)"
proof (induction measureText y ls vs cs x c rule: legend_loop.induct)
  case (3 measureText y l ls v vs cs x c)
  have "same_frame c (fillText t x y (set_fillStyle color c))" for t color
    by (simp add: same_frame_def canvas_defs split: option.split)
  note step = same_frame_trans [OF this 3(1) [OF _ refl refl refl]]
  have "v \<Longrightarrow> same_frame c (legend_loop measureText y (l # ls) (v # vs) cs x c)"
    by (simp only: legend_loop.simps Let_def if_True) (rule step, assumption)
  then show ?case using 3(2) by (cases v) simp_all
qed simp_all

lemma drawLegend_frame: "same_frame c (drawLegend measureText c d options)"
proof -
  have "same_frame c (set_textBaseline b (set_textAlign a (set_font f c)))" for a b f
    by (simp add: same_frame_def canvas_defs split: option.split)
  then show ?thesis unfolding drawLegend_def Let_def by (rule same_frame_trans) (rule legend_loop_frame)
qed

lemma drawPlot_frame:
  assumes "drawPlot measureText c d options = Inr c'"
  shows "same_frame c c'"
proof -
  let ?c = "drawImage (Fin 0) (Fin 0) (fillRect (Fin 0) (Fin 0) (width c) (height c) (set_fillStyle (opt_text options ''backgroundColor'') c))"
  let ?a = "case getPlugin d ''Axes Plugin'' of None \<Rightarrow> ?c | Some p \<Rightarrow> draw_axes options p ?c"
  have "same_frame c ?c" by (simp add: same_frame_def canvas_defs split: option.split)
  also have "same_frame ?c ?a" by (simp add: draw_axes_frame split: option.split)
  also have "same_frame ?a c'"
    using assms unfolding drawPlot_def Let_def
    by (auto simp: draw_annotations_def dest: draw_labels_frame split: option.splits if_splits)
  finally show ?thesis .
qed

section \<open>The legend of the picture\<close>

definition visible_labels :: "string list \<Rightarrow> bool list \<Rightarrow> string list" where
  "visible_labels labels vis = map fst (filter snd (zip labels vis))"

text \<open>The place of the next text, and the places of a list of texts from the first one's.\<close>

definition next_place :: "(string \<Rightarrow> num) \<Rightarrow> num \<Rightarrow> string \<Rightarrow> num" where
  "next_place wd x l = js_add (js_add x (wd (legend_text l))) labelMargin"

fun legend_entries :: "(string \<Rightarrow> num) \<Rightarrow> drawing_state \<Rightarrow> num \<Rightarrow> num \<Rightarrow> string list \<Rightarrow> string list \<Rightarrow> drawing list" where
  "legend_entries wd s y x (l # ls) (color # cs) =
     FillText (s\<lparr>fillStyle := color\<rparr>) (legend_text l) x y # legend_entries wd s y (next_place wd x l) ls cs"
| "legend_entries wd s y x _ _ = []"

lemma legend_entries_style: "legend_entries wd (s\<lparr>fillStyle := color\<rparr>) y x ls cs = legend_entries wd s y x ls cs"
  by (induction wd s y x ls cs rule: legend_entries.induct) simp_all

lemma visible_labels_simps [simp]:
  "visible_labels [] vs = []" "visible_labels ls [] = []"
  "visible_labels (l # ls) (v # vs) = (if v then l # visible_labels ls vs else visible_labels ls vs)"
  by (simp_all add: visible_labels_def)

lemma legend_loop_drawn:
  assumes "length (visible_labels ls vs) \<le> length cs"
  shows "drawn (legend_loop measureText y ls vs cs x c) =
    drawn c @ legend_entries (measureText (font (state c))) (state c) y x (visible_labels ls vs) cs"
  using assms
proof (induction measureText y ls vs cs x c rule: legend_loop.induct)
  case (3 measureText y l ls v vs cs x c)
  show ?case
  proof (cases v)
    case True
    then obtain color cs' where cs: "cs = color # cs'" using 3(3) by (cases cs) simp_all
    show ?thesis
      using 3(1) [OF True refl refl refl] 3(3)
      by (simp add: True cs Let_def set_fillStyle_def fillText_def next_place_def legend_entries_style)
  next
    case False
    then show ?thesis using 3(2,3) by simp
  qed
qed simp_all

lemma legend_entries_nth:
  "k < length ls \<Longrightarrow> length ls \<le> length cs \<Longrightarrow> legend_entries wd s y x ls cs ! k =
    FillText (s\<lparr>fillStyle := cs ! k\<rparr>) (legend_text (ls ! k)) (foldl (next_place wd) x (take k ls)) y"
proof (induction wd s y x ls cs arbitrary: k rule: legend_entries.induct)
  case (1 wd s y x l ls color cs)
  then show ?case by (cases k) simp_all
qed simp_all

lemma legend_entries_length: "length ls \<le> length cs \<Longrightarrow> length (legend_entries wd s y x ls cs) = length ls"
  by (induction wd s y x ls cs rule: legend_entries.induct) simp_all

lemma drawLegend_drawn:
  fixes wd c d options
  defines "labels \<equiv> drop 1 (plot_labels d)"
  defines "fnt \<equiv> (case opt_text options ''legendFont'' of None \<Rightarrow> font (state c) | Some f \<Rightarrow> f)"
  assumes "length (visible_labels labels (plot_visibility d)) \<le> length (plot_colors d)"
  shows "drawn (drawLegend measureText c d options) = drawn c @
    legend_entries (measureText fnt) ((state c)\<lparr>font := fnt, textAlign := ''left'', textBaseline := ''middle''\<rparr>)
      (js_add (js_sub (height c) (opt_number options ''legendHeight'')) (Fin 10))
      (js_floor (js_div (js_sub (width c) (labels_width (measureText (font (state c))) labels)) (Fin 2)))
      (visible_labels labels (plot_visibility d)) (plot_colors d)"
  using assms(3) unfolding labels_def fnt_def drawLegend_def Let_def
  by (simp add: legend_loop_drawn set_textBaseline_def set_textAlign_def set_font_def split: option.split)

text \<open>the legend of an exported picture lists the visible series, in order, each behind a dash and
  in its own color, on one line; a text begins where the one before it ends and a margin of five
  pixels.  The place of the first is computed from the labels of all the series, visible or not, in
  the font in force before the legend's.\<close>

theorem legend_lists_visible:
  fixes d :: plot
  defines "labels \<equiv> drop 1 (plot_labels d)"
  defines "visible \<equiv> visible_labels labels (plot_visibility d)"
  assumes "length visible \<le> length (plot_colors d)" "opt_text options ''legendFont'' = Some fnt"
  shows "\<exists>entries. drawn (drawLegend measureText c d options) = drawn c @ entries \<and> length entries = length visible
    \<and> (\<forall>k < length visible. entries ! k =
        FillText ((state c)\<lparr>fillStyle := plot_colors d ! k, font := fnt, textAlign := ''left'', textBaseline := ''middle''\<rparr>)
          (''- '' @ visible ! k)
          (foldl (\<lambda>x l. js_add (js_add x (measureText fnt (''- '' @ l))) (Fin 5))
             (js_floor (js_div (js_sub (width c) (labels_width (measureText (font (state c))) labels)) (Fin 2))) (take k visible))
          (js_add (js_sub (height c) (opt_number options ''legendHeight'')) (Fin 10)))"
proof -
  have place: "next_place (measureText fnt) = (\<lambda>x l. js_add (js_add x (measureText fnt (''- '' @ l))) (Fin 5))"
    by (simp only: next_place_def legend_text_def labelMargin_def fun_eq_iff simp_thms)
  note drawn = drawLegend_drawn [of d measureText c options]
  show ?thesis
    by (rule exI, intro conjI allI impI, rule drawn [folded labels_def visible_def, unfolded assms(4) option.case, OF assms(3)])
      (simp_all only: legend_entries_length [OF assms(3)] legend_entries_nth [OF _ assms(3)] place legend_text_def,
       simp)
qed

theorem legend_lists_visible_witness:
  "\<exists>entries. drawn (drawLegend (\<lambda>f t. Fin 10)
      \<lparr>width = Fin 100, height = Fin 70, state = initial_state, saved = [], drawn = []\<rparr>
      \<lparr>plot_width = Fin 100, plot_height = Fin 50, plugins = [], annotations = [], plot_colors = [''red''],
        plot_labels = [''t'', ''a'', ''b''], plot_visibility = [False, True]\<rparr> DEFAULT_ATTRS) = entries
    \<and> length entries = 1"
  using legend_lists_visible [of "\<lparr>plot_width = Fin 100, plot_height = Fin 50, plugins = [], annotations = [],
      plot_colors = [''red''], plot_labels = [''t'', ''a'', ''b''], plot_visibility = [False, True]\<rparr>"
      DEFAULT_ATTRS "''bold 12px serif''" "\<lambda>f t. Fin 10"
      "\<lparr>width = Fin 100, height = Fin 70, state = initial_state, saved = [], drawn = []\<rparr>"]
  by (auto simp: opt_text_def DEFAULT_ATTRS_def obj_get_def)

section \<open>When the export fails\<close>

definition has_style :: "div_label option \<Rightarrow> bool" where
  "has_style l = (case l of None \<Rightarrow> True | Some l \<Rightarrow> div_style l \<noteq> None)"

lemma draw_labels_ok:
  assumes "has_style (ylabel_div p)" "has_style (y2label_div p)"
  shows "\<exists>c'. draw_labels measureText options p c = Inr c'"
proof -
  have "\<exists>c'. putVerticalLabelY1 measureText options f v a (ylabel_div p) c = Inr c'"
    "\<exists>c'. putVerticalLabelY2 f v a (y2label_div p) c = Inr c'" for f v a c
    using assms by (auto simp: putVerticalLabelY1_def putVerticalLabelY2_def has_style_def Let_def split: option.splits)
  then show ?thesis unfolding draw_labels_def Let_def by (metis res_bind.simps(2))
qed

text \<open>the picture of a plot whose axis labels are elements of the page is exported exactly when the
  plot has no annotations: the first annotation calls a function that does not exist, and the page
  gets a \<open>TypeError\<close> instead of the picture.\<close>

theorem export_fails_on_annotations:
  assumes "\<forall>p \<in> set (plugins d). has_style (ylabel_div p) \<and> has_style (y2label_div p)"
  shows "asCanvas measureText d userOptions = Inl e \<longleftrightarrow> annotations d \<noteq> [] \<and> e = TypeError"
proof -
  have "\<exists>c'. (case getPlugin d ''ChartLabels Plugin'' of None \<Rightarrow> Inr c | Some p \<Rightarrow> draw_labels measureText options p c) = Inr c'"
    for c options
  proof (cases "getPlugin d ''ChartLabels Plugin''")
    case (Some p)
    then have "p \<in> set (plugins d)" unfolding getPlugin_def by (auto simp: find_Some_iff)
    then show ?thesis using Some assms draw_labels_ok by simp
  qed simp
  then have "\<exists>c'. drawPlot measureText c d options = draw_annotations d c'" for c options
    unfolding drawPlot_def Let_def by (metis res_bind.simps(2))
  then obtain c' where "asCanvas measureText d userOptions = res_bind (draw_annotations d c')
      (\<lambda>c. Inr (drawLegend measureText c d (update (update [] (Some DEFAULT_ATTRS)) userOptions)))"
    unfolding asCanvas_def Let_def by metis
  then show ?thesis by (auto simp: draw_annotations_def)
qed

theorem export_fails_on_annotations_witness:
  "asCanvas (\<lambda>f t. Fin 10) \<lparr>plot_width = Fin 100, plot_height = Fin 50, plugins = [],
      annotations = [\<lparr>div_style = None, innerText = ''deploy'', textContent = []\<rparr>], plot_colors = [''red''],
      plot_labels = [''t'', ''a''], plot_visibility = [True]\<rparr> None = Inl TypeError"
  using export_fails_on_annotations [of "\<lparr>plot_width = Fin 100, plot_height = Fin 50, plugins = [],
      annotations = [\<lparr>div_style = None, innerText = ''deploy'', textContent = []\<rparr>], plot_colors = [''red''],
      plot_labels = [''t'', ''a''], plot_visibility = [True]\<rparr>" "\<lambda>f t. Fin 10" None TypeError] by simp

text \<open>Whatever is exported, the context ends upright, with no state put aside.\<close>

lemma export_upright:
  assumes "asCanvas measureText d userOptions = Inr c"
  shows "transform (state c) = []" "saved c = []" "width c = plot_width d"
proof -
  let ?o = "update (update [] (Some DEFAULT_ATTRS)) userOptions"
  let ?c = "\<lparr>width = plot_width d, height = js_add (plot_height d) (opt_number ?o ''legendHeight''),
    state = initial_state, saved = [], drawn = []\<rparr>"
  obtain c1 where "drawPlot measureText ?c d ?o = Inr c1" and c: "c = drawLegend measureText c1 d ?o"
    using assms unfolding asCanvas_def Let_def by (auto simp only: res_bind_Inr sum.inject)
  then have "same_frame ?c c" using same_frame_trans [OF drawPlot_frame drawLegend_frame] by blast
  then show "transform (state c) = []" "saved c = []" "width c = plot_width d"
    by (simp_all add: same_frame_def initial_state_def)
qed

end
