(* ===== verification/Pailer.thy ===== *)
theory Pailer
  imports JSString
begin

text \<open>
  The log viewer of the Thermos observer (\<open>jquery.pailer.js\<close>): it shows a window of a growing log,
  adds to its end while the reader is at the bottom (tailing), and to its front when the reader
  scrolls to the top (paging).  Reads and timers in flight are kept in lists, an event takes one of
  them.  What the browser and jQuery make of a text, the text they give back for the contents of an element
  and its height are functions of the viewer; the contents are a list of nodes of any type.
\<close>

section \<open>State\<close>

text \<open>The options of the plugin, and the browser it runs in.\<close>

record 'n viewer =
  page_size :: int
  truncate_length :: int
  view_height :: int
  scroll_height :: "'n list \<Rightarrow> int"
  of_html :: "string \<Rightarrow> 'n list" \<comment> \<open>what \<open>html(h)\<close> puts into the element\<close>
  fragment :: "string \<Rightarrow> 'n list" \<comment> \<open>what \<open>append\<close> and \<open>prepend\<close> make of a text\<close>
  inner_html :: "'n list \<Rightarrow> string" \<comment> \<open>\<open>html()\<close>\<close>

text \<open>
  Reads in flight: of the current size, of the tail from an offset, and of a page: offset and
  length still wanted and the buffer of what was read before.
\<close>

datatype log_read = ReadEnd | ReadTail int | ReadPage int int string

datatype timer = ClearIndicator | InitTimer | PageTimer | TailTimer

record 'n pailer =
  initialized :: bool
  start :: int
  stop :: int
  paging :: bool
  tailing :: bool
  contents :: "'n list"
  scrollTop :: int
  indicator :: "string option" \<comment> \<open>\<open>None\<close>: no indicator element\<close>
  in_flight :: "log_read list"
  timers :: "timer list"

text \<open>What a read returns.\<close>

record log_data =
  d_offset :: int
  d_length :: int
  d_data :: "string option"

definition new_pailer :: "'n list \<Rightarrow> string option \<Rightarrow> 'n pailer" where
  "new_pailer h ind = \<lparr>initialized = False, start = -1, stop = -1, paging = False, tailing = True, contents = h,
     scrollTop = 0, indicator = ind, in_flight = [], timers = []\<rparr>"

section \<open>Operations\<close>

definition indicate :: "string \<Rightarrow> 'n pailer \<Rightarrow> 'n pailer" where
  "indicate t s = (case indicator s of None \<Rightarrow> s | Some _ \<Rightarrow> s\<lparr>indicator := Some t\<rparr>)"

definition send_read :: "log_read \<Rightarrow> 'n pailer \<Rightarrow> 'n pailer" where
  "send_read r s = s\<lparr>in_flight := in_flight s @ [r]\<rparr>"

definition set_timer :: "timer \<Rightarrow> 'n pailer \<Rightarrow> 'n pailer" where
  "set_timer t s = s\<lparr>timers := timers s @ [t]\<rparr>"

text \<open>Setting \<open>scrollTop\<close> is limited to what can be scrolled.\<close>

definition set_scrollTop :: "'n viewer \<Rightarrow> int \<Rightarrow> 'n pailer \<Rightarrow> 'n pailer" where
  "set_scrollTop c v s = s\<lparr>scrollTop := max 0 (min v (scroll_height c (contents s) - view_height c))\<rparr>"

text \<open>The contents are replaced; where the element can scroll less, its position moves.\<close>

definition put :: "'n viewer \<Rightarrow> 'n list \<Rightarrow> 'n pailer \<Rightarrow> 'n pailer" where
  "put c ns s = set_scrollTop c (scrollTop s) (s\<lparr>contents := ns\<rparr>)"

definition set_html :: "'n viewer \<Rightarrow> string \<Rightarrow> 'n pailer \<Rightarrow> 'n pailer" where
  "set_html c h s = put c (of_html c h) s"

definition newline_index :: "string \<Rightarrow> int" where
  "newline_index t = (let n = length (takeWhile (\<lambda>c. c \<noteq> CHR 0x0A) t) in if n < length t then int n + 1 else 0)"

definition truncate :: "'n viewer \<Rightarrow> 'n pailer \<Rightarrow> 'n pailer" where
  "truncate c s = (let text = inner_html c (contents s); len = int (length text) in
     if truncate_length c \<le> len
     then set_html c (drop (nat (len - truncate_length c)) text) (s\<lparr>start := stop s - truncate_length c\<rparr>)
     else s)"

subsection \<open>Starting\<close>

definition initialize :: "'n pailer \<Rightarrow> 'n pailer" where
  "initialize s = send_read ReadEnd (indicate ''(LOADING)'' s)"

definition init_success :: "'n viewer \<Rightarrow> log_data \<Rightarrow> 'n pailer \<Rightarrow> 'n pailer" where
  "init_success c d s =
     (let s1 = indicate [] s;
          b = (if page_size c < d_offset d then d_offset d - page_size c else 0) in
      set_timer TailTimer (set_html c [] (s1\<lparr>start := b, stop := b, initialized := True\<rparr>)))"

definition init_error :: "'n pailer \<Rightarrow> 'n pailer" where
  "init_error s = set_timer InitTimer (indicate ''(FAILED TO INITIALIZE ... RETRYING)'' s)"

subsection \<open>Paging\<close>

definition page_back :: "'n viewer \<Rightarrow> 'n pailer \<Rightarrow> 'n pailer" where
  "page_back c s =
     (if \<not> initialized s then s
      else if paging s then s
      else
        (let s1 = indicate ''(PAGING)'' (s\<lparr>paging := True\<rparr>) in
         if start s1 = 0 then
           set_timer ClearIndicator (indicate ''(AT BEGINNING OF FILE)'' (s1\<lparr>paging := False\<rparr>))
         else
           (let offset = start s1 - page_size c in
            if offset < 0 then send_read (ReadPage 0 (start s1) []) s1
            else send_read (ReadPage offset (page_size c) []) s1)))"

definition data_text :: "log_data \<Rightarrow> string" where
  "data_text d = (case d_data d of None \<Rightarrow> ''undefined'' | Some t \<Rightarrow> t)"

definition page_success :: "'n viewer \<Rightarrow> int \<Rightarrow> int \<Rightarrow> string \<Rightarrow> log_data \<Rightarrow> 'n pailer \<Rightarrow> 'n pailer" where
  "page_success c offset len buffer d s =
     (if d_length d < len then
        send_read (ReadPage (offset + d_length d) (len - d_length d) (buffer @ data_text d)) s
      else if 0 < d_length d then
        (let s1 = set_timer ClearIndicator (indicate ''(PAGED)'' s);
             off1 = d_offset d - int (length buffer);
             text1 = buffer @ data_text d;
             index = (if off1 \<noteq> 0 then newline_index text1 else 0);
             text2 = drop (nat index) text1;
             top = scrollTop s1;
             height = scroll_height c (contents s1);
             s2 = put c (fragment c text2 @ contents s1) (s1\<lparr>start := off1 + index\<rparr>) in
         (set_scrollTop c (top + (scroll_height c (contents s2) - height)) s2)\<lparr>paging := False\<rparr>)
      else s)"

definition page_error :: "'n pailer \<Rightarrow> 'n pailer" where
  "page_error s = set_timer PageTimer (indicate ''(FAILED TO PAGE ... RETRYING)'' s)"

subsection \<open>Tailing\<close>

definition tail :: "'n pailer \<Rightarrow> 'n pailer" where
  "tail s = (if \<not> initialized s then s else send_read (ReadTail (stop s)) s)"

text \<open>\<open>None\<close> when data is missing and its first newline is looked for: the handler throws.  Appending
  missing data appends nothing.\<close>

definition tail_success :: "'n viewer \<Rightarrow> log_data \<Rightarrow> 'n pailer \<Rightarrow> 'n pailer option" where
  "tail_success c d s =
     (let height = scroll_height c (contents s) in
      if scrollTop s + view_height c < height then Some (s\<lparr>tailing := False\<rparr>)
      else if 0 < d_length d then
        (if start s = stop s \<and> d_offset d \<noteq> 0 \<and> d_data d = None then None
         else
           (let first = start s = stop s \<and> d_offset d \<noteq> 0;
                t0 = (case d_data d of None \<Rightarrow> [] | Some t \<Rightarrow> t);
                index = (if first then newline_index t0 else 0);
                off1 = d_offset d + index;
                t1 = drop (nat index) t0;
                len1 = d_length d - index;
                s1 = (if first then s\<lparr>start := off1\<rparr> else s);
                new = (case d_data d of None \<Rightarrow> [] | Some _ \<Rightarrow> fragment c t1);
                s2 = put c (contents s1 @ new) (s1\<lparr>stop := off1 + len1\<rparr>);
                s3 = set_scrollTop c (scrollTop s + (scroll_height c (contents s2) - height)) s2 in
            Some (set_timer TailTimer (truncate c s3))))
      else Some (set_timer TailTimer s))"

definition tail_error :: "'n pailer \<Rightarrow> 'n pailer" where
  "tail_error s = set_timer InitTimer ((indicate ''(FAILED TO TAIL ... RETRYING)'' s)\<lparr>initialized := False\<rparr>)"

subsection \<open>Events\<close>

text \<open>The scroll handler, for the position the reader scrolled to.\<close>

definition on_scroll :: "'n viewer \<Rightarrow> int \<Rightarrow> 'n pailer \<Rightarrow> 'n pailer" where
  "on_scroll c v s0 =
     (let s = set_scrollTop c v s0 in
      if scrollTop s = 0 then page_back c s
      else if scroll_height c (contents s) \<le> scrollTop s + view_height c then
        (if \<not> tailing s then tail (s\<lparr>tailing := True\<rparr>) else s)
      else s\<lparr>tailing := False\<rparr>)"

definition fire :: "'n viewer \<Rightarrow> timer \<Rightarrow> 'n pailer \<Rightarrow> 'n pailer" where
  "fire c t s = (case t of
       ClearIndicator \<Rightarrow> indicate [] s
     | InitTimer \<Rightarrow> initialize (indicate [] s)
     | PageTimer \<Rightarrow> page_back c (indicate [] s)
     | TailTimer \<Rightarrow> tail s)"

definition drop_nth :: "nat \<Rightarrow> 'a list \<Rightarrow> 'a list" where
  "drop_nth i xs = take i xs @ drop (Suc i) xs"

text \<open>The answer of the \<open>i\<close>-th read in flight, \<open>None\<close> for an error.\<close>

definition on_answer :: "'n viewer \<Rightarrow> nat \<Rightarrow> log_data option \<Rightarrow> 'n pailer \<Rightarrow> 'n pailer option" where
  "on_answer c i d s0 =
     (let s = s0\<lparr>in_flight := drop_nth i (in_flight s0)\<rparr> in
      case (in_flight s0 ! i, d) of
        (ReadEnd, Some x) \<Rightarrow> Some (init_success c x s)
      | (ReadEnd, None) \<Rightarrow> Some (init_error s)
      | (ReadPage offset len buffer, Some x) \<Rightarrow> Some (page_success c offset len buffer x s)
      | (ReadPage offset len buffer, None) \<Rightarrow> Some (page_error s)
      | (ReadTail offset, Some x) \<Rightarrow> tail_success c x s
      | (ReadTail offset, None) \<Rightarrow> Some (tail_error s))"

datatype event = Scroll int | Answer nat "log_data option" | Fire nat

text \<open>\<open>pailer_step\<close>: a handler that throws leaves the state in which it was called.\<close>

inductive pailer_step :: "'n viewer \<Rightarrow> 'n pailer \<Rightarrow> event \<Rightarrow> 'n pailer \<Rightarrow> bool" for c where
  scroll: "pailer_step c s (Scroll v) (on_scroll c v s)"
| answer: "i < length (in_flight s) \<Longrightarrow> on_answer c i d s = Some s' \<Longrightarrow> pailer_step c s (Answer i d) s'"
| throws: "i < length (in_flight s) \<Longrightarrow> on_answer c i d s = None \<Longrightarrow>
    pailer_step c s (Answer i d) (s\<lparr>in_flight := drop_nth i (in_flight s)\<rparr>)"
| fire: "i < length (timers s) \<Longrightarrow>
    pailer_step c s (Fire i) (fire c (timers s ! i) (s\<lparr>timers := drop_nth i (timers s)\<rparr>))"

inductive pailer_run :: "'n viewer \<Rightarrow> 'n pailer \<Rightarrow> event list \<Rightarrow> 'n pailer \<Rightarrow> bool" for c where
  refl: "pailer_run c s [] s"
| step: "pailer_run c s es s' \<Longrightarrow> pailer_step c s' e s'' \<Longrightarrow> pailer_run c s (es @ [e]) s''"

text \<open>The plugin: each selected element gets one pailer, which is started.\<close>

definition pailer_plugin :: "(nat \<Rightarrow> 'n pailer option) \<Rightarrow> (nat \<Rightarrow> 'n list) \<Rightarrow> string option \<Rightarrow> nat \<Rightarrow> (nat \<Rightarrow> 'n pailer option)" where
  "pailer_plugin data nodes ind el = (case data el of
       None \<Rightarrow> data(el \<mapsto> initialize (new_pailer (nodes el) ind))
     | Some _ \<Rightarrow> data)"

definition default_page_size :: int where "default_page_size = 8 * 4096"
definition default_truncate_length :: int where "default_truncate_length = 50000"

section \<open>Windows of the log\<close>

definition slice :: "string \<Rightarrow> int \<Rightarrow> int \<Rightarrow> string" where
  "slice log a b = take (nat (b - a)) (drop (nat a) log)"

lemma slice_length: "0 \<le> a \<Longrightarrow> a \<le> b \<Longrightarrow> b \<le> int (length log) \<Longrightarrow> length (slice log a b) = nat (b - a)"
  by (simp add: slice_def)

lemma slice_append:
  assumes "0 \<le> a" "a \<le> b" "b \<le> c"
  shows "slice log a b @ slice log b c = slice log a c"
proof -
  have "nat (c - a) = nat (b - a) + nat (c - b)" "nat b = nat (b - a) + nat a" using assms by auto
  then show ?thesis by (simp add: slice_def take_add)
qed

lemma slice_drop:
  assumes "0 \<le> a" "0 \<le> k" "k \<le> b - a"
  shows "drop (nat k) (slice log a b) = slice log (a + k) b"
proof -
  have "nat (b - a) - nat k = nat (b - (a + k))" "nat k + nat a = nat (a + k)" using assms by auto
  then show ?thesis by (simp add: slice_def drop_take)
qed

lemma slice_empty [simp]: "slice log a a = []"
  by (simp add: slice_def)

lemma slice_log_append: "0 \<le> a \<Longrightarrow> b \<le> int (length log) \<Longrightarrow> slice (log @ ext) a b = slice log a b"
  by (cases "a \<le> b") (auto simp: slice_def)

lemma newline_index_bounds: "0 \<le> newline_index t \<and> newline_index t \<le> int (length t)"
  by (auto simp: newline_index_def Let_def)

definition window :: "'n viewer \<Rightarrow> string \<Rightarrow> 'n pailer \<Rightarrow> bool" where
  "window c log s \<longleftrightarrow> 0 \<le> start s \<and> start s \<le> stop s \<and> stop s \<le> int (length log)
     \<and> inner_html c (contents s) = slice log (start s) (stop s)"

text \<open>
  Characters that markup leaves alone and that are one byte of the log and one character of the text.
  The server (\<open>_read_chunk\<close> of \<open>file_browser.py\<close>) escapes what it sends with \<open>xml.sax.saxutils.escape\<close>.
\<close>

definition plain_char :: "char \<Rightarrow> bool" where
  "plain_char x \<longleftrightarrow> x \<noteq> CHR ''&'' \<and> x \<noteq> CHR ''<'' \<and> x \<noteq> CHR ''>'' \<and>
     (x = CHR 0x0A \<or> x = CHR 0x09 \<or> 32 \<le> (of_char x :: nat) \<and> (of_char x :: nat) \<le> 126)"

definition xml_escape :: "string \<Rightarrow> string" where
  "xml_escape t = concat (map (\<lambda>x. if x = CHR ''&'' then ''&amp;'' else if x = CHR ''>'' then ''&gt;''
     else if x = CHR ''<'' then ''&lt;'' else [x]) t)"

lemma xml_escape_plain: "list_all plain_char t \<Longrightarrow> xml_escape t = t"
  by (induction t) (auto simp: xml_escape_def plain_char_def)

lemma slice_plain: "list_all plain_char log \<Longrightarrow> list_all plain_char (slice log a b)"
  by (auto simp: list_all_iff slice_def dest: in_set_takeD in_set_dropD)

text \<open>What browsers and jQuery document of text without markup: it is put into the page as it is, and read back as it
  is; the text of nodes one after the other is their texts one after the other.\<close>

definition plain_browser :: "'n viewer \<Rightarrow> bool" where
  "plain_browser c \<longleftrightarrow> (\<forall>a b. inner_html c (a @ b) = inner_html c a @ inner_html c b)
     \<and> (\<forall>t. list_all plain_char t \<longrightarrow> inner_html c (of_html c t) = t \<and> inner_html c (fragment c t) = t)"

lemma browser_simps:
  assumes "plain_browser c"
  shows "inner_html c (a @ b) = inner_html c a @ inner_html c b"
    and "list_all plain_char t \<Longrightarrow> inner_html c (of_html c t) = t"
    and "list_all plain_char t \<Longrightarrow> inner_html c (fragment c t) = t"
  using assms unfolding plain_browser_def by blast+

text \<open>What the server answers: the text at the offset asked for, as far as there is any, escaped, and with the
  number of bytes read; no text when nothing was read.\<close>

definition served :: "string \<Rightarrow> int \<Rightarrow> int \<Rightarrow> string option" where
  "served log off n = (if n = 0 then None else Some (xml_escape (slice log off (off + n))))"

definition honest :: "string \<Rightarrow> log_read \<Rightarrow> log_data \<Rightarrow> bool" where
  "honest log r d = (case r of
       ReadEnd \<Rightarrow> d_offset d = int (length log) \<and> d_length d = 0 \<and> d_data d = None
     | ReadTail off \<Rightarrow> d_offset d = off \<and> 0 \<le> d_length d \<and> off + d_length d \<le> int (length log)
         \<and> d_data d = served log off (d_length d)
     | ReadPage off len buffer \<Rightarrow> d_offset d = off \<and> 0 < d_length d \<and> d_length d \<le> len
         \<and> d_data d = served log off (d_length d))"

text \<open>A read in flight that fits the window: the tail starts at its end, a page ends at its start.\<close>

definition fits :: "string \<Rightarrow> 'n pailer \<Rightarrow> log_read \<Rightarrow> bool" where
  "fits log s r = (case r of
       ReadEnd \<Rightarrow> True
     | ReadTail off \<Rightarrow> initialized s \<and> off = stop s
     | ReadPage off len buffer \<Rightarrow> initialized s \<and> 0 < len \<and> off + len = start s
         \<and> int (length buffer) \<le> off \<and> buffer = slice log (off - int (length buffer)) off)"

definition pailer_ok :: "'n viewer \<Rightarrow> string \<Rightarrow> 'n pailer \<Rightarrow> bool" where
  "pailer_ok c log s \<longleftrightarrow> (initialized s \<longrightarrow> window c log s) \<and> list_all (fits log s) (in_flight s)"

definition core :: "'n pailer \<Rightarrow> bool \<times> int \<times> int \<times> 'n list" where
  "core s = (initialized s, start s, stop s, contents s)"

lemma core_indicate [simp]: "core (indicate t s) = core s"
  by (simp add: indicate_def core_def split: option.split)
lemma core_send [simp]: "core (send_read r s) = core s" by (simp add: send_read_def core_def)
lemma core_timer [simp]: "core (set_timer t s) = core s" by (simp add: set_timer_def core_def)
lemma core_scroll [simp]: "core (set_scrollTop c v s) = core s" by (simp add: set_scrollTop_def core_def)

lemma indicate_fields [simp]: "initialized (indicate t s) = initialized s" "start (indicate t s) = start s"
    "stop (indicate t s) = stop s" "contents (indicate t s) = contents s" "paging (indicate t s) = paging s"
  by (simp_all add: indicate_def split: option.split)

lemma flight_indicate [simp]: "in_flight (indicate t s) = in_flight s"
  by (simp add: indicate_def split: option.split)
lemma flight_send [simp]: "in_flight (send_read r s) = in_flight s @ [r]" by (simp add: send_read_def)
lemma flight_timer [simp]: "in_flight (set_timer t s) = in_flight s" by (simp add: set_timer_def)
lemma flight_scroll [simp]: "in_flight (set_scrollTop c v s) = in_flight s" by (simp add: set_scrollTop_def)
lemma flight_html [simp]: "in_flight (put c ns s) = in_flight s" "in_flight (set_html c h s) = in_flight s"
  by (simp_all add: set_html_def put_def)

lemma core_html: "core (put c ns s) = (initialized s, start s, stop s, ns)"
    "core (set_html c h s) = (initialized s, start s, stop s, of_html c h)"
  by (simp_all add: set_html_def put_def) (simp_all add: core_def)

lemma core_fields: "core s = (i, a, b, h) \<longleftrightarrow> initialized s = i \<and> start s = a \<and> stop s = b \<and> contents s = h"
  by (simp add: core_def)

lemma fits_core: "core s = core t \<Longrightarrow> fits log s r = fits log t r"
  by (auto simp: core_def fits_def split: log_read.split)

lemma window_core: "core s = core t \<Longrightarrow> window c log s = window c log t"
  by (simp add: core_def window_def)

lemma ok_core: "core s = core t \<Longrightarrow> in_flight s = in_flight t \<Longrightarrow> pailer_ok c log s = pailer_ok c log t"
proof -
  assume c: "core s = core t" "in_flight s = in_flight t"
  have "fits log s = fits log t" using fits_core [OF c(1)] by (rule ext)
  then show "pailer_ok c log s = pailer_ok c log t"
    using c window_core [OF c(1), of c log] by (simp add: pailer_ok_def core_def)
qed

lemma ok_send: "pailer_ok c log s \<Longrightarrow> fits log s r \<Longrightarrow> pailer_ok c log (send_read r s)"
proof -
  assume ok: "pailer_ok c log s" and r: "fits log s r"
  have c: "core (send_read r s) = core s" by simp
  have "fits log (send_read r s) = fits log s" using fits_core [OF c] by (rule ext)
  then show "pailer_ok c log (send_read r s)"
    using ok r window_core [OF c, of c log] by (simp add: pailer_ok_def) (simp add: send_read_def)
qed

section \<open>The window is a piece of the log\<close>

definition sizes_ok :: "'n viewer \<Rightarrow> bool" where
  "sizes_ok c \<longleftrightarrow> 0 < page_size c \<and> 0 < truncate_length c \<and> plain_browser c"

lemma sizes_ok_browser: "sizes_ok c \<Longrightarrow> plain_browser c"
  by (simp add: sizes_ok_def)

lemma served_plain: "list_all plain_char log \<Longrightarrow> 0 < n \<Longrightarrow> served log off n = Some (slice log off (off + n))"
  by (simp add: served_def xml_escape_plain slice_plain)

lemma window_truncate:
  assumes "window c log s" "sizes_ok c" "in_flight s = []" "initialized s" "list_all plain_char log"
  shows "pailer_ok c log (truncate c s)"
proof -
  let ?text = "inner_html c (contents s)"
  have len: "int (length ?text) = stop s - start s"
    using assms(1) slice_length [of "start s" "stop s" log] by (auto simp: window_def)
  show ?thesis
  proof (cases "truncate_length c \<le> int (length ?text)")
    case True
    let ?rest = "drop (nat (int (length ?text) - truncate_length c)) ?text"
    let ?s = "set_html c ?rest (s\<lparr>start := stop s - truncate_length c\<rparr>)"
    have c: "core ?s = (True, stop s - truncate_length c, stop s, of_html c ?rest)"
      using assms(4) by (simp add: core_html)
    have d: "?rest = slice log (stop s - truncate_length c) (stop s)"
      using slice_drop [of "start s" "int (length ?text) - truncate_length c" "stop s" log] True assms(1,2) len
      by (simp add: window_def sizes_ok_def)
    have "inner_html c (of_html c ?rest) = ?rest"
      unfolding d by (rule browser_simps(2) [OF sizes_ok_browser [OF assms(2)] slice_plain [OF assms(5)]])
    then have "window c log ?s"
      using assms(1,2) True len c d by (simp add: window_def core_fields sizes_ok_def)
    then show ?thesis using True assms(3) by (simp add: truncate_def pailer_ok_def Let_def)
  qed (use assms in \<open>simp add: truncate_def pailer_ok_def Let_def\<close>)
qed

text \<open>What has been read of a page, with an honest answer, is the piece of the log up to where it ends.\<close>

lemma page_joined:
  assumes "window c log s" "fits log s (ReadPage off len buffer)" "honest log (ReadPage off len buffer) d" "list_all plain_char log"
  shows "buffer @ data_text d = slice log (off - int (length buffer)) (off + d_length d)"
    "int (length (buffer @ data_text d)) = int (length buffer) + d_length d"
proof -
  define b where "b = int (length buffer)"
  have f: "0 < len" "off + len = start s" "b \<le> off" "buffer = slice log (off - b) off" "0 \<le> b"
    using assms(2) by (simp_all add: fits_def b_def)
  have d: "0 < d_length d" "d_length d \<le> len" "d_data d = Some (slice log off (off + d_length d))"
    using assms(3,4) by (simp_all add: honest_def served_plain)
  have j: "buffer @ data_text d = slice log (off - b) (off + d_length d)"
    unfolding data_text_def d(3) using slice_append [of "off - b" off "off + d_length d" log] f d by simp
  moreover have "int (length (buffer @ data_text d)) = b + d_length d"
    unfolding j using slice_length [of "off - b" "off + d_length d" log] f d assms(1) by (simp add: window_def)
  ultimately show "buffer @ data_text d = slice log (off - int (length buffer)) (off + d_length d)"
    "int (length (buffer @ data_text d)) = int (length buffer) + d_length d" by (simp_all add: b_def)
qed

lemma page_success_ok:
  assumes w: "window c log s" and init: "initialized s" and none: "in_flight s = []"
    and fit: "fits log s (ReadPage off len buffer)" and h: "honest log (ReadPage off len buffer) d"
    and c: "sizes_ok c" and plain: "list_all plain_char log"
  shows "pailer_ok c log (page_success c off len buffer d s)"
proof -
  define b where "b = int (length buffer)"
  have f: "0 < len" "off + len = start s" "b \<le> off" "buffer = slice log (off - b) off"
    using fit by (simp_all add: fits_def b_def)
  have d: "d_offset d = off" "0 < d_length d" "d_length d \<le> len" "d_data d = Some (slice log off (off + d_length d))"
    using h plain by (simp_all add: honest_def served_plain)
  have b0: "0 \<le> b" by (simp add: b_def)
  define joined where "joined = buffer @ data_text d"
  note j = page_joined(1) [OF w fit h plain, folded joined_def b_def] and jl = page_joined(2) [OF w fit h plain, folded joined_def b_def]
  show ?thesis
  proof (cases "d_length d < len")
    case True
    have "fits log s (ReadPage (off + d_length d) (len - d_length d) joined)"
      using f d True jl init by (simp add: fits_def j [symmetric])
    then show ?thesis
      using True w none ok_send [of c log s] by (simp add: page_success_def pailer_ok_def joined_def)
  next
    case False
    then have len: "d_length d = len" using d by simp
    define index where "index = (if off - b \<noteq> 0 then newline_index joined else 0)"
    have ib: "0 \<le> index" "index \<le> start s - (off - b)"
      using newline_index_bounds [of joined] jl f len b0 by (auto simp: index_def)
    have t: "drop (nat index) joined @ inner_html c (contents s) = slice log (off - b + index) (stop s)"
    proof -
      have "drop (nat index) joined = slice log (off - b + index) (start s)"
        unfolding j len f(2) using slice_drop [of "off - b" index "start s" log] ib f by simp
      then show ?thesis
        using slice_append [of "off - b + index" "start s" "stop s" log] w ib f by (simp add: window_def)
    qed
    have core: "core (page_success c off len buffer d s) = (True, off - b + index, stop s, fragment c (drop (nat index) joined) @ contents s)"
      using False d(1-3) init
      by (cases "off = b") (simp_all add: page_success_def Let_def core_def put_def set_scrollTop_def set_timer_def
          indicate_def index_def flip: b_def joined_def split: option.split)
    have "list_all plain_char (drop (nat index) joined)"
      unfolding j using slice_plain [OF plain] by (auto simp: list_all_iff dest: in_set_dropD)
    then have "inner_html c (fragment c (drop (nat index) joined) @ contents s) = slice log (off - b + index) (stop s)"
      using t by (simp add: browser_simps [OF sizes_ok_browser [OF c]])
    with core have "core (page_success c off len buffer d s) = (True, off - b + index, stop s, contents (page_success c off len buffer d s))"
      "inner_html c (contents (page_success c off len buffer d s)) = slice log (off - b + index) (stop s)"
      by (simp_all add: core_fields)
    moreover have "in_flight (page_success c off len buffer d s) = []"
      using False d none by (simp add: page_success_def Let_def)
    ultimately show ?thesis
      using ib f w by (auto simp: pailer_ok_def window_def core_fields)
  qed
qed

text \<open>The text shown, with the new text from the next line on when nothing was shown, is again a piece of
  the log.\<close>

lemma tail_joined:
  assumes "window c log s" "0 \<le> n" "stop s + n \<le> int (length log)" "0 \<le> i" "i \<le> n" "first \<longleftrightarrow> start s = stop s \<and> stop s \<noteq> 0"
    and "\<not> first \<Longrightarrow> i = 0"
  shows "inner_html c (contents s) @ drop (nat i) (slice log (stop s) (stop s + n)) = slice log (if first then stop s + i else start s) (stop s + n)"
proof (cases first)
  case True
  then show ?thesis using slice_drop [of "stop s" i "stop s + n" log] assms by (auto simp: window_def)
next
  case False
  then show ?thesis using slice_append [of "start s" "stop s" "stop s + n" log] assms by (simp add: window_def)
qed

lemma tail_success_ok:
  assumes w: "window c log s" and init: "initialized s" and none: "in_flight s = []" and c: "sizes_ok c"
    and h: "honest log (ReadTail (stop s)) d" and plain: "list_all plain_char log"
  shows "\<exists>s'. tail_success c d s = Some s' \<and> pailer_ok c log s'"
proof -
  have d: "d_offset d = stop s" "0 \<le> d_length d" "stop s + d_length d \<le> int (length log)"
    using h by (simp_all add: honest_def)
  have data: "d_data d = Some (slice log (stop s) (stop s + d_length d))" if "0 < d_length d"
    using h plain that by (simp add: honest_def served_plain)
  have ok: "pailer_ok c log s" using w none by (simp add: pailer_ok_def)
  show ?thesis
  proof (cases "scrollTop s + view_height c < scroll_height c (contents s) \<or> d_length d = 0")
    case True
    have "pailer_ok c log (s\<lparr>tailing := False\<rparr>)" "pailer_ok c log (set_timer TailTimer s)"
      by (rule ok_core [THEN iffD2, OF _ _ ok]; simp add: core_def set_timer_def)+
    then show ?thesis using True d by (auto simp: tail_success_def Let_def)
  next
    case False
    have d0: "0 < d_length d" using False d(2) by simp
    define first where "first \<longleftrightarrow> start s = stop s \<and> stop s \<noteq> 0"
    define t where "t = slice log (stop s) (stop s + d_length d)"
    define index where "index = (if first then newline_index t else 0)"
    define s1 where "s1 = (if first then s\<lparr>start := stop s + index\<rparr> else s)"
    define s2 where "s2 = put c (contents s1 @ fragment c (drop (nat index) t)) (s1\<lparr>stop := stop s + d_length d\<rparr>)"
    define s3 where "s3 = set_scrollTop c (scrollTop s + (scroll_height c (contents s2) - scroll_height c (contents s))) s2"
    have ib: "0 \<le> index" "index \<le> d_length d"
      using newline_index_bounds [of t] slice_length [of "stop s" "stop s + d_length d" log] d w
      by (auto simp: index_def t_def window_def)
    have e: "tail_success c d s = Some (set_timer TailTimer (truncate c s3))"
      using False d0
      by (cases first) (simp_all add: tail_success_def Let_def d data s3_def s2_def s1_def index_def flip: first_def t_def)
    have h1: "contents s1 = contents s" by (simp add: s1_def)
    have c3: "core s3 = (True, if first then stop s + index else start s, stop s + d_length d, contents s @ fragment c (drop (nat index) t))"
      using init by (simp add: s3_def s2_def core_html h1) (simp add: s1_def)
    have "list_all plain_char (drop (nat index) t)"
      using slice_plain [OF plain] by (auto simp: t_def list_all_iff dest: in_set_dropD)
    then have "inner_html c (contents s @ fragment c (drop (nat index) t)) = inner_html c (contents s) @ drop (nat index) t"
      by (simp add: browser_simps [OF sizes_ok_browser [OF c]])
    also have "\<dots> = slice log (if first then stop s + index else start s) (stop s + d_length d)"
      unfolding t_def by (rule tail_joined [OF w d(2,3) ib first_def]) (simp add: index_def)
    finally have "window c log s3"
      using c3 w d ib by (auto simp: window_def core_fields first_def)
    moreover have "in_flight s3 = []" using none by (simp add: s3_def s2_def s1_def)
    moreover have "initialized s3" using c3 by (simp add: core_fields)
    ultimately have "pailer_ok c log (truncate c s3)" using window_truncate c plain by blast
    then show ?thesis
      using e ok_core [of "set_timer TailTimer (truncate c s3)" "truncate c s3" c log] by simp
  qed
qed

text \<open>
  Runs in which the log only grows, the server answers honestly, and never more than one read is in
  flight.
\<close>

definition honest_event :: "string \<Rightarrow> 'n pailer \<Rightarrow> event \<Rightarrow> bool" where
  "honest_event log s e = (case e of Answer i (Some d) \<Rightarrow> honest log (in_flight s ! i) d | _ \<Rightarrow> True)"

inductive calm_run :: "'n viewer \<Rightarrow> string \<Rightarrow> 'n pailer \<Rightarrow> string \<Rightarrow> 'n pailer \<Rightarrow> bool" for c log s where
  start: "calm_run c log s log s"
| grow: "calm_run c log s log' s' \<Longrightarrow> calm_run c log s (log' @ ext) s'"
| event: "calm_run c log s log' s' \<Longrightarrow> pailer_step c s' e s'' \<Longrightarrow> honest_event log' s' e \<Longrightarrow>
    length (in_flight s'') \<le> 1 \<Longrightarrow> calm_run c log s log' s''"

lemma pailer_ok_grow: "pailer_ok c log s \<Longrightarrow> pailer_ok c (log @ ext) s"
  by (auto simp: pailer_ok_def window_def fits_def list_all_iff slice_log_append split: log_read.splits)

lemma core_page_idle: "core (page_back c s) = core s"
  by (simp add: page_back_def Let_def) (simp add: core_def)

lemma page_ok:
  assumes "pailer_ok c log s" "sizes_ok c"
  shows "pailer_ok c log (page_back c s)"
proof (cases "initialized s \<and> \<not> paging s")
  case True
  let ?s = "indicate ''(PAGING)'' (s\<lparr>paging := True\<rparr>)"
  have s1: "core ?s = core s" "in_flight ?s = in_flight s" by (simp_all add: core_def)
  then have ok: "pailer_ok c log ?s" using ok_core assms(1) by blast
  have w: "window c log s" using assms(1) True by (simp add: pailer_ok_def)
  show ?thesis
  proof (cases "start s = 0")
    case True
    then have "pailer_ok c log (set_timer ClearIndicator (indicate ''(AT BEGINNING OF FILE)'' (?s\<lparr>paging := False\<rparr>)))"
      by (intro ok_core [THEN iffD2, OF _ _ ok]) (simp_all, simp_all add: core_def)
    with True \<open>initialized s \<and> \<not> paging s\<close> s1(1) show ?thesis by (simp add: page_back_def core_def Let_def)
  next
    case False
    have i: "initialized ?s" "start ?s = start s" using True s1(1) by (simp_all add: core_def)
    have "fits log ?s (ReadPage (start s - page_size c) (page_size c) [])" if "page_size c \<le> start s"
      using that assms(2) i by (simp add: fits_def sizes_ok_def)
    moreover have "fits log ?s (ReadPage 0 (start s) [])" using w False i by (simp add: fits_def window_def)
    ultimately show ?thesis
      using True False ok ok_send [OF ok] i by (simp add: page_back_def Let_def)
  qed
qed (use assms in \<open>auto simp: page_back_def\<close>)

lemma tail_ok: "pailer_ok c log s \<Longrightarrow> pailer_ok c log (tail s)"
  by (auto simp: tail_def fits_def intro: ok_send)

lemma initialize_ok: "pailer_ok c log s \<Longrightarrow> pailer_ok c log (initialize s)"
  using ok_core [of "indicate ''(LOADING)'' s" s c log] by (auto simp: initialize_def fits_def intro!: ok_send)

lemma on_scroll_ok: "pailer_ok c log s \<Longrightarrow> sizes_ok c \<Longrightarrow> pailer_ok c log (on_scroll c v s)"
proof -
  assume ok: "pailer_ok c log s" and c: "sizes_ok c"
  let ?s = "set_scrollTop c v s"
  have 1: "pailer_ok c log ?s" using ok ok_core [of ?s s c log] by simp
  have 2: "pailer_ok c log (?s\<lparr>tailing := b\<rparr>)" for b
    using 1 ok_core [of "?s\<lparr>tailing := b\<rparr>" ?s c log] by (simp add: core_def)
  show ?thesis using 1 2 page_ok [OF 1 c] tail_ok [OF 2] by (simp add: on_scroll_def Let_def)
qed

lemma fire_ok: "pailer_ok c log s \<Longrightarrow> sizes_ok c \<Longrightarrow> pailer_ok c log (fire c t s)"
  using ok_core [of "indicate [] s" s c log] by (auto simp: fire_def intro: page_ok tail_ok initialize_ok split: timer.split)

lemma errors_ok:
  assumes "pailer_ok c log s" "in_flight s = []"
  shows "pailer_ok c log (init_error s)" "pailer_ok c log (page_error s)" "pailer_ok c log (tail_error s)"
proof -
  show "pailer_ok c log (init_error s)" "pailer_ok c log (page_error s)"
    by (rule ok_core [THEN iffD2, OF _ _ assms(1)]; simp add: init_error_def page_error_def assms(2))+
  have "in_flight (tail_error s) = []" "\<not> initialized (tail_error s)"
    by (simp_all add: tail_error_def assms(2) set_timer_def)
  then show "pailer_ok c log (tail_error s)" by (simp add: pailer_ok_def)
qed

lemma init_success_ok:
  assumes "sizes_ok c" "honest log ReadEnd x" "in_flight s = []"
  shows "pailer_ok c log (init_success c x s)"
proof -
  have "d_offset x = int (length log)" using assms(2) by (simp add: honest_def)
  then have "window c log (init_success c x s)"
    using assms(1) browser_simps(2) [OF sizes_ok_browser [OF assms(1)], of "[]"]
    by (auto simp: init_success_def Let_def window_def set_timer_def set_html_def put_def set_scrollTop_def sizes_ok_def
        indicate_def split: option.split)
  moreover have "in_flight (init_success c x s) = []" by (simp add: init_success_def Let_def) (simp add: assms(3))
  ultimately show ?thesis by (simp add: pailer_ok_def)
qed

lemma answer_ok:
  assumes "pailer_ok c log s" "sizes_ok c" "in_flight s = [r]" "case d of None \<Rightarrow> True | Some x \<Rightarrow> honest log r x"
    "list_all plain_char log"
  shows "\<exists>s'. on_answer c 0 d s = Some s' \<and> pailer_ok c log s'"
proof -
  define s0 where "s0 = s\<lparr>in_flight := []\<rparr>"
  have c0: "core s0 = core s" "in_flight s0 = []" by (simp_all add: s0_def core_def)
  have ok0: "pailer_ok c log s0" using assms(1) window_core [OF c0(1), of c log] c0 by (simp add: pailer_ok_def core_def)
  have f: "fits log s0 r" using assms(1,3) fits_core [OF c0(1)] by (simp add: pailer_ok_def)
  have w: "window c log s0" if "initialized s0" using ok0 that by (simp add: pailer_ok_def)
  show ?thesis
  proof (cases d)
    case None
    then show ?thesis using errors_ok [OF ok0 c0(2)] by (cases r) (simp_all add: on_answer_def assms(3) Let_def drop_nth_def flip: s0_def)
  next
    case (Some x)
    show ?thesis
    proof (cases r)
      case ReadEnd
      then have "pailer_ok c log (init_success c x s0)"
        using init_success_ok [OF assms(2) _ c0(2), of log x] assms(4) Some by simp
      then show ?thesis
        using Some ReadEnd by (simp add: on_answer_def assms(3) Let_def drop_nth_def flip: s0_def)
    next
      case (ReadTail off)
      have "off = stop s0" "initialized s0" using f ReadTail by (simp_all add: fits_def)
      then show ?thesis
        using tail_success_ok [OF w _ c0(2) assms(2), of x] assms(4,5) Some ReadTail
        by (simp add: on_answer_def assms(3) Let_def drop_nth_def flip: s0_def)
    next
      case (ReadPage off len buffer)
      have i: "initialized s0" using f ReadPage by (simp add: fits_def)
      show ?thesis
        using page_success_ok [OF w [OF i] i c0(2), of off len buffer x] f assms(2,4,5) Some ReadPage
        by (simp add: on_answer_def assms(3) Let_def drop_nth_def flip: s0_def)
    qed
  qed
qed

lemma ok_flight: "pailer_ok c log s \<Longrightarrow> pailer_ok c log (s\<lparr>timers := ts\<rparr>)"
  by (rule ok_core [THEN iffD2]) (simp_all add: core_def)

lemma ok_drop_read: "pailer_ok c log s \<Longrightarrow> pailer_ok c log (s\<lparr>in_flight := drop_nth i (in_flight s)\<rparr>)"
proof -
  assume ok: "pailer_ok c log s"
  let ?s = "s\<lparr>in_flight := drop_nth i (in_flight s)\<rparr>"
  have c: "core ?s = core s" by (simp add: core_def)
  have "fits log ?s = fits log s" using fits_core [OF c] by (rule ext)
  then show ?thesis
    using ok window_core [OF c, of c log]
    by (auto simp: pailer_ok_def drop_nth_def list_all_iff dest!: in_set_takeD in_set_dropD)
qed

lemma calm_run_ok:
  assumes "calm_run c log s log' s'" "sizes_ok c" "pailer_ok c log s" "length (in_flight s) \<le> 1" "list_all plain_char log'"
  shows "pailer_ok c log' s' \<and> length (in_flight s') \<le> 1"
  using assms
proof (induction rule: calm_run.induct)
  case (event log' s' e s'')
  then have ok: "pailer_ok c log' s'" "length (in_flight s') \<le> 1" by auto
  show ?case
    using event(2)
  proof cases
    case (scroll v)
    then show ?thesis using on_scroll_ok [OF ok(1)] event by simp
  next
    case (answer i d)
    obtain r where r: "in_flight s' = [r]" "i = 0" using answer(2) ok(2) by (cases "in_flight s'") auto
    have "case d of None \<Rightarrow> True | Some x \<Rightarrow> honest log' r x"
      using event(3) answer(1) r by (auto simp: honest_event_def split: option.split)
    from answer_ok [OF ok(1) event.prems(1) r(1) this event.prems(4)] answer(3) r event(4) show ?thesis by auto
  next
    case (throws i d)
    then show ?thesis using ok_drop_read [OF ok(1)] event by simp
  next
    case (fire i)
    then show ?thesis using fire_ok [OF ok_flight [OF ok(1)]] event by simp
  qed
qed (auto dest: pailer_ok_grow)

text \<open>C5: for a log of plain characters (printable ASCII, newlines and tabs, without \<open>&\<close>, \<open><\<close> and \<open>>\<close>), as long as never
  more than one read is in flight and the server finds the log, the \<open>html()\<close> of the viewer is one contiguous
  piece of the log, from its \<open>start\<close> to its \<open>end\<close>: through tailing, paging in several reads,
  truncation, errors and restarts, while the log grows. The browser is any one that puts such text into the page as it is.\<close>

theorem viewer_window:
  assumes "calm_run c log (initialize (new_pailer h ind)) log' s" "0 < page_size c" "0 < truncate_length c"
    and "plain_browser c" "list_all plain_char log'"
  shows "if initialized s then 0 \<le> start s \<and> start s \<le> stop s \<and> stop s \<le> int (length log')
      \<and> inner_html c (contents s) = take (nat (stop s - start s)) (drop (nat (start s)) log') else True"
proof -
  have "pailer_ok c log (initialize (new_pailer h ind))"
    by (rule initialize_ok) (simp add: pailer_ok_def new_pailer_def)
  moreover have "length (in_flight (initialize (new_pailer h ind))) \<le> 1"
    by (simp add: initialize_def) (simp add: new_pailer_def)
  ultimately have "pailer_ok c log' s"
    using calm_run_ok [OF assms(1)] assms(2-5) by (simp add: sizes_ok_def)
  then show ?thesis by (simp add: pailer_ok_def window_def slice_def)
qed

section \<open>Paging after an error\<close>

definition is_page :: "log_read \<Rightarrow> bool" where
  "is_page r = (case r of ReadPage _ _ _ \<Rightarrow> True | _ \<Rightarrow> False)"

definition pages :: "'n pailer \<Rightarrow> nat" where
  "pages s = length (filter is_page (in_flight s))"

definition paging_ok :: "'n pailer \<Rightarrow> bool" where
  "paging_ok s \<longleftrightarrow> pages s \<le> 1 \<and> (pages s = 1 \<longrightarrow> paging s)"

definition stuck :: "'n pailer \<Rightarrow> bool" where
  "stuck s \<longleftrightarrow> pages s = 0 \<and> paging s"

lemma pages_simps [simp]: "pages (indicate t s) = pages s" "pages (set_timer x s) = pages s"
    "pages (put c ns s) = pages s" "pages (set_html c h s) = pages s" "pages (set_scrollTop c v s) = pages s"
    "pages (send_read r s) = pages s + (if is_page r then 1 else 0)"
  by (simp_all add: pages_def)

lemma paging_simps [simp]: "paging (set_timer x s) = paging s" "paging (put c ns s) = paging s" "paging (set_html c h s) = paging s"
    "paging (set_scrollTop c v s) = paging s" "paging (send_read r s) = paging s"
  by (simp_all add: set_timer_def set_html_def put_def set_scrollTop_def send_read_def)

lemma is_page_simps [simp]: "is_page (ReadPage a b t)" "\<not> is_page ReadEnd" "\<not> is_page (ReadTail a)"
  by (simp_all add: is_page_def)

lemma pages_upd [simp]: "pages (s\<lparr>paging := b\<rparr>) = pages s" "pages (s\<lparr>tailing := b\<rparr>) = pages s" "pages (s\<lparr>start := a\<rparr>) = pages s"
    "pages (s\<lparr>stop := a\<rparr>) = pages s" "pages (s\<lparr>initialized := b\<rparr>) = pages s" "pages (s\<lparr>timers := ts\<rparr>) = pages s"
  by (simp_all add: pages_def)

lemma pages_truncate [simp]: "pages (truncate c s) = pages s" "paging (truncate c s) = paging s"
  by (simp_all add: truncate_def Let_def)

lemma pages_tail [simp]: "pages (tail s) = pages s" "paging (tail s) = paging s"
  by (simp_all add: tail_def)

lemma page_stuck: "paging s \<Longrightarrow> page_back c s = s"
  by (simp add: page_back_def)

lemma page_paging: "paging_ok s \<Longrightarrow> paging_ok (page_back c s)"
  by (auto simp: paging_ok_def page_back_def Let_def)

lemma pages_drop: "i < length (in_flight s) \<Longrightarrow>
    pages (s\<lparr>in_flight := drop_nth i (in_flight s)\<rparr>) = pages s - (if is_page (in_flight s ! i) then 1 else 0)"
proof -
  assume "i < length (in_flight s)"
  then have e: "in_flight s = take i (in_flight s) @ in_flight s ! i # drop (Suc i) (in_flight s)"
    by (simp add: id_take_nth_drop)
  show ?thesis
    using arg_cong [OF e, of "\<lambda>xs. length (filter is_page xs)"] by (simp add: pages_def drop_nth_def)
qed

lemma pages_pos: "i < length (in_flight s) \<Longrightarrow> is_page (in_flight s ! i) \<Longrightarrow> 0 < pages s"
  by (auto simp: pages_def filter_empty_conv intro!: bexI [OF _ nth_mem])

lemma page_paging_step:
  assumes "paging_ok s" "pailer_step c s e s'"
  shows "paging_ok s'"
  using assms(2)
proof cases
  case (scroll v)
  then show ?thesis using assms(1) page_paging [of "set_scrollTop c v s" c] by (auto simp: on_scroll_def Let_def paging_ok_def)
next
  case (answer i d)
  note p = pages_drop [OF answer(2)] pages_pos [OF answer(2)]
  show ?thesis
    using answer(3) assms(1) p
    by (auto simp: on_answer_def Let_def paging_ok_def init_success_def init_error_def page_success_def page_error_def
        tail_success_def tail_error_def split: log_read.splits option.splits if_splits)
next
  case (throws i d)
  then show ?thesis using pages_drop [OF throws(3)] assms(1) by (auto simp: paging_ok_def)
next
  case (fire i)
  then show ?thesis
    using assms(1) page_paging [of "indicate [] (s\<lparr>timers := drop_nth i (timers s)\<rparr>)" c]
    by (auto simp: fire_def paging_ok_def initialize_def split: timer.split)
qed

lemma stuck_paging_step:
  assumes "stuck s" "pailer_step c s e s'"
  shows "stuck s'"
  using assms(2)
proof cases
  case (scroll v)
  then show ?thesis using assms(1) by (auto simp: on_scroll_def Let_def stuck_def page_stuck)
next
  case (answer i d)
  have "\<not> is_page (in_flight s ! i)" using pages_pos [OF answer(2)] assms(1) by (auto simp: stuck_def)
  then show ?thesis
    using answer(3) assms(1) pages_drop [OF answer(2)]
    by (auto simp: on_answer_def Let_def stuck_def init_success_def init_error_def
        tail_success_def tail_error_def split: log_read.splits option.splits if_splits)
next
  case (throws i d)
  then show ?thesis using pages_drop [OF throws(3)] assms(1) by (auto simp: stuck_def)
next
  case (fire i)
  then show ?thesis
    using assms(1) by (auto simp: fire_def stuck_def initialize_def page_stuck split: timer.split)
qed

lemma paging_ok_run: "pailer_run c s es s' \<Longrightarrow> paging_ok s \<Longrightarrow> paging_ok s'"
  by (induction rule: pailer_run.induct) (auto intro: page_paging_step)

lemma stuck_paging_run: "pailer_run c s es s' \<Longrightarrow> stuck s \<Longrightarrow> stuck s'"
  by (induction rule: pailer_run.induct) (auto intro: stuck_paging_step)

text \<open>C35: after a page could not be read, the viewer never reads a page again, although it announces a
  retry: \<open>paging\<close> is still set when the retry calls \<open>page\<close>, and nothing else clears it.\<close>

theorem failed_page_stops_paging:
  assumes "pailer_run c (initialize (new_pailer h ind)) es s" "i < length (in_flight s)"
    "in_flight s ! i = ReadPage off len buffer" "on_answer c i None s = Some s1" "pailer_run c s1 es' s2"
  shows "\<not> list_ex is_page (in_flight s2) \<and> page_back c s2 = s2"
proof -
  have "paging_ok (initialize (new_pailer h ind))"
    by (simp add: paging_ok_def initialize_def) (simp add: pages_def new_pailer_def)
  then have p: "paging_ok s" using paging_ok_run [OF assms(1)] by blast
  have "stuck s1"
    using p assms(2-4) pages_drop [OF assms(2)] pages_pos [OF assms(2)]
    by (auto simp: stuck_def paging_ok_def on_answer_def Let_def page_error_def)
  then have "stuck s2" using stuck_paging_run [OF assms(5)] by blast
  then show ?thesis by (auto simp: stuck_def pages_def page_stuck filter_empty_conv list_ex_iff)
qed

section \<open>Two tails at once\<close>

lemma pailer_run_app: "pailer_run c s es s' \<Longrightarrow> pailer_run c s' es' s'' \<Longrightarrow> pailer_run c s (es @ es') s''"
proof (rotate_tac, induction rule: pailer_run.induct)
  case (step s0 es0 s1 e s2)
  then show ?case by (metis append_assoc pailer_run.step)
qed simp

lemma pailer_run_Cons: "pailer_step c s e s' \<Longrightarrow> pailer_run c s' es s'' \<Longrightarrow> pailer_run c s (e # es) s''"
  using pailer_run_app [OF pailer_run.step [OF pailer_run.refl]] by fastforce



text \<open>
  A browser for texts without tags: a node is a character, entities are read where markup is parsed, and
  \<open>html()\<close> escapes.  Every character is one unit high.
\<close>

fun read_entities :: "string \<Rightarrow> string" where
  "read_entities [] = []"
| "read_entities (x # t) =
     (if take 5 (x # t) = ''&amp;'' then CHR ''&'' # read_entities (drop 4 t)
      else if take 4 (x # t) = ''&lt;'' then CHR ''<'' # read_entities (drop 3 t)
      else if take 4 (x # t) = ''&gt;'' then CHR ''>'' # read_entities (drop 3 t)
      else x # read_entities t)"

definition text_viewer :: "int \<Rightarrow> int \<Rightarrow> char viewer" where
  "text_viewer page trunc = \<lparr>page_size = page, truncate_length = trunc, view_height = 1, scroll_height = \<lambda>h. int (length h),
     of_html = read_entities, fragment = read_entities, inner_html = xml_escape\<rparr>"

lemma read_entities_plain: "list_all plain_char t \<Longrightarrow> read_entities t = t"
  by (induction t) (auto simp: plain_char_def)

lemma text_viewer_browser: "plain_browser (text_viewer page trunc)"
proof -
  have "xml_escape (a @ b) = xml_escape a @ xml_escape b" for a b by (simp add: xml_escape_def)
  then show ?thesis by (simp add: plain_browser_def text_viewer_def read_entities_plain xml_escape_plain)
qed

lemma calm_answer:
  assumes "calm_run c log s log' s'" "in_flight s' = [r]" "on_answer c 0 (Some d) s' = Some s''" "honest log' r d"
    and "length (in_flight s'') \<le> 1"
  shows "calm_run c log s log' s''"
  using calm_run.event [OF assms(1) pailer_step.answer [OF _ assms(3)]] assms(2,4,5) by (simp add: honest_event_def)

theorem viewer_window_witness:
  "\<exists>s. calm_run (text_viewer 3 9) [CHR ''x'', CHR 0x0A, CHR ''a'', CHR ''b''] (initialize (new_pailer [] None))
       [CHR ''x'', CHR 0x0A, CHR ''a'', CHR ''b''] s
     \<and> initialized s \<and> start s = 2 \<and> stop s = 4 \<and> xml_escape (contents s) = ''ab''"
proof -
  let ?log = "[CHR ''x'', CHR 0x0A, CHR ''a'', CHR ''b'']"
  let ?s0 = "initialize (new_pailer [] None)"
  let ?d = "\<lparr>d_offset = 4, d_length = 0, d_data = None\<rparr>" and ?e = "\<lparr>d_offset = 1, d_length = 3, d_data = Some (drop 1 ?log)\<rparr>"
  let ?w = "\<lparr>initialized = True, start = 1, stop = 1, paging = False, tailing = True, contents = [], scrollTop = 0,
     indicator = None, in_flight = [], timers = [TailTimer]\<rparr>"
  have r0: "in_flight ?s0 = [ReadEnd]" by (simp add: initialize_def new_pailer_def send_read_def indicate_def)
  have a0: "on_answer (text_viewer 3 9) 0 (Some ?d) ?s0 = Some ?w" by code_simp
  have "calm_run (text_viewer 3 9) ?log ?s0 ?log ?w"
    by (rule calm_answer [OF calm_run.start r0 a0]) (simp_all add: honest_def)
  moreover have "pailer_step (text_viewer 3 9) ?w (Fire 0) (?w\<lparr>in_flight := [ReadTail 1], timers := []\<rparr>)"
    using pailer_step.fire [of 0 ?w "text_viewer 3 9"] by (simp add: fire_def tail_def send_read_def drop_nth_def)
  ultimately have run: "calm_run (text_viewer 3 9) ?log ?s0 ?log (?w\<lparr>in_flight := [ReadTail 1], timers := []\<rparr>)"
    by (rule calm_run.event) (simp_all add: honest_event_def)
  obtain s where s: "on_answer (text_viewer 3 9) 0 (Some ?e) (?w\<lparr>in_flight := [ReadTail 1], timers := []\<rparr>) = Some s"
      "initialized s" "start s = 2" "stop s = 4" "in_flight s = []"
  proof
    show "on_answer (text_viewer 3 9) 0 (Some ?e) (?w\<lparr>in_flight := [ReadTail 1], timers := []\<rparr>) = Some
      \<lparr>initialized = True, start = 2, stop = 4, paging = False, tailing = True, contents = ''ab'', scrollTop = 1,
       indicator = None, in_flight = [], timers = [TailTimer]\<rparr>" by code_simp
  qed simp_all
  have "honest ?log (ReadTail 1) ?e" by code_simp
  then have run: "calm_run (text_viewer 3 9) ?log ?s0 ?log s" by (intro calm_answer [OF run _ s(1)]) (simp_all add: s(5))
  have "list_all plain_char ?log" by code_simp
  with viewer_window [OF run _ _ text_viewer_browser] s run show ?thesis
    by (intro exI [of _ s]) (simp add: text_viewer_def numeral_2_eq_2)
qed


theorem failed_page_stops_paging_witness:
  "\<exists>s1. pailer_run (text_viewer 2 9) (initialize (new_pailer [] None)) [Answer 0 (Some \<lparr>d_offset = 5, d_length = 0, d_data = None\<rparr>),
      Scroll 0, Answer 0 None] s1 \<and> timers s1 = [TailTimer, PageTimer] \<and> page_back (text_viewer 2 9) s1 = s1"
proof -
  let ?s0 = "initialize (new_pailer [] None)" and ?d = "\<lparr>d_offset = 5, d_length = 0, d_data = None\<rparr>"
  have f: "in_flight ?s0 = [ReadEnd]" by (simp add: initialize_def) (simp add: new_pailer_def)
  obtain s where s: "on_answer (text_viewer 2 9) 0 (Some ?d) ?s0 = Some s" "initialized s" "start s = 3" "in_flight s = []"
      "contents s = []" "\<not> paging s" "timers s = [TailTimer]" "indicator s = None"
    unfolding on_answer_def Let_def
    by (simp add: f drop_nth_def init_success_def text_viewer_def set_timer_def set_html_def put_def set_scrollTop_def
        initialize_def send_read_def indicate_def new_pailer_def)
  let ?t = "on_scroll (text_viewer 2 9) 0 s"
  have t: "in_flight ?t = [ReadPage 1 2 []]" "timers ?t = [TailTimer]" "paging ?t"
    using s by (simp_all add: on_scroll_def Let_def set_scrollTop_def text_viewer_def page_back_def indicate_def send_read_def)
  obtain s1 where s1: "on_answer (text_viewer 2 9) 0 None ?t = Some s1" "timers s1 = [TailTimer, PageTimer]"
    unfolding on_answer_def Let_def
    by (simp add: t drop_nth_def page_error_def set_timer_def indicate_def split: option.split)
  have st: "pailer_step (text_viewer 2 9) ?s0 (Answer 0 (Some ?d)) s" "pailer_step (text_viewer 2 9) s (Scroll 0) ?t"
      "pailer_step (text_viewer 2 9) ?t (Answer 0 None) s1"
    by (auto simp: f t s s1 intro: pailer_step.intros)
  have r: "pailer_run (text_viewer 2 9) ?s0 [Answer 0 (Some ?d), Scroll 0] ?t"
    by (intro pailer_run_Cons [OF st(1)] pailer_run_Cons [OF st(2)] pailer_run.refl)
  have "pailer_run (text_viewer 2 9) ?s0 [Answer 0 (Some ?d), Scroll 0, Answer 0 None] s1"
    by (intro pailer_run_Cons [OF st(1)] pailer_run_Cons [OF st(2)] pailer_run_Cons [OF st(3)] pailer_run.refl)
  moreover have "page_back (text_viewer 2 9) s1 = s1"
    using failed_page_stops_paging [OF r _ _ s1(1) pailer_run.refl] t by auto
  ultimately show ?thesis using s1(2) by blast
qed

text \<open>A log with markup: truncation counts and cuts the escaped text, so that the window no longer fits the log.\<close>

theorem truncate_cuts_entities:
  "let s = truncate (text_viewer 2 4) ((new_pailer ''a<b'' None)\<lparr>initialized := True, start := 0, stop := 3\<rparr>) in
     start s = -1 \<and> stop s = 3 \<and> contents s = ''lt;b''"
  by code_simp

end
