(* ===== verification/Observer.thy ===== *)
theory Observer
  imports JSON NumberText JSObject
begin

text \<open>
  The task tables of the Thermos observer (\<open>observer.js\<close>): a table manager asks the server for the
  ids of the tasks to show and for their data, keeps a row of cells per task, and polls until an
  answer is missing.  A cell is found by its id only while its row is in the table.  \<open>ser\<close> stands
  for what the browser returns as \<open>innerHTML\<close> of a text that was assigned to it.
\<close>

section \<open>Tasks\<close>

record task =
  t_data :: "(string \<times> json) list"
  t_visible :: bool
  t_cells :: "string obj" \<comment> \<open>the assigned contents by the id of the cell\<close>

definition taskStr :: "string \<Rightarrow> string \<Rightarrow> string list \<Rightarrow> string" where
  "taskStr taskType taskId components = ''task['' @ join '','' ([taskType, taskId] @ components) @ '']''"

definition translateUid :: "string \<Rightarrow> string" where
  "translateUid taskId = ''<a href='' @ [CHR 0x27] @ ''/task/'' @ taskId @ [CHR 0x27] @ ''>'' @ taskId @ ''</a>''"

definition cell_names :: "string list list" where
  "cell_names = [[''task_id''], [''name''], [''resource_consumption'', ''cpu''], [''resource_consumption'', ''ram''],
     [''resource_consumption'', ''disk''], [''processes'', ''waiting''], [''processes'', ''running''],
     [''processes'', ''success''], [''processes'', ''failed'']]"

text \<open>\<open>setElement\<close>: the row of a new task; only the first cell has a content.\<close>

definition new_task :: "string \<Rightarrow> string \<Rightarrow> task" where
  "new_task taskId taskType = \<lparr>t_data = [], t_visible = False,
     t_cells = map (\<lambda>cs. (taskStr taskType taskId cs, if cs = [''task_id''] then translateUid taskId else [])) cell_names\<rparr>"

text \<open>Texts and the loose comparison \<open>newval != curval\<close> with the string in the cell; \<open>None\<close> is
  \<open>undefined\<close>.\<close>

fun value_text :: "json \<Rightarrow> string" and value_texts :: "json list \<Rightarrow> string list" where
  "value_text JNull = ''null''"
| "value_text (JBool b) = (if b then ''true'' else ''false'')"
| "value_text (JNum x) = num_to_string x"
| "value_text (JStr s) = s"
| "value_text (JArr xs) = join '','' (value_texts xs)"
| "value_text (JObj ps) = ''[object Object]''"
| "value_texts [] = []"
| "value_texts (x # xs) = (if x = JNull then [] else value_text x) # value_texts xs"

definition loosely_differs :: "json option \<Rightarrow> string \<Rightarrow> bool" where
  "loosely_differs v s = (case v of
       None \<Rightarrow> True
     | Some JNull \<Rightarrow> True
     | Some (JBool b) \<Rightarrow> \<not> js_eq (if b then Fin 1 else Fin 0) (to_number s)
     | Some (JNum x) \<Rightarrow> \<not> js_eq x (to_number s)
     | Some x \<Rightarrow> value_text x \<noteq> s)"

definition assigned_text :: "json option \<Rightarrow> string" where
  "assigned_text v = (case v of None \<Rightarrow> ''undefined'' | Some JNull \<Rightarrow> [] | Some x \<Rightarrow> value_text x)"

definition length_of :: "json \<Rightarrow> json option" where
  "length_of v = (case v of
       JArr xs \<Rightarrow> Some (JNum (Fin (of_nat (length xs))))
     | JStr s \<Rightarrow> Some (JNum (Fin (of_nat (length s))))
     | _ \<Rightarrow> None)"

definition truthy :: "json \<Rightarrow> bool" where
  "truthy v = (case v of JNull \<Rightarrow> False | JBool b \<Rightarrow> b | JNum x \<Rightarrow> x \<noteq> NaN \<and> \<not> is_zero x | JStr s \<Rightarrow> s \<noteq> [] | _ \<Rightarrow> True)"

definition translateElement :: "string \<Rightarrow> string \<Rightarrow> string \<Rightarrow> json \<Rightarrow> json option result" where
  "translateElement taskType taskId dom_id v =
     (if dom_id = taskStr taskType taskId [''processes'', ''running''] \<or>
         dom_id = taskStr taskType taskId [''processes'', ''waiting''] \<or>
         dom_id = taskStr taskType taskId [''processes'', ''success''] \<or>
         dom_id = taskStr taskType taskId [''processes'', ''failed'']
      then (if v = JNull then Inl TypeError else Inr (length_of v))
      else if dom_id = taskStr taskType taskId [''resource_consumption'', ''cpu''] \<and> truthy v
      then (case v of JNum x \<Rightarrow> Inr (Some (JStr (to_fixed2 x))) | _ \<Rightarrow> Inl TypeError)
      else Inr (Some v))"

text \<open>\<open>shown\<close>: whether the row of the task is in the table.\<close>

definition transitionElement :: "(string \<Rightarrow> string) \<Rightarrow> bool \<Rightarrow> string \<Rightarrow> string \<Rightarrow> string \<Rightarrow> json \<Rightarrow> task \<Rightarrow> task result" where
  "transitionElement ser shown taskType taskId dom_id v t =
     (case obj_get (t_cells t) dom_id of
        None \<Rightarrow> Inr t
      | Some cur \<Rightarrow>
          if \<not> shown then Inr t
          else res_bind (translateElement taskType taskId dom_id v) (\<lambda>newval.
            Inr (if loosely_differs newval (ser cur)
                 then t\<lparr>t_cells := obj_set dom_id (assigned_text newval) (t_cells t)\<rparr> else t)))"

fun own_props :: "json \<Rightarrow> (string \<times> json) list" where
  "own_props (JObj ps) = ps"
| "own_props (JArr xs) = map (\<lambda>(i, x). (string_of_nat i, x)) (enumerate 0 xs)"
| "own_props _ = []"

fun transition_all :: "(string \<Rightarrow> string) \<Rightarrow> bool \<Rightarrow> string \<Rightarrow> string \<Rightarrow> string \<Rightarrow> (string \<times> json) list \<Rightarrow> task \<Rightarrow> task result" where
  "transition_all ser shown ty tid pre [] t = Inr t"
| "transition_all ser shown ty tid pre ((suf, v) # ps) t =
     res_bind (transitionElement ser shown ty tid (taskStr ty tid [pre, suf]) v t)
       (\<lambda>t'. transition_all ser shown ty tid pre ps t')"

definition update_attr :: "(string \<Rightarrow> string) \<Rightarrow> bool \<Rightarrow> string \<Rightarrow> string \<Rightarrow> string \<times> json \<Rightarrow> task \<Rightarrow> task result" where
  "update_attr ser shown ty tid = (\<lambda>(attr, v) t.
     if attr = ''task_id''
     then transitionElement ser shown ty tid (taskStr ty tid [attr]) (JStr (translateUid (value_text v))) t
     else (case v of
         JStr _ \<Rightarrow> transitionElement ser shown ty tid (taskStr ty tid [attr]) v t
       | JNum _ \<Rightarrow> transitionElement ser shown ty tid (taskStr ty tid [attr]) v t
       | _ \<Rightarrow> transition_all ser shown ty tid attr (own_props v) t))"

fun updateElement :: "(string \<Rightarrow> string) \<Rightarrow> bool \<Rightarrow> string \<Rightarrow> string \<Rightarrow> (string \<times> json) list \<Rightarrow> task \<Rightarrow> task result" where
  "updateElement ser shown ty tid [] t = Inr t"
| "updateElement ser shown ty tid (p # ps) t =
     res_bind (update_attr ser shown ty tid p t) (updateElement ser shown ty tid ps)"

definition applyUpdate :: "(string \<Rightarrow> string) \<Rightarrow> bool \<Rightarrow> string \<Rightarrow> string \<Rightarrow> (string \<times> json) list \<Rightarrow> task \<Rightarrow> task result" where
  "applyUpdate ser shown ty tid update t = updateElement ser shown ty tid update (t\<lparr>t_data := update\<rparr>)"

section \<open>The table\<close>

datatype observer_request = TaskIds string | TaskData string

record table =
  tableType :: string
  activeTasks :: "task obj"
  visibleChildren :: "string list"
  tbody :: "string list" \<comment> \<open>the tasks whose rows are in the table, in order\<close>
  taskIdPoller :: bool
  dataPoller :: bool
  requests :: "observer_request list"

definition send_ids :: "table \<Rightarrow> table" where
  "send_ids m = m\<lparr>requests := requests m @ [TaskIds (''/j/task_ids/'' @ tableType m @ ''/-20'')]\<rparr>"

definition send_data_request :: "table \<Rightarrow> table" where
  "send_data_request m = m\<lparr>requests := requests m @ [TaskData (join '','' (visibleChildren m))]\<rparr>"

definition new_table :: "string \<Rightarrow> table" where
  "new_table ty = send_ids \<lparr>tableType = ty, activeTasks = [], visibleChildren = [], tbody = [],
     taskIdPoller = True, dataPoller = True, requests = []\<rparr>"

text \<open>Adopting an element moves it when it already is in the table.\<close>

definition adopt :: "string list \<Rightarrow> string \<Rightarrow> string list" where
  "adopt rows tid = filter (\<lambda>r. r \<noteq> tid) rows @ [tid]"

definition show_task :: "string \<Rightarrow> task obj \<Rightarrow> string \<Rightarrow> task obj" where
  "show_task ty ts tid =
     (let t = (case obj_get ts tid of None \<Rightarrow> new_task tid ty | Some t \<Rightarrow> t) in
      obj_set tid (t\<lparr>t_visible := True\<rparr>) ts)"

definition children_answer :: "string list option \<Rightarrow> table \<Rightarrow> table" where
  "children_answer response m = (case response of
       None \<Rightarrow> m\<lparr>taskIdPoller := False\<rparr>
     | Some newChildren \<Rightarrow>
         (let hidden = map (\<lambda>(k, t). (k, t\<lparr>t_visible := False\<rparr>)) (activeTasks m) in
          m\<lparr>visibleChildren := newChildren,
            activeTasks := foldl (show_task (tableType m)) hidden newChildren,
            tbody := foldl adopt [] newChildren\<rparr>))"

fun apply_updates :: "(string \<Rightarrow> string) \<Rightarrow> (string \<times> (string \<times> json) list) list \<Rightarrow> table \<Rightarrow> table result" where
  "apply_updates ser [] m = Inr m"
| "apply_updates ser ((tid, update) # us) m = (case obj_get (activeTasks m) tid of
       None \<Rightarrow> Inl TypeError
     | Some t \<Rightarrow> res_bind (applyUpdate ser (List.member (tbody m) tid) (tableType m) tid update t)
         (\<lambda>t'. apply_updates ser us (m\<lparr>activeTasks := obj_set tid t' (activeTasks m)\<rparr>)))"

definition data_answer :: "(string \<Rightarrow> string) \<Rightarrow> (string \<times> (string \<times> json) list) list option \<Rightarrow> table \<Rightarrow> table result" where
  "data_answer ser response m = (case response of
       None \<Rightarrow> Inr (m\<lparr>dataPoller := False\<rparr>)
     | Some us \<Rightarrow> apply_updates ser us m)"

text \<open>The two intervals.\<close>

definition tick_ids :: "table \<Rightarrow> table" where
  "tick_ids m = (if taskIdPoller m then send_ids m else m)"

definition tick_data :: "table \<Rightarrow> table" where
  "tick_data m = (if dataPoller m then send_data_request m else m)"

section \<open>Properties\<close>

lemma js_eq_zero: "js_eq (Fin a) (Fin 0) \<longleftrightarrow> a = 0"
  by (auto simp: js_eq_def is_zero_def)

lemma to_number_empty: "to_number [] = Fin 0"
  by (simp add: to_number_def trim_def trim_left_def)

text \<open>the count of an empty list of processes is never written into a cell that is still empty: the
  loose comparison takes the empty text for zero, so a task without waiting (running, ...) processes
  shows a blank, while any other count replaces the blank.\<close>

theorem zero_count_blank:
  assumes "obj_get (t_cells t) dom_id = Some cur" "ser cur = []"
    and "dom_id = taskStr ty tid [''processes'', st]" "st \<in> {''waiting'', ''running'', ''success'', ''failed''}"
  shows "transitionElement ser True ty tid dom_id (JArr xs) t = Inr (if xs = [] then t
    else t\<lparr>t_cells := obj_set dom_id (num_to_string (Fin (of_nat (length xs)))) (t_cells t)\<rparr>)"
  using assms
  by (auto simp: transitionElement_def translateElement_def length_of_def loosely_differs_def js_eq_zero to_number_empty
      assigned_text_def)

theorem zero_count_blank_witness:
  "transitionElement (\<lambda>s. s) True ''active'' ''t1'' (taskStr ''active'' ''t1'' [''processes'', ''waiting'']) (JArr [])
     (new_task ''t1'' ''active'') = Inr (new_task ''t1'' ''active'')"
  using zero_count_blank [of "new_task ''t1'' ''active''" "taskStr ''active'' ''t1'' [''processes'', ''waiting'']" "[]"
      "\<lambda>s. s" "''active''" "''t1''" "''waiting''" "[]"]
  by (simp add: new_task_def cell_names_def obj_get_def taskStr_def)

lemma adopt_all: "distinct (rows @ xs) \<Longrightarrow> foldl adopt rows xs = rows @ xs"
proof (induction xs arbitrary: rows)
  case (Cons x xs)
  have "filter (\<lambda>r. r \<noteq> x) rows = rows" using Cons.prems by (auto simp: filter_id_conv)
  then show ?case using Cons by (simp add: adopt_def)
qed simp

lemma show_all:
  "case obj_get (foldl (show_task ty) ts xs) k of
     None \<Rightarrow> obj_get ts k = None \<and> k \<notin> set xs
   | Some t \<Rightarrow> (t_visible t \<longleftrightarrow> k \<in> set xs \<or> (\<exists>u. obj_get ts k = Some u \<and> t_visible u))
       \<and> t_cells t = (case obj_get ts k of None \<Rightarrow> t_cells (new_task k ty) | Some u \<Rightarrow> t_cells u)"
proof (induction xs arbitrary: ts)
  case Nil
  then show ?case by (simp split: option.split)
next
  case (Cons x xs)
  show ?case
    using Cons [of "show_task ty ts x"]
    by (auto simp: show_task_def Let_def obj_get_set split: option.splits if_splits)
qed

lemma hidden_get: "obj_get (map (\<lambda>(k, t). (k, t\<lparr>t_visible := False\<rparr>)) ts) k = map_option (\<lambda>t. t\<lparr>t_visible := False\<rparr>) (obj_get ts k)"
  by (induction ts) (auto simp: obj_get_def)

text \<open>C39: after the ids of the tasks have been answered, the table shows exactly their rows in the
  order of the answer; a task is marked visible exactly when it is listed, and a task that was known
  before keeps the contents of its cells, while a new one starts with an empty row.\<close>

theorem table_shows_answer:
  assumes "distinct ids"
  shows "let m' = children_answer (Some ids) m in
    tbody m' = ids \<and> visibleChildren m' = ids
    \<and> (case obj_get (activeTasks m') k of
        None \<Rightarrow> obj_get (activeTasks m) k = None \<and> k \<notin> set ids
      | Some t \<Rightarrow> (t_visible t \<longleftrightarrow> k \<in> set ids)
          \<and> t_cells t = (case obj_get (activeTasks m) k of
              None \<Rightarrow> t_cells (new_task k (tableType m)) | Some u \<Rightarrow> t_cells u))"
proof -
  let ?h = "map (\<lambda>(k, t). (k, t\<lparr>t_visible := False\<rparr>)) (activeTasks m)"
  have "tbody (children_answer (Some ids) m) = ids"
    using adopt_all [of "[]" ids] assms by (simp add: children_answer_def)
  then show ?thesis
    using show_all [where ty = "tableType m" and ts = ?h and xs = ids and k = k]
    by (auto simp: children_answer_def hidden_get split: option.splits)
qed

theorem table_shows_answer_witness:
  "tbody (children_answer (Some [''b'', ''a'']) (children_answer (Some [''a'']) (new_table ''active''))) = [''b'', ''a'']"
  using table_shows_answer [of "[''b'', ''a'']" "children_answer (Some [''a'']) (new_table ''active'')" "''a''"]
  by (simp add: Let_def)

end
