(* ===== verification/ObserverTable.thy ===== *)
theory ObserverTable
  imports Observer
begin

text \<open>
  The elements of the observer's tables (\<open>setElement\<close> of \<open>Task\<close> and \<open>TableManager\<close> in \<open>observer.js\<close>): the
  fixed header, and the rows of the tasks that are in the table.  The cells are found by their ids, so
  the ids on a page have to be distinct.
\<close>

section \<open>Elements\<close>

text \<open>An element with its tag, its id, its other properties, its contents and its children.\<close>

datatype element = Element (tag: string) (elem_id: "string option") (props: "(string \<times> string) list") (html: string) (kids: "element list")

fun element_ids :: "element \<Rightarrow> string list" where
  "element_ids (Element t i ps h es) = (case i of None \<Rightarrow> [] | Some k \<Rightarrow> [k]) @ concat (map element_ids es)"

text \<open>The row of a task with the contents of its cells.\<close>

definition row_id :: "string \<Rightarrow> string \<Rightarrow> string" where
  "row_id ty tid = ''task['' @ ty @ '']['' @ tid @ '']''"

definition task_element :: "string \<Rightarrow> string \<Rightarrow> task \<Rightarrow> element" where
  "task_element ty tid t = Element ''tr'' (Some (row_id ty tid)) [] []
     (map (\<lambda>cs. Element ''td'' (Some (taskStr ty tid cs)) [] (case obj_get (t_cells t) (taskStr ty tid cs) of None \<Rightarrow> [] | Some s \<Rightarrow> s) [])
        cell_names)"

text \<open>The header: a group of columns with its width, and a title per column.\<close>

definition column_groups :: "(string \<times> nat) list" where
  "column_groups = [([], 2), (''consumed'', 3), (''processes'', 4)]"

definition header_id :: "string \<Rightarrow> string list \<Rightarrow> string" where
  "header_id ty cs = row_id ty ''header'' @ concat (map (\<lambda>c. ''['' @ c @ '']'') cs)"

definition table_head :: "string \<Rightarrow> element" where
  "table_head ty = Element ''thead'' None [] []
     [Element ''tr'' (Some (row_id ty ''superheader'')) [(''class'', ''meta-headers'')] []
        (map (\<lambda>(g, n). Element ''th'' None [(''colspan'', string_of_nat n)] g []) column_groups),
      Element ''tr'' (Some (row_id ty ''header'')) [] []
        (map (\<lambda>cs. Element ''th'' (Some (header_id ty cs)) [] (last cs) []) cell_names)]"

definition table_element :: "table \<Rightarrow> element" where
  "table_element m = Element ''table'' (Some (''table['' @ tableType m @ '']'')) [(''class'', ''common-table zebra-striped''), (''cellpadding'', ''0'')] []
     [table_head (tableType m),
      Element ''tbody'' (Some (tableType m @ ''_tbody'')) [] []
        (map (\<lambda>tid. case obj_get (activeTasks m) tid of
             None \<Rightarrow> task_element (tableType m) tid (new_task tid (tableType m))
           | Some t \<Rightarrow> task_element (tableType m) tid t) (tbody m))]"

text \<open>The groups of the header cover the columns.\<close>

lemma columns_covered: "sum_list (map snd column_groups) = length cell_names"
  by (simp add: column_groups_def cell_names_def)

section \<open>Ids\<close>

definition task_ids :: "string \<Rightarrow> string \<Rightarrow> string list" where
  "task_ids ty tid = row_id ty tid # map (taskStr ty tid) cell_names"

lemma task_element_ids: "element_ids (task_element ty tid t) = task_ids ty tid"
  by (simp add: task_element_def task_ids_def comp_def)

definition head_ids :: "string \<Rightarrow> string list" where
  "head_ids ty = row_id ty ''superheader'' # row_id ty ''header'' # map (header_id ty) cell_names"

lemma table_ids: "element_ids (table_element m) =
  (''table['' @ tableType m @ '']'') # head_ids (tableType m) @ (tableType m @ ''_tbody'') # concat (map (task_ids (tableType m)) (tbody m))"
proof -
  have "element_ids (case x of None \<Rightarrow> task_element ty k (new_task k ty) | Some t \<Rightarrow> task_element ty k t) = task_ids ty k" for x ty k
    by (cases x) (simp_all add: task_element_ids)
  then show ?thesis
    by (simp add: table_element_def table_head_def head_ids_def column_groups_def comp_def)
qed

text \<open>What comes after the type of the table: the separator and the name up to the next separator.\<close>

definition free :: "string \<Rightarrow> bool" where
  "free s \<longleftrightarrow> CHR '','' \<notin> set s \<and> CHR '']'' \<notin> set s"

definition name_of :: "string \<Rightarrow> string \<Rightarrow> char \<times> string" where
  "name_of ty s = (let r = drop (length ty) (drop 5 s) in (hd r, takeWhile (\<lambda>c. c \<noteq> CHR '','' \<and> c \<noteq> CHR '']'') (if hd r = CHR '','' then drop 1 r else drop 2 r)))"

lemma free_takeWhile: "free s \<Longrightarrow> takeWhile (\<lambda>c. c \<noteq> CHR '','' \<and> c \<noteq> CHR '']'') (s @ c # r)
    = s @ takeWhile (\<lambda>c. c \<noteq> CHR '','' \<and> c \<noteq> CHR '']'') (c # r)"
  by (rule takeWhile_append2) (auto simp: free_def)

lemma name_of_row: "free tid \<Longrightarrow> name_of ty (row_id ty tid @ r) = (CHR '']'', tid)"
  using free_takeWhile [of tid "CHR '']''" r] by (simp add: name_of_def row_id_def Let_def)

lemma name_of_cell: "free tid \<Longrightarrow> cs \<in> set cell_names \<Longrightarrow> name_of ty (taskStr ty tid cs) = (CHR '','', tid)"
  using free_takeWhile [of tid "CHR '',''"] by (auto simp: name_of_def taskStr_def cell_names_def Let_def)

lemma head_names: "k \<in> set (head_ids ty) \<Longrightarrow> name_of ty k \<in> {(CHR '']'', ''superheader''), (CHR '']'', ''header'')}"
  using name_of_row [of "''superheader''" ty "[]"] name_of_row [of "''header''" ty]
  by (auto simp: head_ids_def free_def header_id_def) (metis append_Nil2)

lemma task_names: "free tid \<Longrightarrow> k \<in> set (task_ids ty tid) \<Longrightarrow> snd (name_of ty k) = tid"
  using name_of_row [of tid ty "[]"] name_of_cell [of tid _ ty] by (auto simp: task_ids_def)

lemma head_distinct: "distinct (head_ids ty)"
  by (simp add: head_ids_def row_id_def header_id_def cell_names_def)

lemma task_distinct: "free tid \<Longrightarrow> distinct (task_ids ty tid)"
proof -
  assume f: "free tid"
  have "row_id ty tid \<noteq> taskStr ty tid cs" if "cs \<in> set cell_names" for cs
    using name_of_row [OF f, of ty "[]"] name_of_cell [OF f that, of ty] by auto
  moreover have "distinct (map (taskStr ty tid) cell_names)"
    by (simp add: taskStr_def cell_names_def)
  ultimately show ?thesis by (auto simp: task_ids_def)
qed

lemma tasks_distinct:
  assumes "distinct ts" "list_all free ts"
  shows "distinct (concat (map (task_ids ty) ts))"
  using assms
proof (induction ts)
  case (Cons t ts)
  have "k \<notin> set (task_ids ty u)" if "k \<in> set (task_ids ty t)" "u \<in> set ts" for k u
    using that Cons.prems task_names [of t k ty] task_names [of u k ty] by (auto simp: list_all_iff)
  then show ?case using Cons task_distinct by auto
qed simp

text \<open>the ids of a table and its rows are all distinct when the ids of the tasks are, have no comma and
  no bracket in them, and are not those of the header: a cell that is looked up by its id is the one
  of its task.\<close>

theorem table_ids_distinct:
  assumes "distinct (tbody m)" "list_all free (tbody m)" "''header'' \<notin> set (tbody m)" "''superheader'' \<notin> set (tbody m)"
    and "tableType m \<in> {''active'', ''finished''}"
  shows "distinct (element_ids (table_element m))"
proof -
  let ?ty = "tableType m" and ?tasks = "concat (map (task_ids (tableType m)) (tbody m))"
  have start: "take 5 k = ''task[''" if "k \<in> set (head_ids ?ty) \<union> set ?tasks" for k
    using that by (auto simp: head_ids_def task_ids_def row_id_def taskStr_def header_id_def)
  have "take 5 (''table['' @ ?ty @ '']'') = ''table''" "take 5 (?ty @ ''_tbody'') \<in> {''activ'', ''finis''}"
    using assms(5) by auto
  then have other: "''table['' @ ?ty @ '']'' \<notin> set (head_ids ?ty) \<union> set ?tasks" "?ty @ ''_tbody'' \<notin> set (head_ids ?ty) \<union> set ?tasks"
    using start by fastforce+
  moreover have "''table['' @ ?ty @ '']'' \<noteq> ?ty @ ''_tbody''" using assms(5) by auto
  moreover have "set (head_ids ?ty) \<inter> set ?tasks = {}"
  proof -
    have "False" if "k \<in> set (head_ids ?ty)" "k \<in> set (task_ids ?ty t)" "t \<in> set (tbody m)" for k t
      using head_names [OF that(1)] task_names [of t k ?ty] that(2,3) assms(2-4) by (auto simp: list_all_iff)
    then show ?thesis by auto
  qed
  ultimately show ?thesis
    using head_distinct [of ?ty] tasks_distinct [OF assms(1,2), of ?ty] unfolding table_ids by auto
qed

theorem table_ids_distinct_witness:
  "distinct (element_ids (table_element ((new_table ''active'')\<lparr>tbody := [''devel-1'', ''devel-2'']\<rparr>)))"
  by (rule table_ids_distinct) (simp_all add: new_table_def send_ids_def free_def)

end
