(* ===== verification/WebClient.thy ===== *)
theory WebClient
  imports JSON Underscore
begin

text \<open>
  The job creation client of the web application (\<open>webapp/js/auroraClient.js\<close> on
  \<open>pages/home.html\<close>): the rows of the two forms, the job configuration they are turned into, the
  request that creates a job, and the table of created jobs kept in IndexedDB, whose transactions
  are modelled as the queue its specification describes.  The text of an input is given by its id.
\<close>

section \<open>Processes\<close>

type_synonym props = "(string \<times> json) list"

text \<open>\<open>processObj\<close>, the prototype of every process\<close>

definition processObj :: props where
  "processObj = [(''daemon'', JBool False), (''name'', JStr []), (''ephemeral'', JBool False),
     (''max_failures'', JNum (Fin 1)), (''min_duration'', JNum (Fin 5)), (''cmdline'', JStr []),
     (''final'', JBool False)]"

text \<open>
  \<open>flatten\<close> copies what \<open>for in\<close> enumerates: the own properties in the order of their creation, then
  those of the prototype that are not shadowed.
\<close>

definition for_in :: "props \<Rightarrow> props \<Rightarrow> string list" where
  "for_in own proto = map fst own @ filter (\<lambda>k. \<not> List.member (map fst own) k) (map fst proto)"

definition flatten :: "props \<Rightarrow> props \<Rightarrow> props" where
  "flatten own proto = map (\<lambda>k. (k, the (map_of (own @ proto) k))) (for_in own proto)"

text \<open>A row of the advanced form.\<close>

record process_row =
  pName :: string
  pCommand :: string
  pDaemon :: string
  pEphemeral :: string
  pMaxFail :: string
  pMinDuration :: string
  pFinal :: string

definition empty_row :: process_row where
  "empty_row = \<lparr>pName = [], pCommand = [], pDaemon = ''false'', pEphemeral = ''false'', pMaxFail = ''1'',
     pMinDuration = ''5'', pFinal = ''false''\<rparr>"

definition simple_process :: "nat \<Rightarrow> string \<Rightarrow> json" where
  "simple_process i command = JObj (flatten
     [(''name'', JStr (''process'' @ string_of_nat i)), (''cmdline'', JStr command)] processObj)"

definition row_process :: "process_row \<Rightarrow> json" where
  "row_process r = JObj (flatten
     [(''name'', JStr (pName r)), (''cmdline'', JStr (pCommand r)), (''daemon'', JStr (pDaemon r)),
      (''ephemeral'', JStr (pEphemeral r)), (''max_failures'', JStr (pMaxFail r)),
      (''min_duration'', JStr (pMinDuration r)), (''final'', JStr (pFinal r))] processObj)"

section \<open>The forms\<close>

text \<open>
  \<open>taskObj\<close> and \<open>jobObj\<close>.  \<open>tk_order\<close> is the list in \<open>constraints[0].order\<close>, absent once
  \<open>constraints\<close> has been deleted; \<open>jb_task\<close> says whether \<open>jobObj.task\<close> is \<open>taskObj\<close> itself, so
  that later changes of the task show in the job.
\<close>

record task_obj =
  tk_processes :: "json list"
  tk_name :: json
  tk_finalization_wait :: json
  tk_max_failures :: json
  tk_max_concurrency :: json
  tk_disk :: json
  tk_ram :: json
  tk_cpu :: json
  tk_order :: "string list option"

record job_obj =
  jb_task :: bool
  jb_name :: json
  jb_environment :: json
  jb_max_task_failures :: json
  jb_enable_hooks :: json
  jb_production :: json
  jb_role :: json

definition taskObj :: task_obj where
  "taskObj = \<lparr>tk_processes = [], tk_name = JStr ''process1'', tk_finalization_wait = JNum (Fin 30),
     tk_max_failures = JNum (Fin 1), tk_max_concurrency = JNum (Fin 0), tk_disk = JNum (Fin 256),
     tk_ram = JNum (Fin 500), tk_cpu = JNum (Fin 1), tk_order = Some []\<rparr>"

definition jobObj :: job_obj where
  "jobObj = \<lparr>jb_task = False, jb_name = JStr ''job1'', jb_environment = JStr ''prod'',
     jb_max_task_failures = JNum (Fin 1), jb_enable_hooks = JBool False, jb_production = JBool False,
     jb_role = JStr ''knagireddy''\<rparr>"

definition task_json :: "task_obj \<Rightarrow> json" where
  "task_json t = JObj ([(''processes'', JArr (tk_processes t)), (''name'', tk_name t),
     (''finalization_wait'', tk_finalization_wait t), (''max_failures'', tk_max_failures t),
     (''max_concurrency'', tk_max_concurrency t),
     (''resources'', JObj [(''disk'', tk_disk t), (''ram'', tk_ram t), (''cpu'', tk_cpu t)])]
     @ (case tk_order t of None \<Rightarrow> []
        | Some names \<Rightarrow> [(''constraints'', JArr [JObj [(''order'', JArr (map JStr names))]])]))"

definition job_json :: "job_obj \<Rightarrow> task_obj \<Rightarrow> json" where
  "job_json j t = JObj [(''priority'', JNum (Fin 0)), (''task'', if jb_task j then task_json t else JObj []),
     (''name'', jb_name j), (''environment'', jb_environment j), (''max_task_failures'', jb_max_task_failures j),
     (''enable_hooks'', jb_enable_hooks j), (''cluster'', JStr ''example''),
     (''production'', jb_production j), (''role'', jb_role j)]"

text \<open>
  The page: the rows of \<open>#commandContainer\<close> and \<open>#processContainer\<close>, whether \<open>#btnNewCommand\<close>
  shows, the bricks of the order grid with their left edges, the box for parallel execution and
  whether the grid shows, the input fields, and the script's globals.
\<close>

record form_page =
  commands :: "string list"
  process_rows :: "process_row list"
  newButton :: bool
  bricks :: "(int \<times> string) list"
  pOrderParallel :: bool
  gridShown :: bool
  tab :: string
  processes :: "json list"
  the_task :: task_obj
  the_job :: job_obj

subsection \<open>Editing the rows\<close>

text \<open>\<open>None\<close> is the call without an element; a new row goes after the row whose button was pressed.\<close>

definition insert_after :: "nat option \<Rightarrow> 'a \<Rightarrow> 'a list \<Rightarrow> 'a list" where
  "insert_after pos x xs =
     (if xs = [] then [x]
      else (case pos of None \<Rightarrow> xs | Some i \<Rightarrow> take (Suc i) xs @ x # drop (Suc i) xs))"

definition remove_at :: "nat \<Rightarrow> 'a list \<Rightarrow> 'a list" where
  "remove_at i xs = take i xs @ drop (Suc i) xs"

definition addCommand :: "nat option \<Rightarrow> form_page \<Rightarrow> form_page" where
  "addCommand pos c = c\<lparr>commands := insert_after pos [] (commands c), newButton := False\<rparr>"

definition removeCommand :: "nat \<Rightarrow> form_page \<Rightarrow> form_page" where
  "removeCommand i c = (let cs = remove_at i (commands c) in
     c\<lparr>commands := cs, newButton := (if cs = [] then True else newButton c)\<rparr>)"

definition addProcess :: "nat option \<Rightarrow> form_page \<Rightarrow> form_page" where
  "addProcess pos c = c\<lparr>process_rows := insert_after pos empty_row (process_rows c), newButton := False\<rparr>"

definition removeProcess :: "nat \<Rightarrow> form_page \<Rightarrow> form_page" where
  "removeProcess i c = (let ps = remove_at i (process_rows c) in
     c\<lparr>process_rows := ps, newButton := (if ps = [] then True else newButton c)\<rparr>)"

text \<open>What the ready handler leaves, and the handlers of the wizard's buttons.\<close>

definition client_ready :: form_page where
  "client_ready = addProcess None (addCommand None \<lparr>commands = [], process_rows = [], newButton = True,
     bricks = [], pOrderParallel = True, gridShown = False, tab = ''#process'', processes = [],
     the_task = taskObj, the_job = jobObj\<rparr>)"

definition toggle_parallel :: "bool \<Rightarrow> form_page \<Rightarrow> form_page" where
  "toggle_parallel checked c = c\<lparr>pOrderParallel := checked, gridShown := \<not> checked\<rparr>"

subsection \<open>From the forms to JSON\<close>

text \<open>The simple form.  The assignment to \<open>constraints[0].order\<close> throws when there are no constraints.\<close>

definition getExecConfig :: "form_page \<Rightarrow> form_page \<times> string result" where
  "getExecConfig c =
     (let newProcesses = map (\<lambda>(i, s). simple_process i s) (enumerate 1 (commands c));
          c1 = c\<lparr>the_job := (the_job c)\<lparr>jb_task := True\<rparr>, the_task := (the_task c)\<lparr>tk_processes := newProcesses\<rparr>\<rparr> in
      case tk_order (the_task c) of
        None \<Rightarrow> (c1, Inl TypeError)
      | Some _ \<Rightarrow>
          (let t = (the_task c1)\<lparr>tk_order := Some (map (\<lambda>i. ''process'' @ string_of_nat i) [1..<Suc (length newProcesses)])\<rparr> in
           (c1\<lparr>the_task := t\<rparr>, Inr (stringify (job_json (the_job c1) t)))))"

text \<open>The steps of the advanced form; \<open>place\<close> is the left edge the grid gives a brick.\<close>

definition getProcesses :: "(nat \<Rightarrow> int) \<Rightarrow> form_page \<Rightarrow> form_page" where
  "getProcesses place c = c\<lparr>bricks := map (\<lambda>(i, r). (place i, pName r)) (enumerate 0 (process_rows c)),
     processes := map row_process (process_rows c)\<rparr>"

definition ordered_bricks :: "(int \<times> string) list \<Rightarrow> (int \<times> string) list" where
  "ordered_bricks bs = array_sort (\<lambda>a b. fst a - fst b) bs"

definition getTask :: "(string \<Rightarrow> string) \<Rightarrow> form_page \<Rightarrow> form_page" where
  "getTask field c = c\<lparr>the_task := (the_task c)\<lparr>
       tk_order := (if \<not> pOrderParallel c then Some (map snd (ordered_bricks (bricks c))) else None),
       tk_processes := processes c,
       tk_name := JStr (field ''tName''),
       tk_finalization_wait := JStr (field ''tFinalWait''),
       tk_max_failures := JStr (field ''tMaxFail''),
       tk_max_concurrency := JStr (field ''tMaxConcurr''),
       tk_disk := JStr (field ''tdisk''),
       tk_ram := JStr (field ''tram''),
       tk_cpu := JStr (field ''tcpu'')\<rparr>\<rparr>"

definition getJob :: "(string \<Rightarrow> string) \<Rightarrow> form_page \<Rightarrow> form_page" where
  "getJob field c = c\<lparr>the_job := (the_job c)\<lparr>jb_task := True,
       jb_name := JStr (field ''jName''),
       jb_environment := JStr (field ''jEnvironment''),
       jb_max_task_failures := JStr (field ''jMaxTFailures''),
       jb_enable_hooks := JStr (field ''jEnableHooks''),
       jb_production := JStr (field ''jProduction''),
       jb_role := JStr (field ''jRole'')\<rparr>\<rparr>"

text \<open>The wizard's \<open>next\<close> and \<open>back\<close> buttons.\<close>

definition pNext :: "(nat \<Rightarrow> int) \<Rightarrow> form_page \<Rightarrow> form_page" where
  "pNext place c = (getProcesses place c)\<lparr>tab := ''#task''\<rparr>"

definition tNext :: "(string \<Rightarrow> string) \<Rightarrow> form_page \<Rightarrow> form_page" where
  "tNext field c = (getTask field c)\<lparr>tab := ''#job''\<rparr>"

definition tBack :: "form_page \<Rightarrow> form_page" where "tBack c = c\<lparr>tab := ''#process''\<rparr>"
definition jBack :: "form_page \<Rightarrow> form_page" where "jBack c = c\<lparr>tab := ''#task''\<rparr>"

record send_data =
  aSchedulerAddr :: string
  aSchedulerPort :: string
  jobName :: string
  environment :: string
  cpu :: json
  ram :: json
  disk :: json
  execConfig :: string
  constraintName :: string
  constraintValue :: string
  role :: string

fun json_text :: "json \<Rightarrow> string" where
  "json_text (JStr s) = s"
| "json_text x = stringify x"

definition getSendData :: "string \<Rightarrow> (string \<Rightarrow> string) \<Rightarrow> form_page \<Rightarrow> form_page \<times> send_data result" where
  "getSendData formId field c =
     (if formId = ''createJobAdvanced'' then
        (let c1 = getJob field c; t = the_task c1 in
         (c1, Inr \<lparr>aSchedulerAddr = field ''jASchedulerAddr'', aSchedulerPort = ''8082'',
            jobName = json_text (jb_name (the_job c1)), environment = json_text (jb_environment (the_job c1)),
            cpu = tk_cpu t, ram = tk_ram t, disk = tk_disk t, execConfig = stringify (job_json (the_job c1) t),
            constraintName = field ''tcname'', constraintValue = field ''tcvalue'',
            role = json_text (jb_role (the_job c1))\<rparr>))
      else
        (case getExecConfig c of
           (c1, Inl e) \<Rightarrow> (c1, Inl e)
         | (c1, Inr exec) \<Rightarrow> (c1, Inr
             \<lparr>aSchedulerAddr = field ''aSchedulerAddr'', aSchedulerPort = ''8082'', jobName = field ''jobName'',
              environment = field ''environment'', cpu = JStr (field ''cpu''), ram = JStr (field ''ram''),
              disk = JStr (field ''disk''), execConfig = exec, constraintName = field ''cname'',
              constraintValue = field ''cvalue'', role = field ''role''\<rparr>)))"

definition send_json :: "send_data \<Rightarrow> json" where
  "send_json d = JObj [(''aSchedulerAddr'', JStr (aSchedulerAddr d)), (''aSchedulerPort'', JStr (aSchedulerPort d)),
     (''jobName'', JStr (jobName d)), (''environment'', JStr (environment d)), (''cpu'', cpu d), (''ram'', ram d),
     (''disk'', disk d), (''execConfig'', JStr (execConfig d)), (''constraintName'', JStr (constraintName d)),
     (''constraintValue'', JStr (constraintValue d)), (''role'', JStr (role d))]"

section \<open>Creating a job\<close>

text \<open>A request: its address and body.\<close>

type_synonym http_request = "string \<times> string"

definition API_URL :: string where "API_URL = ''../rest/auroraclient''"

text \<open>The guard before the request: an empty text that also has length zero.\<close>

definition no_command :: "string \<Rightarrow> bool" where
  "no_command exec \<longleftrightarrow> exec = [] \<and> length exec = 0"

definition callCreateJob :: "string \<Rightarrow> (string \<Rightarrow> string) \<Rightarrow> form_page \<Rightarrow> form_page \<times> http_request option result" where
  "callCreateJob formId field c = (case getSendData formId field c of
       (c1, Inl e) \<Rightarrow> (c1, Inl e)
     | (c1, Inr d) \<Rightarrow> (c1, Inr (if no_command (execConfig d) then None
         else Some (API_URL @ ''/createjob'', stringify (send_json d)))))"

section \<open>The table of jobs\<close>

record stored_job =
  username :: string
  jobname :: string
  joburl :: string
  created :: string
  scheduler :: string
  port :: string
  job_environment :: string
  sendData :: string

definition job_link :: "send_data \<Rightarrow> string" where
  "job_link d = ''http://'' @ aSchedulerAddr d @ '':8081/scheduler/'' @ role d @ ''/'' @ environment d @ ''/'' @ jobName d"

text \<open>\<open>addJobs\<close>: the record for a job that was created at \<open>date\<close>.\<close>

definition new_job :: "send_data \<Rightarrow> string \<Rightarrow> stored_job" where
  "new_job d date = \<lparr>username = role d, jobname = jobName d, joburl = job_link d, created = date,
     scheduler = aSchedulerAddr d, port = aSchedulerPort d, job_environment = environment d,
     sendData = stringify (send_json d)\<rparr>"

text \<open>
  A row of \<open>#jobtblbody\<close>; a row filled from the store carries the job its kill button is for.  Rows
  are numbered in the order of their creation, so a button can be told from a later one.
\<close>

record table_row =
  row_id :: nat
  row_key :: "nat option"
  row_name :: string
  row_link :: string
  row_created :: string
  row_job :: "stored_job option"

text \<open>
  The transactions on the store \<open>jobData\<close>: adding a record, or a cursor that has passed all keys
  below a number.  IndexedDB runs overlapping transactions in the order of their creation, read-only
  ones side by side.
\<close>

datatype transaction = Write stored_job | Read nat

record jobs_page =
  opened :: bool
  records :: "(nat \<times> stored_job) list" \<comment> \<open>in the order of the keys\<close>
  next_key :: nat
  transactions :: "transaction list"
  rows :: "table_row list"
  next_row :: nat
  asked :: "nat option option" \<comment> \<open>the open question: the row of the cell it is about, if any\<close>
  killed :: "http_request list"

definition add_row :: "nat option \<Rightarrow> string \<Rightarrow> string \<Rightarrow> string \<Rightarrow> stored_job option \<Rightarrow> jobs_page \<Rightarrow> jobs_page" where
  "add_row key name link date job p = p\<lparr>rows := rows p @ [\<lparr>row_id = next_row p, row_key = key, row_name = name,
     row_link = link, row_created = date, row_job = job\<rparr>], next_row := Suc (next_row p)\<rparr>"

text \<open>\<open>refreshData\<close> opens a cursor and empties the table.\<close>

definition refreshData :: "jobs_page \<Rightarrow> jobs_page result" where
  "refreshData p = (if opened p then Inr (p\<lparr>transactions := transactions p @ [Read 0], rows := []\<rparr>) else Inl TypeError)"

definition open_success :: "jobs_page \<Rightarrow> jobs_page result" where
  "open_success p = refreshData (p\<lparr>opened := True\<rparr>)"

definition addJobs :: "stored_job \<Rightarrow> jobs_page \<Rightarrow> jobs_page result" where
  "addJobs job p = (if opened p then Inr (p\<lparr>transactions := transactions p @ [Write job]\<rparr>) else Inl TypeError)"

text \<open>The success handler of the creation request.\<close>

definition create_success :: "send_data \<Rightarrow> string \<Rightarrow> jobs_page \<Rightarrow> jobs_page result" where
  "create_success d date p = res_bind (addJobs (new_job d date) p) (\<lambda>p'.
     Inr (add_row None (jobName d) (job_link d) date None p'))"

definition loadJobs :: "nat \<Rightarrow> jobs_page \<Rightarrow> jobs_page" where
  "loadJobs key p = (case map_of (records p) key of
       None \<Rightarrow> p
     | Some j \<Rightarrow> add_row (Some key) (jobname j) (joburl j) [] None p)"

text \<open>
  One step of the \<open>i\<close>-th transaction: a write runs when it is the oldest, and its success handler
  refreshes the table; a cursor moves when no older write is waiting, adds the row of the next
  record, and ends after the last.
\<close>

definition is_write :: "transaction \<Rightarrow> bool" where
  "is_write t = (case t of Write _ \<Rightarrow> True | Read _ \<Rightarrow> False)"

definition may_run :: "nat \<Rightarrow> transaction list \<Rightarrow> bool" where
  "may_run i ts \<longleftrightarrow> i < length ts \<and> (if is_write (ts ! i) then i = 0 else \<not> list_ex is_write (take i ts))"

definition remaining :: "nat \<Rightarrow> (nat \<times> stored_job) list \<Rightarrow> (nat \<times> stored_job) list" where
  "remaining n es = filter (\<lambda>(k, j). n \<le> k) es"

definition cursor_row :: "nat \<times> stored_job \<Rightarrow> jobs_page \<Rightarrow> jobs_page" where
  "cursor_row = (\<lambda>(k, j). add_row (Some k) (jobname j) (joburl j) (created j) (Some j))"

definition run_transaction :: "nat \<Rightarrow> jobs_page \<Rightarrow> jobs_page result" where
  "run_transaction i p = (case transactions p ! i of
       Write j \<Rightarrow> refreshData (p\<lparr>records := records p @ [(next_key p, j)], next_key := Suc (next_key p),
         transactions := remove_at i (transactions p)\<rparr>)
     | Read n \<Rightarrow> (case remaining n (records p) of
           [] \<Rightarrow> Inr (p\<lparr>transactions := remove_at i (transactions p)\<rparr>)
         | e # _ \<Rightarrow> Inr (cursor_row e (p\<lparr>transactions := (transactions p)[i := Read (Suc (fst e))]\<rparr>))))"

inductive jobs_run :: "jobs_page \<Rightarrow> jobs_page \<Rightarrow> bool" where
  idle: "jobs_run p p"
| more: "jobs_run p p' \<Longrightarrow> may_run i (transactions p') \<Longrightarrow> run_transaction i p' = Inr p'' \<Longrightarrow> jobs_run p p''"

section \<open>Killing a job\<close>

text \<open>
  The handler on a kill cell reads the data of the clicked element's parent: the cell when the icon
  was clicked, the row, which has none, when the rest of the cell was.
\<close>

datatype click = OnIcon nat | OnCell nat

definition cell_of :: "click \<Rightarrow> nat option" where
  "cell_of k = (case k of OnIcon i \<Rightarrow> Some i | OnCell i \<Rightarrow> None)"

text \<open>Data goes away with the row it is stored on.\<close>

definition cell_data :: "jobs_page \<Rightarrow> nat option \<Rightarrow> stored_job option" where
  "cell_data p cell = (case cell of None \<Rightarrow> None
     | Some i \<Rightarrow> (case filter (\<lambda>r. row_id r = i) (rows p) of [] \<Rightarrow> None | r # _ \<Rightarrow> row_job r))"

definition question :: "jobs_page \<Rightarrow> nat option \<Rightarrow> string" where
  "question p cell = ''Are you sure you want to kill job : '' @
     (case cell_data p cell of None \<Rightarrow> ''undefined'' | Some j \<Rightarrow> jobname j) @ '' ?''"

definition click_kill :: "click \<Rightarrow> jobs_page \<Rightarrow> jobs_page \<times> string" where
  "click_kill k p = (p\<lparr>asked := Some (cell_of k)\<rparr>, question p (cell_of k))"

definition kill_body :: "stored_job option \<Rightarrow> json" where
  "kill_body job = (case job of None \<Rightarrow> JObj []
     | Some j \<Rightarrow> JObj [(''aSchedulerAddr'', JStr (scheduler j)), (''aSchedulerPort'', JStr (port j)),
         (''jobName'', JStr (jobname j)), (''environment'', JStr (job_environment j)), (''role'', JStr (username j))])"

text \<open>The callback of the dialog; it may be called more than once (\<open>Dialog\<close>).\<close>

definition answer :: "bool \<Rightarrow> jobs_page \<Rightarrow> jobs_page" where
  "answer yes p = (case asked p of
       None \<Rightarrow> p
     | Some cell \<Rightarrow> p\<lparr>killed := (if yes then killed p @ [(API_URL @ ''/killjob'', stringify (kill_body (cell_data p cell)))]
                    else killed p)\<rparr>)"

section \<open>Properties of the forms\<close>

lemma stringify_object: "stringify (JObj ps) \<noteq> []"
  by simp

lemma job_json_text: "\<not> no_command (stringify (job_json j t))"
  by (simp add: no_command_def job_json_def)

text \<open>C28: as long as the task of the page has its list of constraints, as when the page is opened and after a task step
  with an order, creating a job from the simple form sends one request whatever the rows contain, an empty
  form included: the guard for a missing command looks at the printed configuration, which is
  never empty. The configuration lists the commands
  in order as \<open>process1\<close>, \<open>process2\<close>, ... and orders the processes that way, but keeps the name, the
  role and the resources of the last advanced form or of the defaults, not those of the simple form.\<close>

theorem simple_form_request:
  assumes "formId \<noteq> ''createJobAdvanced''" "tk_order (the_task c) = Some names"
  shows "\<exists>c' d. callCreateJob formId field c = (c', Inr (Some (''../rest/auroraclient/createjob'', stringify (send_json d))))
    \<and> execConfig d \<noteq> [] \<and> jobName d = field ''jobName'' \<and> ram d = JStr (field ''ram'')
    \<and> execConfig d = stringify (job_json ((the_job c)\<lparr>jb_task := True\<rparr>)
        ((the_task c)\<lparr>tk_processes := map (\<lambda>i. simple_process (Suc i) (commands c ! i)) [0..<length (commands c)],
          tk_order := Some (map (\<lambda>i. ''process'' @ string_of_nat (Suc i)) [0..<length (commands c)])\<rparr>))"
proof -
  have e: "map (\<lambda>(i, s). simple_process i s) (enumerate (Suc 0) xs) = map (\<lambda>i. simple_process (Suc i) (xs ! i)) [0..<length xs]" for xs
    by (rule nth_equalityI) (simp_all add: nth_enumerate_eq)
  have o: "map f [Suc 0..<Suc n] = map (\<lambda>i. f (Suc i)) [0..<n]" for f :: "nat \<Rightarrow> string" and n
    by (simp add: map_Suc_upt [symmetric] o_def del: upt.simps)
  obtain c' d where "getSendData formId field c = (c', Inr d)" "jobName d = field ''jobName''" "ram d = JStr (field ''ram'')"
    "execConfig d = stringify (job_json ((the_job c)\<lparr>jb_task := True\<rparr>)
        ((the_task c)\<lparr>tk_processes := map (\<lambda>i. simple_process (Suc i) (commands c ! i)) [0..<length (commands c)],
          tk_order := Some (map (\<lambda>i. ''process'' @ string_of_nat (Suc i)) [0..<length (commands c)])\<rparr>))"
    using assms by (simp add: getSendData_def getExecConfig_def e o Let_def del: upt.simps)
  then show ?thesis by (intro exI [of _ c'] exI [of _ d]) (simp add: callCreateJob_def job_json_text API_URL_def, simp add: job_json_def)
qed

theorem simple_form_request_witness:
  "\<exists>c' d. callCreateJob ''createJob'' (\<lambda>k. k) client_ready
      = (c', Inr (Some (''../rest/auroraclient/createjob'', stringify (send_json d)))) \<and> jobName d = ''jobName''"
  using simple_form_request [of "''createJob''" client_ready "[]" "\<lambda>k. k"]
  by (auto simp: client_ready_def addProcess_def addCommand_def taskObj_def)

text \<open>C29: after the task step of the wizard with parallel execution ticked, which is the default, the
  simple form cannot create a job any more: its constraints were deleted and reading the form throws
  before any request is sent, however the rows are edited; the advanced form still works.\<close>

theorem parallel_task_breaks_simple_form:
  assumes "pOrderParallel c" "formId \<noteq> ''createJobAdvanced''"
  shows "snd (callCreateJob formId field ((tNext task_field c)\<lparr>commands := cs, process_rows := ps\<rparr>)) = Inl TypeError
    \<and> snd (callCreateJob ''createJobAdvanced'' field (tNext task_field c)) \<noteq> Inl TypeError
    \<and> (let c2 = fst (callCreateJob formId field ((tNext task_field c)\<lparr>commands := cs, process_rows := ps\<rparr>)) in
        snd (callCreateJob formId field c2) = Inl TypeError)"
  using assms
  by (simp add: callCreateJob_def getSendData_def getExecConfig_def tNext_def getTask_def getJob_def Let_def)

theorem parallel_task_breaks_simple_form_witness:
  "snd (callCreateJob ''createJob'' (\<lambda>k. k) ((tNext (\<lambda>k. k) client_ready)\<lparr>commands := [''ls''], process_rows := []\<rparr>)) = Inl TypeError"
  using parallel_task_breaks_simple_form [of client_ready "''createJob''",
      where field = "\<lambda>k. k" and task_field = "\<lambda>k. k" and cs = "[''ls'']" and ps = "[]"]
  by (simp add: client_ready_def addProcess_def addCommand_def)

lemma insert_by_left:
  "sorted (map fst xs) \<Longrightarrow> sorted (map fst (insert_by (\<lambda>a b. fst a - fst b) x (xs :: (int \<times> string) list)))"
proof (induction xs)
  case (Cons y ys)
  have s: "set (insert_by (\<lambda>a b. fst a - fst b) x ys) = insert x (set ys)"
    by (induction ys) auto
  show ?case using Cons by (auto simp: s)
qed simp

lemma ordered_bricks_sorted: "sorted (map fst (ordered_bricks bs))"
  unfolding ordered_bricks_def by (induction bs) (simp_all add: insert_by_left)

text \<open>the order written into a task is a rearrangement of the names of all its processes, by the
  left edges of their bricks; so it is the order on the screen as long as the bricks fit in a row.\<close>

theorem task_order:
  assumes "\<not> pOrderParallel c"
  shows "\<exists>bs. mset bs = mset (bricks c) \<and> sorted (map fst bs)
    \<and> tk_order (the_task (getTask field c)) = Some (map snd bs)"
  using assms ordered_bricks_sorted [of "bricks c"] array_sort_mset
  by (intro exI [of _ "ordered_bricks (bricks c)"]) (simp add: getTask_def ordered_bricks_def)

theorem task_order_witness:
  "\<exists>bs :: (int \<times> string) list. mset bs = {#(80, ''a''), (0, ''b'')#} \<and> sorted (map fst bs)
    \<and> tk_order (the_task (getTask (\<lambda>k. k) (client_ready\<lparr>pOrderParallel := False, bricks := [(80, ''a''), (0, ''b'')]\<rparr>)))
        = Some (map snd bs)"
  using task_order [of "client_ready\<lparr>pOrderParallel := False, bricks := [(80, ''a''), (0, ''b'')]\<rparr>" "\<lambda>k. k"] by simp

text \<open>Editing the forms by their buttons.\<close>

datatype edit = NewButton | CommandPlus nat | CommandMinus nat | ProcessPlus nat | ProcessMinus nat

definition edit_enabled :: "edit \<Rightarrow> form_page \<Rightarrow> bool" where
  "edit_enabled e c = (case e of NewButton \<Rightarrow> newButton c
     | CommandPlus i \<Rightarrow> i < length (commands c) | CommandMinus i \<Rightarrow> i < length (commands c)
     | ProcessPlus i \<Rightarrow> i < length (process_rows c) | ProcessMinus i \<Rightarrow> i < length (process_rows c))"

definition edit_step :: "edit \<Rightarrow> form_page \<Rightarrow> form_page" where
  "edit_step e c = (if \<not> edit_enabled e c then c else (case e of NewButton \<Rightarrow> addCommand None c
     | CommandPlus i \<Rightarrow> addCommand (Some i) c | CommandMinus i \<Rightarrow> removeCommand i c
     | ProcessPlus i \<Rightarrow> addProcess (Some i) c | ProcessMinus i \<Rightarrow> removeProcess i c))"

lemma no_process_step: "process_rows c = [] \<Longrightarrow> process_rows (edit_step e c) = []"
  by (auto simp: edit_step_def edit_enabled_def addCommand_def removeCommand_def Let_def split: edit.splits)

text \<open>the wizard cannot recover from removing its last process: no sequence of button presses
  brings a process row back, and the button that then appears adds a row to the other form.\<close>

theorem no_process_recovery:
  assumes "length (process_rows c) = 1"
  shows "let c0 = edit_step (ProcessMinus 0) c in newButton c0 \<and> process_rows (fold edit_step es c0) = []
    \<and> (if commands c = [] then commands (edit_step NewButton c0) = [[]] else True)"
proof -
  have p0: "process_rows (edit_step (ProcessMinus 0) c) = []" "newButton (edit_step (ProcessMinus 0) c)"
    using assms by (auto simp: edit_step_def edit_enabled_def removeProcess_def remove_at_def Let_def length_Suc_conv)
  have "process_rows (fold edit_step es d) = []" if "process_rows d = []" for d
    using that by (induction es arbitrary: d) (simp_all add: no_process_step)
  moreover have "commands (edit_step (ProcessMinus 0) c) = commands c"
    by (simp add: edit_step_def removeProcess_def Let_def)
  ultimately show ?thesis
    using p0 by (simp add: Let_def edit_step_def [of NewButton] edit_enabled_def [of NewButton] addCommand_def insert_after_def)
qed

theorem no_process_recovery_witness:
  "newButton (edit_step (ProcessMinus 0) client_ready)
    \<and> process_rows (fold edit_step [NewButton, CommandPlus 0] (edit_step (ProcessMinus 0) client_ready)) = []"
  using no_process_recovery [of client_ready "[NewButton, CommandPlus 0]"]
  by (simp add: client_ready_def addProcess_def addCommand_def insert_after_def Let_def)

section \<open>Properties of the table\<close>

text \<open>What a row shows of a record.\<close>

definition shown :: "table_row \<Rightarrow> nat option \<times> stored_job option" where
  "shown r = (row_key r, row_job r)"

definition shown_record :: "nat \<times> stored_job \<Rightarrow> nat option \<times> stored_job option" where
  "shown_record e = (Some (fst e), Some (snd e))"

definition reading :: "(nat \<times> stored_job) list \<Rightarrow> transaction \<Rightarrow> (nat option \<times> stored_job option) multiset" where
  "reading es t = (case t of Write _ \<Rightarrow> {#} | Read n \<Rightarrow> mset (map shown_record (remaining n es)))"

text \<open>
  The keys of the records ascend, below the next one.  While writes are waiting, the cursors behind
  them have not moved; afterwards the rows shown and the records the cursors have still to read are
  together \<open>k\<close> copies of the store.
\<close>

definition store_ok :: "jobs_page \<Rightarrow> bool" where
  "store_ok p \<longleftrightarrow> opened p \<and> sorted_wrt (<) (map fst (records p)) \<and> list_all (\<lambda>k. k < next_key p) (map fst (records p))"

definition copies :: "nat \<Rightarrow> jobs_page \<Rightarrow> bool" where
  "copies k p \<longleftrightarrow> store_ok p \<and> (\<exists>ws n. transactions p = map Write ws @ replicate n (Read 0) \<and> length ws + n = k
       \<and> (ws = [] \<longrightarrow> rows p = []))
     \<or> store_ok p \<and> list_all (\<lambda>t. \<not> is_write t) (transactions p)
       \<and> mset (map shown (rows p)) + sum_list (map (reading (records p)) (transactions p))
           = repeat_mset k (mset (map shown_record (records p)))"

lemma remaining_0 [simp]: "remaining 0 es = es"
  by (simp add: remaining_def)

lemma remaining_step:
  assumes "sorted_wrt (<) (map fst es)" "remaining n es = e # rest"
  shows "remaining (Suc (fst e)) es = rest"
  using assms
proof (induction es)
  case (Cons a es)
  obtain k j where a: "a = (k, j)" by force
  have later: "remaining (Suc k) es = es" using Cons(2) a by (auto simp: remaining_def filter_id_conv)
  show ?case
  proof (cases "n \<le> k")
    case True
    have "remaining n es = es" using Cons(2) True a by (auto simp: remaining_def filter_id_conv)
    then show ?thesis using Cons(3) True a later by (auto simp: remaining_def)
  next
    case False
    then have "remaining n es = e # rest" using Cons(3) a by (simp add: remaining_def)
    then have "e \<in> set (remaining n es)" "remaining (Suc (fst e)) es = rest" using Cons by auto
    moreover have "n \<le> fst e" using calculation(1) by (auto simp: remaining_def)
    ultimately show ?thesis using a False by (auto simp: remaining_def)
  qed
qed (simp add: remaining_def)

lemma sum_readings: "sum_list (map (reading es) (replicate n (Read 0))) = repeat_mset n (mset (map shown_record es))"
  by (induction n) (simp_all add: reading_def)

lemma sum_list_update_mset:
  "i < length xs \<Longrightarrow> f (xs ! i) = f y + (c :: 'b multiset) \<Longrightarrow> sum_list (map f (xs[i := y])) + c = sum_list (map f xs)"
  by (induction xs arbitrary: i) (auto simp: nth_Cons union_assoc split: nat.splits)

lemma sum_list_remove_mset:
  "i < length xs \<Longrightarrow> f (xs ! i) = ({#} :: 'b multiset) \<Longrightarrow> sum_list (map f (remove_at i xs)) = sum_list (map f xs)"
  by (induction xs arbitrary: i) (auto simp: remove_at_def nth_Cons split: nat.splits)

lemma copies_reads:
  "store_ok p \<Longrightarrow> transactions p = replicate k (Read 0) \<Longrightarrow> rows p = [] \<Longrightarrow>
     list_all (\<lambda>t. \<not> is_write t) (transactions p) \<and> mset (map shown (rows p)) + sum_list (map (reading (records p)) (transactions p))
           = repeat_mset k (mset (map shown_record (records p)))"
  by (simp add: sum_readings is_write_def list_all_length del: map_replicate)

lemma store_ok_write:
  "store_ok p \<Longrightarrow> store_ok (p\<lparr>records := records p @ [(next_key p, j)], next_key := Suc (next_key p), transactions := ts, rows := rs\<rparr>)"
  by (auto simp: store_ok_def sorted_wrt_append list_all_iff less_Suc_eq)

lemma copies_read_step:
  assumes "store_ok p" "list_all (\<lambda>t. \<not> is_write t) (transactions p)" "i < length (transactions p)"
    "mset (map shown (rows p)) + sum_list (map (reading (records p)) (transactions p)) = M"
    "run_transaction i p = Inr p'"
  shows "store_ok p' \<and> records p' = records p \<and> list_all (\<lambda>t. \<not> is_write t) (transactions p')
    \<and> mset (map shown (rows p')) + sum_list (map (reading (records p')) (transactions p')) = M"
proof -
  obtain n where n: "transactions p ! i = Read n"
    using assms(2,3) by (cases "transactions p ! i") (auto simp: list_all_length is_write_def)
  have keep: "list_all (\<lambda>t. \<not> is_write t) (remove_at i (transactions p))"
      "list_all (\<lambda>t. \<not> is_write t) ((transactions p)[i := Read m])" for m
    using assms(2) by (auto simp: list_all_iff remove_at_def is_write_def dest!: in_set_takeD in_set_dropD set_update_subset_insert [THEN subsetD])
  show ?thesis
  proof (cases "remaining n (records p)")
    case Nil
    then have "reading (records p) (transactions p ! i) = {#}" by (simp add: n reading_def)
    from sum_list_remove_mset [OF assms(3), of "reading (records p)", OF this] show ?thesis
      using assms n Nil keep(1) by (auto simp: run_transaction_def store_ok_def)
  next
    case (Cons e rest)
    obtain k j where e: "e = (k, j)" by force
    have r: "remaining (Suc k) (records p) = rest"
      using remaining_step [OF _ Cons] assms(1) e by (auto simp: store_ok_def)
    have "reading (records p) (transactions p ! i) = reading (records p) (Read (Suc k)) + {#shown_record e#}"
      by (simp add: n reading_def Cons r)
    from sum_list_update_mset [OF assms(3), of "reading (records p)", OF this] show ?thesis
      using assms n Cons keep(2) e
      by (auto simp: run_transaction_def store_ok_def cursor_row_def add_row_def shown_def shown_record_def ac_simps)
  qed
qed

lemma copies_step:
  assumes "copies k p" "may_run i (transactions p)" "run_transaction i p = Inr p'"
  shows "copies k p'"
proof -
  consider (W) w ws n where "store_ok p" "transactions p = Write w # map Write ws @ replicate n (Read 0)" "Suc (length ws + n) = k"
    | (R) "store_ok p" "list_all (\<lambda>t. \<not> is_write t) (transactions p)"
      "mset (map shown (rows p)) + sum_list (map (reading (records p)) (transactions p)) = repeat_mset k (mset (map shown_record (records p)))"
  proof -
    from assms(1) consider (A) ws n where "store_ok p" "transactions p = map Write ws @ replicate n (Read 0)"
        "length ws + n = k" "ws = [] \<longrightarrow> rows p = []"
      | (B) "store_ok p" "list_all (\<lambda>t. \<not> is_write t) (transactions p)"
        "mset (map shown (rows p)) + sum_list (map (reading (records p)) (transactions p)) = repeat_mset k (mset (map shown_record (records p)))"
      unfolding copies_def by blast
    then show thesis
    proof cases
      case A
      then show ?thesis
        using copies_reads [of p k] that by (cases ws) auto
    next
      case B
      then show ?thesis by (rule that(2))
    qed
  qed
  then show ?thesis
  proof cases
    case W
    have "i = 0"
      using assms(2) W(2) by (cases i) (auto simp: may_run_def is_write_def split: if_splits)
    then have "p' = p\<lparr>records := records p @ [(next_key p, w)], next_key := Suc (next_key p),
        transactions := map Write ws @ replicate (Suc n) (Read 0), rows := []\<rparr>"
      using assms(3) W by (simp add: run_transaction_def refreshData_def store_ok_def remove_at_def replicate_append_same)
    then show ?thesis
      using store_ok_write [OF W(1)] W(3)
      unfolding copies_def by (intro disjI1 conjI exI [of _ ws] exI [of _ "Suc n"]) auto
  next
    case R
    have "i < length (transactions p)" using assms(2) by (simp add: may_run_def)
    from copies_read_step [OF R(1,2) this R(3) assms(3)] show ?thesis by (auto simp: copies_def)
  qed
qed

lemma copies_run: "jobs_run p p' \<Longrightarrow> copies k p \<Longrightarrow> copies k p'"
  by (induction rule: jobs_run.induct) (auto intro: copies_step)

text \<open>C30: when \<open>k\<close> created jobs are waiting to be stored and no cursor is open, then once all
  transactions have run, in any order IndexedDB allows, the table lists every stored job \<open>k\<close> times:
  once after a single creation, but twice when a second job was created before the first was stored.\<close>

theorem table_copies:
  assumes "store_ok p" "transactions p = map Write js" "js \<noteq> []" "jobs_run p p'" "transactions p' = []"
  shows "mset (map shown (rows p')) = repeat_mset (length js) (mset (map shown_record (records p')))"
proof -
  have "copies (length js) p" using assms(1-3) by (auto simp: copies_def intro: exI [of _ 0])
  from copies_run [OF assms(4) this] assms(5) show ?thesis
    by (auto simp: copies_def)
qed

text \<open>A schedule: the transactions that are run, one after the other.\<close>

fun run_schedule :: "nat list \<Rightarrow> jobs_page \<Rightarrow> jobs_page option" where
  "run_schedule [] p = Some p"
| "run_schedule (i # is) p = (if \<not> may_run i (transactions p) then None
     else (case run_transaction i p of Inl e \<Rightarrow> None | Inr p' \<Rightarrow> run_schedule is p'))"

lemma run_schedule_run: "run_schedule is p' = Some p'' \<Longrightarrow> jobs_run p p' \<Longrightarrow> jobs_run p p''"
proof (induction "is" arbitrary: p')
  case (Cons i "is")
  then obtain q where "may_run i (transactions p')" "run_transaction i p' = Inr q" "run_schedule is q = Some p''"
    by (auto split: if_splits sum.splits)
  with Cons show ?case by (blast intro: jobs_run.more)
qed simp

definition empty_page :: jobs_page where
  "empty_page = \<lparr>opened = True, records = [], next_key = 1, transactions = [], rows = [], next_row = 0, asked = None, killed = []\<rparr>"

definition sample_job :: "string \<Rightarrow> stored_job" where
  "sample_job name = \<lparr>username = ''www'', jobname = name, joburl = [], created = [], scheduler = ''host'',
     port = ''8082'', job_environment = ''prod'', sendData = []\<rparr>"

theorem table_copies_witness:
  "\<exists>p'. jobs_run (empty_page\<lparr>transactions := [Write (sample_job ''a''), Write (sample_job ''b'')]\<rparr>) p'
    \<and> mset (map shown (rows p')) = repeat_mset 2 {#(Some 1, Some (sample_job ''a'')), (Some 2, Some (sample_job ''b''))#}"
proof -
  let ?js = "[sample_job ''a'', sample_job ''b'']"
  let ?p = "empty_page\<lparr>transactions := map Write ?js\<rparr>"
  obtain p' where s: "run_schedule [0, 0, 0, 1, 0, 0, 0, 0] ?p = Some p'" "transactions p' = []"
      "records p' = [(1, sample_job ''a''), (2, sample_job ''b'')]"
    by (simp add: empty_page_def may_run_def is_write_def run_transaction_def refreshData_def remaining_def
        cursor_row_def add_row_def remove_at_def)
  have r: "jobs_run ?p p'" by (rule run_schedule_run [OF s(1) jobs_run.idle])
  have "store_ok ?p" by (simp add: store_ok_def empty_page_def)
  from table_copies [OF this _ _ r s(2), of ?js] show ?thesis
    using r by (intro exI [of _ p']) (simp add: s(3) shown_record_def numeral_2_eq_2)
qed

section \<open>Properties of the kill dialog\<close>

text \<open>a job is only killed after the question is answered with yes, and one request is sent per such answer.
  When the icon of a listed job was clicked and the table has not been refreshed since, the request
  names that job, the one in the question; when the table was refreshed while the question was open,
  the request is empty, and after a click beside the icon the question already asks for
  \<open>undefined\<close>.\<close>

theorem kill_confirmation:
  assumes "r \<in> set (rows p)" "distinct (map row_id (rows p))" "row_job r = Some j"
  shows "(let (p1, q) = click_kill (OnIcon (row_id r)) p in
      q = ''Are you sure you want to kill job : '' @ jobname j @ '' ?''
      \<and> killed (answer False p1) = killed p
      \<and> killed (answer True p1) = killed p @ [(''../rest/auroraclient/killjob'', stringify (kill_body (Some j)))]
      \<and> (case refreshData p1 of Inl e \<Rightarrow> \<not> opened p
         | Inr p2 \<Rightarrow> killed (answer True p2) = killed p @ [(''../rest/auroraclient/killjob'', ''{}'')]))
    \<and> snd (click_kill (OnCell (row_id r)) p) = ''Are you sure you want to kill job : undefined ?''"
proof -
  have "filter (\<lambda>x. row_id x = row_id r) rs = [r]" if "r \<in> set rs" "distinct (map row_id rs)" for rs
    using that
  proof (induction rs)
    case (Cons a rs)
    then show ?case by (cases "row_id a = row_id r") (auto simp: filter_empty_conv image_iff)
  qed simp
  from this [OF assms(1,2)] assms(3) show ?thesis
    by (simp add: click_kill_def question_def cell_of_def cell_data_def answer_def refreshData_def kill_body_def API_URL_def)
qed

theorem kill_confirmation_witness:
  "\<exists>p r. r \<in> set (rows p) \<and> row_job r = Some (sample_job ''a'')
    \<and> snd (click_kill (OnIcon (row_id r)) p) = ''Are you sure you want to kill job : a ?''"
proof -
  let ?p = "cursor_row (1, sample_job ''a'') empty_page"
  obtain r where r: "rows ?p = [r]" "row_job r = Some (sample_job ''a'')"
    by (simp add: cursor_row_def add_row_def empty_page_def)
  have "r \<in> set (rows ?p)" "distinct (map row_id (rows ?p))" using r by auto
  from kill_confirmation [OF this r(2)] show ?thesis
    using r by (intro exI [of _ ?p] exI [of _ r]) (simp add: Let_def case_prod_beta sample_job_def)
qed

end
