(* ===== verification/Gridly.thy ===== *)
theory Gridly
  imports WebClient
begin

text \<open>
  The grid in which the processes of a task are ordered (\<open>jquery.gridly.js\<close>, opened by
  \<open>getProcesses\<close> of \<open>auroraClient.js\<close>): the packing of the bricks into columns, the sorting of the
  bricks by the position kept in their data, and dragging a brick with the pointer.  Lengths are
  pixels, as exact rationals; \<open>Array.prototype.sort\<close> is the insertion sort of \<open>Underscore\<close>.
\<close>

section \<open>Edges\<close>

text \<open>
  A height the grid computes: \<open>-Infinity\<close> is what \<open>Math.max\<close> returns without arguments and
  \<open>Infinity\<close> what the search of a column starts with.
\<close>

datatype edge = Below | Px rat | Beyond

instantiation edge :: linorder
begin

definition less_eq_edge :: "edge \<Rightarrow> edge \<Rightarrow> bool" where
  "a \<le> b \<longleftrightarrow> (case (a, b) of (Px p, Px q) \<Rightarrow> p \<le> q | (Below, _) \<Rightarrow> True | (_, Beyond) \<Rightarrow> True | _ \<Rightarrow> False)"

definition less_edge :: "edge \<Rightarrow> edge \<Rightarrow> bool" where
  "a < b \<longleftrightarrow> a \<le> b \<and> \<not> b \<le> (a :: edge)"

instance
  by standard (auto simp: less_eq_edge_def less_edge_def split: edge.splits)

end

fun edge_plus :: "edge \<Rightarrow> rat \<Rightarrow> edge" where
  "edge_plus (Px p) q = Px (p + q)"
| "edge_plus e q = e"

definition math_max :: "edge list \<Rightarrow> edge" where
  "math_max es = foldl max Below es"

section \<open>Loops and slices\<close>

text \<open>The loops CoffeeScript makes of \<open>for i in [a...b]\<close> and \<open>for i in [0..n]\<close>: they count down when the end is
  smaller than the start.\<close>

definition coffee_range :: "int \<Rightarrow> rat \<Rightarrow> int list" where
  "coffee_range a b = (if of_int a \<le> b then [a..\<lceil>b\<rceil> - 1] else rev [\<lfloor>b\<rfloor> + 1..a])"

definition coffee_range_incl :: "nat \<Rightarrow> nat list" where
  "coffee_range_incl n = [0..<Suc n]"

definition to_integer :: "rat \<Rightarrow> int" where
  "to_integer q = (if q < 0 then \<lceil>q\<rceil> else \<lfloor>q\<rfloor>)"

definition slice_index :: "nat \<Rightarrow> rat \<Rightarrow> nat" where
  "slice_index n q = (let i = to_integer q in nat (if i < 0 then max 0 (i + int n) else min i (int n)))"

definition array_slice :: "rat \<Rightarrow> rat \<Rightarrow> 'a list \<Rightarrow> 'a list" where
  "array_slice a b xs = take (slice_index (length xs) b - slice_index (length xs) a) (drop (slice_index (length xs) a) xs)"

text \<open>The assignment \<open>columns[i] = v\<close>: a negative index is a property no one reads, and an index past the
  end is the end itself, since the loop has come from below.\<close>

definition set_entry :: "'a \<Rightarrow> 'a list \<Rightarrow> int \<Rightarrow> 'a list" where
  "set_entry v xs i = (if i < 0 then xs else if nat i < length xs then xs[nat i := v] else xs @ [v])"

section \<open>Bricks\<close>

text \<open>An element of the grid with its jQuery data and its style.\<close>

record brick =
  ident :: string
  data_position :: "nat option"
  data_width :: "rat option"
  data_height :: "rat option"
  css_width :: rat
  css_height :: rat
  css_left :: rat
  css_top :: rat
  dragging :: bool

record grid_settings =
  base :: rat
  gutter :: rat
  grid_columns :: nat
  grid_optimize :: "(brick list \<Rightarrow> brick list) option"

definition or_number :: "rat option \<Rightarrow> rat \<Rightarrow> rat" where
  "or_number d x = (case d of None \<Rightarrow> x | Some w \<Rightarrow> if w = 0 then x else w)"

definition brick_width :: "brick \<Rightarrow> rat" where
  "brick_width b = or_number (data_width b) (css_width b)"

definition brick_height :: "brick \<Rightarrow> rat" where
  "brick_height b = or_number (data_height b) (css_height b)"

definition brick_size :: "grid_settings \<Rightarrow> brick \<Rightarrow> rat" where
  "brick_size st b = (brick_width b + gutter st) / (base st + gutter st)"

section \<open>Packing\<close>

definition better_column :: "edge list \<Rightarrow> rat \<Rightarrow> edge \<times> int \<Rightarrow> int \<Rightarrow> edge \<times> int" where
  "better_column columns units found i =
     (let m = math_max (array_slice (of_int i) (of_int i + units) columns) in
      if m < fst found then (m, i) else found)"

definition find_column :: "edge list \<Rightarrow> rat \<Rightarrow> edge \<times> int" where
  "find_column columns units =
     foldl (better_column columns units) (Beyond, 0) (coffee_range 0 (of_nat (length columns) - units))"

text \<open>\<open>position\<close> chooses the place of a brick and raises the columns under it.\<close>

definition position :: "grid_settings \<Rightarrow> brick \<Rightarrow> edge list \<Rightarrow> (rat \<times> edge) \<times> edge list" where
  "position st b columns =
     (let units = brick_size st b; (height, column) = find_column columns units in
      ((of_int column * (base st + gutter st), height),
       foldl (set_entry (edge_plus (edge_plus height (brick_height b)) (gutter st))) columns
         (coffee_range column (of_int column + units))))"

record slot =
  slot_x :: rat
  slot_y :: edge
  slot_w :: rat
  slot_h :: rat
  slot_brick :: brick

definition structure_step :: "grid_settings \<Rightarrow> edge list \<times> slot list \<Rightarrow> brick \<Rightarrow> edge list \<times> slot list" where
  "structure_step st acc b =
     (let (p, columns) = position st b (fst acc) in
      (columns, snd acc @ [\<lparr>slot_x = fst p, slot_y = snd p, slot_w = brick_width b, slot_h = brick_height b,
         slot_brick = b\<rparr>]))"

definition grid_structure :: "grid_settings \<Rightarrow> brick list \<Rightarrow> edge \<times> slot list" where
  "grid_structure st bs =
     (let (columns, slots) = foldl (structure_step st) (map (\<lambda>i. Px 0) (coffee_range_incl (grid_columns st)), []) bs in
      (math_max columns, slots))"

text \<open>\<open>optimize\<close> takes, as long as there are bricks, the first that still fits into the row.\<close>

definition first_fit :: "grid_settings \<Rightarrow> rat \<Rightarrow> brick list \<Rightarrow> nat" where
  "first_fit st columns originals =
     length (takeWhile (\<lambda>b. \<not> columns + brick_size st b \<le> of_nat (grid_columns st)) originals)"

lemma first_fit_le: "first_fit st columns originals \<le> length originals"
  by (simp add: first_fit_def length_takeWhile_le)

lemma remove_at_length [simp]: "i < length xs \<Longrightarrow> length (remove_at i xs) = length xs - 1"
  by (auto simp: remove_at_def)

function optimize_loop :: "grid_settings \<Rightarrow> rat \<Rightarrow> brick list \<Rightarrow> brick list" where
  "optimize_loop st columns originals =
     (if originals = [] then []
      else let columns = (if columns = of_nat (grid_columns st) then 0 else columns);
               fit = first_fit st columns originals;
               (index, columns) = (if fit = length originals then (0, 0) else (fit, columns)) in
           originals ! index
             # optimize_loop st (columns + brick_size st (originals ! index)) (remove_at index originals))"
  by pat_completeness auto
termination
proof (relation "measure (\<lambda>(st, columns, originals). length originals)", goal_cases)
  case (2 st columns originals c fit p index c')
  then have "index < length originals"
    using first_fit_le [of st c originals] by (auto split: if_splits simp: le_less)
  with 2 show ?case by simp
qed simp

declare optimize_loop.simps [simp del]

definition optimize :: "grid_settings \<Rightarrow> brick list \<Rightarrow> brick list" where
  "optimize st originals = (case grid_optimize st of Some f \<Rightarrow> f originals | None \<Rightarrow> optimize_loop st 0 originals)"

section \<open>The order of the bricks\<close>

text \<open>The comparison of \<open>$sorted\<close>, on the bricks with their index in the page; a position is
  falsy when it is missing or zero, and a missing one is \<open>NaN\<close> as an integer.\<close>

definition falsy_position :: "nat option \<Rightarrow> bool" where
  "falsy_position p \<longleftrightarrow> p = None \<or> p = Some 0"

definition sorted_compare :: "nat \<times> brick \<Rightarrow> nat \<times> brick \<Rightarrow> int" where
  "sorted_compare a b =
     (let p = data_position (snd a); q = data_position (snd b) in
      if p \<noteq> None \<and> q = None then -1
      else if q \<noteq> None \<and> p = None then 1
      else if falsy_position p \<and> falsy_position q \<and> fst a < fst b then -1
      else if falsy_position q \<and> falsy_position p \<and> fst b < fst a then 1
      else (case (p, q) of
          (Some i, Some j) \<Rightarrow> if i < j then -1 else if j < i then 1 else 0
        | _ \<Rightarrow> 0))"

definition sorted_bricks :: "brick list \<Rightarrow> brick list" where
  "sorted_bricks bs = map snd (array_sort sorted_compare (enumerate 0 bs))"

definition set_brick :: "string \<Rightarrow> (brick \<Rightarrow> brick) \<Rightarrow> brick list \<Rightarrow> brick list" where
  "set_brick k f bs = map (\<lambda>b. if ident b = k then f b else b) bs"

definition reordinalize :: "string \<Rightarrow> nat \<Rightarrow> brick list \<Rightarrow> brick list" where
  "reordinalize k i bs = set_brick k (\<lambda>b. b\<lparr>data_position := Some i\<rparr>) bs"

text \<open>The loop runs one step too far, on an empty jQuery set.\<close>

definition ordinalize_step :: "string list \<Rightarrow> brick list \<Rightarrow> nat \<Rightarrow> brick list" where
  "ordinalize_step ids bs i = (if i < length ids then reordinalize (ids ! i) i bs else bs)"

definition ordinalize :: "string list \<Rightarrow> brick list \<Rightarrow> brick list" where
  "ordinalize ids bs = foldl (ordinalize_step ids) bs (coffee_range_incl (length ids))"

definition slot_compare :: "slot \<Rightarrow> slot \<Rightarrow> int" where
  "slot_compare d s =
     (if slot_y d > edge_plus (slot_y s) (slot_h s) then 1
      else if slot_y s > edge_plus (slot_y d) (slot_h d) then -1
      else if slot_x d + slot_w d / 2 > slot_x s + slot_w s / 2 then 1
      else if slot_x s + slot_w s / 2 > slot_x d + slot_w d / 2 then -1
      else 0)"

section \<open>The grid and its draggable\<close>

text \<open>
  \<open>pending\<close> counts the layouts that wait in \<open>setTimeout\<close>; \<open>listening\<close> counts how often the move and
  end handlers are registered with the document; \<open>target\<close>, \<open>origin\<close> and \<open>dragged\<close> are the fields of
  \<open>Draggable\<close>.
\<close>

record gridly =
  settings :: grid_settings
  elements :: "brick list"
  grid_height :: edge
  pending :: nat
  listening :: nat
  target :: "string option"
  origin :: "rat \<times> rat"
  dragged :: bool

definition place_brick :: "brick list \<Rightarrow> brick \<times> slot \<Rightarrow> brick list" where
  "place_brick bs = (\<lambda>(b, s).
     if dragging b then bs
     else set_brick (ident b) (\<lambda>x. (case slot_y s of Px y \<Rightarrow> x\<lparr>css_left := slot_x s, css_top := y\<rparr>
       | _ \<Rightarrow> x\<lparr>css_left := slot_x s\<rparr>)) bs)"

definition grid_layout :: "gridly \<Rightarrow> gridly" where
  "grid_layout g =
     (let els = optimize (settings g) (sorted_bricks (elements g));
          (height, slots) = grid_structure (settings g) els in
      g\<lparr>elements := foldl place_brick (elements g) (zip els slots), grid_height := height\<rparr>)"

definition new_grid :: "grid_settings \<Rightarrow> brick list \<Rightarrow> gridly" where
  "new_grid st bs = \<lparr>settings = st, elements = ordinalize (map ident bs) bs, grid_height = Px 0, pending = 0,
     listening = 0, target = None, origin = (0, 0), dragged = False\<rparr>"

text \<open>A pointer event: the brick its target lies in, the coordinates of a mouse event and those of the
  first touch.\<close>

record pointer_event =
  ev_type :: string
  over :: "string option"
  page :: "rat \<times> rat"
  touch :: "rat \<times> rat"

definition coordinate :: "pointer_event \<Rightarrow> rat \<times> rat" where
  "coordinate e = (if List.member [''touchstart'', ''touchmove'', ''touchend'', ''touchcancel''] (ev_type e)
     then touch e else page e)"

text \<open>The callbacks of \<open>Gridly\<close>; the second component is what \<open>callbacks.reordering\<close> and
  \<open>callbacks.reordered\<close> are called with.\<close>

definition draggingBegan :: "gridly \<Rightarrow> gridly \<times> string list" where
  "draggingBegan g = (let els = map ident (sorted_bricks (elements g)) in
     (g\<lparr>elements := ordinalize els (elements g), pending := pending g + 1\<rparr>, els))"

definition draggingEnded :: "gridly \<Rightarrow> gridly \<times> string list" where
  "draggingEnded g = (let els = map ident (sorted_bricks (elements g)) in
     (g\<lparr>elements := ordinalize els (elements g), pending := pending g + 1\<rparr>, els))"

definition actual_slot :: "string option \<Rightarrow> slot \<Rightarrow> slot" where
  "actual_slot d s = (let b = slot_brick s in
     if d = Some (ident b)
     then s\<lparr>slot_x := css_left b, slot_y := Px (css_top b), slot_w := brick_width b, slot_h := brick_height b\<rparr> else s)"

definition draggingMoved :: "pointer_event \<Rightarrow> gridly \<Rightarrow> gridly" where
  "draggingMoved e g =
     (let positions = map (actual_slot (over e)) (snd (grid_structure (settings g) (sorted_bricks (elements g))));
          els = map ident (optimize (settings g) (map slot_brick (array_sort slot_compare positions))) in
      grid_layout (g\<lparr>elements := foldl (ordinalize_step els) (elements g) [0..<length els]\<rparr>))"

text \<open>The handlers of \<open>Draggable\<close>.\<close>

definition began :: "string \<Rightarrow> pointer_event \<Rightarrow> gridly \<Rightarrow> gridly" where
  "began k e g =
     (if target g \<noteq> None then g
      else case find (\<lambda>b. ident b = k) (elements g) of
          None \<Rightarrow> g
        | Some b \<Rightarrow> fst (draggingBegan (g\<lparr>listening := listening g + 1, target := Some k,
            elements := set_brick k (\<lambda>b. b\<lparr>dragging := True\<rparr>) (elements g),
            origin := (fst (coordinate e) - css_left b, snd (coordinate e) - css_top b)\<rparr>)))"

definition moved :: "pointer_event \<Rightarrow> gridly \<Rightarrow> gridly" where
  "moved e g = (case target g of
       None \<Rightarrow> g
     | Some k \<Rightarrow> draggingMoved e (g\<lparr>dragged := True,
         elements := set_brick k (\<lambda>b. b\<lparr>css_left := fst (coordinate e) - fst (origin g),
           css_top := snd (coordinate e) - snd (origin g)\<rparr>) (elements g)\<rparr>))"

definition ended :: "gridly \<Rightarrow> gridly" where
  "ended g = (case target g of
       None \<Rightarrow> g
     | Some k \<Rightarrow> fst (draggingEnded (g\<lparr>listening := 0, target := None,
         elements := set_brick k (\<lambda>b. b\<lparr>dragging := False\<rparr>) (elements g)\<rparr>)))"

definition grid_click :: "gridly \<Rightarrow> gridly" where
  "grid_click g = (if dragged g then g\<lparr>dragged := False\<rparr> else g)"

text \<open>Down and click are delivered for events inside a brick; the document delivers the moves and
  the end of a drag to the registered handlers.\<close>

datatype grid_event = Down string pointer_event | Drag pointer_event | Up | Click | Timeout

definition grid_step :: "grid_event \<Rightarrow> gridly \<Rightarrow> gridly" where
  "grid_step ev g = (case ev of
       Down k e \<Rightarrow> began k e g
     | Drag e \<Rightarrow> (moved e ^^ listening g) g
     | Up \<Rightarrow> (if listening g = 0 then g else ended g)
     | Click \<Rightarrow> grid_click g
     | Timeout \<Rightarrow> (case pending g of 0 \<Rightarrow> g | Suc n \<Rightarrow> grid_layout (g\<lparr>pending := n\<rparr>)))"

definition grid_run :: "grid_event list \<Rightarrow> gridly \<Rightarrow> gridly" where
  "grid_run evs g = foldl (\<lambda>g ev. grid_step ev g) g evs"

section \<open>Sorting and ordinals\<close>

lemma insert_by_mset': "set (insert_by cmp x ys) = insert x (set ys)"
  by (induction ys) auto

lemma array_sort_set: "set (array_sort cmp xs) = set xs"
  by (metis array_sort_mset mset_eq_setD)

lemma insert_by_key_on:
  "(\<And>y. y \<in> set ys \<Longrightarrow> cmp x y \<le> 0 \<longleftrightarrow> f x \<le> f y) \<Longrightarrow> insert_by cmp x ys = insort_key f x ys"
  by (induction ys) auto

text \<open>A comparison that orders distinct keys sorts by the key.\<close>

lemma array_sort_key_on:
  assumes "\<And>x y. x \<in> set xs \<Longrightarrow> y \<in> set xs \<Longrightarrow> f x \<noteq> f y \<Longrightarrow> cmp x y \<le> 0 \<longleftrightarrow> (f x :: 'b::linorder) \<le> f y"
    and "distinct (map f xs)"
  shows "array_sort cmp xs = sort_key f xs"
  using assms
proof (induction xs)
  case (Cons x xs)
  then have e: "array_sort cmp xs = sort_key f xs" by simp
  have "insert_by cmp x (sort_key f xs) = insort_key f x (sort_key f xs)"
    by (rule insert_by_key_on) (use Cons.prems in \<open>auto simp: image_iff\<close>)
  then show ?case by (simp add: e)
qed simp

lemma sorted_bricks_mset [simp]: "mset (sorted_bricks bs) = mset bs"
  unfolding sorted_bricks_def mset_map array_sort_mset unfolding mset_map [symmetric] by simp

lemma sorted_bricks_set [simp]: "set (sorted_bricks bs) = set bs"
  by (rule mset_eq_setD) simp

lemma sorted_bricks_idents: "mset (map ident (sorted_bricks bs)) = mset (map ident bs)"
  by simp

text \<open>The positions that give the bricks a place: every one of the first numbers, once.\<close>

definition numbered :: "brick list \<Rightarrow> bool" where
  "numbered bs \<longleftrightarrow> mset (map data_position bs) = mset (map Some [0..<length bs])"

lemma numbered_distinct: "numbered bs \<Longrightarrow> distinct (map data_position bs)"
  unfolding numbered_def by (drule mset_eq_imp_distinct_iff) (auto simp only: distinct_map distinct_upt inj_on_def)

lemma numbered_Some: "numbered bs \<Longrightarrow> b \<in> set bs \<Longrightarrow> \<exists>i < length bs. data_position b = Some i"
  unfolding numbered_def by (drule mset_eq_setD) (auto simp: set_eq_iff image_iff, metis atLeastLessThan_iff)

lemma sorted_numbered:
  assumes "numbered bs"
  shows "sorted_bricks bs = sort_key (\<lambda>b. the (data_position b)) bs"
proof -
  let ?f = "\<lambda>b. the (data_position b)"
  have some: "\<And>b. b \<in> set bs \<Longrightarrow> \<exists>i. data_position b = Some i" using numbered_Some [OF assms] by blast
  have d: "distinct (map ?f bs)"
    using numbered_distinct [OF assms] some by (auto simp: distinct_map inj_on_def) (metis option.sel)
  have "array_sort sorted_compare (enumerate 0 bs) = sort_key (\<lambda>p. ?f (snd p)) (enumerate 0 bs)"
  proof (rule array_sort_key_on)
    have "map (\<lambda>p. ?f (snd p)) (enumerate 0 bs) = map ?f bs"
      by (metis (no_types, lifting) list.map_comp comp_def map_eq_conv map_snd_enumerate)
    then show "distinct (map (\<lambda>p. ?f (snd p)) (enumerate 0 bs))" using d by simp
  next
    fix x y :: "nat \<times> brick"
    assume "x \<in> set (enumerate 0 bs)" "y \<in> set (enumerate 0 bs)" and ne: "?f (snd x) \<noteq> ?f (snd y)"
    then have "snd x \<in> set bs" "snd y \<in> set bs" by (auto simp: in_set_enumerate_eq) (metis nth_mem)+
    then obtain i j where "data_position (snd x) = Some i" "data_position (snd y) = Some j" using some by blast
    then show "sorted_compare x y \<le> 0 \<longleftrightarrow> ?f (snd x) \<le> ?f (snd y)"
      using ne by (simp add: sorted_compare_def falsy_position_def Let_def split: if_splits)
  qed
  then show ?thesis by (simp add: sorted_bricks_def sort_key_map [of snd "\<lambda>b. the (data_position b)"])
qed

text \<open>Numbering the bricks of a list gives each its index in the list.\<close>

definition index_of :: "string list \<Rightarrow> string \<Rightarrow> nat" where
  "index_of ids k = length (takeWhile (\<lambda>x. x \<noteq> k) ids)"

lemma index_of_nth: "distinct ids \<Longrightarrow> i < length ids \<Longrightarrow> index_of ids (ids ! i) = i"
proof (induction ids arbitrary: i)
  case (Cons a ids)
  then show ?case by (cases i) (auto simp: index_of_def)
qed simp

lemma nth_index_of: "k \<in> set ids \<Longrightarrow> ids ! index_of ids k = k \<and> index_of ids k < length ids"
  by (induction ids) (auto simp: index_of_def)

lemma index_of_less: "distinct ids \<Longrightarrow> n < length ids \<Longrightarrow> k = ids ! n \<longleftrightarrow> index_of ids k = n"
proof (cases "k \<in> set ids")
  case True
  then show "distinct ids \<Longrightarrow> n < length ids \<Longrightarrow> ?thesis" using index_of_nth [of ids n] nth_index_of [of k ids] by auto
next
  case False
  then have "takeWhile (\<lambda>x. x \<noteq> k) ids = ids" by (auto simp: takeWhile_eq_all_conv)
  then have "index_of ids k = length ids" by (simp only: index_of_def)
  then show "n < length ids \<Longrightarrow> ?thesis" using False by auto
qed

lemma ordinalize_upto:
  assumes "distinct ids"
  shows "n \<le> length ids \<Longrightarrow> foldl (ordinalize_step ids) bs [0..<n] =
    map (\<lambda>b. if index_of ids (ident b) < n then b\<lparr>data_position := Some (index_of ids (ident b))\<rparr> else b) bs"
proof (induction n)
  case (Suc n)
  then show ?case
    using index_of_less [OF assms, of n]
    by (auto simp: ordinalize_step_def reordinalize_def set_brick_def less_Suc_eq)
qed simp

lemma ordinalize_eq: "ordinalize ids bs = foldl (ordinalize_step ids) bs [0..<length ids]"
  by (simp add: ordinalize_def coffee_range_incl_def ordinalize_step_def)

lemma ordinalize_map:
  assumes "distinct (map ident bs)" "mset ids = mset (map ident bs)"
  shows "ordinalize ids bs = map (\<lambda>b. b\<lparr>data_position := Some (index_of ids (ident b))\<rparr>) bs"
proof -
  have d: "distinct ids" using assms by (metis mset_eq_imp_distinct_iff)
  have "\<And>b. b \<in> set bs \<Longrightarrow> index_of ids (ident b) < length ids"
    using assms(2) nth_index_of by (metis imageI list.set_map mset_eq_setD)
  then show ?thesis using ordinalize_upto [OF d, of "length ids" bs] by (simp add: ordinalize_eq)
qed

lemma map_index_of: "distinct ids \<Longrightarrow> map (index_of ids) ids = [0..<length ids]"
  by (rule nth_equalityI) (auto simp: index_of_nth)

lemma ordinalize_numbers:
  assumes "distinct (map ident bs)" "mset ids = mset (map ident bs)"
  shows "numbered (ordinalize ids bs)"
proof -
  have d: "distinct ids" using assms by (metis mset_eq_imp_distinct_iff)
  have "length ids = length bs" using assms(2) by (metis length_map size_mset)
  have "mset (map (index_of ids) (map ident bs)) = mset (map (index_of ids) ids)"
    using assms(2) by (metis mset_map)
  then have "mset (map (\<lambda>b. index_of ids (ident b)) bs) = mset [0..<length bs]"
    using d \<open>length ids = length bs\<close> by (simp add: map_index_of comp_def)
  then have "mset (map Some (map (\<lambda>b. index_of ids (ident b)) bs)) = mset (map Some [0..<length bs])"
    by (metis mset_map)
  then show ?thesis by (simp add: numbered_def ordinalize_map [OF assms] comp_def)
qed

lemma order_roundtrip_list:
  assumes "distinct (map ident bs)" "mset ids = mset (map ident bs)"
  shows "map ident (sorted_bricks (ordinalize ids bs)) = ids"
proof -
  let ?bs = "ordinalize ids bs" and ?f = "\<lambda>b. the (data_position b)"
  let ?s = "sort_key ?f ?bs"
  have d: "distinct ids" using assms by (metis mset_eq_imp_distinct_iff)
  have n: "numbered ?bs" by (rule ordinalize_numbers [OF assms])
  have l: "length ids = length ?bs" using arg_cong [OF assms(2), of size] by (simp add: ordinalize_map [OF assms])
  have "image_mset the (mset (map data_position ?bs)) = image_mset the (mset (map Some [0..<length ?bs]))"
    using n unfolding numbered_def by (rule arg_cong)
  then have "mset (map ?f ?bs) = mset [0..<length ?bs]" by (simp add: multiset.map_comp comp_def flip: mset_map)
  then have "sort (map ?f ?bs) = [0..<length ?bs]"
    by (intro properties_for_sort) simp_all
  then have p: "map ?f ?s = [0..<length ids]" using l using sort_key_map [of ?f "\<lambda>x. x" ?bs] by simp
  have "\<And>b. b \<in> set ?bs \<Longrightarrow> ident b = ids ! ?f b"
    using nth_index_of mset_eq_setD [OF assms(2)] by (auto simp: ordinalize_map [OF assms])
  then have "map ident ?s = map (\<lambda>b. ids ! ?f b) ?s" by simp
  also have "\<dots> = map ((!) ids) (map ?f ?s)" by simp
  also have "\<dots> = ids" by (simp only: p map_nth)
  finally show ?thesis by (simp add: sorted_numbered [OF n])
qed

text \<open>sorting undoes numbering: after the bricks have been numbered in the order of a list, the
  grid sorts them into exactly that order, whatever their order in the page.\<close>

theorem order_roundtrip:
  assumes "distinct (map ident bs)" "mset ids = mset (map ident bs)"
  shows "map ident (sorted_bricks (ordinalize ids bs)) = ids"
  using assms by (rule order_roundtrip_list)

theorem order_roundtrip_witness:
  "map ident (sorted_bricks (ordinalize [''b'', ''a'']
     [\<lparr>ident = ''a'', data_position = None, data_width = None, data_height = None, css_width = 74, css_height = 40,
       css_left = 0, css_top = 0, dragging = False\<rparr>,
      \<lparr>ident = ''b'', data_position = None, data_width = None, data_height = None, css_width = 74, css_height = 40,
       css_left = 0, css_top = 0, dragging = False\<rparr>])) = [''b'', ''a'']"
  by (rule order_roundtrip) simp_all

section \<open>Packing\<close>

lemma remove_at_mset: "i < length xs \<Longrightarrow> add_mset (xs ! i) (mset (remove_at i xs)) = mset xs"
  by (metis id_take_nth_drop mset_append mset.simps(2) remove_at_def union_mset_add_mset_right)

lemma optimize_permutes_mset: "mset (optimize_loop st columns originals) = mset originals"
proof (induction st columns originals rule: optimize_loop.induct)
  case (1 st columns originals)
  let ?c = "if columns = of_nat (grid_columns st) then 0 else columns"
  have "first_fit st ?c originals \<le> length originals" by (rule first_fit_le)
  with 1 show ?case
    by (subst optimize_loop.simps) (auto simp: Let_def remove_at_mset split: prod.splits if_splits)
qed

text \<open>however wide the bricks are, the optimiser returns, and what it returns are the bricks it was
  given, none lost and none twice.\<close>

theorem optimize_permutes: "mset (optimize_loop st columns originals) = mset originals"
  by (rule optimize_permutes_mset)

lemma math_max_ge: "e \<in> set es \<Longrightarrow> e \<le> math_max es"
proof -
  have "foldl max a es \<ge> a \<and> (\<forall>e \<in> set es. e \<le> foldl max a es)" for a
  proof (induction es arbitrary: a)
    case (Cons x es)
    show ?case using Cons [of "max a x"] by auto
  qed simp
  then show "e \<in> set es \<Longrightarrow> e \<le> math_max es" by (simp add: math_max_def)
qed

lemma edge_bounds [simp]: "Below \<le> e" "e \<le> Beyond" "Px p \<le> Px q \<longleftrightarrow> p \<le> q" "\<not> Px p \<le> Below" "\<not> Beyond \<le> Px p"
    "Px p < Px q \<longleftrightarrow> p < q" "Px p < Beyond"
  by (auto simp: less_eq_edge_def less_edge_def split: edge.splits)

lemma math_max_px:
  assumes "es \<noteq> []" "list_all (\<lambda>e. \<exists>p. e = Px p) es"
  shows "\<exists>p. math_max es = Px p"
proof -
  have "foldl max (Px a) es \<in> range Px" if "list_all (\<lambda>e. \<exists>p. e = Px p) es" for a es
    using that by (induction es arbitrary: a) (auto simp: max_def)
  then show ?thesis using assms by (cases es) (auto simp: math_max_def max_def)
qed

lemma slice_whole:
  assumes "i + k \<le> length xs"
  shows "array_slice (of_int (int i)) (of_int (int i) + of_nat k) xs = take k (drop i xs)"
proof -
  have "of_int (int i) + of_nat k = (of_nat (i + k) :: rat)" by simp
  then have "to_integer (of_int (int i) + of_nat k) = int (i + k)" "to_integer (of_int (int i)) = int i"
    by (simp_all only: to_integer_def of_int_of_nat_eq) (simp_all add: floor_of_nat)
  moreover have "nat (int i + int k) = i + k" by simp
  ultimately show ?thesis using assms by (simp add: array_slice_def slice_index_def Let_def)
qed

lemma set_slice_whole:
  assumes "i + k \<le> length xs" "i \<le> j" "j < i + k"
  shows "xs ! j \<in> set (take k (drop i xs))"
  using assms by (auto simp: in_set_conv_nth intro!: exI [of _ "j - i"])

lemma upto_nat: "[int a..int b - 1] = map int [a..<b]"
proof (induction b)
  case (Suc b)
  show ?case
  proof (cases "a \<le> b")
    case True
    then have "[int a..int (Suc b) - 1] = [int a..int b - 1] @ [int b]" using upto_rec2 [of "int a" "int b"] by simp
    then show ?thesis using True Suc by simp
  qed simp
qed simp

lemma coffee_range_whole: "coffee_range (int a) (of_int (int a) + of_nat k) = map int [a..<a + k]"
proof -
  have "\<lceil>of_int (int a) + of_nat k :: rat\<rceil> = int (a + k)" by (metis ceiling_of_int of_int_add of_int_of_nat_eq of_nat_add)
  then show ?thesis by (simp add: coffee_range_def upto_nat flip: of_nat_add)
qed

lemma better_columns_chosen:
  assumes "xs \<noteq> []" "\<And>i. i \<in> set xs \<Longrightarrow> \<exists>p. math_max (array_slice (of_int i) (of_int i + w) cs) = Px p"
  shows "\<exists>i \<in> set xs. foldl (better_column cs w) (Beyond, 0) xs = (math_max (array_slice (of_int i) (of_int i + w) cs), i)"
proof -
  let ?m = "\<lambda>i. math_max (array_slice (of_int i) (of_int i + w) cs)"
  have step: "foldl (better_column cs w) f ys \<in> {f} \<union> (\<lambda>i. (?m i, i)) ` set ys" for f ys
  proof (induction ys arbitrary: f)
    case (Cons y ys)
    show ?case using Cons [of "better_column cs w f y"] by (auto simp: better_column_def Let_def split: if_splits)
  qed simp
  obtain x ys where xs: "xs = x # ys" using assms(1) by (cases xs) auto
  have "better_column cs w (Beyond, 0) x = (?m x, x)"
    using assms(2) [of x] xs by (auto simp: better_column_def Let_def)
  then show ?thesis using step [of "(?m x, x)" ys] xs by auto
qed

lemma find_column_whole:
  assumes "length cs = Suc n" "list_all (\<lambda>e. \<exists>p. e = Px p) cs" "1 \<le> k" "k \<le> n"
  obtains c y where "find_column cs (of_nat k) = (Px y, int c)" "c + k \<le> n"
    "\<And>j. c \<le> j \<Longrightarrow> j < c + k \<Longrightarrow> cs ! j \<le> Px y"
proof -
  let ?m = "\<lambda>i. math_max (array_slice (of_int i) (of_int i + of_nat k) cs)"
  let ?r = "map int [0..<Suc n - k]"
  have r: "coffee_range 0 (of_nat (length cs) - of_nat k) = ?r"
    using coffee_range_whole [of 0 "Suc n - k"] assms by (simp add: of_nat_diff)
  have m: "\<exists>p. ?m i = Px p" if "i \<in> set ?r" for i
  proof -
    obtain a where "i = int a" "a < Suc n - k" using \<open>i \<in> set ?r\<close> by (auto simp only: set_map image_iff set_upt atLeastLessThan_iff)
    then have a: "i = int a" "a + k \<le> n" by simp_all
    have "list_all (\<lambda>e. \<exists>p. e = Px p) (take k (drop a cs))"
      using assms(2) by (auto simp: list_all_iff dest!: in_set_takeD in_set_dropD)
    moreover have "array_slice (of_int i) (of_int i + of_nat k) cs = take k (drop a cs)"
      using slice_whole [of a k cs] a assms(1) by simp
    moreover have "take k (drop a cs) \<noteq> []" using a assms by simp
    ultimately show ?thesis using math_max_px by metis
  qed
  have "?r \<noteq> []" using assms(4) by simp
  from better_columns_chosen [OF this m] obtain i where
    i: "i \<in> set ?r" "find_column cs (of_nat k) = (?m i, i)" unfolding find_column_def r by auto
  obtain a where "i = int a" "a < Suc n - k" using i(1) by (auto simp only: set_map image_iff set_upt atLeastLessThan_iff)
  then have a: "i = int a" "a + k \<le> n" by simp_all
  obtain y where y: "?m i = Px y" using m [OF i(1)] by auto
  have "cs ! j \<le> Px y" if "a \<le> j" "j < a + k" for j
    using set_slice_whole [of a k cs j] that a assms(1) math_max_ge slice_whole [of a k cs] y by (metis le_SucI)
  then show thesis using that [of y a] i(2) a y by simp
qed

lemma set_entries:
  "a + k \<le> length xs \<Longrightarrow> foldl (set_entry v) xs (map int [a..<a + k])
    = map (\<lambda>j. if a \<le> j \<and> j < a + k then v else xs ! j) [0..<length xs]"
proof (induction k)
  case 0
  then show ?case by (auto intro!: nth_equalityI)
next
  case (Suc k)
  then show ?case by (auto simp: set_entry_def nth_list_update less_Suc_eq intro!: nth_equalityI)
qed

text \<open>A brick that takes whole columns, and a place in the grid.\<close>

definition whole :: "grid_settings \<Rightarrow> brick \<Rightarrow> bool" where
  "whole st b \<longleftrightarrow> List.member (map of_nat [1..<Suc (grid_columns st)]) (brick_size st b) \<and> 0 \<le> brick_height b"

definition apart :: "rat \<Rightarrow> slot \<Rightarrow> slot \<Rightarrow> bool" where
  "apart gap s t \<longleftrightarrow> slot_x s + slot_w s + gap \<le> slot_x t \<or> slot_x t + slot_w t + gap \<le> slot_x s
     \<or> edge_plus (slot_y s) (slot_h s + gap) \<le> slot_y t"

definition inside :: "rat \<Rightarrow> slot \<Rightarrow> bool" where
  "inside right s \<longleftrightarrow> 0 \<le> slot_x s \<and> slot_x s + slot_w s \<le> right \<and> slot_y s \<notin> {Below, Beyond}"

definition packed :: "grid_settings \<Rightarrow> edge list \<Rightarrow> slot \<Rightarrow> bool" where
  "packed st cs s \<longleftrightarrow> (\<exists>c k y. slot_x s = of_nat c * (base st + gutter st)
     \<and> slot_w s + gutter st = of_nat k * (base st + gutter st) \<and> 0 < k \<and> c + k \<le> grid_columns st \<and> slot_y s = Px y
     \<and> (\<forall>j \<in> {c..<c + k}. Px (y + slot_h s + gutter st) \<le> cs ! j))"

definition packing :: "grid_settings \<Rightarrow> edge list \<times> slot list \<Rightarrow> bool" where
  "packing st acc \<longleftrightarrow> length (fst acc) = Suc (grid_columns st) \<and> list_all (\<lambda>e. \<exists>p. e = Px p) (fst acc)
     \<and> list_all (packed st (fst acc)) (snd acc) \<and> sorted_wrt (apart (gutter st)) (snd acc)"

lemma position_whole:
  assumes "length cs = Suc (grid_columns st)" "list_all (\<lambda>e. \<exists>p. e = Px p) cs" "whole st b"
  obtains c k y where "0 < k" "c + k \<le> grid_columns st" "brick_size st b = of_nat k"
    "position st b cs = ((of_nat c * (base st + gutter st), Px y),
       map (\<lambda>j. if c \<le> j \<and> j < c + k then Px (y + brick_height b + gutter st) else cs ! j) [0..<length cs])"
    "\<And>j. c \<le> j \<Longrightarrow> j < c + k \<Longrightarrow> cs ! j \<le> Px y"
proof -
  obtain k where k: "brick_size st b = of_nat k" "1 \<le> k" "k \<le> grid_columns st"
    using assms(3) by (auto simp: whole_def simp del: upt_Suc)
  obtain c y where f: "find_column cs (of_nat k) = (Px y, int c)" "c + k \<le> grid_columns st"
    "\<And>j. c \<le> j \<Longrightarrow> j < c + k \<Longrightarrow> cs ! j \<le> Px y"
    using find_column_whole [OF assms(1,2) k(2,3)] by metis
  show thesis
    by (rule that [OF _ f(2) k(1) _ f(3)])
      (use assms(1) f k in \<open>simp_all add: position_def set_entries coffee_range_whole [simplified]\<close>)
qed

lemma packed_apart:
  assumes "packed st cs s" "0 < base st + gutter st"
    and "slot_x t = of_nat c * (base st + gutter st)" "slot_w t + gutter st = of_nat k * (base st + gutter st)"
    and "0 < k" "slot_y t = Px y" "\<And>j. c \<le> j \<Longrightarrow> j < c + k \<Longrightarrow> cs ! j \<le> Px y"
  shows "apart (gutter st) s t"
proof -
  let ?u = "base st + gutter st"
  obtain d l z where d: "slot_x s = of_nat d * ?u" "slot_w s + gutter st = of_nat l * ?u" "slot_y s = Px z"
    "0 < l" "\<forall>j \<in> {d..<d + l}. Px (z + slot_h s + gutter st) \<le> cs ! j"
    using assms(1) by (auto simp: packed_def)
  have mono: "of_nat a * ?u \<le> of_nat b * ?u" if "a \<le> b" for a b :: nat
    using that assms(2) by (simp add: mult_right_mono)
  consider "d + l \<le> c" | "c + k \<le> d" | "c < d + l" "d < c + k" by linarith
  then show ?thesis
  proof cases
    case 1
    then show ?thesis using mono [of "d + l" c] d(1,2) assms(3) by (simp add: apart_def distrib_right)
  next
    case 2
    then show ?thesis using mono [of "c + k" d] d(1) assms(3,4) by (simp add: apart_def distrib_right)
  next
    case 3
    then have m: "max c d \<in> {d..<d + l}" "c \<le> max c d" "max c d < c + k" using d(4) assms(5) by auto
    have "Px (z + slot_h s + gutter st) \<le> Px y" using d(5) m(1) assms(7) [OF m(2,3)] order_trans by blast
    then show ?thesis by (simp add: apart_def d(3) assms(6) add.assoc)
  qed
qed

lemma packed_mono:
  assumes "packed st cs s" "\<And>j. j < length cs \<Longrightarrow> cs ! j \<le> cs' ! j" "length cs = Suc (grid_columns st)"
  shows "packed st cs' s"
proof -
  obtain d l z where d: "slot_x s = of_nat d * (base st + gutter st) \<and> slot_w s + gutter st = of_nat l * (base st + gutter st) \<and> 0 < l
      \<and> d + l \<le> grid_columns st \<and> slot_y s = Px z"
    "\<forall>j \<in> {d..<d + l}. Px (z + slot_h s + gutter st) \<le> cs ! j"
    using assms(1) by (auto simp: packed_def)
  have "\<forall>j \<in> {d..<d + l}. Px (z + slot_h s + gutter st) \<le> cs' ! j"
    using d assms(2,3) by (auto intro: order_trans)
  then show ?thesis unfolding packed_def using d(1) by blast
qed

lemma packing_step:
  assumes "packing st acc" "whole st b" "0 < base st + gutter st" "0 \<le> gutter st"
  shows "packing st (structure_step st acc b)"
proof -
  let ?cs = "fst acc" and ?u = "base st + gutter st"
  have len: "length ?cs = Suc (grid_columns st)" and px: "list_all (\<lambda>e. \<exists>p. e = Px p) ?cs"
    using assms(1) by (auto simp: packing_def)
  obtain c k y where p: "0 < k" "c + k \<le> grid_columns st" "brick_size st b = of_nat k"
    "position st b ?cs = ((of_nat c * ?u, Px y),
       map (\<lambda>j. if c \<le> j \<and> j < c + k then Px (y + brick_height b + gutter st) else ?cs ! j) [0..<length ?cs])"
    "\<And>j. c \<le> j \<Longrightarrow> j < c + k \<Longrightarrow> ?cs ! j \<le> Px y"
    by (rule position_whole [OF len px assms(2)]) (rule that)
  let ?cs' = "snd (position st b ?cs)"
  let ?s = "\<lparr>slot_x = of_nat c * ?u, slot_y = Px y, slot_w = brick_width b, slot_h = brick_height b, slot_brick = b\<rparr>"
  have w: "brick_width b + gutter st = of_nat k * ?u"
    using p(3) assms(3) by (auto simp: brick_size_def field_simps)
  have grow: "?cs ! j \<le> ?cs' ! j" if "j < length ?cs" for j
  proof (cases "c \<le> j \<and> j < c + k")
    case True
    then have "?cs ! j \<le> Px y" using p(5) by blast
    also have "Px y \<le> Px (y + brick_height b + gutter st)" using assms(2,4) by (simp add: whole_def)
    finally show ?thesis using True that by (simp add: p(4))
  qed (use that in \<open>auto simp: p(4)\<close>)
  have keep: "packed st ?cs' s" if "packed st ?cs s" for s
    by (rule packed_mono [OF that]) (use grow len in simp_all)
  have "\<forall>j \<in> {c..<c + k}. Px (y + brick_height b + gutter st) \<le> ?cs' ! j"
    using p(2) len by (auto simp: p(4) simp del: upt_Suc)
  then have "slot_x ?s = of_nat c * ?u \<and> slot_w ?s + gutter st = of_nat k * ?u \<and> 0 < k \<and> c + k \<le> grid_columns st
      \<and> slot_y ?s = Px y \<and> (\<forall>j \<in> {c..<c + k}. Px (y + slot_h ?s + gutter st) \<le> ?cs' ! j)"
    using w p(1,2) by simp
  then have new: "packed st ?cs' ?s" unfolding packed_def by blast
  have "apart (gutter st) s ?s" if "packed st ?cs s" for s
    using packed_apart [OF that assms(3), of ?s c k y] w p(1,5) by simp
  moreover have "list_all (\<lambda>e. \<exists>p. e = Px p) ?cs'" using px by (auto simp: p(4) list_all_length)
  moreover have "structure_step st acc b = (?cs', snd acc @ [?s])" by (simp add: structure_step_def p(4))
  moreover have "length ?cs' = length ?cs" by (simp add: p(4))
  ultimately show ?thesis
    using assms(1) keep new by (auto simp: packing_def sorted_wrt_append list_all_iff)
qed

lemma packing_all:
  assumes "packing st acc" "list_all (whole st) bs" "0 < base st + gutter st" "0 \<le> gutter st"
  shows "packing st (foldl (structure_step st) acc bs)"
  using assms(1,2) by (induction bs arbitrary: acc) (auto simp: packing_step assms(3,4))

lemma packed_inside:
  assumes "packed st cs s" "0 < base st + gutter st"
  shows "inside (of_nat (grid_columns st) * (base st + gutter st) - gutter st) s"
proof -
  let ?u = "base st + gutter st"
  obtain c k y where c: "slot_x s = of_nat c * ?u" "slot_w s + gutter st = of_nat k * ?u" "c + k \<le> grid_columns st"
    "slot_y s = Px y" using assms(1) by (auto simp: packed_def)
  have "of_nat (c + k) * ?u \<le> of_nat (grid_columns st) * ?u"
    using c(3) assms(2) by (intro mult_right_mono) (simp_all flip: of_nat_add)
  then show ?thesis using c assms(2) by (simp add: inside_def distrib_right)
qed

lemma grid_structure_bricks: "map slot_brick (snd (grid_structure st bs)) = bs"
proof -
  have "map slot_brick (snd (foldl (structure_step st) acc bs)) = map slot_brick (snd acc) @ bs" for acc
    by (induction bs arbitrary: acc) (auto simp: structure_step_def split: prod.split)
  from this [of "(map (\<lambda>i. Px 0) (coffee_range_incl (grid_columns st)), [])"] show ?thesis
    by (simp add: grid_structure_def Let_def split_beta)
qed

text \<open>C6: when every brick takes a whole number of columns, not more than the grid has, the grid gives all
  bricks a place inside it, in their order, and no two of them overlap: a later brick lies beside an
  earlier one or below it, with the gutter between them.\<close>

theorem bricks_apart:
  assumes "list_all (whole st) bs" "0 < base st + gutter st" "0 \<le> gutter st"
  shows "let slots = snd (grid_structure st bs) in
    map slot_brick slots = bs \<and> sorted_wrt (apart (gutter st)) slots
    \<and> list_all (inside (of_nat (grid_columns st) * (base st + gutter st) - gutter st)) slots"
proof -
  let ?acc = "(map (\<lambda>i. Px 0) (coffee_range_incl (grid_columns st)), [])"
  have "packing st ?acc" by (auto simp: packing_def coffee_range_incl_def list_all_iff)
  then have p: "packing st (foldl (structure_step st) ?acc bs)" by (rule packing_all [OF _ assms])
  have "list_all (inside (of_nat (grid_columns st) * (base st + gutter st) - gutter st)) (snd (foldl (structure_step st) ?acc bs))"
    using p packed_inside [OF _ assms(2)] by (auto simp: packing_def list_all_iff)
  then show ?thesis
    using p grid_structure_bricks [of st bs] by (auto simp: packing_def grid_structure_def Let_def split: prod.splits)
qed

text \<open>A new element of the given size.\<close>

definition plain_brick :: "string \<Rightarrow> rat \<Rightarrow> rat \<Rightarrow> brick" where
  "plain_brick k w h = \<lparr>ident = k, data_position = None, data_width = None, data_height = None, css_width = w,
     css_height = h, css_left = 0, css_top = 0, dragging = False\<rparr>"

definition order_settings :: grid_settings where
  "order_settings = \<lparr>base = 60, gutter = 20, grid_columns = 5, grid_optimize = None\<rparr>"

theorem bricks_apart_witness:
  "map slot_brick (snd (grid_structure order_settings [plain_brick ''a'' 140 26, plain_brick ''b'' 300 26]))
     = [plain_brick ''a'' 140 26, plain_brick ''b'' 300 26]"
  using bricks_apart [of order_settings "[plain_brick ''a'' 140 26, plain_brick ''b'' 300 26]"]
  by (simp add: Let_def whole_def order_settings_def plain_brick_def brick_size_def brick_width_def brick_height_def
      or_number_def upt_rec)

section \<open>Dragging\<close>

lemma set_brick_length [simp]: "length (set_brick k f bs) = length bs"
  by (simp add: set_brick_def)

lemma set_brick_field: "(\<And>b. F (f b) = F b) \<Longrightarrow> map F (set_brick k f bs) = map F bs"
  by (simp add: set_brick_def)

text \<open>What a layout leaves alone: the data of every brick, and the style of the one that is dragged.\<close>

definition laid_out :: "brick \<Rightarrow> brick \<Rightarrow> bool" where
  "laid_out a b \<longleftrightarrow> ident b = ident a \<and> data_position b = data_position a \<and> dragging b = dragging a
     \<and> (if dragging a then b = a else True)"

lemma laid_out_trans: "laid_out a b \<Longrightarrow> laid_out b c \<Longrightarrow> laid_out a c"
  by (auto simp: laid_out_def split: if_splits)

lemma laid_out_lists_trans: "list_all2 laid_out as bs \<Longrightarrow> list_all2 laid_out bs cs \<Longrightarrow> list_all2 laid_out as cs"
  unfolding list_all2_conv_all_nth by (metis laid_out_trans)

lemma place_brick_laid_out:
  assumes "list_all (\<lambda>x. ident x = ident b \<longrightarrow> dragging x = dragging b) bs"
  shows "list_all2 laid_out bs (place_brick bs (b, s))"
  using assms by (auto simp: place_brick_def set_brick_def laid_out_def list_all2_conv_all_nth list_all_length split: edge.splits)

lemma laid_out_dragging:
  "list_all2 laid_out bs cs \<Longrightarrow> list_all (\<lambda>x. ident x = i \<longrightarrow> dragging x = d) bs \<Longrightarrow> list_all (\<lambda>x. ident x = i \<longrightarrow> dragging x = d) cs"
  by (auto simp: list_all2_conv_all_nth list_all_length laid_out_def)

lemma place_bricks_laid_out:
  "list_all (\<lambda>p. list_all (\<lambda>x. ident x = ident (fst p) \<longrightarrow> dragging x = dragging (fst p)) bs) ps
    \<Longrightarrow> list_all2 laid_out bs (foldl place_brick bs ps)"
proof (induction ps arbitrary: bs)
  case Nil
  then show ?case by (simp add: list_all2_refl laid_out_def)
next
  case (Cons p ps)
  obtain b s where p: "p = (b, s)" by (cases p)
  have one: "list_all2 laid_out bs (place_brick bs p)" using place_brick_laid_out Cons.prems by (simp add: p)
  have "list_all (\<lambda>q. list_all (\<lambda>x. ident x = ident (fst q) \<longrightarrow> dragging x = dragging (fst q)) bs) ps"
    using Cons.prems by simp
  then have "list_all (\<lambda>q. list_all (\<lambda>x. ident x = ident (fst q) \<longrightarrow> dragging x = dragging (fst q)) (place_brick bs p)) ps"
    by (rule list.pred_mono_strong) (rule laid_out_dragging [OF one])
  then have "list_all2 laid_out (place_brick bs p) (foldl place_brick (place_brick bs p) ps)" by (rule Cons.IH)
  with one have "list_all2 laid_out bs (foldl place_brick (place_brick bs p) ps)" by (rule laid_out_lists_trans)
  then show ?case by simp
qed

lemma optimize_mset: "grid_optimize st = None \<Longrightarrow> mset (optimize st bs) = mset bs"
  by (simp add: optimize_def optimize_permutes_mset)

lemma layout_laid_out:
  assumes "grid_optimize (settings g) = None" "distinct (map ident (elements g))"
  shows "list_all2 laid_out (elements g) (elements (grid_layout g))"
proof -
  let ?els = "optimize (settings g) (sorted_bricks (elements g))"
  have els: "set ?els = set (elements g)" using mset_eq_setD [OF optimize_mset [OF assms(1)]] by simp
  have "list_all (\<lambda>p. list_all (\<lambda>x. ident x = ident (fst p) \<longrightarrow> dragging x = dragging (fst p)) (elements g)) (zip ?els slots)"
    for slots
  proof -
    have "dragging x = dragging y" if "x \<in> set (elements g)" "y \<in> set (elements g)" "ident x = ident y" for x y
      using that assms(2) by (metis distinct_map inj_onD)
    moreover have "fst p \<in> set (elements g)" if "p \<in> set (zip ?els slots)" for p
    proof -
      have "fst p \<in> set ?els" using that by (metis prod.collapse set_zip_leftD)
      then show ?thesis by (simp only: els)
    qed
    ultimately show ?thesis unfolding list_all_iff by blast
  qed
  from place_bricks_laid_out [OF this] show ?thesis by (simp add: grid_layout_def Let_def split: prod.split)
qed

lemma layout_fields [simp]:
  "settings (grid_layout g) = settings g" "target (grid_layout g) = target g" "listening (grid_layout g) = listening g"
  "origin (grid_layout g) = origin g" "pending (grid_layout g) = pending g" "dragged (grid_layout g) = dragged g"
  by (simp_all add: grid_layout_def Let_def split: prod.split)

lemma laid_out_maps:
  assumes "list_all2 laid_out bs cs"
  shows "map ident cs = map ident bs" "map data_position cs = map data_position bs" "map dragging cs = map dragging bs"
    "length cs = length bs"
  using assms by (auto simp: list_all2_conv_all_nth laid_out_def intro!: nth_equalityI)

text \<open>The order after a move is an order of the same bricks.\<close>

definition moved_order :: "pointer_event \<Rightarrow> gridly \<Rightarrow> string list" where
  "moved_order e g = map ident (optimize (settings g) (map slot_brick (array_sort slot_compare
     (map (actual_slot (over e)) (snd (grid_structure (settings g) (sorted_bricks (elements g))))))))"

lemma moved_order_mset:
  assumes "grid_optimize (settings g) = None"
  shows "mset (moved_order e g) = mset (map ident (elements g))"
proof -
  let ?ss = "snd (grid_structure (settings g) (sorted_bricks (elements g)))"
  have b: "map slot_brick (map (actual_slot (over e)) ?ss) = map slot_brick ?ss"
    by (simp add: actual_slot_def Let_def)
  have "mset (map slot_brick (array_sort slot_compare (map (actual_slot (over e)) ?ss)))
      = mset (map slot_brick (map (actual_slot (over e)) ?ss))"
    by (simp only: mset_map array_sort_mset)
  also have "\<dots> = mset (elements g)" by (simp only: b grid_structure_bricks sorted_bricks_mset)
  finally show ?thesis unfolding moved_order_def mset_map optimize_mset [OF assms] by simp
qed

lemma draggingMoved_order:
  "draggingMoved e g = grid_layout (g\<lparr>elements := ordinalize (moved_order e g) (elements g)\<rparr>)"
  by (simp add: draggingMoved_def moved_order_def ordinalize_eq Let_def)

text \<open>The invariant of the grid.\<close>

definition grid_ok :: "string list \<Rightarrow> gridly \<Rightarrow> bool" where
  "grid_ok ids g \<longleftrightarrow> grid_optimize (settings g) = None \<and> distinct ids \<and> map ident (elements g) = ids
     \<and> numbered (elements g) \<and> listening g = (if target g = None then 0 else 1)
     \<and> map dragging (elements g) = map (\<lambda>k. target g = Some k) ids"

lemma numbered_laid_out: "list_all2 laid_out bs cs \<Longrightarrow> numbered cs = numbered bs"
  using laid_out_maps [of bs cs] by (simp add: numbered_def)

lemma layout_ok: "grid_ok ids g \<Longrightarrow> grid_ok ids (grid_layout g)"
  using layout_laid_out [of g] laid_out_maps [of "elements g" "elements (grid_layout g)"] numbered_laid_out
  by (auto simp: grid_ok_def)

lemma ordinalize_fields:
  assumes "(\<And>b i. F (b\<lparr>data_position := i\<rparr>) = F b)"
  shows "map F (ordinalize ids bs) = map F bs"
proof -
  have "map F (foldl (ordinalize_step ids) bs ns) = map F bs" for ns
    by (induction ns arbitrary: bs) (auto simp: ordinalize_step_def reordinalize_def set_brick_field assms)
  then show ?thesis by (simp add: ordinalize_def)
qed

lemma renumber_ok:
  assumes "grid_ok ids g" "mset els = mset ids"
  shows "grid_ok ids (g\<lparr>elements := ordinalize els (elements g)\<rparr>)"
  using assms ordinalize_numbers [of "elements g" els] by (auto simp: grid_ok_def ordinalize_fields)

lemma draggingMoved_ok: "grid_ok ids g \<Longrightarrow> grid_ok ids (draggingMoved e g)"
  unfolding draggingMoved_order
  by (intro layout_ok renumber_ok) (use moved_order_mset [of g e] in \<open>auto simp: grid_ok_def\<close>)

lemma moved_ok: "grid_ok ids g \<Longrightarrow> grid_ok ids (moved e g)"
  by (auto simp: moved_def split: option.split intro!: draggingMoved_ok)
    (simp add: grid_ok_def numbered_def set_brick_field)

lemma began_ok:
  assumes "grid_ok ids g"
  shows "grid_ok ids (began k e g)"
proof (cases "target g = None \<and> k \<in> set ids")
  case False
  then have "target g = None \<Longrightarrow> find (\<lambda>b. ident b = k) (elements g) = None"
    using assms by (auto simp: grid_ok_def find_None_iff)
  then show ?thesis using assms by (auto simp: began_def)
next
  case True
  then have "find (\<lambda>b. ident b = k) (elements g) \<noteq> None" using assms by (auto simp: grid_ok_def find_None_iff)
  then obtain b where b: "find (\<lambda>b. ident b = k) (elements g) = Some b" by auto
  let ?g = "g\<lparr>listening := listening g + 1, target := Some k, elements := set_brick k (\<lambda>b. b\<lparr>dragging := True\<rparr>) (elements g),
            origin := (fst (coordinate e) - css_left b, snd (coordinate e) - css_top b)\<rparr>"
  have "map dragging (set_brick k (\<lambda>b. b\<lparr>dragging := True\<rparr>) (elements g)) = map (\<lambda>j. k = j) ids"
    using assms True by (auto simp: grid_ok_def set_brick_def)
  then have ok: "grid_ok ids ?g" using assms True by (simp add: grid_ok_def numbered_def set_brick_field)
  have "grid_ok ids (?g\<lparr>elements := ordinalize (map ident (sorted_bricks (elements ?g))) (elements ?g)\<rparr>)"
    by (rule renumber_ok [OF ok]) (use ok in \<open>auto simp: grid_ok_def\<close>)
  then show ?thesis using True b by (simp add: began_def draggingBegan_def Let_def grid_ok_def)
qed

lemma ended_ok:
  assumes "grid_ok ids g"
  shows "grid_ok ids (ended g)"
proof (cases "target g")
  case None
  then show ?thesis using assms by (simp add: ended_def)
next
  case (Some k)
  let ?g = "g\<lparr>listening := 0, target := None, elements := set_brick k (\<lambda>b. b\<lparr>dragging := False\<rparr>) (elements g)\<rparr>"
  have "map dragging (set_brick k (\<lambda>b. b\<lparr>dragging := False\<rparr>) (elements g)) = map (\<lambda>j. False) ids"
    using assms Some by (auto simp: grid_ok_def set_brick_def)
  then have ok: "grid_ok ids ?g" using assms by (simp add: grid_ok_def numbered_def set_brick_field)
  have "grid_ok ids (?g\<lparr>elements := ordinalize (map ident (sorted_bricks (elements ?g))) (elements ?g)\<rparr>)"
    by (rule renumber_ok [OF ok]) (use ok in \<open>auto simp: grid_ok_def\<close>)
  then show ?thesis using Some by (simp add: ended_def draggingEnded_def Let_def grid_ok_def)
qed

lemma grid_step_ok:
  assumes "grid_ok ids g"
  shows "grid_ok ids (grid_step ev g)"
proof (cases ev)
  case (Drag e)
  have "grid_ok ids ((moved e ^^ n) g)" for n by (induction n) (auto simp: assms moved_ok)
  then show ?thesis by (simp add: grid_step_def Drag)
next
  case Timeout
  have "grid_ok ids (grid_layout (g\<lparr>pending := n\<rparr>))" for n by (rule layout_ok) (use assms in \<open>simp add: grid_ok_def\<close>)
  then show ?thesis using assms by (auto simp: grid_step_def Timeout split: nat.split)
qed (use assms began_ok ended_ok in \<open>auto simp: grid_step_def grid_click_def grid_ok_def\<close>)

lemma grid_run_ok: "grid_ok ids g \<Longrightarrow> grid_ok ids (grid_run evs g)"
  by (induction evs arbitrary: g) (auto simp: grid_run_def grid_step_ok)

lemma new_grid_ok:
  assumes "grid_optimize st = None" "distinct (map ident bs)" "list_all (\<lambda>b. \<not> dragging b) bs"
  shows "grid_ok (map ident bs) (new_grid st bs)"
proof -
  have "map dragging bs = map (\<lambda>b. False) bs" using assms(3) by (simp add: list_all_iff)
  then show ?thesis using assms(1,2) ordinalize_numbers [of bs "map ident bs"]
    by (simp add: grid_ok_def new_grid_def ordinalize_fields comp_def)
qed

text \<open>whatever the pointer does, the grid keeps its bricks and their numbers are always a numbering
  from zero without gaps; the document has the move and end handlers once while a brick is dragged
  and not at all otherwise, and exactly the target of the drag is marked as dragging.\<close>

theorem drag_invariant:
  assumes "grid_optimize st = None" "distinct (map ident bs)" "list_all (\<lambda>b. \<not> dragging b) bs"
  shows "let g = grid_run evs (new_grid st bs) in
    map ident (elements g) = map ident bs
    \<and> mset (map data_position (elements g)) = mset (map Some [0..<length bs])
    \<and> listening g = (if target g = None then 0 else 1)
    \<and> map dragging (elements g) = map (\<lambda>b. target g = Some (ident b)) bs"
proof -
  let ?g = "grid_run evs (new_grid st bs)"
  have ok: "grid_ok (map ident bs) ?g" by (rule grid_run_ok [OF new_grid_ok [OF assms]])
  then have "length (elements ?g) = length bs" by (metis grid_ok_def length_map)
  then show ?thesis using ok by (simp add: grid_ok_def numbered_def Let_def comp_def)
qed

theorem drag_invariant_witness:
  "listening (grid_run [Down ''a'' \<lparr>ev_type = ''mousedown'', over = Some ''a'', page = (5, 5), touch = (0, 0)\<rparr>, Up]
     (new_grid order_settings [plain_brick ''a'' 74 26, plain_brick ''b'' 74 26])) = 0"
  using drag_invariant [of order_settings "[plain_brick ''a'' 74 26, plain_brick ''b'' 74 26]"
      "[Down ''a'' \<lparr>ev_type = ''mousedown'', over = Some ''a'', page = (5, 5), touch = (0, 0)\<rparr>, Up]"]
  by (simp add: order_settings_def plain_brick_def Let_def grid_run_def grid_step_def began_def new_grid_def
      ordinalize_def coffee_range_incl_def ordinalize_step_def reordinalize_def set_brick_def draggingBegan_def
      ended_def draggingEnded_def)

text \<open>The brick that is dragged.\<close>

definition brick_at :: "string \<Rightarrow> gridly \<Rightarrow> (rat \<times> rat) list" where
  "brick_at k g = map (\<lambda>b. (css_left b, css_top b)) (filter (\<lambda>b. ident b = k) (elements g))"

lemma find_filter: "find P xs = (case filter P xs of [] \<Rightarrow> None | x # ys \<Rightarrow> Some x)"
  by (induction xs) auto

lemma unique_brick:
  assumes "distinct (map ident bs)" "b \<in> set bs"
  shows "filter (\<lambda>x. ident x = ident b) bs = [b]"
  using assms
proof (induction bs)
  case (Cons x bs)
  then show ?case by (cases "x = b") (auto simp: filter_empty_conv image_iff)
qed simp

lemma laid_out_at:
  assumes "list_all2 laid_out bs cs" "list_all (\<lambda>b. if ident b = k then dragging b else True) bs"
  shows "filter (\<lambda>b. ident b = k) cs = filter (\<lambda>b. ident b = k) bs"
  using assms by (induction rule: list_all2_induct) (auto simp: laid_out_def split: if_splits)

lemma dragging_target:
  assumes "grid_ok ids g" "target g = Some k"
  shows "list_all (\<lambda>b. if ident b = k then dragging b else True) (elements g)"
  using assms by (auto simp: grid_ok_def list_all_iff map_eq_conv)

lemma ordinalize_at: "map (\<lambda>b. (css_left b, css_top b)) (filter (\<lambda>b. ident b = k) (ordinalize ids bs))
    = map (\<lambda>b. (css_left b, css_top b)) (filter (\<lambda>b. ident b = k) bs)"
proof -
  let ?F = "\<lambda>b. (ident b, css_left b, css_top b)"
  have f: "map (\<lambda>b. (css_left b, css_top b)) (filter (\<lambda>b. ident b = k) xs) = map snd (filter (\<lambda>p. fst p = k) (map ?F xs))" for xs
    by (simp add: filter_map comp_def)
  show ?thesis by (simp add: f ordinalize_fields)
qed

lemma draggingMoved_at:
  assumes "grid_ok ids g" "target g = Some k"
  shows "brick_at k (draggingMoved e g) = brick_at k g"
proof -
  let ?g = "g\<lparr>elements := ordinalize (moved_order e g) (elements g)\<rparr>"
  have ok: "grid_ok ids ?g" using assms(1) moved_order_mset [of g e] by (intro renumber_ok) (auto simp: grid_ok_def)
  have "list_all2 laid_out (elements ?g) (elements (grid_layout ?g))"
    by (rule layout_laid_out) (use ok in \<open>simp_all add: grid_ok_def\<close>)
  then have "filter (\<lambda>b. ident b = k) (elements (grid_layout ?g)) = filter (\<lambda>b. ident b = k) (elements ?g)"
    by (rule laid_out_at) (rule dragging_target [OF ok], simp add: assms(2))
  then show ?thesis by (simp add: brick_at_def draggingMoved_order ordinalize_at)
qed

lemma draggingMoved_fields [simp]: "target (draggingMoved e g) = target g" "origin (draggingMoved e g) = origin g"
    "listening (draggingMoved e g) = listening g"
  by (simp_all add: draggingMoved_order)

lemma drag_at:
  assumes "grid_ok ids g" "target g = Some k" "k \<in> set ids"
  shows "brick_at k (grid_step (Drag e) g) = [(fst (coordinate e) - fst (origin g), snd (coordinate e) - snd (origin g))]"
proof -
  obtain b where b: "b \<in> set (elements g)" "ident b = k" using assms by (auto simp: grid_ok_def)
  let ?f = "\<lambda>b. b\<lparr>css_left := fst (coordinate e) - fst (origin g), css_top := snd (coordinate e) - snd (origin g)\<rparr>"
  let ?g = "g\<lparr>dragged := True, elements := set_brick k ?f (elements g)\<rparr>"
  have ok: "grid_ok ids ?g" using assms(1) by (simp add: grid_ok_def numbered_def set_brick_field)
  have "filter (\<lambda>b. ident b = k) (set_brick k ?f (elements g)) = map ?f (filter (\<lambda>b. ident b = k) (elements g))"
    by (induction "elements g") (auto simp: set_brick_def filter_map comp_def)
  then have "brick_at k ?g = [(fst (coordinate e) - fst (origin g), snd (coordinate e) - snd (origin g))]"
    using unique_brick [of "elements g" b] b assms(1) by (simp add: brick_at_def grid_ok_def)
  moreover have "grid_step (Drag e) g = draggingMoved e ?g"
    using assms(1,2) by (simp add: grid_step_def grid_ok_def moved_def)
  ultimately show ?thesis using draggingMoved_at [OF ok, of k e] assms(2) by simp
qed

text \<open>C20: a brick that is dragged stays under the pointer: after any number of moves it has been
  displaced by exactly the distance between the point where the drag began and the last one,
  whatever bricks the pointer passed and however the grid was rearranged.\<close>

theorem drag_follows_pointer:
  assumes "grid_optimize st = None" "distinct (map ident bs)" "list_all (\<lambda>b. \<not> dragging b) bs" "k \<in> set (map ident bs)"
    and "target (grid_run evs (new_grid st bs)) = None"
  shows "let g = grid_run evs (new_grid st bs) in
    brick_at k (grid_run (Down k e # map Drag (es @ [e'])) g)
      = map (\<lambda>(x, y). (x + (fst (coordinate e') - fst (coordinate e)), y + (snd (coordinate e') - snd (coordinate e)))) (brick_at k g)"
proof -
  let ?g = "grid_run evs (new_grid st bs)" and ?ids = "map ident bs"
  have ok: "grid_ok ?ids ?g" by (rule grid_run_ok [OF new_grid_ok [OF assms(1-3)]])
  have "k \<in> ident ` set (elements ?g)" using ok assms(4) by (metis grid_ok_def list.set_map)
  then obtain b where b: "b \<in> set (elements ?g)" "ident b = k" by blast
  have u: "filter (\<lambda>x. ident x = k) (elements ?g) = [b]" using unique_brick [of "elements ?g" b] b ok by (simp add: grid_ok_def)
  then have "find (\<lambda>x. ident x = k) (elements ?g) = Some b" by (simp add: find_filter)
  then have d: "origin (began k e ?g) = (fst (coordinate e) - css_left b, snd (coordinate e) - css_top b)"
      "target (began k e ?g) = Some k"
    using assms(5) by (simp_all add: began_def draggingBegan_def Let_def)
  have keep: "origin (grid_run (map Drag es) h) = origin h \<and> target (grid_run (map Drag es) h) = target h"
    if "grid_ok ?ids h" for h
    using that
  proof (induction es arbitrary: h)
    case (Cons x es)
    have "grid_step (Drag x) h = h \<or> (\<exists>f els. grid_step (Drag x) h = draggingMoved x (h\<lparr>dragged := f, elements := els\<rparr>))"
      using Cons.prems by (auto simp: grid_step_def grid_ok_def moved_def split: option.split)
    moreover have "grid_ok ?ids (grid_step (Drag x) h)" using Cons.prems by (rule grid_step_ok)
    ultimately show ?case using Cons.IH [of "grid_step (Drag x) h"] by (auto simp: grid_run_def)
  qed (simp add: grid_run_def)
  let ?h = "grid_run (map Drag es) (began k e ?g)"
  have h: "grid_ok ?ids ?h" "origin ?h = origin (began k e ?g)" "target ?h = Some k"
    using keep [OF began_ok [OF ok, of k e]] grid_run_ok [OF began_ok [OF ok, of k e]] d by simp_all
  have "grid_run (Down k e # map Drag (es @ [e'])) ?g = grid_step (Drag e') ?h"
    by (simp add: grid_run_def grid_step_def)
  then show ?thesis using drag_at [OF h(1,3) assms(4), of e'] by (simp add: Let_def h(2) d brick_at_def u)
qed

theorem drag_follows_pointer_witness:
  "let down = \<lparr>ev_type = ''mousedown'', over = Some ''b'', page = (5, 5), touch = (0, 0)\<rparr>;
       move = \<lparr>ev_type = ''mousemove'', over = Some ''a'', page = (12, 3), touch = (0, 0)\<rparr> in
    brick_at ''b'' (grid_run [Down ''b'' down, Drag move]
      (new_grid order_settings [plain_brick ''a'' 74 26, plain_brick ''b'' 74 26])) = [(7, -2)]"
  using drag_follows_pointer [of order_settings "[plain_brick ''a'' 74 26, plain_brick ''b'' 74 26]" "''b''" "[]"
      "\<lparr>ev_type = ''mousedown'', over = Some ''b'', page = (5, 5), touch = (0, 0)\<rparr>" "[]"
      "\<lparr>ev_type = ''mousemove'', over = Some ''a'', page = (12, 3), touch = (0, 0)\<rparr>"]
  by (simp add: order_settings_def plain_brick_def Let_def grid_run_def new_grid_def brick_at_def coordinate_def
      ordinalize_def coffee_range_incl_def ordinalize_step_def reordinalize_def set_brick_def)

end
