(* ===== verification/GridlyPlugin.thy ===== *)
theory GridlyPlugin
  imports Gridly
begin

text \<open>
  The jQuery plugin around the grid (\<open>$.fn.gridly\<close> and \<open>Gridly.gridly\<close> in \<open>jquery.gridly.js\<close>) and the way
  \<open>auroraClient.js\<close> fills and refills the element with it: the object made by the first call stays with
  the element.
\<close>

section \<open>The plugin\<close>

text \<open>The options of a call; what is missing comes from \<open>Gridly.settings\<close>.\<close>

record grid_options =
  opt_base :: "rat option"
  opt_gutter :: "rat option"
  opt_columns :: "nat option"
  opt_optimize :: "(brick list \<Rightarrow> brick list) option"
  opt_draggable :: bool \<comment> \<open>not set to \<open>false\<close>\<close>
  opt_action :: "string option"

definition no_options :: grid_options where
  "no_options = \<lparr>opt_base = None, opt_gutter = None, opt_columns = None, opt_optimize = None, opt_draggable = True,
     opt_action = None\<rparr>"

definition extend_settings :: "grid_options \<Rightarrow> grid_settings" where
  "extend_settings opts = \<lparr>base = (case opt_base opts of None \<Rightarrow> 60 | Some x \<Rightarrow> x),
     gutter = (case opt_gutter opts of None \<Rightarrow> 20 | Some x \<Rightarrow> x),
     grid_columns = (case opt_columns opts of None \<Rightarrow> 12 | Some n \<Rightarrow> n), grid_optimize = opt_optimize opts\<rparr>"

text \<open>
  The element: its children until it has a grid, then the grid with its elements; how often the
  handlers of the draggable are bound to it, and whether there is a draggable.
\<close>

record grid_element =
  first_children :: "brick list"
  grid :: "gridly option"
  bound :: nat
  has_draggable :: bool



text \<open>\<open>draggable()\<close> without a method makes the draggable, once; it binds its handlers.\<close>

definition make_draggable :: "grid_element \<Rightarrow> grid_element" where
  "make_draggable el = (if has_draggable el then el else el\<lparr>has_draggable := True, bound := bound el + 1\<rparr>)"

definition grid_of :: "grid_options \<Rightarrow> grid_element \<Rightarrow> grid_element" where
  "grid_of opts el = (case grid el of
       Some g \<Rightarrow> el
     | None \<Rightarrow> (let el = el\<lparr>grid := Some (new_grid (extend_settings opts) (first_children el))\<rparr> in
         if opt_draggable opts then make_draggable el else el))"

datatype gridly_argument = NoArgument | Action string | Options grid_options

definition call_options :: "gridly_argument \<Rightarrow> grid_options" where
  "call_options arg = (case arg of Options opts \<Rightarrow> opts | _ \<Rightarrow> no_options)"

definition call_action :: "gridly_argument \<Rightarrow> string" where
  "call_action arg = (case arg of NoArgument \<Rightarrow> ''layout'' | Action a \<Rightarrow> a
     | Options opts \<Rightarrow> (case opt_action opts of None \<Rightarrow> ''layout'' | Some a \<Rightarrow> a))"

text \<open>
  The method gets the array of the other arguments as its only one.  As the name of a method of the
  draggable an array is its texts joined by commas, so that no argument names the method \<open>''\<close>, which
  there is not.  Names that are no method throw; the other methods are not called through the plugin.
\<close>

definition draggable_method :: "string list \<Rightarrow> grid_element \<Rightarrow> grid_element result" where
  "draggable_method parameters el = (let el = make_draggable el in
     if parameters = [''on''] then Inr (el\<lparr>bound := bound el + 1\<rparr>)
     else if parameters = [''off''] then Inr (el\<lparr>bound := 0\<rparr>)
     else Inl TypeError)"

definition gridly_call :: "gridly_argument \<Rightarrow> string list \<Rightarrow> grid_element \<Rightarrow> grid_element result" where
  "gridly_call arg parameters el =
     (let el = grid_of (call_options arg) el in
      if call_action arg = ''layout'' then Inr (el\<lparr>grid := map_option grid_layout (grid el)\<rparr>)
      else if call_action arg = ''draggable'' then draggable_method parameters el
      else Inl TypeError)"

lemma layout_settings: "settings (grid_layout g) = settings g"
  by (simp add: grid_layout_def Let_def split: prod.split)

text \<open>the options of the first call stay: a later call on the element, whatever it is given, leaves
  the settings of the grid as they are.\<close>

theorem first_settings_stay:
  assumes "grid el = Some g" "gridly_call arg parameters el = Inr el'"
  shows "\<exists>g'. grid el' = Some g' \<and> settings g' = settings g"
  using assms
  by (auto simp: gridly_call_def grid_of_def draggable_method_def make_draggable_def Let_def layout_settings split: if_splits)

section \<open>The grid of the task form\<close>

definition order_options :: grid_options where
  "order_options = no_options\<lparr>opt_base := Some 60, opt_gutter := Some 20, opt_columns := Some 5\<rparr>"





definition task_form :: grid_element where
  "task_form = \<lparr>first_children = [plain_brick ''pOrderTemplate'' 0 0], grid = None, bound = 0, has_draggable = False\<rparr>"




theorem first_settings_stay_witness:
  "\<exists>el g'. gridly_call NoArgument [] (task_form) = Inr el \<and> (\<exists>el'. gridly_call (Options order_options) [] el = Inr el'
    \<and> grid el' = Some g' \<and> settings g' = \<lparr>base = 60, gutter = 20, grid_columns = 12, grid_optimize = None\<rparr>)"
proof -
  let ?g = "grid_layout (new_grid (extend_settings no_options) [plain_brick ''pOrderTemplate'' 0 0])"
  obtain el where el: "gridly_call NoArgument [] (task_form) = Inr el" "grid el = Some ?g"
    by (simp add: gridly_call_def call_options_def call_action_def grid_of_def task_form_def no_options_def make_draggable_def)
  moreover have "settings ?g = \<lparr>base = 60, gutter = 20, grid_columns = 12, grid_optimize = None\<rparr>"
    by (simp add: layout_settings new_grid_def extend_settings_def no_options_def)
  moreover have "\<exists>el'. gridly_call (Options order_options) [] el = Inr el'"
    by (simp add: gridly_call_def call_action_def order_options_def no_options_def Let_def)
  ultimately show ?thesis using first_settings_stay [OF el(2)] by metis
qed

section \<open>Filling the grid\<close>






















section \<open>A template of no size\<close>


















end
