(* ===== verification/Dialog.thy ===== *)
theory Dialog
  imports WebClient
begin

text \<open>
  The confirmation dialog: Bootstrap's modal (\<open>bootstrap.js\<close>, its states and the transitions it waits
  for), \<open>bootstrap-dialog.js\<close> on top of it, and the confirmation of a kill with the dialogs that
  \<open>auroraClient.js\<close> opens.  A page holds the dialogs by their ids; \<open>transitions\<close> says whether the
  browser supports CSS transitions.
\<close>

section \<open>State\<close>

datatype backdrop_option = NoBackdrop | StaticBackdrop | DynamicBackdrop

text \<open>The elements whose transition end is waited for, and what is to be done then.\<close>

datatype wait_target = OnDialog | OnElement | OnBackdrop nat

datatype continuation = ShowElement | ShownEvent | HideElement | RemoveBackdrop

record modal =
  m_backdrop_option :: backdrop_option
  m_keyboard :: bool
  m_isShown :: bool
  m_backdrop :: "nat option"
  m_visible :: bool
  m_attached :: bool
  m_dismiss :: nat \<comment> \<open>handlers of \<open>click.dismiss.bs.modal\<close> for the closing buttons\<close>
  m_outside :: nat \<comment> \<open>and for clicks beside the modal\<close>
  m_keyup :: nat \<comment> \<open>handlers of \<open>keyup.dismiss.bs.modal\<close>\<close>
  m_waits :: "(wait_target \<times> continuation) list"

definition new_modal :: "backdrop_option \<Rightarrow> bool \<Rightarrow> modal" where
  "new_modal b k = \<lparr>m_backdrop_option = b, m_keyboard = k, m_isShown = False, m_backdrop = None,
     m_visible = False, m_attached = False, m_dismiss = 0, m_outside = 0, m_keyup = 0, m_waits = []\<rparr>"

text \<open>What a button does: call the callback with a value and close, or, in an alert, record the click
  before it does so.\<close>

datatype button_action = Answer bool | AnswerClicked | NoAction

record button =
  b_label :: string
  b_cssClass :: string
  b_action :: button_action
  b_hotkey :: "nat option"

datatype hide_hook = NoHook | AlertHook

text \<open>
  A dialog: its options, what has been rendered (the title, the message, the buttons in the footer),
  and whether its own event handlers are bound.
\<close>

record dialog =
  d_type :: string
  d_title :: "string option"
  d_message :: string
  d_nl2br :: bool
  d_closable :: bool
  d_autodestroy :: bool
  d_buttons :: "button list"
  d_callback :: bool
  d_btnClicked :: bool
  d_onhide :: hide_hook
  d_realized :: bool
  d_opened :: bool
  d_handlers :: bool
  d_footer :: "button list"
  d_footerHidden :: bool
  d_hotkeys :: "(nat option \<times> nat option) list"
  d_disabled :: "nat list"
  d_shownTitle :: string
  d_shownMessage :: string
  d_cross :: bool
  d_modal :: modal

record dialog_page =
  all_dialogs :: "dialog obj"
  registry :: "string list" \<comment> \<open>the keys of \<open>BootstrapDialog.dialogs\<close>\<close>
  modal_open :: bool \<comment> \<open>the class on the body\<close>
  backdrops :: "nat list"
  next_backdrop :: nat
  transitions :: bool
  calls :: "(string \<times> bool) list"

definition dialog_of :: "dialog_page \<Rightarrow> string \<Rightarrow> dialog" where
  "dialog_of p k = the (obj_get (all_dialogs p) k)"

definition set_dialog :: "string \<Rightarrow> (dialog \<Rightarrow> dialog) \<Rightarrow> dialog_page \<Rightarrow> dialog_page" where
  "set_dialog k f p = (case obj_get (all_dialogs p) k of None \<Rightarrow> p
     | Some d \<Rightarrow> p\<lparr>all_dialogs := obj_set k (f d) (all_dialogs p)\<rparr>)"

definition set_modal :: "string \<Rightarrow> (modal \<Rightarrow> modal) \<Rightarrow> dialog_page \<Rightarrow> dialog_page" where
  "set_modal k f p = set_dialog k (\<lambda>d. d\<lparr>d_modal := f (d_modal d)\<rparr>) p"

definition modal_of :: "dialog_page \<Rightarrow> string \<Rightarrow> modal" where
  "modal_of p k = d_modal (dialog_of p k)"

section \<open>Events of the modal\<close>

text \<open>The handlers of \<open>handleModalEvents\<close>, then the ones Bootstrap keeps on the document, which an event
  on an element outside the document does not reach.\<close>

definition call_back :: "string \<Rightarrow> bool \<Rightarrow> dialog_page \<Rightarrow> dialog_page" where
  "call_back k b p = (if d_callback (dialog_of p k) then p\<lparr>calls := calls p @ [(k, b)]\<rparr> else p)"

definition show_event :: "string \<Rightarrow> dialog_page \<Rightarrow> dialog_page" where
  "show_event k p =
     (if d_handlers (dialog_of p k) \<or> m_attached (modal_of p k) then p\<lparr>modal_open := True\<rparr> else p)"

definition shown_event :: "string \<Rightarrow> dialog_page \<Rightarrow> dialog_page" where
  "shown_event k p = (if d_handlers (dialog_of p k) then p\<lparr>modal_open := True\<rparr> else p)"

definition hide_event :: "string \<Rightarrow> dialog_page \<Rightarrow> dialog_page" where
  "hide_event k p = (let d = dialog_of p k in
     if d_handlers d \<and> d_onhide d = AlertHook \<and> \<not> d_btnClicked d \<and> d_closable d then call_back k False p else p)"

text \<open>Removing the element takes the data and the handlers with it; a later \<open>modal('show')\<close> makes a new
  modal with Bootstrap's defaults.\<close>

definition remove_element :: "string \<Rightarrow> dialog_page \<Rightarrow> dialog_page" where
  "remove_element k p = set_dialog k (\<lambda>d. d\<lparr>d_handlers := False,
     d_modal := (new_modal DynamicBackdrop True)\<lparr>m_visible := m_visible (d_modal d)\<rparr>\<rparr>) p"

definition hidden_event :: "string \<Rightarrow> dialog_page \<Rightarrow> dialog_page" where
  "hidden_event k p =
     (let d = dialog_of p k;
          p' = (if d_handlers d \<and> d_autodestroy d then remove_element k p else p) in
      if d_handlers d \<or> m_attached (d_modal d) then p'\<lparr>modal_open := False\<rparr> else p')"

section \<open>Showing and hiding\<close>

definition fades :: "dialog_page \<Rightarrow> bool" where
  "fades p \<longleftrightarrow> transitions p \<comment> \<open>every modal of these dialogs has the class \<open>fade\<close>\<close>"

definition wait_for :: "string \<Rightarrow> wait_target \<Rightarrow> continuation \<Rightarrow> dialog_page \<Rightarrow> dialog_page" where
  "wait_for k t c p = set_modal k (\<lambda>m. m\<lparr>m_waits := m_waits m @ [(t, c)]\<rparr>) p"

text \<open>\<open>Modal.prototype.backdrop\<close>; \<open>run\<close> is its callback, \<open>c\<close> the name under which it waits.\<close>

definition backdrop :: "(dialog_page \<Rightarrow> dialog_page) \<Rightarrow> continuation \<Rightarrow> string \<Rightarrow> dialog_page \<Rightarrow> dialog_page" where
  "backdrop run c k p =
     (let m = modal_of p k in
      if m_isShown m \<and> m_backdrop_option m \<noteq> NoBackdrop then
        (let n = next_backdrop p;
             p' = set_modal k (\<lambda>m. m\<lparr>m_backdrop := Some n, m_outside := m_outside m + 1\<rparr>)
               (p\<lparr>backdrops := backdrops p @ [n], next_backdrop := n + 1\<rparr>) in
         if fades p then wait_for k (OnBackdrop n) c p' else run p')
      else case m_backdrop m of
          Some n \<Rightarrow> if m_isShown m then run p else if fades p then wait_for k (OnBackdrop n) c p else run p
        | None \<Rightarrow> run p)"

definition show_element :: "string \<Rightarrow> dialog_page \<Rightarrow> dialog_page" where
  "show_element k p =
     (let p' = set_modal k (\<lambda>m. m\<lparr>m_attached := True, m_visible := True\<rparr>) p in
      if fades p then wait_for k OnDialog ShownEvent p' else shown_event k p')"

definition remove_backdrop :: "string \<Rightarrow> dialog_page \<Rightarrow> dialog_page" where
  "remove_backdrop k p = hidden_event k (set_modal k (\<lambda>m. m\<lparr>m_backdrop := None\<rparr>)
     (case m_backdrop (modal_of p k) of None \<Rightarrow> p | Some n \<Rightarrow> p\<lparr>backdrops := filter (\<lambda>x. x \<noteq> n) (backdrops p)\<rparr>))"

definition hideModal :: "string \<Rightarrow> dialog_page \<Rightarrow> dialog_page" where
  "hideModal k p = backdrop (remove_backdrop k) RemoveBackdrop k (set_modal k (\<lambda>m. m\<lparr>m_visible := False\<rparr>) p)"

definition escape :: "string \<Rightarrow> dialog_page \<Rightarrow> dialog_page" where
  "escape k p = set_modal k (\<lambda>m. if m_isShown m \<and> m_keyboard m then m\<lparr>m_keyup := m_keyup m + 1\<rparr>
     else if \<not> m_isShown m then m\<lparr>m_keyup := 0\<rparr> else m) p"

definition modal_show :: "string \<Rightarrow> dialog_page \<Rightarrow> dialog_page" where
  "modal_show k p =
     (let p1 = show_event k p in
      if m_isShown (modal_of p1 k) then p1
      else backdrop (show_element k) ShowElement k
        (set_modal k (\<lambda>m. m\<lparr>m_dismiss := m_dismiss m + 1\<rparr>)
          (escape k (set_modal k (\<lambda>m. m\<lparr>m_isShown := True\<rparr>) p1))))"

definition modal_hide :: "string \<Rightarrow> dialog_page \<Rightarrow> dialog_page" where
  "modal_hide k p =
     (let p1 = hide_event k p in
      if \<not> m_isShown (modal_of p1 k) then p1
      else let p2 = set_modal k (\<lambda>m. m\<lparr>m_dismiss := 0, m_outside := 0\<rparr>) (escape k (set_modal k (\<lambda>m. m\<lparr>m_isShown := False\<rparr>) p1)) in
        if fades p then wait_for k OnElement HideElement p2 else hideModal k p2)"

text \<open>
  The end of a transition runs what waits for it, each once.  The event of the dialog bubbles to the
  element around it, whose waiting functions run as well.
\<close>

definition run_continuation :: "string \<Rightarrow> dialog_page \<Rightarrow> continuation \<Rightarrow> dialog_page" where
  "run_continuation k p c = (case c of
       ShowElement \<Rightarrow> show_element k p
     | ShownEvent \<Rightarrow> shown_event k p
     | HideElement \<Rightarrow> hideModal k p
     | RemoveBackdrop \<Rightarrow> remove_backdrop k p)"

definition transition_end :: "string \<Rightarrow> wait_target \<Rightarrow> dialog_page \<Rightarrow> dialog_page" where
  "transition_end k t p =
     (let heard = (\<lambda>w. fst w = t \<or> t = OnDialog \<and> fst w = OnElement);
          ws = m_waits (modal_of p k) in
      foldl (run_continuation k) (set_modal k (\<lambda>m. m\<lparr>m_waits := filter (\<lambda>w. \<not> heard w) ws\<rparr>) p)
        (map snd (filter (\<lambda>w. fst w = t) ws @ (if t = OnDialog then filter (\<lambda>w. fst w = OnElement) ws else []))))"

section \<open>The dialog\<close>

text \<open>\<open>content.replace(/\r\n/g, '<br />').replace(/[\r\n]/g, '<br />')\<close>\<close>

definition cr :: char where "cr = CHR 0x0D"
definition lf :: char where "lf = CHR 0x0A"

fun replace_crlf :: "string \<Rightarrow> string" where
  "replace_crlf [] = []"
| "replace_crlf [c] = [c]"
| "replace_crlf (c # d # s) = (if c = cr \<and> d = lf then ''<br />'' @ replace_crlf s else c # replace_crlf (d # s))"

definition formatStringContent :: "bool \<Rightarrow> string \<Rightarrow> string" where
  "formatStringContent nl2br s =
     (if nl2br then concat (map (\<lambda>c. if c = cr \<or> c = lf then ''<br />'' else [c]) (replace_crlf s)) else s)"

definition DEFAULT_TEXTS :: "(string \<times> string) list" where
  "DEFAULT_TEXTS = [(''type-default'', ''Information''), (''type-info'', ''Information''), (''type-primary'', ''Information''),
     (''type-success'', ''Success''), (''type-warning'', ''Warning''), (''type-danger'', ''Danger'')]"

definition getDefaultText :: "dialog \<Rightarrow> string" where
  "getDefaultText d = (case map_of DEFAULT_TEXTS (d_type d) of None \<Rightarrow> [] | Some s \<Rightarrow> s)"

definition updateTitle :: "dialog \<Rightarrow> dialog" where
  "updateTitle d = (if d_realized d
     then d\<lparr>d_shownTitle := (case d_title d of Some s \<Rightarrow> formatStringContent (d_nl2br d) s | None \<Rightarrow> getDefaultText d)\<rparr> else d)"

definition updateMessage :: "dialog \<Rightarrow> dialog" where
  "updateMessage d = (if d_realized d then d\<lparr>d_shownMessage := formatStringContent (d_nl2br d) (d_message d)\<rparr> else d)"

definition updateClosable :: "dialog \<Rightarrow> dialog" where
  "updateClosable d = (if d_realized d then d\<lparr>d_cross := d_closable d\<rparr> else d)"

text \<open>A button without a hotkey is registered under \<open>undefined\<close>, which no key event has.  The hotkeys of the
  buttons before remain, of elements without handlers.\<close>

definition createFooterButtons :: "dialog \<Rightarrow> dialog" where
  "createFooterButtons d = d\<lparr>d_footer := d_buttons d, d_disabled := [],
     d_hotkeys := map (\<lambda>(i, b). (b_hotkey b, Some i)) (rev (enumerate 0 (d_buttons d)))
       @ map (\<lambda>(key, i). (key, None)) (d_hotkeys d)\<rparr>"

definition updateButtons :: "dialog \<Rightarrow> dialog" where
  "updateButtons d = (if d_realized d
     then (if d_buttons d = [] then d\<lparr>d_footerHidden := True\<rparr> else createFooterButtons d) else d)"

definition setTitle :: "string option \<Rightarrow> dialog \<Rightarrow> dialog" where
  "setTitle s d = updateTitle (d\<lparr>d_title := s\<rparr>)"

definition setMessage :: "string \<Rightarrow> dialog \<Rightarrow> dialog" where
  "setMessage s d = updateMessage (d\<lparr>d_message := s\<rparr>)"

definition setClosable :: "bool \<Rightarrow> dialog \<Rightarrow> dialog" where
  "setClosable b d = updateClosable (d\<lparr>d_closable := b\<rparr>)"

definition setButtons :: "button list \<Rightarrow> dialog \<Rightarrow> dialog" where
  "setButtons bs d = updateButtons (d\<lparr>d_buttons := bs\<rparr>)"

definition addButton :: "button \<Rightarrow> dialog \<Rightarrow> dialog" where
  "addButton b d = d\<lparr>d_buttons := d_buttons d @ [b]\<rparr>"

definition enableButtons :: "bool \<Rightarrow> dialog \<Rightarrow> dialog" where
  "enableButtons e d = d\<lparr>d_disabled := (if e then [] else [0..<length (d_footer d)])\<rparr>"

text \<open>\<open>realize\<close>: build the elements, bind the handlers, and render.\<close>

definition realize :: "dialog \<Rightarrow> dialog" where
  "realize d = updateClosable (updateMessage (updateTitle (updateButtons
     (d\<lparr>d_realized := True, d_handlers := True, d_modal := new_modal StaticBackdrop False\<rparr>))))"

definition dialog_open :: "string \<Rightarrow> dialog_page \<Rightarrow> dialog_page" where
  "dialog_open k p = set_dialog k (\<lambda>d. d\<lparr>d_opened := True\<rparr>)
     (modal_show k (set_dialog k (\<lambda>d. if d_realized d then d else realize d) p))"

definition dialog_close :: "string \<Rightarrow> dialog_page \<Rightarrow> dialog_page" where
  "dialog_close k p =
     (let p1 = modal_hide k p;
          p2 = (if d_autodestroy (dialog_of p1 k) then p1\<lparr>registry := filter (\<lambda>i. i \<noteq> k) (registry p1)\<rparr> else p1) in
      set_dialog k (\<lambda>d. d\<lparr>d_opened := False\<rparr>) p2)"

definition closeAll :: "dialog_page \<Rightarrow> dialog_page" where
  "closeAll p = foldl (\<lambda>p k. dialog_close k p) p (registry p)"

definition openAll :: "dialog_page \<Rightarrow> dialog_page" where
  "openAll p = foldl (\<lambda>p k. dialog_open k p) p (registry p)"

section \<open>Alerts and confirmations\<close>

text \<open>The defaults of a dialog; \<open>holdThisInstance\<close> puts it into the registry.\<close>

definition new_dialog :: dialog where
  "new_dialog = \<lparr>d_type = ''type-primary'', d_title = None, d_message = [], d_nl2br = True, d_closable = True,
     d_autodestroy = True, d_buttons = [], d_callback = False, d_btnClicked = False, d_onhide = NoHook,
     d_realized = False, d_opened = False, d_handlers = False, d_footer = [], d_footerHidden = False, d_hotkeys = [],
     d_disabled = [], d_shownTitle = [], d_shownMessage = [], d_cross = True, d_modal = new_modal StaticBackdrop False\<rparr>"

definition hold :: "string \<Rightarrow> dialog \<Rightarrow> dialog_page \<Rightarrow> dialog_page" where
  "hold k d p = p\<lparr>all_dialogs := obj_set k d (all_dialogs p), registry := filter (\<lambda>i. i \<noteq> k) (registry p) @ [k]\<rparr>"

definition plain_button :: "string \<Rightarrow> string \<Rightarrow> button_action \<Rightarrow> button" where
  "plain_button label css a = \<lparr>b_label = label, b_cssClass = css, b_action = a, b_hotkey = None\<rparr>"

text \<open>\<open>BootstrapDialog.confirm\<close> as \<open>auroraClient.js\<close> redefines it, and \<open>BootstrapDialog.alert\<close> called with a
  message and perhaps a callback, or with an object.  \<open>k\<close> is the new id.\<close>

definition confirm :: "string \<Rightarrow> string \<Rightarrow> dialog_page \<Rightarrow> dialog_page" where
  "confirm k message p = dialog_open k (hold k (new_dialog\<lparr>
     d_title := Some ''<h3 class=\"modal-title\">Confirmation</h3>'',
     d_message := ''<p class=\"text-danger\">'' @ message @ ''</p>'', d_closable := False, d_callback := True,
     d_buttons := [plain_button ''Cancel'' [] (Answer False), plain_button ''Yes'' ''btn-primary'' (Answer True)]\<rparr>) p)"

record alert_options =
  al_type :: string
  al_title :: "string option"
  al_message :: string
  al_closable :: bool
  al_label :: string
  al_callback :: bool

definition alert_message :: "string \<Rightarrow> bool \<Rightarrow> alert_options" where
  "alert_message message callback = \<lparr>al_type = ''type-primary'', al_title = None, al_message = message,
     al_closable = False, al_label = ''OK'', al_callback = callback\<rparr>"

definition alert :: "string \<Rightarrow> alert_options \<Rightarrow> dialog_page \<Rightarrow> dialog_page" where
  "alert k al p = dialog_open k (hold k (new_dialog\<lparr>d_type := al_type al, d_title := al_title al,
     d_message := al_message al, d_closable := al_closable al, d_callback := al_callback al, d_onhide := AlertHook,
     d_buttons := [plain_button (al_label al) [] AnswerClicked]\<rparr>) p)"

section \<open>The user\<close>

definition button_click :: "string \<Rightarrow> button \<Rightarrow> dialog_page \<Rightarrow> dialog_page" where
  "button_click k b p = (case b_action b of
       Answer v \<Rightarrow> dialog_close k (call_back k v p)
     | AnswerClicked \<Rightarrow> dialog_close k (call_back k True (set_dialog k (\<lambda>d. d\<lparr>d_btnClicked := True\<rparr>) p))
     | NoAction \<Rightarrow> p)"

text \<open>A button can be pressed as long as its element is shown, its handlers are bound and it is not
  disabled.\<close>

definition pressable :: "dialog_page \<Rightarrow> string \<Rightarrow> nat \<Rightarrow> bool" where
  "pressable p k i \<longleftrightarrow> (case obj_get (all_dialogs p) k of None \<Rightarrow> False | Some d \<Rightarrow>
     m_attached (d_modal d) \<and> m_visible (d_modal d) \<and> d_handlers d \<and> i < length (d_footer d) \<and> \<not> List.member (d_disabled d) i)"

definition press_button :: "string \<Rightarrow> nat \<Rightarrow> dialog_page \<Rightarrow> dialog_page" where
  "press_button k i p = (if pressable p k i \<and> \<not> d_footerHidden (dialog_of p k)
     then button_click k (d_footer (dialog_of p k) ! i) p else p)"

definition on_screen :: "dialog_page \<Rightarrow> string \<Rightarrow> bool" where
  "on_screen p k \<longleftrightarrow> (case obj_get (all_dialogs p) k of None \<Rightarrow> False
     | Some d \<Rightarrow> m_attached (d_modal d) \<and> m_visible (d_modal d))"

text \<open>Keys: escape closes a closable dialog, a hotkey presses its button (a hidden footer does not stop
  it), and the modal's own escape handlers run last.\<close>

definition press_key :: "string \<Rightarrow> nat \<Rightarrow> dialog_page \<Rightarrow> dialog_page" where
  "press_key k key p =
     (if \<not> on_screen p k then p
      else let m = modal_of p k; bound = d_handlers (dialog_of p k);
               p1 = (if bound \<and> key = 27 \<and> d_closable (dialog_of p k) then dialog_close k p else p);
               p2 = (if \<not> bound then p1 else case map_of (d_hotkeys (dialog_of p1 k)) (Some key) of
                   Some (Some i) \<Rightarrow> if pressable p1 k i then button_click k (d_footer (dialog_of p1 k) ! i) p1 else p1
                 | _ \<Rightarrow> p1) in
           if key = 27 then (modal_hide k ^^ m_keyup m) p2 else p2)"

definition click_outside :: "string \<Rightarrow> dialog_page \<Rightarrow> dialog_page" where
  "click_outside k p =
     (if \<not> on_screen p k then p
      else let m = modal_of p k;
               p1 = (if d_handlers (dialog_of p k) \<and> d_closable (dialog_of p k) then dialog_close k p else p) in
           if m_backdrop_option m = DynamicBackdrop then (modal_hide k ^^ m_outside m) p1 else p1)"

definition click_cross :: "string \<Rightarrow> dialog_page \<Rightarrow> dialog_page" where
  "click_cross k p = (if on_screen p k \<and> d_handlers (dialog_of p k) \<and> d_cross (dialog_of p k) then dialog_close k p else p)"

datatype dialog_event = Press string nat | Key string nat | Outside string | Cross string | TransitionEnd string wait_target

definition dialog_step :: "dialog_page \<Rightarrow> dialog_event \<Rightarrow> dialog_page" where
  "dialog_step p ev = (case ev of
       Press k i \<Rightarrow> press_button k i p
     | Key k key \<Rightarrow> press_key k key p
     | Outside k \<Rightarrow> click_outside k p
     | Cross k \<Rightarrow> click_cross k p
     | TransitionEnd k t \<Rightarrow> (case obj_get (all_dialogs p) k of None \<Rightarrow> p | Some _ \<Rightarrow> transition_end k t p))"

definition dialog_run :: "dialog_event list \<Rightarrow> dialog_page \<Rightarrow> dialog_page" where
  "dialog_run evs p = foldl dialog_step p evs"

definition empty_dialogs :: "bool \<Rightarrow> dialog_page" where
  "empty_dialogs tr = \<lparr>all_dialogs = [], registry = [], modal_open = False, backdrops = [], next_backdrop = 0,
     transitions = tr, calls = []\<rparr>"

section \<open>Properties\<close>

text \<open>What an operation on one dialog leaves of the others and of the page.\<close>

lemma get_set_dialog [simp]:
  "obj_get (all_dialogs (set_dialog k f p)) j = (if j = k then map_option f (obj_get (all_dialogs p) k) else obj_get (all_dialogs p) j)"
  by (auto simp: set_dialog_def obj_get_set split: option.split)

lemma set_dialog_fields [simp]:
  "registry (set_dialog k f p) = registry p" "modal_open (set_dialog k f p) = modal_open p"
  "backdrops (set_dialog k f p) = backdrops p" "next_backdrop (set_dialog k f p) = next_backdrop p"
  "transitions (set_dialog k f p) = transitions p" "calls (set_dialog k f p) = calls p"
  by (simp_all add: set_dialog_def split: option.split)

lemma dialog_of_Some: "obj_get (all_dialogs p) k = Some d \<Longrightarrow> dialog_of p k = d"
  by (simp add: dialog_of_def)

lemma modal_of_Some: "obj_get (all_dialogs p) k = Some d \<Longrightarrow> modal_of p k = d_modal d"
  by (simp add: modal_of_def dialog_of_def)

lemmas dialog_defs = set_modal_def wait_for_def call_back_def show_event_def shown_event_def hide_event_def
  remove_element_def hidden_event_def backdrop_def show_element_def remove_backdrop_def hideModal_def escape_def
  modal_show_def modal_hide_def run_continuation_def fades_def Let_def

text \<open>A dialog that has been confirmed to be open: its elements are on the screen, nothing closes it but its
  buttons, and at most the end of the first transition is awaited.\<close>

definition asking :: "nat \<Rightarrow> dialog \<Rightarrow> bool" where
  "asking n d \<longleftrightarrow> \<not> d_closable d \<and> d_autodestroy d \<and> d_callback d \<and> d_onhide d = NoHook \<and> d_realized d \<and> d_handlers d
     \<and> \<not> d_cross d \<and> \<not> d_footerHidden d \<and> d_disabled d = [] \<and> map fst (d_hotkeys d) = [None, None]
     \<and> map b_action (d_footer d) = [Answer False, Answer True]
     \<and> m_backdrop_option (d_modal d) = StaticBackdrop \<and> m_backdrop (d_modal d) = Some n
     \<and> m_visible (d_modal d) \<and> m_attached (d_modal d) \<and> m_keyup (d_modal d) = 0"

definition waiting :: "dialog \<Rightarrow> bool" where
  "waiting d \<longleftrightarrow> m_isShown (d_modal d) \<and> m_waits (d_modal d) \<in> {[], [(OnDialog, ShownEvent)]}"

text \<open>Whatever happens to one dialog leaves the others alone.\<close>

definition same_for :: "string \<Rightarrow> dialog_page \<Rightarrow> dialog_page \<Rightarrow> bool" where
  "same_for k p q \<longleftrightarrow> obj_get (all_dialogs q) k = obj_get (all_dialogs p) k
     \<and> filter (\<lambda>c. fst c = k) (calls q) = filter (\<lambda>c. fst c = k) (calls p) \<and> transitions q = transitions p"

lemma same_for_refl [simp]: "same_for k p p"
  by (simp add: same_for_def)

lemma same_for_trans: "same_for k p q \<Longrightarrow> same_for k q r \<Longrightarrow> same_for k p r"
  by (simp add: same_for_def)

lemma same_for_if: "same_for k p q \<Longrightarrow> same_for k p r \<Longrightarrow> same_for k p (if c then q else r)"
  by simp

lemma same_page:
  "same_for k p (q\<lparr>backdrops := bs\<rparr>) = same_for k p q" "same_for k p (q\<lparr>next_backdrop := n\<rparr>) = same_for k p q"
  "same_for k p (q\<lparr>modal_open := b\<rparr>) = same_for k p q" "same_for k p (q\<lparr>registry := r\<rparr>) = same_for k p q"
  by (simp_all add: same_for_def)

lemma same_set_dialog: "j \<noteq> k \<Longrightarrow> same_for k p (set_dialog j f q) = same_for k p q"
  by (simp add: same_for_def)

lemma same_set_modal: "j \<noteq> k \<Longrightarrow> same_for k p (set_modal j f q) = same_for k p q"
  by (simp add: set_modal_def same_set_dialog)

lemma same_call_back: "j \<noteq> k \<Longrightarrow> same_for k p (call_back j b q) = same_for k p q"
  by (simp add: same_for_def call_back_def)

lemma same_wait_for: "j \<noteq> k \<Longrightarrow> same_for k p (wait_for j t c q) = same_for k p q"
  by (simp add: wait_for_def same_set_modal)

lemmas same_basic = same_page same_set_dialog same_set_modal same_call_back same_wait_for

lemma same_events:
  assumes "j \<noteq> k" "same_for k p q"
  shows "same_for k p (show_event j q)" "same_for k p (shown_event j q)" "same_for k p (hide_event j q)"
    "same_for k p (hidden_event j q)" "same_for k p (escape j q)"
  using assms
  by (simp_all add: show_event_def shown_event_def hide_event_def hidden_event_def remove_element_def escape_def Let_def same_basic)

lemma same_backdrop:
  assumes "j \<noteq> k" "same_for k p q" "\<And>q. same_for k p q \<Longrightarrow> same_for k p (run q)"
  shows "same_for k p (backdrop run c j q)"
  using assms by (simp add: backdrop_def Let_def same_basic split: option.split)

lemma same_elements:
  assumes "j \<noteq> k" "same_for k p q"
  shows "same_for k p (show_element j q)" "same_for k p (remove_backdrop j q)"
proof -
  show "same_for k p (show_element j q)"
    using assms by (simp add: show_element_def Let_def same_basic same_events)
  show "same_for k p (remove_backdrop j q)"
    unfolding remove_backdrop_def using assms by (intro same_events) (simp_all add: same_basic split: option.split)
qed

lemma same_hideModal: "j \<noteq> k \<Longrightarrow> same_for k p q \<Longrightarrow> same_for k p (hideModal j q)"
  unfolding hideModal_def by (intro same_backdrop same_elements) (simp_all add: same_basic)

lemma same_modal_hide: "j \<noteq> k \<Longrightarrow> same_for k p q \<Longrightarrow> same_for k p (modal_hide j q)"
  by (simp add: modal_hide_def Let_def same_basic same_events same_hideModal)

lemma same_run: "j \<noteq> k \<Longrightarrow> same_for k p q \<Longrightarrow> same_for k p (run_continuation j q c)"
  by (cases c) (simp_all add: run_continuation_def same_elements same_events same_hideModal)

lemma same_foldl: "(\<And>q x. same_for k p q \<Longrightarrow> same_for k p (f q x)) \<Longrightarrow> same_for k p q \<Longrightarrow> same_for k p (foldl f q xs)"
  by (induction xs arbitrary: q) auto

lemma same_funpow: "(\<And>q. same_for k p q \<Longrightarrow> same_for k p (f q)) \<Longrightarrow> same_for k p q \<Longrightarrow> same_for k p ((f ^^ n) q)"
  by (induction n) auto

lemma same_transition: "j \<noteq> k \<Longrightarrow> same_for k p q \<Longrightarrow> same_for k p (transition_end j t q)"
  unfolding transition_end_def Let_def by (rule same_foldl [OF same_run]) (simp_all add: same_basic)

lemma same_close: "j \<noteq> k \<Longrightarrow> same_for k p q \<Longrightarrow> same_for k p (dialog_close j q)"
  by (simp add: dialog_close_def Let_def same_basic same_modal_hide)

lemma same_button: "j \<noteq> k \<Longrightarrow> same_for k p q \<Longrightarrow> same_for k p (button_click j b q)"
  by (cases "b_action b") (simp_all add: button_click_def same_basic same_close)

lemma same_key: "j \<noteq> k \<Longrightarrow> same_for k p q \<Longrightarrow> same_for k p (press_key j key q)"
  unfolding press_key_def Let_def
  by (simp split: option.split) (intro conjI impI allI same_funpow same_modal_hide same_button same_close, assumption+)

lemma same_outside: "j \<noteq> k \<Longrightarrow> same_for k p q \<Longrightarrow> same_for k p (click_outside j q)"
  unfolding click_outside_def Let_def by (simp add: same_funpow same_modal_hide same_close)

text \<open>The dialog an event is about.\<close>

fun event_dialog :: "dialog_event \<Rightarrow> string" where
  "event_dialog (Press k i) = k"
| "event_dialog (Key k key) = k"
| "event_dialog (Outside k) = k"
| "event_dialog (Cross k) = k"
| "event_dialog (TransitionEnd k t) = k"

lemma same_step: "event_dialog ev \<noteq> k \<Longrightarrow> same_for k p (dialog_step p ev)"
  by (cases ev) (simp_all add: dialog_step_def press_button_def click_cross_def same_button same_key same_outside same_close
    same_transition split: option.split)

definition shown_confirm :: "string \<Rightarrow> string \<Rightarrow> dialog_page \<Rightarrow> dialog_page" where
  "shown_confirm k msg p = dialog_run [TransitionEnd k (OnBackdrop (next_backdrop p))] (confirm k msg p)"

lemma confirm_shown:
  assumes "transitions p" "obj_get (all_dialogs p) k = None"
  shows "\<exists>d. obj_get (all_dialogs (shown_confirm k msg p)) k = Some d \<and> asking (next_backdrop p) d \<and> waiting d"
    and "calls (shown_confirm k msg p) = calls p" "transitions (shown_confirm k msg p)"
    and "backdrops (shown_confirm k msg p) = backdrops p @ [next_backdrop p]"
    and "j \<noteq> k \<Longrightarrow> obj_get (all_dialogs (shown_confirm k msg p)) j = obj_get (all_dialogs p) j"
  using assms
  by (simp_all add: shown_confirm_def confirm_def dialog_open_def hold_def obj_get_set dialog_run_def dialog_step_def
      transition_end_def dialog_defs dialog_of_def modal_of_def new_dialog_def realize_def updateButtons_def
      createFooterButtons_def updateTitle_def updateMessage_def updateClosable_def new_modal_def asking_def waiting_def
      plain_button_def)

text \<open>No key, no click beside the buttons and no end of a transition does anything to such a dialog.\<close>

lemma quiet_step:
  assumes d: "obj_get (all_dialogs p) k = Some d" and "asking n d" "waiting d" "\<And>i. ev \<noteq> Press k i" "event_dialog ev = k"
  shows "\<exists>d'. obj_get (all_dialogs (dialog_step p ev)) k = Some d' \<and> asking n d' \<and> waiting d'
    \<and> calls (dialog_step p ev) = calls p"
proof -
  have of: "dialog_of p k = d" "modal_of p k = d_modal d" using d by (simp_all add: dialog_of_Some modal_of_Some)
  show ?thesis
  proof (cases ev)
    case (Key j key)
    have "map_of (d_hotkeys d) (Some key) = None"
      using assms(2) by (auto simp: asking_def map_of_eq_None_iff map_eq_Cons_conv)
    then show ?thesis using assms Key by (auto simp: dialog_step_def press_key_def of asking_def Let_def)
  next
    case (TransitionEnd j t)
    then show ?thesis using assms
      by (auto simp: dialog_step_def transition_end_def of set_modal_def run_continuation_def shown_event_def waiting_def
          dialog_of_def Let_def asking_def)
  qed (use assms in \<open>auto simp: dialog_step_def click_outside_def click_cross_def of asking_def Let_def\<close>)
qed

lemma quiet_run:
  assumes "obj_get (all_dialogs p) k = Some d" "asking n d" "waiting d" "list_all (\<lambda>ev. case ev of Press j i \<Rightarrow> j \<noteq> k | _ \<Rightarrow> True) evs"
  shows "\<exists>d'. obj_get (all_dialogs (dialog_run evs p)) k = Some d' \<and> asking n d' \<and> waiting d'
    \<and> filter (\<lambda>c. fst c = k) (calls (dialog_run evs p)) = filter (\<lambda>c. fst c = k) (calls p)"
  using assms
proof (induction evs arbitrary: p d)
  case (Cons ev evs)
  have "\<exists>d'. obj_get (all_dialogs (dialog_step p ev)) k = Some d' \<and> asking n d' \<and> waiting d'
    \<and> filter (\<lambda>c. fst c = k) (calls (dialog_step p ev)) = filter (\<lambda>c. fst c = k) (calls p)"
  proof (cases "event_dialog ev = k")
    case True
    then have "\<And>i. ev \<noteq> Press k i" using Cons.prems(4) by (auto split: dialog_event.splits)
    from quiet_step [OF Cons.prems(1-3) this True] show ?thesis by auto
  next
    case False
    from same_step [OF this] Cons.prems show ?thesis by (auto simp: same_for_def)
  qed
  then obtain d' where "obj_get (all_dialogs (dialog_step p ev)) k = Some d'" "asking n d'" "waiting d'"
    "filter (\<lambda>c. fst c = k) (calls (dialog_step p ev)) = filter (\<lambda>c. fst c = k) (calls p)" by blast
  with Cons.IH [of "dialog_step p ev" d'] Cons.prems(4) show ?case by (simp add: dialog_run_def)
qed (simp add: dialog_run_def)

text \<open>a question stays until it is answered: whatever keys are pressed, wherever one clicks beside
  its buttons, whichever transitions end and whatever happens to other dialogs, the dialog remains on
  the screen and its callback is not called.\<close>

theorem question_stays:
  assumes "transitions p" "obj_get (all_dialogs p) k = None"
    and "list_all (\<lambda>ev. case ev of Press j i \<Rightarrow> j \<noteq> k | _ \<Rightarrow> True) evs"
  shows "let p' = dialog_run evs (shown_confirm k msg p) in
    on_screen p' k \<and> filter (\<lambda>c. fst c = k) (calls p') = filter (\<lambda>c. fst c = k) (calls p)"
proof -
  obtain d where d: "obj_get (all_dialogs (shown_confirm k msg p)) k = Some d" "asking (next_backdrop p) d" "waiting d"
    using confirm_shown(1) [OF assms(1,2)] by blast
  from quiet_run [OF d assms(3)] confirm_shown(2) [OF assms(1,2), of msg] show ?thesis
    by (auto simp: Let_def on_screen_def asking_def)
qed

theorem question_stays_witness:
  "on_screen (dialog_run [Key ''q'' 27, Outside ''q'', Cross ''q'', TransitionEnd ''q'' OnDialog]
     (shown_confirm ''q'' ''Kill it?'' (empty_dialogs True))) ''q''"
  using question_stays [of "empty_dialogs True" "''q''" "[Key ''q'' 27, Outside ''q'', Cross ''q'', TransitionEnd ''q'' OnDialog]"
      "''Kill it?''"]
  by (simp add: empty_dialogs_def obj_get_def Let_def)

text \<open>Pressing the buttons: the callback is called each time, the dialog closes with the first.\<close>

definition closing :: "dialog \<Rightarrow> bool" where
  "closing d \<longleftrightarrow> \<not> m_isShown (d_modal d) \<and> (OnElement, HideElement) \<in> set (m_waits (d_modal d))
     \<and> list_all (\<lambda>w. w \<in> {(OnDialog, ShownEvent), (OnElement, HideElement)}) (m_waits (d_modal d))
     \<and> length (filter (\<lambda>w. fst w = OnElement) (m_waits (d_modal d))) = 1"

lemma press_step:
  assumes d: "obj_get (all_dialogs p) k = Some d" and a: "asking n d" and "waiting d \<or> closing d" "transitions p" "i < 2"
  shows "\<exists>d'. obj_get (all_dialogs (press_button k i p)) k = Some d' \<and> asking n d' \<and> closing d'"
    and "calls (press_button k i p) = calls p @ [(k, i = 1)]" "transitions (press_button k i p)"
    and "backdrops (press_button k i p) = backdrops p" "k \<notin> set (registry (press_button k i p))"
    and "j \<noteq> k \<Longrightarrow> obj_get (all_dialogs (press_button k i p)) j = obj_get (all_dialogs p) j"
proof -
  have of: "dialog_of p k = d" "modal_of p k = d_modal d" using d by (simp_all add: dialog_of_Some modal_of_Some)
  obtain b0 b1 where f: "d_footer d = [b0, b1]" "b_action b0 = Answer False" "b_action b1 = Answer True"
    using a by (auto simp: asking_def map_eq_Cons_conv)
  have b: "button_click k (d_footer d ! i) p = dialog_close k (call_back k (i = 1) p)"
    using assms(5) f by (auto simp: button_click_def less_2_cases_iff)
  have p: "press_button k i p = dialog_close k (call_back k (i = 1) p)"
    using a assms(5) f b [simplified f] by (simp add: press_button_def pressable_def d of asking_def)
  let ?q = "press_button k i p"
  show "calls ?q = calls p @ [(k, i = 1)]" "transitions ?q" "backdrops ?q = backdrops p" "k \<notin> set (registry ?q)"
    "j \<noteq> k \<Longrightarrow> obj_get (all_dialogs ?q) j = obj_get (all_dialogs p) j"
    "\<exists>d'. obj_get (all_dialogs ?q) k = Some d' \<and> asking n d' \<and> closing d'"
    unfolding p using assms(3,4) a
    by (auto simp: dialog_close_def dialog_defs of d dialog_of_def modal_of_def asking_def waiting_def closing_def)
qed

lemma press_run:
  assumes "obj_get (all_dialogs p) k = Some d" "asking n d" "waiting d \<or> closing d" "transitions p" "list_all (\<lambda>i. i < 2) ps" "ps \<noteq> []"
  shows "let q = dialog_run (map (Press k) ps) p in
    (\<exists>d'. obj_get (all_dialogs q) k = Some d' \<and> asking n d' \<and> closing d')
    \<and> calls q = calls p @ map (\<lambda>i. (k, i = 1)) ps \<and> transitions q \<and> backdrops q = backdrops p \<and> k \<notin> set (registry q)
    \<and> (j \<noteq> k \<longrightarrow> obj_get (all_dialogs q) j = obj_get (all_dialogs p) j)"
  using assms
proof (induction ps arbitrary: p d)
  case (Cons i ps)
  have i: "i < 2" using Cons.prems(5) by simp
  note st = press_step [OF Cons.prems(1-4) i]
  obtain d' where d': "obj_get (all_dialogs (press_button k i p)) k = Some d'" "asking n d'" "closing d'" using st(1) by blast
  show ?case
  proof (cases "ps = []")
    case True
    then show ?thesis using st d' by (auto simp: dialog_run_def dialog_step_def Let_def)
  next
    case False
    then show ?thesis
      using Cons.IH [OF d'(1,2) disjI2 [OF d'(3)] st(3) _ False] Cons.prems(5) st
      by (auto simp: dialog_run_def dialog_step_def Let_def)
  qed
qed simp

text \<open>The two transitions after which the dialog is gone.\<close>

definition fade_out :: "string \<Rightarrow> nat \<Rightarrow> dialog_event list" where
  "fade_out k n = [TransitionEnd k OnElement, TransitionEnd k (OnBackdrop n)]"

lemma faded:
  assumes d: "obj_get (all_dialogs p) k = Some d" and "asking n d" "closing d" "transitions p"
  shows "\<not> on_screen (dialog_run (fade_out k n) p) k" "calls (dialog_run (fade_out k n) p) = calls p"
    and "backdrops (dialog_run (fade_out k n) p) = filter (\<lambda>x. x \<noteq> n) (backdrops p)"
    and "\<not> modal_open (dialog_run (fade_out k n) p)" "registry (dialog_run (fade_out k n) p) = registry p"
    and "j \<noteq> k \<Longrightarrow> obj_get (all_dialogs (dialog_run (fade_out k n) p)) j = obj_get (all_dialogs p) j"
proof -
  have of: "dialog_of p k = d" "modal_of p k = d_modal d" using d by (simp_all add: dialog_of_Some modal_of_Some)
  let ?ws = "m_waits (d_modal d)" and ?p1 = "dialog_step p (TransitionEnd k OnElement)"
  have w: "map snd (filter (\<lambda>w. fst w = OnElement) ?ws) = [HideElement]" "filter (\<lambda>w. fst w = OnBackdrop n) ?ws = []"
    using assms(3) by (auto simp: closing_def list_all_iff length_Suc_conv filter_eq_Cons_iff filter_empty_conv)
  let ?d1 = "d\<lparr>d_modal := (d_modal d)\<lparr>m_waits := filter (\<lambda>w. fst w \<noteq> OnElement) ?ws @ [(OnBackdrop n, RemoveBackdrop)], m_visible := False\<rparr>\<rparr>"
  have p1: "obj_get (all_dialogs ?p1) k = Some ?d1" "calls ?p1 = calls p" "backdrops ?p1 = backdrops p" "transitions ?p1"
      "registry ?p1 = registry p" "j \<noteq> k \<Longrightarrow> obj_get (all_dialogs ?p1) j = obj_get (all_dialogs p) j"
    using assms w(1)
    by (simp_all add: dialog_step_def transition_end_def of d run_continuation_def hideModal_def backdrop_def Let_def
        set_modal_def wait_for_def fades_def modal_of_def dialog_of_def closing_def asking_def)
  have of1: "dialog_of ?p1 k = ?d1" "modal_of ?p1 k = d_modal ?d1" using p1(1) by (simp_all add: dialog_of_Some modal_of_Some)
  have w1: "filter (\<lambda>w. fst w = OnBackdrop n) (m_waits (d_modal ?d1)) = [(OnBackdrop n, RemoveBackdrop)]"
    using w(2) by (simp add: filter_empty_conv)
  have run: "dialog_run (fade_out k n) p = dialog_step ?p1 (TransitionEnd k (OnBackdrop n))"
    by (simp add: dialog_run_def fade_out_def)
  show "\<not> on_screen (dialog_run (fade_out k n) p) k" "calls (dialog_run (fade_out k n) p) = calls p"
    "backdrops (dialog_run (fade_out k n) p) = filter (\<lambda>x. x \<noteq> n) (backdrops p)"
    "\<not> modal_open (dialog_run (fade_out k n) p)" "registry (dialog_run (fade_out k n) p) = registry p"
    "j \<noteq> k \<Longrightarrow> obj_get (all_dialogs (dialog_run (fade_out k n) p)) j = obj_get (all_dialogs p) j"
    unfolding run using assms(2) p1
    by (simp_all add: dialog_step_def [of ?p1] transition_end_def of1 w1 [simplified] run_continuation_def remove_backdrop_def
        hidden_event_def remove_element_def Let_def set_modal_def modal_of_def dialog_of_def asking_def on_screen_def new_modal_def)
qed

lemma question_answered_all:
  assumes "transitions p" "obj_get (all_dialogs p) k = None" "list_all (\<lambda>n. n < next_backdrop p) (backdrops p)"
    and "list_all (\<lambda>i. i < 2) ps" "ps \<noteq> []"
  shows "let p' = dialog_run (map (Press k) ps @ fade_out k (next_backdrop p)) (shown_confirm k msg p) in
    calls p' = calls p @ map (\<lambda>i. (k, i = 1)) ps \<and> \<not> on_screen p' k \<and> press_button k i p' = p'
    \<and> backdrops p' = backdrops p \<and> k \<notin> set (registry p') \<and> \<not> modal_open p'
    \<and> (if j = k then True else on_screen p' j = on_screen p j)"
proof -
  let ?p1 = "shown_confirm k msg p" let ?p2 = "dialog_run (map (Press k) ps) ?p1"
  let ?p3 = "dialog_run (fade_out k (next_backdrop p)) ?p2"
  note c = confirm_shown [OF assms(1,2), where msg = msg]
  obtain d where d: "obj_get (all_dialogs ?p1) k = Some d" "asking (next_backdrop p) d" "waiting d" using c(1) by blast
  note r = press_run [OF d(1,2) disjI1 [OF d(3)] c(3) assms(4,5), unfolded Let_def]
  then obtain d' where d': "obj_get (all_dialogs ?p2) k = Some d'" "asking (next_backdrop p) d'" "closing d'" by blast
  have "transitions ?p2" using r by blast
  note f = faded [OF d' this]
  have "filter (\<lambda>x. x \<noteq> next_backdrop p) (backdrops p) = backdrops p"
    using assms(3) by (auto simp: filter_id_conv list_all_iff)
  then have b: "backdrops ?p3 = backdrops p" using r by (simp add: f(3) c(4))
  have o: "on_screen ?p3 j = on_screen p j" if "j \<noteq> k"
    using f(6) [OF that] r [of j] c(5) [OF that] that by (simp add: on_screen_def)
  have dead: "press_button k i ?p3 = ?p3" using f(1) by (auto simp: press_button_def pressable_def on_screen_def split: option.splits)
  have "dialog_run (map (Press k) ps @ fade_out k (next_backdrop p)) ?p1 = ?p3" by (simp add: dialog_run_def)
  then show ?thesis using f r b o dead c(2) by (simp add: Let_def)
qed

lemma question_answered_calls:
  assumes "transitions p" "obj_get (all_dialogs p) k = None" "list_all (\<lambda>n. n < next_backdrop p) (backdrops p)"
    and "list_all (\<lambda>i. i < 2) ps" "ps \<noteq> []"
  shows "calls (dialog_run (map (Press k) ps @ fade_out k (next_backdrop p)) (shown_confirm k msg p)) = calls p @ map (\<lambda>i. (k, i = 1)) ps"
  using question_answered_all [OF assms] by (simp add: Let_def)

text \<open>C26: the answer to a question that is given with its two buttons (other keys and clicks are not in the run): every press of a button until the dialog has faded out calls the
  callback, with true for the second button and false for the first, and nothing else does; after the
  transition the dialog, its backdrop and its entry among the open dialogs are gone and its buttons
  are dead, while the page scrolls again even if another dialog is still on the screen.\<close>

theorem question_answered:
  assumes "transitions p" "obj_get (all_dialogs p) k = None" "list_all (\<lambda>n. n < next_backdrop p) (backdrops p)"
    and "list_all (\<lambda>i. i < 2) ps" "ps \<noteq> []"
  shows "let p' = dialog_run (map (Press k) ps @ fade_out k (next_backdrop p)) (shown_confirm k msg p) in
    calls p' = calls p @ map (\<lambda>i. (k, i = 1)) ps \<and> \<not> on_screen p' k \<and> press_button k i p' = p'
    \<and> backdrops p' = backdrops p \<and> k \<notin> set (registry p') \<and> \<not> modal_open p'
    \<and> (if j = k then True else on_screen p' j = on_screen p j)"
  by (rule question_answered_all [OF assms])

theorem question_answered_witness:
  "calls (dialog_run (map (Press ''q'') [1, 1] @ fade_out ''q'' 0) (shown_confirm ''q'' ''Kill it?'' (empty_dialogs True)))
     = [(''q'', True), (''q'', True)]"
  using question_answered [of "empty_dialogs True" "''q''" "[1, 1]" "''Kill it?''" 0 "''q''"]
  by (simp add: empty_dialogs_def obj_get_def Let_def)

text \<open>The callback of the kill dialog, called with the answers.\<close>

definition kill_answers :: "(string \<times> bool) list \<Rightarrow> jobs_page \<Rightarrow> jobs_page" where
  "kill_answers cs jp = foldl (\<lambda>jp c. answer (snd c) jp) jp cs"

lemma kill_answers_killed:
  assumes "asked jp = Some cell"
  shows "killed (kill_answers cs jp) = killed jp @
    replicate (length (filter snd cs)) (API_URL @ ''/killjob'', stringify (kill_body (cell_data jp cell)))"
  using assms
proof (induction cs arbitrary: jp)
  case (Cons c cs)
  have "asked (answer (snd c) jp) = Some cell" "cell_data (answer (snd c) jp) cell = cell_data jp cell"
    using Cons.prems by (simp_all add: answer_def cell_data_def split: option.split)
  with Cons show ?case by (simp add: kill_answers_def answer_def)
qed (simp add: kill_answers_def)

text \<open>C9: the request to kill a job is sent once for every press of \<open>Yes\<close> before the dialog has faded out,
  so a double click kills twice; after \<open>Cancel\<close> alone nothing is sent.\<close>

theorem kill_requests_per_press:
  assumes "transitions p" "obj_get (all_dialogs p) k = None" "list_all (\<lambda>n. n < next_backdrop p) (backdrops p)"
    and "list_all (\<lambda>i. i < 2) ps" "ps \<noteq> []"
  shows "let (jp, q) = click_kill (OnIcon c) jp0;
      p' = dialog_run (map (Press k) ps @ fade_out k (next_backdrop p)) (shown_confirm k q p) in
    killed (kill_answers (drop (length (calls p)) (calls p')) jp) = killed jp0 @
      replicate (length (filter (\<lambda>i. i = 1) ps)) (''../rest/auroraclient/killjob'', stringify (kill_body (cell_data jp0 (Some c))))"
proof -
  let ?q = "question jp0 (Some c)" and ?jp = "jp0\<lparr>asked := Some (Some c)\<rparr>"
  have calls: "calls (dialog_run (map (Press k) ps @ fade_out k (next_backdrop p)) (shown_confirm k ?q p))
      = calls p @ map (\<lambda>i. (k, i = 1)) ps"
    using question_answered_calls [OF assms, of ?q] .
  have "length (filter snd (map (\<lambda>i. (k, i = 1)) ps)) = length (filter (\<lambda>i. i = (1 :: nat)) ps)"
    by (simp add: filter_map comp_def)
  then show ?thesis
    using kill_answers_killed [of ?jp "Some c" "map (\<lambda>i. (k, i = 1)) ps"]
    by (simp add: click_kill_def cell_of_def calls API_URL_def cell_data_def)
qed

theorem kill_requests_per_press_witness:
  "let (jp, q) = click_kill (OnIcon 0) (empty_page\<lparr>killed := []\<rparr>);
      p' = dialog_run (map (Press ''q'') [1, 1] @ fade_out ''q'' 0) (shown_confirm ''q'' q (empty_dialogs True)) in
    length (killed (kill_answers (calls p') jp)) = 2"
  using kill_requests_per_press [of "empty_dialogs True" "''q''" "[1, 1]" 0 "empty_page\<lparr>killed := []\<rparr>"]
  by (simp add: empty_dialogs_def obj_get_def Let_def split_beta)

text \<open>taking the buttons away hides the footer for good: buttons set later are rendered but cannot be
  pressed, except by their hotkeys.\<close>

theorem footer_stays_hidden:
  assumes "obj_get (all_dialogs p) k = Some d" "d_realized d" "bs \<noteq> []"
  shows "let p' = set_dialog k (\<lambda>d. setButtons bs (setButtons [] d)) p in
    d_footer (dialog_of p' k) = bs \<and> press_button k i p' = p'"
  using assms
  by (simp add: Let_def dialog_of_def setButtons_def updateButtons_def createFooterButtons_def press_button_def)

theorem footer_stays_hidden_witness:
  "let p = shown_confirm ''q'' ''?'' (empty_dialogs True);
       p' = set_dialog ''q'' (\<lambda>d. setButtons [plain_button ''OK'' [] (Answer True)] (setButtons [] d)) p in
    press_button ''q'' 0 p' = p'"
proof -
  obtain d where d: "obj_get (all_dialogs (shown_confirm ''q'' ''?'' (empty_dialogs True))) ''q'' = Some d"
    "asking (next_backdrop (empty_dialogs True)) d"
    using confirm_shown(1) [of "empty_dialogs True" "''q''" "''?''"] by (auto simp: empty_dialogs_def obj_get_def)
  from footer_stays_hidden [OF d(1), of "[plain_button ''OK'' [] (Answer True)]" 0] d(2) show ?thesis
    by (simp add: Let_def asking_def)
qed

text \<open>Line ends in messages.\<close>

lemma replace_crlf_plain: "lf \<notin> set s \<or> cr \<notin> set s \<Longrightarrow> replace_crlf s = s"
  by (induction s rule: replace_crlf.induct) auto

lemma replace_crlf_line: "cr \<notin> set s \<Longrightarrow> replace_crlf (s @ cr # lf # t) = s @ ''<br />'' @ replace_crlf t"
proof (induction s)
  case (Cons c s)
  then have "c \<noteq> cr" by auto
  moreover obtain e r where "s @ cr # lf # t = e # r" by (cases "s @ cr # lf # t") auto
  ultimately show ?case using Cons by (metis append_Cons list.set_intros(2) replace_crlf.simps(3))
qed simp

definition break_lines :: "string \<Rightarrow> string" where
  "break_lines s = concat (map (\<lambda>c. if c = cr \<or> c = lf then ''<br />'' else [c]) s)"

lemma break_lines_append: "break_lines (s @ t) = break_lines s @ break_lines t"
  by (simp add: break_lines_def)

lemma break_lines_plain: "cr \<notin> set s \<Longrightarrow> lf \<notin> set s \<Longrightarrow> break_lines s = s"
  by (induction s) (auto simp: break_lines_def)

lemma join_set: "set (join sep ls) \<subseteq> set sep \<union> \<Union> (set ` set ls)"
  by (induction sep ls rule: join.induct) auto

lemma break_join:
  "list_all (\<lambda>l. cr \<notin> set l \<and> lf \<notin> set l) ls \<Longrightarrow> break_lines sep = ''<br />'' \<Longrightarrow> break_lines (join sep ls) = join ''<br />'' ls"
  by (induction sep ls rule: join.induct) (auto simp: break_lines_append break_lines_plain break_lines_def [of "[]"])

lemma crlf_join:
  "list_all (\<lambda>l. cr \<notin> set l \<and> lf \<notin> set l) ls \<Longrightarrow> replace_crlf (join [cr, lf] ls) = join ''<br />'' ls"
  by (induction "[cr, lf]" ls rule: join.induct) (auto simp: replace_crlf_plain replace_crlf_line)

lemma formatStringContent_lines: "formatStringContent True s = break_lines (replace_crlf s)"
  by (simp add: formatStringContent_def break_lines_def)

text \<open>a message of several lines is shown with a line break for every line end, be it the convention of
  DOS, of Unix or of the old Macintosh.\<close>

theorem message_lines:
  assumes "list_all (\<lambda>l. cr \<notin> set l \<and> lf \<notin> set l) ls" "List.member [[cr, lf], [lf], [cr]] sep"
  shows "formatStringContent True (join sep ls) = join ''<br />'' ls"
proof -
  have d: "cr \<noteq> lf" by (simp add: cr_def lf_def)
  have free: "cr \<notin> set ''<br />''" "lf \<notin> set ''<br />''" by (simp_all add: cr_def lf_def)
  consider "sep = [cr, lf]" | "sep = [lf]" | "sep = [cr]" using assms(2) by auto
  then show ?thesis
  proof cases
    case 1
    have "cr \<notin> set (join ''<br />'' ls)" "lf \<notin> set (join ''<br />'' ls)"
      using join_set [of "''<br />''" ls] free assms(1) by (auto simp: list_all_iff)
    then show ?thesis using assms(1) 1 by (simp add: formatStringContent_lines crlf_join break_lines_plain)
  next
    case 2
    have "cr \<notin> set (join [lf] ls)" using join_set [of "[lf]" ls] d assms(1) by (auto simp: list_all_iff)
    then show ?thesis
      using assms(1) 2 break_join [of ls "[lf]"] by (simp add: formatStringContent_lines replace_crlf_plain break_lines_def [of "[lf]"])
  next
    case 3
    have "lf \<notin> set (join [cr] ls)" using join_set [of "[cr]" ls] d assms(1) by (auto simp: list_all_iff)
    then show ?thesis
      using assms(1) 3 break_join [of ls "[cr]"] by (simp add: formatStringContent_lines replace_crlf_plain break_lines_def [of "[cr]"])
  qed
qed

theorem message_lines_witness:
  "formatStringContent True (join [cr, lf] [''a'', ''b'']) = ''a<br />b''"
  using message_lines [of "[''a'', ''b'']" "[cr, lf]"] by (simp add: cr_def lf_def)

end
