(* ===== verification/DialogKit.thy ===== *)
theory DialogKit
  imports JSON
begin

text \<open>
  Parts of \<open>bootstrap-dialog.js\<close> around a dialog: the id it gets, dragging it by its header, and the
  spinning icons of its buttons.
\<close>

unbundle bit_operations_syntax

section \<open>Ids\<close>

text \<open>\<open>newGuid\<close>: the letters of the template are replaced one after the other, each by a digit made from
  the next random number.\<close>

definition guid_template :: string where
  "guid_template = ''xxxxxxxx-xxxx-4xxx-yxxx-xxxxxxxxxxxx''"

definition guid_digit :: "char \<Rightarrow> rat \<Rightarrow> char" where
  "guid_digit c x = (let r = nat \<lfloor>x * 16\<rfloor>; v = (if c = CHR ''x'' then r else r AND 3 OR 8) in hex_digit v)"

fun guid_fill :: "(nat \<Rightarrow> rat) \<Rightarrow> nat \<Rightarrow> string \<Rightarrow> string" where
  "guid_fill random n [] = []"
| "guid_fill random n (c # cs) =
     (if c \<in> {CHR ''x'', CHR ''y''} then guid_digit c (random n) # guid_fill random (Suc n) cs
      else c # guid_fill random n cs)"

definition newGuid :: "(nat \<Rightarrow> rat) \<Rightarrow> string" where
  "newGuid random = guid_fill random 0 guid_template"

text \<open>What may stand at a place of a version 4 id: a digit for \<open>x\<close>, one of four for \<open>y\<close>, the character
  itself otherwise.\<close>

definition guid_place :: "char \<Rightarrow> char \<Rightarrow> bool" where
  "guid_place c d = (if c = CHR ''x'' then d \<in> set ''0123456789abcdef''
     else if c = CHR ''y'' then d \<in> set ''89ab'' else d = c)"

lemma guid_digit_place:
  assumes "0 \<le> x" "x < 1" "c \<in> {CHR ''x'', CHR ''y''}"
  shows "guid_place c (guid_digit c x)"
proof -
  have r: "nat \<lfloor>x * 16\<rfloor> < 16" using assms(1,2) by (simp add: nat_less_iff floor_less_iff)
  have "list_all (\<lambda>r. hex_digit r \<in> set ''0123456789abcdef'' \<and> hex_digit (r AND 3 OR 8) \<in> set ''89ab'') [0..<16]"
    by code_simp
  from this [unfolded list_all_iff set_upt, THEN bspec, of "nat \<lfloor>x * 16\<rfloor>"] r
  have "hex_digit (nat \<lfloor>x * 16\<rfloor>) \<in> set ''0123456789abcdef'' \<and> hex_digit (nat \<lfloor>x * 16\<rfloor> AND 3 OR 8) \<in> set ''89ab''"
    by (simp only: atLeastLessThan_iff le0 simp_thms)
  then show ?thesis using assms(3) by (auto simp: guid_place_def guid_digit_def Let_def)
qed

lemma guid_fill_places:
  assumes "\<And>n. 0 \<le> random n \<and> random n < 1"
  shows "list_all2 guid_place cs (guid_fill random n cs)"
proof (induction cs arbitrary: n)
  case (Cons c cs)
  then show ?case using guid_digit_place [of "random n" c] assms [of n] by (auto simp: guid_place_def)
qed simp

text \<open>the id of a new dialog is a version 4 UUID: 36 characters, dashes at the four places, the
  version 4, the variant one of \<open>89ab\<close>, and hexadecimal digits in lower case everywhere else.\<close>

theorem newGuid_version_4:
  assumes "\<forall>n. 0 \<le> random n \<and> random n < 1"
  shows "list_all2 guid_place ''xxxxxxxx-xxxx-4xxx-yxxx-xxxxxxxxxxxx'' (newGuid random)"
  using guid_fill_places [of random guid_template 0] assms by (simp add: newGuid_def guid_template_def)

theorem newGuid_version_4_witness:
  "list_all2 guid_place ''xxxxxxxx-xxxx-4xxx-yxxx-xxxxxxxxxxxx'' (newGuid (\<lambda>n. 1 / (of_nat n + 2)))"
  by (rule newGuid_version_4) simp

section \<open>Dragging\<close>

text \<open>\<open>draggableData\<close>, and the offset of the content: left and top.\<close>

record drag_state =
  isMouseDown :: bool
  mouseOffset :: "rat \<times> rat"
  content_offset :: "rat \<times> rat"

datatype drag_event = HeaderDown rat rat | MouseUp | MouseLeave | MouseMove rat rat

text \<open>\<open>makeModalDraggable\<close> binds the handlers only when the option is set.\<close>

definition drag_step :: "bool \<Rightarrow> drag_state \<Rightarrow> drag_event \<Rightarrow> drag_state" where
  "drag_step draggable s e = (if \<not> draggable then s else case e of
       HeaderDown x y \<Rightarrow> s\<lparr>isMouseDown := True, mouseOffset := (x - fst (content_offset s), y - snd (content_offset s))\<rparr>
     | MouseUp \<Rightarrow> s\<lparr>isMouseDown := False\<rparr>
     | MouseLeave \<Rightarrow> s\<lparr>isMouseDown := False\<rparr>
     | MouseMove x y \<Rightarrow>
         if \<not> isMouseDown s then s
         else s\<lparr>content_offset := (x - fst (mouseOffset s), y - snd (mouseOffset s))\<rparr>)"

definition drag_run :: "bool \<Rightarrow> drag_state \<Rightarrow> drag_event list \<Rightarrow> drag_state" where
  "drag_run draggable s es = foldl (drag_step draggable) s es"

lemma drag_moves:
  assumes "isMouseDown s" "ps \<noteq> []"
  shows "content_offset (drag_run True s (map (\<lambda>(x, y). MouseMove x y) ps))
      = (fst (last ps) - fst (mouseOffset s), snd (last ps) - snd (mouseOffset s))"
  using assms
proof (induction ps arbitrary: s)
  case (Cons p ps)
  obtain x y where p: "p = (x, y)" by (cases p)
  let ?s = "drag_step True s (MouseMove x y)"
  have s: "isMouseDown ?s" "mouseOffset ?s = mouseOffset s" using Cons.prems by (simp_all add: drag_step_def)
  show ?case
  proof (cases "ps = []")
    case True
    then show ?thesis using Cons.prems by (simp add: p drag_run_def drag_step_def)
  next
    case False
    then show ?thesis using Cons.IH [OF s(1) False] by (simp add: p drag_run_def s(2))
  qed
qed simp

text \<open>a dialog held by its header goes with the pointer: after any moves it is displaced from where it
  was by as much as the pointer from where it was pressed, and once the button is up it stays.\<close>

theorem dialog_follows_pointer:
  assumes "ps \<noteq> []"
  shows "content_offset (drag_run True s ([HeaderDown x y] @ map (\<lambda>(x, y). MouseMove x y) ps @ [MouseUp] @ map (\<lambda>(x, y). MouseMove x y) qs))
      = (fst (content_offset s) + (fst (last ps) - x), snd (content_offset s) + (snd (last ps) - y))"
proof -
  have up: "drag_run True u (map (\<lambda>(x, y). MouseMove x y) rs) = u" if "\<not> isMouseDown u" for u rs
    using that by (induction rs) (auto simp: drag_run_def drag_step_def)
  let ?s = "drag_step True s (HeaderDown x y)"
  have s: "isMouseDown ?s" "mouseOffset ?s = (x - fst (content_offset s), y - snd (content_offset s))"
    by (simp_all add: drag_step_def)
  let ?m = "drag_run True ?s (map (\<lambda>(x, y). MouseMove x y) ps)"
  have "drag_run True s ([HeaderDown x y] @ map (\<lambda>(x, y). MouseMove x y) ps @ [MouseUp] @ map (\<lambda>(x, y). MouseMove x y) qs)
      = drag_run True (drag_step True ?m MouseUp) (map (\<lambda>(x, y). MouseMove x y) qs)"
    by (simp add: drag_run_def)
  also have "\<dots> = drag_step True ?m MouseUp" by (rule up) (simp add: drag_step_def)
  finally show ?thesis using drag_moves [OF s(1) assms] by (simp add: s(2) drag_step_def algebra_simps)
qed

theorem dialog_follows_pointer_witness:
  "content_offset (drag_run True \<lparr>isMouseDown = False, mouseOffset = (0, 0), content_offset = (100, 40)\<rparr>
      ([HeaderDown 110 50] @ map (\<lambda>(x, y). MouseMove x y) [(115, 50), (130, 45)] @ [MouseUp] @ map (\<lambda>(x, y). MouseMove x y) [(0, 0)]))
    = (120, 35)"
  by (subst dialog_follows_pointer) simp_all

section \<open>Spinning icons\<close>

text \<open>An icon of a button: whether it shows, and whether it is one of \<open>toggleSpin\<close>'s.\<close>

record icon =
  icon_class :: string
  icon_shown :: bool
  icon_spin :: bool

definition toggleSpin :: "string \<Rightarrow> bool \<Rightarrow> icon list \<Rightarrow> icon list" where
  "toggleSpin spinicon spin icons =
     (if spin then \<lparr>icon_class = spinicon, icon_shown = True, icon_spin = True\<rparr> # map (\<lambda>i. i\<lparr>icon_shown := False\<rparr>) icons
      else filter (\<lambda>i. \<not> icon_spin i) (map (\<lambda>i. i\<lparr>icon_shown := True\<rparr>) icons))"

lemma toggleSpin_own:
  "filter (\<lambda>i. \<not> icon_spin i) (map (\<lambda>i. i\<lparr>icon_shown := True\<rparr>) (toggleSpin spinicon b icons))
     = filter (\<lambda>i. \<not> icon_spin i) (map (\<lambda>i. i\<lparr>icon_shown := True\<rparr>) icons)"
  by (simp add: toggleSpin_def filter_map comp_def)

text \<open>However often the icon of a button was set spinning, \<open>stopSpin\<close> shows the button as it was made.\<close>

lemma stopSpin_restores:
  assumes "list_all (\<lambda>i. icon_shown i \<and> \<not> icon_spin i) icons"
  shows "toggleSpin spinicon False (foldl (\<lambda>is b. toggleSpin spinicon b is) icons bs) = icons"
proof -
  have "map (\<lambda>i. i\<lparr>icon_shown := True\<rparr>) icons = icons" "filter (\<lambda>i. \<not> icon_spin i) icons = icons"
    using assms by (auto simp: list_all_iff intro!: map_idI filter_True)
  then have "filter (\<lambda>i. \<not> icon_spin i) (map (\<lambda>i. i\<lparr>icon_shown := True\<rparr>) (foldl (\<lambda>is b. toggleSpin spinicon b is) icons bs)) = icons"
    by (induction bs rule: rev_induct) (simp_all add: toggleSpin_own)
  then show ?thesis by (simp add: toggleSpin_def)
qed

end
