(* ===== verification/DialogView.thy ===== *)
theory DialogView
  imports Dialog NumberText
begin

text \<open>
  The elements of a dialog of \<open>bootstrap-dialog.js\<close>: how \<open>realize\<close> builds them, what the setters change
  of them, and a description of what a dialog shows as a function of its options.  An element is a
  tree; the six elements a dialog keeps references to are fields of its record, and
  \<open>view_tree\<close> puts them together the way \<open>initModalStuff\<close> does.
\<close>

section \<open>Elements\<close>

record element =
  el_tag :: string
  el_id :: string
  el_class :: "string list"
  el_shown :: bool
  el_disabled :: bool

datatype dom = Txt string | El element "dom list"

definition element_new :: "string \<Rightarrow> string list \<Rightarrow> dom" where
  "element_new tag classes = El \<lparr>el_tag = tag, el_id = '''', el_class = classes, el_shown = True, el_disabled = False\<rparr> []"

abbreviation div_new :: dom where
  "div_new \<equiv> element_new ''div'' []"

text \<open>The functions of jQuery that the dialog calls on an element.\<close>

fun with_element :: "(element \<Rightarrow> element) \<Rightarrow> dom \<Rightarrow> dom" where
  "with_element f (Txt s) = Txt s"
| "with_element f (El e ks) = El (f e) ks"

fun append_kid :: "dom \<Rightarrow> dom \<Rightarrow> dom" where
  "append_kid k (Txt s) = Txt s"
| "append_kid k (El e ks) = El e (ks @ [k])"

fun html_empty :: "dom \<Rightarrow> dom" where
  "html_empty (Txt s) = Txt s"
| "html_empty (El e ks) = El e []"

text \<open>The classes in a string are separated by blanks; a class is added once.\<close>

definition class_names :: "string \<Rightarrow> string list" where
  "class_names s = filter (\<lambda>c. c \<noteq> []) (split_on (CHR '' '') s)"

definition add_class :: "string \<Rightarrow> dom \<Rightarrow> dom" where
  "add_class s = with_element (\<lambda>e. e\<lparr>el_class :=
     foldl (\<lambda>cs c. if c \<in> set cs then cs else cs @ [c]) (el_class e) (class_names s)\<rparr>)"

definition toggle_class :: "string \<Rightarrow> bool \<Rightarrow> dom \<Rightarrow> dom" where
  "toggle_class s b d = (if b then add_class s d
     else with_element (\<lambda>e. e\<lparr>el_class := filter (\<lambda>c. c \<notin> set (class_names s)) (el_class e)\<rparr>) d)"

definition set_shown :: "bool \<Rightarrow> dom \<Rightarrow> dom" where
  "set_shown b = with_element (\<lambda>e. e\<lparr>el_shown := b\<rparr>)"

definition set_id :: "string \<Rightarrow> dom \<Rightarrow> dom" where
  "set_id i = with_element (\<lambda>e. e\<lparr>el_id := i\<rparr>)"

text \<open>\<open>$element.find('.c')\<close>, followed by \<open>f\<close> on every element found.\<close>

fun on_class :: "string \<Rightarrow> (dom \<Rightarrow> dom) \<Rightarrow> dom \<Rightarrow> dom" where
  "on_class c f (Txt s) = Txt s"
| "on_class c f (El e ks) =
     (let d = El e (map (on_class c f) ks) in if c \<in> set (el_class e) then f d else d)"

fun find_class :: "string \<Rightarrow> (dom \<Rightarrow> dom) \<Rightarrow> dom \<Rightarrow> dom" where
  "find_class c f (Txt s) = Txt s"
| "find_class c f (El e ks) = El e (map (on_class c f) ks)"

section \<open>Options\<close>

text \<open>A title or a message is a string or a function, here a number the page's functions \<open>fn\<close> give
  a meaning, that makes one of the dialog's options.\<close>

datatype content = Given string | Computed nat

record view_button =
  vb_id :: string \<comment> \<open>empty when there is none\<close>
  vb_icon :: string
  vb_label :: "string option"
  vb_cssClass :: string
  vb_hotkey :: "nat option"

record view_options =
  vo_id :: string
  vo_type :: string
  vo_size :: string
  vo_cssClass :: string
  vo_title :: "content option"
  vo_message :: "content option"
  vo_nl2br :: bool
  vo_closable :: bool
  vo_spinicon :: string
  vo_autodestroy :: bool
  vo_draggable :: bool
  vo_buttons :: "view_button list"
  vo_data :: "string obj"

type_synonym page_functions = "nat \<Rightarrow> view_options \<Rightarrow> string"

definition NAMESPACE :: string where "NAMESPACE = ''bootstrap-dialog''"
definition SIZE_NORMAL :: string where "SIZE_NORMAL = ''size-normal''"
definition SIZE_LARGE :: string where "SIZE_LARGE = ''size-large''"
definition ICON_SPINNER :: string where "ICON_SPINNER = ''glyphicon glyphicon-asterisk''"

definition BUTTON_SIZES :: "(string \<times> string) list" where
  "BUTTON_SIZES = [(SIZE_NORMAL, ''''), (SIZE_LARGE, ''btn-lg'')]"

definition getNamespace :: "string \<Rightarrow> string" where
  "getNamespace name = NAMESPACE @ ''-'' @ name"

definition default_options :: "string \<Rightarrow> view_options" where
  "default_options guid = \<lparr>vo_id = guid, vo_type = ''type-primary'', vo_size = SIZE_NORMAL, vo_cssClass = '''',
     vo_title = None, vo_message = None, vo_nl2br = True, vo_closable = True, vo_spinicon = ICON_SPINNER,
     vo_autodestroy = True, vo_draggable = False, vo_buttons = [], vo_data = []\<rparr>"

section \<open>The dialog\<close>

record view =
  dv_options :: view_options
  dv_indexedButtons :: "nat obj" \<comment> \<open>the places of the buttons in the footer by their ids\<close>
  dv_realized :: bool
  dv_modal :: dom
  dv_modalDialog :: dom
  dv_modalContent :: dom
  dv_header :: dom
  dv_body :: dom
  dv_footer :: dom
  dv_ids :: nat \<comment> \<open>how many ids have been made\<close>

text \<open>\<open>initModalStuff\<close>: the dialog in the modal, its content in it, and three parts in the content.\<close>

definition view_tree :: "view \<Rightarrow> dom" where
  "view_tree d = append_kid (append_kid
     (append_kid (dv_footer d) (append_kid (dv_body d) (append_kid (dv_header d) (dv_modalContent d))))
     (dv_modalDialog d)) (dv_modal d)"

definition createModal :: "view_options \<Rightarrow> dom" where
  "createModal o' = set_id (vo_id o') (element_new ''div'' [''modal'', ''fade''])"

definition createModalDialog :: dom where
  "createModalDialog = element_new ''div'' [''modal-dialog'']"

definition createModalContent :: dom where
  "createModalContent = element_new ''div'' [''modal-content'']"

definition createModalHeader :: dom where
  "createModalHeader = element_new ''div'' [''modal-header'']"

definition createModalBody :: dom where
  "createModalBody = element_new ''div'' [''modal-body'']"

definition createModalFooter :: dom where
  "createModalFooter = element_new ''div'' [''modal-footer'']"

definition initModalStuff :: "view \<Rightarrow> view" where
  "initModalStuff d = d\<lparr>dv_modal := createModal (dv_options d), dv_modalDialog := createModalDialog,
     dv_modalContent := createModalContent, dv_header := createModalHeader, dv_body := createModalBody,
     dv_footer := createModalFooter\<rparr>"

definition createTitleContent :: dom where
  "createTitleContent = add_class (getNamespace ''title'') div_new"

definition createCloseButton :: dom where
  "createCloseButton = append_kid (append_kid (Txt ''&times;'') (element_new ''button'' [''close'']))
     (add_class (getNamespace ''close-button'') div_new)"

definition createHeaderContent :: dom where
  "createHeaderContent = append_kid createCloseButton (append_kid createTitleContent
     (add_class (getNamespace ''header'') div_new))"

definition createMessageContent :: dom where
  "createMessageContent = add_class (getNamespace ''message'') div_new"

definition createBodyContent :: dom where
  "createBodyContent = append_kid createMessageContent (add_class (getNamespace ''body'') div_new)"

definition createFooterContent :: dom where
  "createFooterContent = add_class (getNamespace ''footer'') div_new"

definition createButtonIcon :: "string \<Rightarrow> dom" where
  "createButtonIcon icon = add_class icon (add_class (getNamespace ''button-icon'') (element_new ''span'' []))"

definition getButtonSize :: "view_options \<Rightarrow> string" where
  "getButtonSize o' = (case map_of BUTTON_SIZES (vo_size o') of Some c \<Rightarrow> c | None \<Rightarrow> '''')"

text \<open>The tests \<open>typeof x !== undefined\<close> compare a string with \<open>undefined\<close>: they always hold.\<close>

definition is_blank :: "string \<Rightarrow> bool" where
  "is_blank s \<longleftrightarrow> trim s = ''''"

definition createButton :: "view_options \<Rightarrow> view_button \<Rightarrow> dom" where
  "createButton o' b =
     (let b0 = set_id (vb_id b) (add_class (getButtonSize o') (element_new ''button'' [''btn'']));
          b1 = (if is_blank (vb_icon b) then b0 else append_kid (createButtonIcon (vb_icon b)) b0);
          b2 = (case vb_label b of Some l \<Rightarrow> append_kid (Txt l) b1 | None \<Rightarrow> b1)
      in if is_blank (vb_cssClass b) then add_class ''btn-default'' b2 else add_class (vb_cssClass b) b2)"

text \<open>One pass over the buttons: each gets an id if it has none, and is appended to the container.\<close>

fun number_buttons :: "(nat \<Rightarrow> string) \<Rightarrow> nat \<Rightarrow> view_button list \<Rightarrow> view_button list \<times> nat" where
  "number_buttons guid n [] = ([], n)"
| "number_buttons guid n (b # bs) =
     (let (b', n') = (if vb_id b = '''' then (b\<lparr>vb_id := guid n\<rparr>, Suc n) else (b, n));
          (bs', n'') = number_buttons guid n' bs
      in (b' # bs', n''))"

definition index_buttons :: "view_button list \<Rightarrow> nat obj" where
  "index_buttons bs = foldl (\<lambda>m (i, b). obj_set (vb_id b) i m) [] (enumerate 0 bs)"

definition buttons_container :: "view_options \<Rightarrow> view_button list \<Rightarrow> dom" where
  "buttons_container o' bs =
     foldl (\<lambda>c b. append_kid (createButton o' b) c) (add_class (getNamespace ''footer-buttons'') div_new) bs"

definition footer_buttons :: "(nat \<Rightarrow> string) \<Rightarrow> view \<Rightarrow> dom \<times> view" where
  "footer_buttons guid d =
     (let (bs, n) = number_buttons guid (dv_ids d) (vo_buttons (dv_options d)) in
      (buttons_container (dv_options d) bs,
       d\<lparr>dv_options := (dv_options d)\<lparr>vo_buttons := bs\<rparr>, dv_indexedButtons := index_buttons bs, dv_ids := n\<rparr>))"

definition createDynamicContent :: "page_functions \<Rightarrow> view_options \<Rightarrow> content \<Rightarrow> string" where
  "createDynamicContent fn o' raw = formatStringContent (vo_nl2br o')
     (case raw of Given s \<Rightarrow> s | Computed k \<Rightarrow> fn k o')"

definition default_text :: "view_options \<Rightarrow> string" where
  "default_text o' = (case map_of DEFAULT_TEXTS (vo_type o') of Some s \<Rightarrow> s | None \<Rightarrow> '''')"

definition title_text :: "page_functions \<Rightarrow> view_options \<Rightarrow> string" where
  "title_text fn o' = (case vo_title o' of Some c \<Rightarrow> createDynamicContent fn o' c | None \<Rightarrow> default_text o')"

definition updateTitle_view :: "page_functions \<Rightarrow> view \<Rightarrow> view" where
  "updateTitle_view fn d = (if dv_realized d
     then d\<lparr>dv_header := find_class (getNamespace ''title'')
       (\<lambda>x. append_kid (Txt (title_text fn (dv_options d))) (html_empty x)) (dv_header d)\<rparr> else d)"

text \<open>Appending \<open>null\<close> appends nothing.\<close>

definition updateMessage_view :: "page_functions \<Rightarrow> view \<Rightarrow> view" where
  "updateMessage_view fn d = (if dv_realized d
     then d\<lparr>dv_body := find_class (getNamespace ''message'')
       (\<lambda>x. case vo_message (dv_options d) of
            Some c \<Rightarrow> append_kid (Txt (createDynamicContent fn (dv_options d) c)) (html_empty x)
          | None \<Rightarrow> html_empty x) (dv_body d)\<rparr> else d)"

definition updateClosable_view :: "view \<Rightarrow> view" where
  "updateClosable_view d = (if dv_realized d
     then d\<lparr>dv_header := find_class (getNamespace ''close-button'') (set_shown (vo_closable (dv_options d))) (dv_header d)\<rparr>
     else d)"

definition updateButtons_view :: "(nat \<Rightarrow> string) \<Rightarrow> view \<Rightarrow> view" where
  "updateButtons_view guid d = (if dv_realized d
     then (if vo_buttons (dv_options d) = [] then d\<lparr>dv_footer := set_shown False (dv_footer d)\<rparr>
           else let (c, d1) = footer_buttons guid d in
             d1\<lparr>dv_footer := find_class (getNamespace ''footer'') (\<lambda>x. append_kid c (html_empty x)) (dv_footer d1)\<rparr>)
     else d)"

definition makeModalDraggable :: "view \<Rightarrow> view" where
  "makeModalDraggable d = (if vo_draggable (dv_options d)
     then d\<lparr>dv_header := add_class (getNamespace ''draggable'') (dv_header d)\<rparr> else d)"

definition realize_view :: "page_functions \<Rightarrow> (nat \<Rightarrow> string) \<Rightarrow> view \<Rightarrow> view" where
  "realize_view fn guid d =
     (let d1 = initModalStuff d; o' = dv_options d1;
          d2 = d1\<lparr>dv_modal := add_class (vo_cssClass o') (add_class (vo_size o') (add_class (vo_type o')
                 (add_class NAMESPACE (dv_modal d1)))),
               dv_footer := append_kid createFooterContent (dv_footer d1),
               dv_header := append_kid createHeaderContent (dv_header d1),
               dv_body := append_kid createBodyContent (dv_body d1)\<rparr>;
          d3 = (makeModalDraggable d2)\<lparr>dv_realized := True\<rparr>
      in updateClosable_view (updateMessage_view fn (updateTitle_view fn (updateButtons_view guid d3))))"

section \<open>Setters\<close>

text \<open>What a page calls on a dialog.\<close>

datatype setting =
    SetTitle "content option"
  | SetMessage "content option"
  | SetClosable bool
  | SetButtons "view_button list"
  | AddButton view_button
  | SetType string
  | SetSize string
  | SetCssClass string
  | SetData string string
  | SetSpinicon string
  | SetAutodestroy bool
  | SetId string
  | EnableButtons bool

abbreviation set_options :: "(view_options \<Rightarrow> view_options) \<Rightarrow> view \<Rightarrow> view" where
  "set_options f d \<equiv> d\<lparr>dv_options := f (dv_options d)\<rparr>"

definition toggleEnable :: "bool \<Rightarrow> dom \<Rightarrow> dom" where
  "toggleEnable enable b = toggle_class ''disabled'' (\<not> enable) (with_element (\<lambda>e. e\<lparr>el_disabled := \<not> enable\<rparr>) b)"

text \<open>The button at a place of the footer.\<close>

fun kid_at :: "nat \<Rightarrow> (dom \<Rightarrow> dom) \<Rightarrow> dom \<Rightarrow> dom" where
  "kid_at i f (Txt s) = Txt s"
| "kid_at i f (El e ks) = (if i < length ks then El e (ks[i := f (ks ! i)]) else El e ks)"

text \<open>The container of the buttons is the only element in the only element of the footer.\<close>

definition enableButtons_view :: "bool \<Rightarrow> view \<Rightarrow> view" where
  "enableButtons_view enable d = d\<lparr>dv_footer := foldl
     (\<lambda>x (k, i). kid_at 0 (kid_at 0 (kid_at i (toggleEnable enable))) x) (dv_footer d) (dv_indexedButtons d)\<rparr>"

definition setTitle_view :: "page_functions \<Rightarrow> content option \<Rightarrow> view \<Rightarrow> view" where
  "setTitle_view fn t d = updateTitle_view fn (set_options (\<lambda>x. x\<lparr>vo_title := t\<rparr>) d)"

definition setMessage_view :: "page_functions \<Rightarrow> content option \<Rightarrow> view \<Rightarrow> view" where
  "setMessage_view fn m d = updateMessage_view fn (set_options (\<lambda>x. x\<lparr>vo_message := m\<rparr>) d)"

definition setClosable_view :: "bool \<Rightarrow> view \<Rightarrow> view" where
  "setClosable_view b d = updateClosable_view (set_options (\<lambda>x. x\<lparr>vo_closable := b\<rparr>) d)"

definition setButtons_view :: "(nat \<Rightarrow> string) \<Rightarrow> view_button list \<Rightarrow> view \<Rightarrow> view" where
  "setButtons_view guid bs d = updateButtons_view guid (set_options (\<lambda>x. x\<lparr>vo_buttons := bs\<rparr>) d)"

definition addButton_view :: "view_button \<Rightarrow> view \<Rightarrow> view" where
  "addButton_view b d = set_options (\<lambda>x. x\<lparr>vo_buttons := vo_buttons x @ [b]\<rparr>) d"

definition setType :: "string \<Rightarrow> view \<Rightarrow> view" where
  "setType t d = set_options (\<lambda>x. x\<lparr>vo_type := t\<rparr>) d"

definition setSize :: "string \<Rightarrow> view \<Rightarrow> view" where
  "setSize t d = set_options (\<lambda>x. x\<lparr>vo_size := t\<rparr>) d"

definition setCssClass :: "string \<Rightarrow> view \<Rightarrow> view" where
  "setCssClass t d = set_options (\<lambda>x. x\<lparr>vo_cssClass := t\<rparr>) d"

definition setData :: "string \<Rightarrow> string \<Rightarrow> view \<Rightarrow> view" where
  "setData k v d = set_options (\<lambda>x. x\<lparr>vo_data := obj_set k v (vo_data x)\<rparr>) d"

definition setSpinicon :: "string \<Rightarrow> view \<Rightarrow> view" where
  "setSpinicon t d = set_options (\<lambda>x. x\<lparr>vo_spinicon := t\<rparr>) d"

definition setAutodestroy :: "bool \<Rightarrow> view \<Rightarrow> view" where
  "setAutodestroy b d = set_options (\<lambda>x. x\<lparr>vo_autodestroy := b\<rparr>) d"

definition setId :: "string \<Rightarrow> view \<Rightarrow> view" where
  "setId t d = set_options (\<lambda>x. x\<lparr>vo_id := t\<rparr>) d"

definition addButtons :: "view_button list \<Rightarrow> view \<Rightarrow> view" where
  "addButtons bs d = foldl (\<lambda>d b. addButton_view b d) d bs"

definition getData :: "string \<Rightarrow> view \<Rightarrow> string option" where
  "getData k d = obj_get (vo_data (dv_options d)) k"

text \<open>The place of the button with an id, or \<open>null\<close>.\<close>

definition getButton :: "string \<Rightarrow> view \<Rightarrow> nat option" where
  "getButton k d = obj_get (dv_indexedButtons d) k"

lemmas setter_defs [simp] = setTitle_view_def setMessage_view_def setClosable_view_def setButtons_view_def addButton_view_def setType_def
  setSize_def setCssClass_def setData_def setSpinicon_def setAutodestroy_def setId_def

fun apply_setting :: "page_functions \<Rightarrow> (nat \<Rightarrow> string) \<Rightarrow> setting \<Rightarrow> view \<Rightarrow> view" where
  "apply_setting fn guid (SetTitle t) d = setTitle_view fn t d"
| "apply_setting fn guid (SetMessage m) d = setMessage_view fn m d"
| "apply_setting fn guid (SetClosable b) d = setClosable_view b d"
| "apply_setting fn guid (SetButtons bs) d = setButtons_view guid bs d"
| "apply_setting fn guid (AddButton b) d = addButton_view b d"
| "apply_setting fn guid (SetType t) d = setType t d"
| "apply_setting fn guid (SetSize t) d = setSize t d"
| "apply_setting fn guid (SetCssClass t) d = setCssClass t d"
| "apply_setting fn guid (SetData k v) d = setData k v d"
| "apply_setting fn guid (SetSpinicon t) d = setSpinicon t d"
| "apply_setting fn guid (SetAutodestroy b) d = setAutodestroy b d"
| "apply_setting fn guid (SetId t) d = setId t d"
| "apply_setting fn guid (EnableButtons b) d = enableButtons_view b d"

definition new_view :: "view_options \<Rightarrow> view" where
  "new_view o' = \<lparr>dv_options = o', dv_indexedButtons = [], dv_realized = False, dv_modal = div_new,
     dv_modalDialog = div_new, dv_modalContent = div_new, dv_header = div_new, dv_body = div_new,
     dv_footer = div_new, dv_ids = 0\<rparr>"

section \<open>What a dialog shows\<close>

text \<open>
  The tree of a dialog as a function: \<open>r\<close> are the options at the time the dialog was realized, of
  which the modal keeps its id and classes, \<open>o'\<close> the options now.
\<close>

definition elem :: "string \<Rightarrow> string list \<Rightarrow> bool \<Rightarrow> dom list \<Rightarrow> dom" where
  "elem tag classes vis ks =
     El \<lparr>el_tag = tag, el_id = '''', el_class = classes, el_shown = vis, el_disabled = False\<rparr> ks"

definition header_tree :: "page_functions \<Rightarrow> view_options \<Rightarrow> dom" where
  "header_tree fn o' = elem ''div'' (''modal-header'' # (if vo_draggable o' then [''bootstrap-dialog-draggable''] else [])) True
     [elem ''div'' [''bootstrap-dialog-header''] True
       [elem ''div'' [''bootstrap-dialog-title''] True [Txt (title_text fn o')],
        elem ''div'' [''bootstrap-dialog-close-button''] (vo_closable o') [elem ''button'' [''close''] True [Txt ''&times;'']]]]"

definition body_tree :: "page_functions \<Rightarrow> view_options \<Rightarrow> dom" where
  "body_tree fn o' = elem ''div'' [''modal-body''] True
     [elem ''div'' [''bootstrap-dialog-body''] True
       [elem ''div'' [''bootstrap-dialog-message''] True
         (case vo_message o' of None \<Rightarrow> [] | Some c \<Rightarrow> [Txt (createDynamicContent fn o' c)])]]"

definition footer_tree :: "view_options \<Rightarrow> dom" where
  "footer_tree o' = elem ''div'' [''modal-footer''] True
     [elem ''div'' [''bootstrap-dialog-footer''] True
       [elem ''div'' [''bootstrap-dialog-footer-buttons''] True (map (createButton o') (vo_buttons o'))]]"

definition modal_element :: "view_options \<Rightarrow> dom" where
  "modal_element r = add_class (vo_cssClass r) (add_class (vo_size r) (add_class (vo_type r)
     (add_class NAMESPACE (createModal r))))"

definition dialog_tree :: "page_functions \<Rightarrow> view_options \<Rightarrow> view_options \<Rightarrow> dom" where
  "dialog_tree fn r o' = append_kid
     (elem ''div'' [''modal-dialog''] True
       [elem ''div'' [''modal-content''] True [header_tree fn o', body_tree fn o', footer_tree o']])
     (modal_element r)"

definition displays :: "page_functions \<Rightarrow> view_options \<Rightarrow> view \<Rightarrow> bool" where
  "displays fn r d \<longleftrightarrow> dv_realized d \<and> dv_modal d = modal_element r \<and> dv_modalDialog d = createModalDialog
     \<and> dv_modalContent d = createModalContent \<and> dv_header d = header_tree fn (dv_options d)
     \<and> dv_body d = body_tree fn (dv_options d) \<and> dv_footer d = footer_tree (dv_options d)
     \<and> dv_indexedButtons d = index_buttons (vo_buttons (dv_options d))"

lemma class_names_simps:
  "class_names '''' = []" "class_names ''bootstrap-dialog'' = [''bootstrap-dialog'']"
  "class_names ''bootstrap-dialog-title'' = [''bootstrap-dialog-title'']"
  "class_names ''bootstrap-dialog-header'' = [''bootstrap-dialog-header'']"
  "class_names ''bootstrap-dialog-close-button'' = [''bootstrap-dialog-close-button'']"
  "class_names ''bootstrap-dialog-body'' = [''bootstrap-dialog-body'']"
  "class_names ''bootstrap-dialog-message'' = [''bootstrap-dialog-message'']"
  "class_names ''bootstrap-dialog-footer'' = [''bootstrap-dialog-footer'']"
  "class_names ''bootstrap-dialog-footer-buttons'' = [''bootstrap-dialog-footer-buttons'']"
  "class_names ''bootstrap-dialog-draggable'' = [''bootstrap-dialog-draggable'']"
  by (simp_all add: class_names_def)

lemmas create_simps = createModalDialog_def createModalContent_def createModalHeader_def createModalBody_def
  createModalFooter_def createTitleContent_def createCloseButton_def createHeaderContent_def
  createMessageContent_def createBodyContent_def createFooterContent_def element_new_def elem_def
  add_class_def getNamespace_def NAMESPACE_def class_names_simps set_shown_def

lemma displays_tree: "displays fn r d \<Longrightarrow> view_tree d = dialog_tree fn r (dv_options d)"
  by (simp add: displays_def view_tree_def dialog_tree_def createModalDialog_def createModalContent_def
      element_new_def elem_def)

lemma container_buttons:
  "buttons_container o' bs = elem ''div'' [''bootstrap-dialog-footer-buttons''] True (map (createButton o') bs)"
proof -
  have "foldl (\<lambda>c b. append_kid (createButton o' b) c) (El e ks) bs = El e (ks @ map (createButton o') bs)" for e ks
    by (induction bs arbitrary: ks) simp_all
  then show ?thesis by (simp add: buttons_container_def create_simps)
qed

lemma createButton_options: "vo_size o1 = vo_size o2 \<Longrightarrow> createButton o1 = createButton o2"
  by (rule ext) (simp add: createButton_def getButtonSize_def)

lemma number_buttons_Nil [simp]: "fst (number_buttons guid n bs) = [] \<longleftrightarrow> bs = []"
  by (cases bs) (auto simp: Let_def split: prod.splits)

lemma footer_shows:
  fixes guid :: "nat \<Rightarrow> string"
  assumes "dv_footer d = elem ''div'' [''modal-footer''] True [elem ''div'' [''bootstrap-dialog-footer''] True ks]"
    and "dv_realized d" and "vo_buttons (dv_options d) \<noteq> []"
  defines "d1 \<equiv> updateButtons_view guid d"
  shows "dv_footer d1 = footer_tree (dv_options d1)"
    and "dv_options d1 = (dv_options d)\<lparr>vo_buttons := fst (number_buttons guid (dv_ids d) (vo_buttons (dv_options d)))\<rparr>"
    and "dv_indexedButtons d1 = index_buttons (vo_buttons (dv_options d1))"
    and "dv_realized d1 = dv_realized d" and "dv_header d1 = dv_header d" and "dv_body d1 = dv_body d"
    and "dv_modal d1 = dv_modal d" and "dv_modalDialog d1 = dv_modalDialog d" and "dv_modalContent d1 = dv_modalContent d"
proof -
  obtain bs n where nb: "number_buttons guid (dv_ids d) (vo_buttons (dv_options d)) = (bs, n)"
    by (cases "number_buttons guid (dv_ids d) (vo_buttons (dv_options d))")
  have d1: "d1 = d\<lparr>dv_options := (dv_options d)\<lparr>vo_buttons := bs\<rparr>, dv_indexedButtons := index_buttons bs, dv_ids := n,
      dv_footer := find_class (getNamespace ''footer'')
        (\<lambda>x. append_kid (buttons_container (dv_options d) bs) (html_empty x)) (dv_footer d)\<rparr>"
    using assms(2,3) nb by (simp add: d1_def updateButtons_view_def footer_buttons_def)
  have "createButton (dv_options d) = createButton ((dv_options d)\<lparr>vo_buttons := bs\<rparr>)"
    by (rule createButton_options) simp
  then show "dv_footer d1 = footer_tree (dv_options d1)"
    by (simp add: d1 assms(1) footer_tree_def container_buttons)
       (simp add: elem_def getNamespace_def NAMESPACE_def)
  show "dv_options d1 = (dv_options d)\<lparr>vo_buttons := fst (number_buttons guid (dv_ids d) (vo_buttons (dv_options d)))\<rparr>"
    by (simp add: d1 nb)
  show "dv_indexedButtons d1 = index_buttons (vo_buttons (dv_options d1))" by (simp add: d1)
qed (use assms(2,3) in \<open>simp_all add: d1_def updateButtons_view_def footer_buttons_def split: prod.splits\<close>)

lemma header_shows:
  assumes "dv_realized d"
    and "dv_header d = elem ''div'' cs True [elem ''div'' [''bootstrap-dialog-header''] True
       [elem ''div'' [''bootstrap-dialog-title''] True (map Txt ts),
        elem ''div'' [''bootstrap-dialog-close-button''] b [elem ''button'' [''close''] True [Txt ''&times;'']]]]"
  shows "dv_header (updateTitle_view fn d) = elem ''div'' cs True [elem ''div'' [''bootstrap-dialog-header''] True
       [elem ''div'' [''bootstrap-dialog-title''] True [Txt (title_text fn (dv_options d))],
        elem ''div'' [''bootstrap-dialog-close-button''] b [elem ''button'' [''close''] True [Txt ''&times;'']]]]"
    and "dv_header (updateClosable_view d) = elem ''div'' cs True [elem ''div'' [''bootstrap-dialog-header''] True
       [elem ''div'' [''bootstrap-dialog-title''] True (map Txt ts),
        elem ''div'' [''bootstrap-dialog-close-button''] (vo_closable (dv_options d)) [elem ''button'' [''close''] True [Txt ''&times;'']]]]"
  using assms by (simp_all add: updateTitle_view_def updateClosable_view_def create_simps o_def)

lemma body_shows:
  assumes "dv_realized d"
    and "dv_body d = elem ''div'' [''modal-body''] True [elem ''div'' [''bootstrap-dialog-body''] True
       [elem ''div'' [''bootstrap-dialog-message''] True ms]]"
  shows "dv_body (updateMessage_view fn d) = body_tree fn (dv_options d)"
  using assms by (simp add: updateMessage_view_def body_tree_def create_simps split: option.splits)

lemma update_fields [simp]:
  "dv_options (updateTitle_view fn d) = dv_options d" "dv_options (updateMessage_view fn d) = dv_options d"
  "dv_options (updateClosable_view d) = dv_options d" "dv_realized (updateTitle_view fn d) = dv_realized d"
  "dv_realized (updateMessage_view fn d) = dv_realized d" "dv_realized (updateClosable_view d) = dv_realized d"
  "dv_footer (updateTitle_view fn d) = dv_footer d" "dv_footer (updateMessage_view fn d) = dv_footer d"
  "dv_footer (updateClosable_view d) = dv_footer d" "dv_body (updateTitle_view fn d) = dv_body d"
  "dv_body (updateClosable_view d) = dv_body d" "dv_header (updateMessage_view fn d) = dv_header d"
  "dv_modal (updateTitle_view fn d) = dv_modal d" "dv_modal (updateMessage_view fn d) = dv_modal d"
  "dv_modal (updateClosable_view d) = dv_modal d"
  "dv_modalDialog (updateTitle_view fn d) = dv_modalDialog d" "dv_modalDialog (updateMessage_view fn d) = dv_modalDialog d"
  "dv_modalDialog (updateClosable_view d) = dv_modalDialog d"
  "dv_indexedButtons (updateTitle_view fn d) = dv_indexedButtons d"
  "dv_indexedButtons (updateMessage_view fn d) = dv_indexedButtons d"
  "dv_indexedButtons (updateClosable_view d) = dv_indexedButtons d"
  "dv_modalContent (updateTitle_view fn d) = dv_modalContent d" "dv_modalContent (updateMessage_view fn d) = dv_modalContent d"
  "dv_modalContent (updateClosable_view d) = dv_modalContent d"
  by (simp_all add: updateTitle_view_def updateMessage_view_def updateClosable_view_def)

lemma realize_shows:
  assumes "vo_buttons o' \<noteq> []"
  shows "displays fn o' (realize_view fn guid (new_view o'))"
proof -
  define d where "d = (let d1 = initModalStuff (new_view o') in
    (makeModalDraggable (d1\<lparr>dv_modal := modal_element o',
       dv_footer := append_kid createFooterContent (dv_footer d1),
       dv_header := append_kid createHeaderContent (dv_header d1),
       dv_body := append_kid createBodyContent (dv_body d1)\<rparr>))\<lparr>dv_realized := True\<rparr>)"
  have r: "realize_view fn guid (new_view o')
      = updateClosable_view (updateMessage_view fn (updateTitle_view fn (updateButtons_view guid d)))"
    by (simp add: realize_view_def d_def Let_def modal_element_def initModalStuff_def new_view_def)
  have f: "dv_footer d = elem ''div'' [''modal-footer''] True [elem ''div'' [''bootstrap-dialog-footer''] True []]"
    "dv_realized d" "dv_options d = o'" "dv_modal d = modal_element o'" "dv_modalDialog d = createModalDialog"
    "dv_modalContent d = createModalContent"
    "dv_body d = elem ''div'' [''modal-body''] True [elem ''div'' [''bootstrap-dialog-body''] True
       [elem ''div'' [''bootstrap-dialog-message''] True []]]"
    "dv_header d = elem ''div'' (''modal-header'' # (if vo_draggable o' then [''bootstrap-dialog-draggable''] else [])) True
       [elem ''div'' [''bootstrap-dialog-header''] True
         [elem ''div'' [''bootstrap-dialog-title''] True (map Txt []),
          elem ''div'' [''bootstrap-dialog-close-button''] True [elem ''button'' [''close''] True [Txt ''&times;'']]]]"
    by (simp_all add: d_def initModalStuff_def makeModalDraggable_def new_view_def Let_def create_simps)
  note b = footer_shows [OF f(1,2), of guid, unfolded f(3), OF assms]
  define e where "e = updateButtons_view guid d"
  define e1 where "e1 = updateTitle_view fn e"
  define e2 where "e2 = updateMessage_view fn e1"
  have o: "dv_options e1 = dv_options e" "dv_options e2 = dv_options e" by (simp_all add: e1_def e2_def)
  have re: "dv_realized e" "dv_realized e1" "dv_realized e2" using b f by (simp_all add: e_def e1_def e2_def)
  have "dv_header e2 = dv_header e1" by (simp add: e2_def)
  also have "\<dots> = elem ''div'' (''modal-header'' # (if vo_draggable o' then [''bootstrap-dialog-draggable''] else [])) True
       [elem ''div'' [''bootstrap-dialog-header''] True
         [elem ''div'' [''bootstrap-dialog-title''] True (map Txt [title_text fn (dv_options e)]),
          elem ''div'' [''bootstrap-dialog-close-button''] True [elem ''button'' [''close''] True [Txt ''&times;'']]]]"
    using header_shows(1) [OF re(1) b(5) [folded e_def, unfolded f(8)], of fn] by (simp add: e1_def)
  finally have h2: "dv_header e2 = \<dots>" .
  have "dv_header (updateClosable_view e2) = header_tree fn (dv_options e)"
    unfolding header_shows(2) [OF re(3) h2] using b(2) by (simp add: header_tree_def o e_def f(3))
  moreover have "dv_body e2 = body_tree fn (dv_options e)"
    using body_shows [of e1 "[]" fn] re b(6) f(7) by (simp add: e2_def o, simp add: e1_def e_def)
  ultimately show ?thesis
    unfolding r displays_def using b f re
    by (simp add: e_def [symmetric] e1_def [symmetric] e2_def [symmetric] o) (simp add: e1_def e2_def)
qed

text \<open>The settings that a page sees at once; the contents are strings here or functions that do not
  look at the dialog.\<close>

fun shown_at_once :: "setting \<Rightarrow> bool" where
  "shown_at_once (SetButtons bs) = (bs \<noteq> [])"
| "shown_at_once (AddButton b) = False"
| "shown_at_once (SetType t) = False"
| "shown_at_once (SetSize t) = False"
| "shown_at_once (EnableButtons b) = False"
| "shown_at_once s = True"

lemma trees_cong:
  "vo_title o1 = vo_title o2 \<Longrightarrow> vo_type o1 = vo_type o2 \<Longrightarrow> vo_nl2br o1 = vo_nl2br o2 \<Longrightarrow>
   vo_closable o1 = vo_closable o2 \<Longrightarrow> vo_draggable o1 = vo_draggable o2 \<Longrightarrow>
   header_tree (\<lambda>k x. f k) o1 = header_tree (\<lambda>k x. f k) o2"
  "vo_message o1 = vo_message o2 \<Longrightarrow> vo_nl2br o1 = vo_nl2br o2 \<Longrightarrow>
   body_tree (\<lambda>k x. f k) o1 = body_tree (\<lambda>k x. f k) o2"
  "vo_size o1 = vo_size o2 \<Longrightarrow> vo_buttons o1 = vo_buttons o2 \<Longrightarrow> footer_tree o1 = footer_tree o2"
  by (simp_all add: header_tree_def body_tree_def footer_tree_def title_text_def default_text_def createDynamicContent_def
      createButton_options [of o1 o2] split: option.split)

lemma setting_shows:
  assumes "displays (\<lambda>k x. f k) r d" and "shown_at_once s"
  shows "displays (\<lambda>k x. f k) r (apply_setting (\<lambda>k x. f k) guid s d)"
proof -
  let ?fn = "\<lambda>k x :: view_options. f k"
  have keep: "displays ?fn r (set_options g d)"
    if "\<And>x. vo_title (g x) = vo_title x \<and> vo_type (g x) = vo_type x \<and> vo_nl2br (g x) = vo_nl2br x
        \<and> vo_closable (g x) = vo_closable x \<and> vo_draggable (g x) = vo_draggable x \<and> vo_message (g x) = vo_message x
        \<and> vo_size (g x) = vo_size x \<and> vo_buttons (g x) = vo_buttons x" for g
    using assms(1) that [of "dv_options d"] trees_cong [of "dv_options d" "g (dv_options d)"] by (simp add: displays_def)
  have head: "dv_header d = elem ''div'' (''modal-header'' # (if vo_draggable (dv_options d) then [''bootstrap-dialog-draggable''] else [])) True
       [elem ''div'' [''bootstrap-dialog-header''] True
         [elem ''div'' [''bootstrap-dialog-title''] True (map Txt [title_text ?fn (dv_options d)]),
          elem ''div'' [''bootstrap-dialog-close-button''] (vo_closable (dv_options d)) [elem ''button'' [''close''] True [Txt ''&times;'']]]]"
    using assms(1) by (simp add: displays_def header_tree_def)
  show ?thesis
  proof (cases s)
    case (SetTitle t)
    have "dv_header (set_options (\<lambda>x. x\<lparr>vo_title := t\<rparr>) d) = dv_header d" by simp
    note h = header_shows(1) [OF _ this [unfolded head], of ?fn]
    show ?thesis using assms(1) h trees_cong(2,3) [of "dv_options d" "(dv_options d)\<lparr>vo_title := t\<rparr>"]
      by (simp add: SetTitle displays_def header_tree_def)
  next
    case (SetMessage m)
    then show ?thesis using assms(1) body_shows [of "set_options (\<lambda>x. x\<lparr>vo_message := m\<rparr>) d" _ ?fn]
        trees_cong(1,3) [of "dv_options d" "(dv_options d)\<lparr>vo_message := m\<rparr>"]
      by (simp add: displays_def) (simp add: body_tree_def)
  next
    case (SetClosable b)
    have "dv_header (set_options (\<lambda>x. x\<lparr>vo_closable := b\<rparr>) d) = dv_header d" by simp
    note h = header_shows(2) [OF _ this [unfolded head]]
    have "title_text ?fn ((dv_options d)\<lparr>vo_closable := b\<rparr>) = title_text ?fn (dv_options d)"
      by (simp add: title_text_def default_text_def createDynamicContent_def split: option.split)
    then show ?thesis using assms(1) h trees_cong(2,3) [of "dv_options d" "(dv_options d)\<lparr>vo_closable := b\<rparr>"]
      by (simp add: SetClosable displays_def header_tree_def)
  next
    case (SetButtons bs)
    let ?d = "set_options (\<lambda>x. x\<lparr>vo_buttons := bs\<rparr>) d"
    have "dv_footer ?d = elem ''div'' [''modal-footer''] True [elem ''div'' [''bootstrap-dialog-footer''] True
        [elem ''div'' [''bootstrap-dialog-footer-buttons''] True (map (createButton (dv_options d)) (vo_buttons (dv_options d)))]]"
      using assms(1) by (simp add: displays_def footer_tree_def)
    note b = footer_shows [OF this, of guid]
    show ?thesis using assms b trees_cong(1,2) [of "dv_options d" "dv_options (updateButtons_view guid ?d)"]
      by (simp add: SetButtons displays_def)
  qed (use assms keep in simp_all)
qed

text \<open>A new type, size or id and an added button are kept in the options and not shown.\<close>

lemma settings_not_shown:
  "s \<in> {SetType t, SetSize t, SetCssClass t, SetId t, AddButton b} \<Longrightarrow> view_tree (apply_setting fn guid s d) = view_tree d"
  by (auto simp: view_tree_def)

text \<open>C27: what an open dialog shows follows the settings that are made at once: title, message, closability, a list of
  buttons that is not empty, and the data, icon, autodestruction, class and id, which change nothing that is seen. After any number of these, what
  its elements show is a function of its options: its title or the text for its type, the message with line breaks, the cross when
  it can be closed, and the buttons in their order; the modal keeps the id and classes it was made with. A new type or size and an
  added button change the options and nothing that is shown. Not covered are an empty list of buttons, \<open>enableButtons\<close>, and contents
  that are functions which look at the dialog.\<close>

theorem dialog_shows_options:
  fixes f :: "nat \<Rightarrow> string" and guid :: "nat \<Rightarrow> string"
  assumes "vo_buttons o' \<noteq> []" and "list_all shown_at_once ss"
  defines "d \<equiv> foldl (\<lambda>d s. apply_setting (\<lambda>k x. f k) guid s d) (realize_view (\<lambda>k x. f k) guid (new_view o')) ss"
  shows "view_tree d = dialog_tree (\<lambda>k x. f k) o' (dv_options d)
    \<and> view_tree (apply_setting (\<lambda>k x. f k) guid (SetType t) d) = view_tree d
    \<and> view_tree (apply_setting (\<lambda>k x. f k) guid (SetSize t) d) = view_tree d
    \<and> view_tree (apply_setting (\<lambda>k x. f k) guid (AddButton b) d) = view_tree d"
proof -
  have "displays (\<lambda>k x. f k) o' e \<Longrightarrow>
      displays (\<lambda>k x. f k) o' (foldl (\<lambda>d s. apply_setting (\<lambda>k x. f k) guid s d) e ss)" for e
    using assms(2) by (induction ss arbitrary: e) (simp_all add: setting_shows)
  then have "displays (\<lambda>k x. f k) o' d" unfolding d_def using realize_shows [OF assms(1)] by blast
  note seen = displays_tree [OF this]
  have "view_tree (apply_setting (\<lambda>k x. f k) guid s d) = view_tree d" if "s \<in> {SetType t, SetSize t, SetCssClass t, SetId t, AddButton b}" for s
    using that by (rule settings_not_shown)
  with seen show ?thesis by blast
qed

theorem dialog_shows_options_witness:
  "let o' = (default_options ''d'')\<lparr>vo_message := Some (Given ''Kill?''),
         vo_buttons := [\<lparr>vb_id = '''', vb_icon = '''', vb_label = Some ''Yes'', vb_cssClass = ''btn-primary'', vb_hotkey = None\<rparr>]\<rparr>;
       d = foldl (\<lambda>d s. apply_setting (\<lambda>k x. ''x'') (\<lambda>n. ''b'') s d) (realize_view (\<lambda>k x. ''x'') (\<lambda>n. ''b'') (new_view o'))
         [SetTitle (Some (Given ''Confirmation'')), SetClosable False]
   in view_tree d = dialog_tree (\<lambda>k x. ''x'') o' (dv_options d)"
  unfolding Let_def by (rule dialog_shows_options [of _ _ "\<lambda>k. ''x''", THEN conjunct1]) simp_all

lemma kid_at_twice: "kid_at i f (kid_at i g x) = kid_at i (f \<circ> g) x"
  by (cases x) auto

lemma index_distinct:
  assumes "distinct (map vb_id bs)"
  shows "index_buttons bs = map (\<lambda>(i, b). (vb_id b, i)) (enumerate 0 bs)"
proof -
  have set_new: "k \<notin> set (map fst m) \<Longrightarrow> obj_set k v m = m @ [(k, v)]" for k v and m :: "nat obj"
    by (induction m) auto
  have "distinct (map fst m @ map vb_id bs) \<Longrightarrow>
      foldl (\<lambda>m (i, b). obj_set (vb_id b) i m) m (enumerate n bs) = m @ map (\<lambda>(i, b). (vb_id b, i)) (enumerate n bs)"
    for m :: "nat obj" and n
  proof (induction bs arbitrary: m n)
    case (Cons b bs)
    then have "obj_set (vb_id b) n m = m @ [(vb_id b, n)]" by (intro set_new) auto
    then show ?case using Cons by simp
  qed simp
  from this [of "[]" 0] show ?thesis using assms by (simp add: index_buttons_def)
qed

lemma kid_at_all:
  "foldl (\<lambda>x i. kid_at i f x) (El e (ks @ map g ls)) [length ks..<length ks + length ls] = El e (ks @ map (f \<circ> g) ls)"
proof (induction ls arbitrary: ks)
  case (Cons l ls)
  have "[length ks..<length ks + length (l # ls)] = length ks # [length (ks @ [f (g l)])..<length (ks @ [f (g l)]) + length ls]"
    by (simp add: upt_conv_Cons del: upt_Suc)
  then show ?case using Cons.IH [of "ks @ [f (g l)]"] by (simp add: list_update_append nth_append del: upt_Suc)
qed simp

text \<open>\<open>enableButtons\<close> reaches every button when no two have one id.\<close>

theorem enable_reaches_all:
  assumes "displays fn r d" and "distinct (map vb_id (vo_buttons (dv_options d)))"
  shows "dv_footer (enableButtons_view b d) = elem ''div'' [''modal-footer''] True
     [elem ''div'' [''bootstrap-dialog-footer''] True
       [elem ''div'' [''bootstrap-dialog-footer-buttons''] True
         (map (toggleEnable b \<circ> createButton (dv_options d)) (vo_buttons (dv_options d)))]]"
proof -
  let ?bs = "vo_buttons (dv_options d)"
  have lift: "foldl (\<lambda>x i. kid_at 0 (kid_at 0 (kid_at i g)) x) (El e [El e' [c]]) is
      = El e [El e' [foldl (\<lambda>x i. kid_at i g x) c is]]" for g e e' c "is"
    by (induction "is" arbitrary: c) simp_all
  have "map snd (dv_indexedButtons d) = [0..<length ?bs]"
    using assms by (simp add: displays_def index_distinct o_def split_def)
  then have "dv_footer (enableButtons_view b d)
      = foldl (\<lambda>x i. kid_at 0 (kid_at 0 (kid_at i (toggleEnable b))) x) (dv_footer d) [0..<length ?bs]"
    using foldl_map [of "\<lambda>x i. kid_at 0 (kid_at 0 (kid_at i (toggleEnable b))) x" "dv_footer d" snd "dv_indexedButtons d"]
    by (simp add: enableButtons_view_def split_def)
  also have "\<dots> = elem ''div'' [''modal-footer''] True [elem ''div'' [''bootstrap-dialog-footer''] True
      [foldl (\<lambda>x i. kid_at i (toggleEnable b) x)
        (elem ''div'' [''bootstrap-dialog-footer-buttons''] True (map (createButton (dv_options d)) ?bs)) [0..<length ?bs]]]"
    using assms(1) by (simp add: displays_def footer_tree_def elem_def lift)
  finally show ?thesis
    using kid_at_all [of "toggleEnable b" _ "[]" "createButton (dv_options d)" ?bs] by (simp add: elem_def)
qed

end
