(* ===== verification/JobRequests.thy ===== *)
theory JobRequests
  imports WebClient
begin

text \<open>
  The requests to create and to kill a job as \<open>auroraClient.js\<close> handles their answers: the submit
  handlers of the two forms, and the callbacks of the two calls of \<open>$.ajax\<close> in the order jQuery
  calls them: \<open>success\<close> or \<open>error\<close>, then \<open>complete\<close>, which an exception of the first keeps from being called.
  Messages to the console are left out.
\<close>

text \<open>How a request ends: with the data of the answer, or with a text such as \<open>timeout\<close> or \<open>parsererror\<close>.\<close>

datatype 'd ajax_outcome = Succeeded 'd | Failed string

text \<open>What the answers change: the table of jobs and its database, the texts of three elements, the
  dialogs that are hidden or toggled, and the global \<open>attDailyJson\<close>.\<close>

record request_page =
  rp_jobs :: jobs_page
  rp_result :: string
  rp_link :: string
  rp_killResult :: string
  rp_killShown :: bool
  rp_dialogs :: "(string \<times> string) list"
  rp_status :: "string option"

definition job_link_html :: "string \<Rightarrow> string" where
  "job_link_html link = ''<a href='' @ link @ '' target=\"_blank\">'' @ link @ ''</a>''"

text \<open>\<open>addJobs\<close> throws while the database is not open; what was done before stays done.\<close>

definition create_succeeded :: "send_data \<Rightarrow> string \<Rightarrow> string \<Rightarrow> request_page \<Rightarrow> js_error option \<times> request_page" where
  "create_succeeded d reply date p =
     (let p1 = p\<lparr>rp_result := reply, rp_link := job_link_html (job_link d)\<rparr> in
      case addJobs (new_job d date) (rp_jobs p1) of
        Inl e \<Rightarrow> (Some e, p1)
      | Inr js \<Rightarrow> (None, p1\<lparr>rp_jobs := add_row None (jobName d) (job_link d) date None js,
          rp_dialogs := rp_dialogs p1 @ [(''#example'', ''toggle''), (''#advancedmodal'', ''hide''), (''#simplemodal'', ''hide'')]\<rparr>))"

definition create_answered :: "send_data \<Rightarrow> string ajax_outcome \<Rightarrow> string \<Rightarrow> request_page \<Rightarrow> js_error option \<times> request_page" where
  "create_answered d ans date p = (case ans of
       Succeeded reply \<Rightarrow> (case create_succeeded d reply date p of
           (Some e, p1) \<Rightarrow> (Some e, p1)
         | (None, p1) \<Rightarrow> (None, p1\<lparr>rp_status := Some ''success''\<rparr>))
     | Failed status \<Rightarrow> (None, (p\<lparr>rp_status := Some status\<rparr>)\<lparr>rp_status := Some status\<rparr>))"

text \<open>The status of a kill fades out after it was shown; a failed request to kill has no handler.\<close>

definition kill_answered :: "string ajax_outcome \<Rightarrow> request_page \<Rightarrow> request_page" where
  "kill_answered ans p = (case ans of
       Succeeded status \<Rightarrow> p\<lparr>rp_killResult := status, rp_killShown := True\<rparr>
     | Failed status \<Rightarrow> p)"

definition faded_out :: "request_page \<Rightarrow> request_page" where
  "faded_out p = p\<lparr>rp_killShown := False\<rparr>"

text \<open>Both submit handlers prevent the form from being sent and pass its id on.\<close>

definition submit_form :: "string \<Rightarrow> (string \<Rightarrow> string) \<Rightarrow> form_page \<Rightarrow> form_page \<times> http_request option result" where
  "submit_form formId field c = callCreateJob formId field c"

text \<open>
  A request that fails changes nothing a user can see.  A successful creation shows its link and adds one
  row, and closes the dialogs, when the database is open; when it is not, the link is shown and
  the dialogs stay open.
\<close>

lemma addJobs_opened: "(\<exists>js. addJobs j p = Inr js) \<longleftrightarrow> opened p"
  by (auto simp: addJobs_def)

theorem request_outcomes:
  "snd (create_answered d (Failed s) date p) = p\<lparr>rp_status := Some s\<rparr>"
  "kill_answered (Failed s) p = p"
  "opened (rp_jobs p) \<Longrightarrow> \<exists>q js. create_answered d (Succeeded a) date p = (None, q)
    \<and> rp_jobs q = add_row None (jobName d) (job_link d) date None js
    \<and> rp_dialogs q = rp_dialogs p @ [(''#example'', ''toggle''), (''#advancedmodal'', ''hide''), (''#simplemodal'', ''hide'')]"
  "\<not> opened (rp_jobs p) \<Longrightarrow> \<exists>e q. create_answered d (Succeeded a) date p = (Some e, q)
    \<and> rp_link q = job_link_html (job_link d) \<and> rp_dialogs q = rp_dialogs p \<and> rp_jobs q = rp_jobs p"
  using addJobs_opened [of "new_job d date" "rp_jobs p"]
  by (auto simp: create_answered_def create_succeeded_def kill_answered_def Let_def split: sum.splits)

end
