(* ===== verification/Tabs.thy ===== *)
theory Tabs
  imports WebClient
begin

text \<open>
  The tabs of the form that creates a job (\<open>tab.js\<close> and the emulated end of transitions of
  \<open>transition.js\<close> in \<open>bootstrap.js\<close>), and the buttons of \<open>auroraClient.js\<close> that show them.  A header is
  the list item of a tab, a pane the element its \<open>href\<close> names.  A pane that fades out is replaced when
  the browser, or a timer that stands in for it, says that its transition has ended.
\<close>

section \<open>State\<close>

text \<open>The classes \<open>active\<close>, \<open>in\<close> and \<open>fade\<close> of a pane.\<close>

record pane =
  active :: bool
  opaque :: bool
  fade_class :: bool

text \<open>
  What waits for the end of a transition: the rest of \<open>activate\<close>, with the panes that were active and
  the pane to show, and the flag of an emulation.
\<close>

datatype end_handler = Continue "string list" string | Called nat

record end_timer =
  timer_panes :: "string list"
  called :: bool

record tabs =
  headers :: "(string \<times> bool) list"
  panes :: "(string \<times> pane) list"
  handlers :: "(string \<times> end_handler) list"
  timers :: "(nat \<times> end_timer) list"
  next_timer :: nat

definition active_headers :: "tabs \<Rightarrow> string list" where
  "active_headers t = map fst (filter snd (headers t))"

definition active_panes :: "tabs \<Rightarrow> string list" where
  "active_panes t = map fst (filter (\<lambda>(k, p). active p) (panes t))"

definition update_panes :: "string list \<Rightarrow> (pane \<Rightarrow> pane) \<Rightarrow> tabs \<Rightarrow> tabs" where
  "update_panes ks f t = t\<lparr>panes := map (\<lambda>(k, p). (k, if k \<in> set ks then f p else p)) (panes t)\<rparr>"

section \<open>Showing a tab\<close>

text \<open>The inner function \<open>next\<close> of \<open>activate\<close>.\<close>

definition activate_next :: "string list \<Rightarrow> string \<Rightarrow> bool \<Rightarrow> tabs \<Rightarrow> tabs" where
  "activate_next was_active target transition t =
     (let t = update_panes was_active (\<lambda>p. p\<lparr>active := False\<rparr>) t;
          t = update_panes [target] (\<lambda>p. p\<lparr>active := True\<rparr>) t
      in if transition then update_panes [target] (\<lambda>p. p\<lparr>opaque := True\<rparr>) t
         else update_panes [target] (\<lambda>p. p\<lparr>fade_class := False\<rparr>) t)"

definition wait_for_end :: "string list \<Rightarrow> string \<Rightarrow> tabs \<Rightarrow> tabs" where
  "wait_for_end was_active target t =
     t\<lparr>handlers := handlers t @ map (\<lambda>k. (k, Continue was_active target)) was_active
         @ map (\<lambda>k. (k, Called (next_timer t))) was_active,
       timers := timers t @ [(next_timer t, \<lparr>timer_panes = was_active, called = False\<rparr>)],
       next_timer := Suc (next_timer t)\<rparr>"

text \<open>\<open>supported\<close>: whether the browser has transitions.\<close>

definition activate_pane :: "bool \<Rightarrow> string \<Rightarrow> tabs \<Rightarrow> tabs" where
  "activate_pane supported target t =
     (let was_active = active_panes t;
          transition = supported \<and> list_ex (\<lambda>(k, p). active p \<and> fade_class p) (panes t);
          t = (if transition then wait_for_end was_active target t else activate_next was_active target False t)
      in update_panes was_active (\<lambda>p. p\<lparr>opaque := False\<rparr>) t)"

definition activate_header :: "string \<Rightarrow> tabs \<Rightarrow> tabs" where
  "activate_header href t = t\<lparr>headers := map (\<lambda>(h, a). (h, h = href)) (headers t)\<rparr>"

definition tab_show :: "bool \<Rightarrow> string \<Rightarrow> tabs \<Rightarrow> tabs" where
  "tab_show supported href t =
     (if href \<in> set (active_headers t) then t else activate_pane supported href (activate_header href t))"

section \<open>The end of a transition\<close>

definition run_handler :: "tabs \<Rightarrow> end_handler \<Rightarrow> tabs" where
  "run_handler t h = (case h of
       Continue was_active target \<Rightarrow> activate_next was_active target True t
     | Called n \<Rightarrow> t\<lparr>timers := map (\<lambda>(k, x). (k, if k = n then x\<lparr>called := True\<rparr> else x)) (timers t)\<rparr>)"

text \<open>A handler runs once.\<close>

definition trigger_end :: "tabs \<Rightarrow> string \<Rightarrow> tabs" where
  "trigger_end t k = foldl run_handler (t\<lparr>handlers := filter (\<lambda>(j, h). j \<noteq> k) (handlers t)\<rparr>)
     (map snd (filter (\<lambda>(j, h). j = k) (handlers t)))"

definition timeout :: "nat \<Rightarrow> tabs \<Rightarrow> tabs" where
  "timeout n t = (case map_of (timers t) n of None \<Rightarrow> t
     | Some x \<Rightarrow> (let t = t\<lparr>timers := filter (\<lambda>(k, y). k \<noteq> n) (timers t)\<rparr> in
         if called x then t else foldl trigger_end t (timer_panes x)))"

datatype tab_event = Show string | TransitionEnd string | Timeout nat

definition tab_step :: "bool \<Rightarrow> tabs \<Rightarrow> tab_event \<Rightarrow> tabs" where
  "tab_step supported t e = (case e of
       Show href \<Rightarrow> tab_show supported href t
     | TransitionEnd k \<Rightarrow> trigger_end t k
     | Timeout n \<Rightarrow> timeout n t)"

definition tab_run :: "bool \<Rightarrow> tabs \<Rightarrow> tab_event list \<Rightarrow> tabs" where
  "tab_run supported t es = foldl (tab_step supported) t es"

text \<open>The tabs as the page is loaded (\<open>home.html\<close>): no header is active, the first pane is.\<close>

definition job_tabs :: tabs where
  "job_tabs = \<lparr>headers = [(''#process'', False), (''#task'', False), (''#job'', False)],
     panes = [(''#process'', \<lparr>active = True, opaque = False, fade_class = True\<rparr>),
              (''#task'', \<lparr>active = False, opaque = False, fade_class = True\<rparr>),
              (''#job'', \<lparr>active = False, opaque = False, fade_class = True\<rparr>)],
     handlers = [], timers = [], next_timer = 0\<rparr>"

section \<open>The wizard\<close>

text \<open>What the user does in the form: the buttons, and a click on a header.\<close>

datatype wizard_event = Advanced | PNext "nat \<Rightarrow> int" | TNext "string \<Rightarrow> string" | TBack | JBack | Header string

definition wizard_page :: "wizard_event \<Rightarrow> form_page \<Rightarrow> form_page" where
  "wizard_page e c = (case e of
       Advanced \<Rightarrow> c\<lparr>tab := ''#process''\<rparr>
     | PNext place \<Rightarrow> pNext place c
     | TNext field \<Rightarrow> tNext field c
     | TBack \<Rightarrow> tBack c
     | JBack \<Rightarrow> jBack c
     | Header href \<Rightarrow> c\<lparr>tab := href\<rparr>)"

definition wizard_target :: "wizard_event \<Rightarrow> string" where
  "wizard_target e = (case e of
       Advanced \<Rightarrow> ''#process'' | PNext place \<Rightarrow> ''#task'' | TNext field \<Rightarrow> ''#job''
     | TBack \<Rightarrow> ''#process'' | JBack \<Rightarrow> ''#task'' | Header href \<Rightarrow> href)"

definition wizard_step :: "bool \<Rightarrow> form_page \<times> tabs \<Rightarrow> wizard_event \<Rightarrow> form_page \<times> tabs" where
  "wizard_step supported s e = (wizard_page e (fst s), tab_show supported (wizard_target e) (snd s))"

section \<open>Headers\<close>

definition header_names :: "tabs \<Rightarrow> string list" where
  "header_names t = map fst (headers t)"

named_theorems tab_frame "what the operations on panes leave alone"

lemma headers_update [tab_frame]: "headers (update_panes ks f t) = headers t"
  by (simp add: update_panes_def)

lemma headers_next [tab_frame]: "headers (activate_next ks k b t) = headers t"
  by (simp add: activate_next_def Let_def tab_frame)

lemma headers_pane [tab_frame]: "headers (activate_pane b k t) = headers t"
  by (simp add: activate_pane_def wait_for_end_def Let_def tab_frame)

lemma filter_named: "distinct (map fst xs) \<Longrightarrow> k \<in> set (map fst xs) \<Longrightarrow> map fst (filter (\<lambda>(h, a). h = k) xs) = [k]"
proof (induction xs)
  case (Cons x xs)
  have "k \<notin> set (map fst xs) \<Longrightarrow> filter (\<lambda>(h, a). h = k) xs = []" by (auto simp: filter_empty_conv image_iff)
  then show ?case using Cons by (cases x) auto
qed simp

lemma active_headers_activate:
  assumes "distinct (header_names t)" "k \<in> set (header_names t)"
  shows "active_headers (activate_header k t) = [k]"
proof -
  have "filter snd (map (\<lambda>(h, a). (h, h = k)) xs) = map (\<lambda>(h, a). (h, h = k)) (filter (\<lambda>(h, a). h = k) xs)" for xs :: "(string \<times> bool) list"
    by (induction xs) auto
  then have "active_headers (activate_header k t) = map fst (filter (\<lambda>(h, a). h = k) (headers t))"
    by (simp add: active_headers_def activate_header_def case_prod_unfold comp_def)
  then show ?thesis using filter_named [of "headers t" k] assms by (simp add: header_names_def)
qed

lemma header_names_activate [tab_frame]: "header_names (activate_header k t) = header_names t"
  by (simp add: header_names_def activate_header_def case_prod_unfold comp_def)

lemma header_names_show [tab_frame]: "header_names (tab_show b k t) = header_names t"
  using header_names_activate [of k t] by (simp add: tab_show_def header_names_def tab_frame)

text \<open>At most one header is active.\<close>

definition one_header :: "tabs \<Rightarrow> bool" where
  "one_header t \<longleftrightarrow> distinct (header_names t) \<and> length (active_headers t) \<le> 1"

lemma show_header:
  assumes "one_header t" "k \<in> set (header_names t)"
  shows "active_headers (tab_show b k t) = [k]" "one_header (tab_show b k t)"
proof -
  show a: "active_headers (tab_show b k t) = [k]"
  proof (cases "k \<in> set (active_headers t)")
    case True
    then show ?thesis using assms(1) by (cases "active_headers t") (auto simp: tab_show_def one_header_def)
  next
    case False
    then have "active_headers (tab_show b k t) = active_headers (activate_header k t)"
      by (simp add: tab_show_def active_headers_def tab_frame)
    then show ?thesis using active_headers_activate assms by (simp add: one_header_def)
  qed
  then show "one_header (tab_show b k t)" using assms(1) by (simp add: one_header_def tab_frame)
qed

lemma wizard_page_tab: "tab (wizard_page e c) = wizard_target e"
  by (cases e) (simp_all add: wizard_page_def wizard_target_def pNext_def tNext_def tBack_def jBack_def)

text \<open>whatever the user presses in the wizard, and however fast, the header of the tab the form's
  state names is active, and no other.\<close>

theorem wizard_header:
  assumes "one_header t" "\<forall>e \<in> set es. wizard_target e \<in> set (header_names t)" "es \<noteq> []"
    and "(c', t') = foldl (wizard_step supported) (c, t) es"
  shows "active_headers t' = [tab c']"
  using assms
proof (induction es arbitrary: c t)
  case (Cons e es)
  let ?t = "tab_show supported (wizard_target e) t"
  have h: "active_headers ?t = [wizard_target e]" "one_header ?t" using show_header Cons.prems(1,2) by simp_all
  show ?case
  proof (cases "es = []")
    case True
    then show ?thesis using h Cons.prems(4) by (simp add: wizard_step_def wizard_page_tab)
  next
    case False
    then show ?thesis using Cons.IH [of ?t "wizard_page e c"] Cons.prems h by (simp add: wizard_step_def tab_frame)
  qed
qed simp

theorem wizard_header_witness:
  "let (c', t') = foldl (wizard_step True) (client_ready, job_tabs) [Advanced, Header ''#job'', JBack]
   in active_headers t' = [tab c']"
proof -
  have "active_headers (snd s) = [tab (fst s)]" if "s = foldl (wizard_step True) (client_ready, job_tabs) [Advanced, Header ''#job'', JBack]" for s
    by (rule wizard_header [of job_tabs "[Advanced, Header ''#job'', JBack]" "fst s" "snd s" True client_ready])
      (simp_all add: that one_header_def header_names_def active_headers_def job_tabs_def wizard_target_def)
  then show ?thesis by (simp add: case_prod_unfold Let_def)
qed

section \<open>Panes\<close>

definition pane_names :: "tabs \<Rightarrow> string list" where
  "pane_names t = map fst (panes t)"

text \<open>No transition is under way: one pane is active, its header or none; only spent timers are left.\<close>

definition at_rest :: "tabs \<Rightarrow> string \<Rightarrow> bool" where
  "at_rest t p \<longleftrightarrow> distinct (pane_names t) \<and> active_panes t = [p] \<and> set (active_headers t) \<subseteq> {p}
     \<and> list_all (\<lambda>(k, x). fade_class x) (panes t) \<and> handlers t = [] \<and> list_all (\<lambda>(k, x). k < next_timer t \<and> called x) (timers t)"

lemma panes_update: "panes (update_panes ks f t) = map (\<lambda>(k, p). (k, if k \<in> set ks then f p else p)) (panes t)"
  by (simp add: update_panes_def)

lemma pane_names_update [tab_frame]: "pane_names (update_panes ks f t) = pane_names t"
  by (simp add: pane_names_def panes_update case_prod_unfold comp_def)

lemma rest_update [tab_frame]:
  "handlers (update_panes ks f t) = handlers t" "timers (update_panes ks f t) = timers t" "next_timer (update_panes ks f t) = next_timer t"
  by (simp_all add: update_panes_def)

lemma rest_next [tab_frame]:
  "handlers (activate_next ks k b t) = handlers t" "timers (activate_next ks k b t) = timers t"
  "next_timer (activate_next ks k b t) = next_timer t" "pane_names (activate_next ks k b t) = pane_names t"
  by (simp_all add: activate_next_def Let_def tab_frame)

text \<open>What \<open>next\<close> makes of the active panes.\<close>

lemma active_panes_next:
  "active_panes (activate_next was k b t) = map fst (filter (\<lambda>(j, p). j = k \<or> active p \<and> j \<notin> set was) (panes t))"
proof -
  let ?off = "\<lambda>(j, p). (j, if j \<in> set was then p\<lparr>active := False\<rparr> else p)"
    and ?on = "\<lambda>(j, p). (j, if j \<in> set [k] then p\<lparr>active := True\<rparr> else p)"
  have m: "map fst (filter (\<lambda>(j, p). active p) (map (\<lambda>(j, p). (j, if j \<in> set [k] then f p else p)) (map ?on (map ?off xs))))
      = map fst (filter (\<lambda>(j, p). j = k \<or> active p \<and> j \<notin> set was) xs)" if "\<And>p. active (f p) = active p" for f xs
    by (induction xs) (auto simp: that split: if_splits)
  show ?thesis
    unfolding active_panes_def activate_next_def Let_def
    by (cases b) (simp_all only: if_True if_False panes_update, (rule m, simp)+)
qed

lemma in_filtered_names: "y \<in> set (map fst (filter (\<lambda>(j, p). P j p) xs)) \<longleftrightarrow> (\<exists>p. (y, p) \<in> set xs \<and> P y p)"
  by (induction xs) auto

lemma in_names: "y \<in> set (map fst xs) \<longleftrightarrow> (\<exists>p. (y, p) \<in> set xs)"
  by (induction xs) auto

lemma active_panes_next_set:
  "set (active_panes (activate_next was k b t)) = ({k} \<inter> set (pane_names t)) \<union> (set (active_panes t) - set was)"
proof (rule set_eqI)
  fix y
  show "y \<in> set (active_panes (activate_next was k b t)) \<longleftrightarrow> y \<in> ({k} \<inter> set (pane_names t)) \<union> (set (active_panes t) - set was)"
    unfolding active_panes_next
    unfolding active_panes_def Un_iff Int_iff Diff_iff singleton_iff in_filtered_names
    unfolding pane_names_def in_names by blast
qed

lemma active_panes_opaque: "active_panes (update_panes ks (\<lambda>p. p\<lparr>opaque := b\<rparr>) t) = active_panes t"
proof -
  have "map fst (filter (\<lambda>(k, p). active p) (map (\<lambda>(k, p). (k, if k \<in> set ks then p\<lparr>opaque := b\<rparr> else p)) xs))
      = map fst (filter (\<lambda>(k, p). active p) xs)" for xs
    by (induction xs) (auto split: if_splits)
  then show ?thesis by (simp add: active_panes_def panes_update)
qed

lemma fades_update:
  "(\<And>p. fade_class (f p) = fade_class p) \<Longrightarrow> list_all (\<lambda>(k, x). fade_class x) (panes (update_panes ks f t)) = list_all (\<lambda>(k, x). fade_class x) (panes t)"
  by (simp add: panes_update list.pred_map comp_def case_prod_unfold if_distrib)

lemma fades_next: "list_all (\<lambda>(k, x). fade_class x) (panes (activate_next was k True t)) = list_all (\<lambda>(k, x). fade_class x) (panes t)"
  by (simp add: activate_next_def Let_def fades_update)

text \<open>Replacing the only active pane.\<close>

lemma active_panes_replace:
  assumes "distinct (pane_names t)" "active_panes t = [p]" "k \<in> set (pane_names t)"
  shows "active_panes (activate_next [p] k b t) = [k]"
proof -
  have "j \<in> set (active_panes t)" if "(j, x) \<in> set (panes t)" "active x" for j x
    using that by (force simp: active_panes_def)
  then have "filter (\<lambda>(j, x). j = k \<or> active x \<and> j \<notin> set [p]) (panes t) = filter (\<lambda>(j, x). j = k) (panes t)"
    using assms(2) by (auto intro!: filter_cong)
  moreover have "map fst (filter (\<lambda>(j, x). j = k) (panes t)) = [k]"
    using assms(1,3) filter_named [of "panes t" k] by (simp add: pane_names_def)
  ultimately show ?thesis by (simp only: active_panes_next)
qed

text \<open>A click on another tab while nothing is under way: everything waits for the end of one transition.\<close>

lemma fades_active: "active_panes t = [p] \<Longrightarrow> list_all (\<lambda>(k, x). fade_class x) (panes t) \<Longrightarrow> list_ex (\<lambda>(k, x). active x \<and> fade_class x) (panes t)"
proof -
  assume a: "active_panes t = [p]" "list_all (\<lambda>(k, x). fade_class x) (panes t)"
  then have "p \<in> set (active_panes t)" by simp
  then obtain x where "(p, x) \<in> set (panes t)" "active x" by (auto simp: active_panes_def)
  then show ?thesis using a(2) by (auto simp: list_all_iff list_ex_iff)
qed

lemma show_at_rest:
  assumes "at_rest t p" "k \<notin> set (active_headers t)"
  shows "tab_show True k t = update_panes [p] (\<lambda>x. x\<lparr>opaque := False\<rparr>) (wait_for_end [p] k (activate_header k t))"
proof -
  have "active_panes (activate_header k t) = [p]" "panes (activate_header k t) = panes t"
    using assms(1) by (simp_all add: at_rest_def activate_header_def active_panes_def)
  moreover have "list_ex (\<lambda>(k, x). active x \<and> fade_class x) (panes t)"
    using assms(1) by (intro fades_active) (simp_all add: at_rest_def)
  ultimately show ?thesis using assms(2) by (simp add: tab_show_def activate_pane_def Let_def)
qed

definition visit :: "tabs \<Rightarrow> string \<times> bool \<Rightarrow> tabs" where
  "visit t v = tab_run True t [Show (fst v), if snd v then TransitionEnd (hd (active_panes t)) else Timeout (next_timer t)]"

text \<open>The state after such a click and the end of its transition.\<close>

definition replaced :: "string \<Rightarrow> string \<Rightarrow> tabs \<Rightarrow> tabs" where
  "replaced p k t = activate_next [p] k True (update_panes [p] (\<lambda>x. x\<lparr>opaque := False\<rparr>) (activate_header k t))"

lemma replaced_rest [tab_frame]:
  "handlers (replaced p k t) = handlers t" "timers (replaced p k t) = timers t" "next_timer (replaced p k t) = next_timer t"
  "headers (replaced p k t) = headers (activate_header k t)" "pane_names (replaced p k t) = pane_names t"
  by (simp_all add: replaced_def tab_frame) (simp_all add: activate_header_def pane_names_def)

lemma replaced_at_rest:
  assumes "at_rest t p" "one_header t" "k \<in> set (pane_names t)" "k \<in> set (header_names t)"
    and "n = next_timer t \<or> n = Suc (next_timer t)" "list_all (\<lambda>(j, x). j < n \<and> called x) ts"
  shows "at_rest ((replaced p k t)\<lparr>timers := ts, next_timer := n\<rparr>) k"
proof -
  let ?u = "update_panes [p] (\<lambda>x. x\<lparr>opaque := False\<rparr>) (activate_header k t)"
  have u: "pane_names ?u = pane_names t" "active_panes ?u = active_panes t" "list_all (\<lambda>(k, x). fade_class x) (panes ?u) = list_all (\<lambda>(k, x). fade_class x) (panes t)"
    by (simp_all add: tab_frame active_panes_opaque fades_update) (simp_all add: activate_header_def pane_names_def active_panes_def)
  have "active_panes (replaced p k t) = [k]"
    unfolding replaced_def by (rule active_panes_replace) (use assms(1,3) u in \<open>simp_all add: at_rest_def\<close>)
  moreover have "list_all (\<lambda>(k, x). fade_class x) (panes (replaced p k t))"
    unfolding replaced_def fades_next u using assms(1) by (simp add: at_rest_def)
  moreover have "active_headers (replaced p k t) = [k]"
    using active_headers_activate [of t k] assms(2,4) by (simp add: active_headers_def tab_frame one_header_def)
  ultimately show ?thesis
    using assms(1,6) by (simp add: at_rest_def active_panes_def active_headers_def pane_names_def replaced_rest replaced_rest(5) [unfolded pane_names_def])
qed

lemma no_timer: "list_all (\<lambda>(k, x). k < (n :: nat) \<and> called x) ts \<Longrightarrow> map_of ts n = None"
  by (induction ts) auto

lemma visit_at_rest:
  assumes "at_rest t p" "one_header t" "k \<in> set (pane_names t)" "k \<in> set (header_names t)"
  shows "at_rest (visit t (k, b)) k \<and> active_headers (visit t (k, b)) = [k] \<and> one_header (visit t (k, b))
    \<and> pane_names (visit t (k, b)) = pane_names t \<and> header_names (visit t (k, b)) = header_names t"
proof (cases "k \<in> set (active_headers t)")
  case True
  then have k: "k = p" "active_headers t = [k]"
    using assms(1,2) by (auto simp: at_rest_def one_header_def le_Suc_eq length_Suc_conv)
  have "trigger_end t k' = t" for k' using assms(1) by (simp add: trigger_end_def at_rest_def)
  moreover have "timeout (next_timer t) t = t" using assms(1) no_timer [of "next_timer t" "timers t"] by (simp add: timeout_def at_rest_def)
  ultimately have "visit t (k, b) = t" using True by (simp add: visit_def tab_run_def tab_step_def tab_show_def)
  then show ?thesis using assms k by simp
next
  case False
  let ?n = "next_timer t"
  let ?s = "tab_show True k t"
  let ?ts = "if b then timers t @ [(?n, \<lparr>timer_panes = [p], called = True\<rparr>)] else timers t"
  have old: "list_all (\<lambda>(k, x). k < ?n \<and> called x) (timers t)" "handlers t = []" "active_panes t = [p]"
    using assms(1) by (simp_all add: at_rest_def)
  have same: "map (\<lambda>(k, x). (k, if k = ?n then x\<lparr>called := True\<rparr> else x)) (timers t) = timers t"
    "filter (\<lambda>(k, x). k \<noteq> ?n) (timers t) = timers t"
    using old(1) by (auto simp: list_all_iff intro!: map_idI filter_True)
  have "visit t (k, b) = (replaced p k t)\<lparr>timers := ?ts, next_timer := Suc ?n\<rparr>"
    using no_timer [OF old(1)] old same
    by (cases b) (simp_all add: visit_def tab_run_def tab_step_def show_at_rest [OF assms(1) False] trigger_end_def timeout_def
        wait_for_end_def update_panes_def activate_header_def run_handler_def activate_next_def replaced_def Let_def map_add_def)
  moreover have "list_all (\<lambda>(k, x). k < Suc ?n \<and> called x) ?ts" using old(1) by (auto simp: list_all_iff)
  ultimately have s: "at_rest (visit t (k, b)) k" "headers (visit t (k, b)) = headers (activate_header k t)" "pane_names (visit t (k, b)) = pane_names t"
    using replaced_at_rest [OF assms, of "Suc ?n" ?ts] by (simp_all add: tab_frame pane_names_def replaced_rest(5) [unfolded pane_names_def])
  then have "active_headers (visit t (k, b)) = [k]" "header_names (visit t (k, b)) = header_names t"
    using active_headers_activate [of t k] header_names_activate [of k t] assms(2,4)
    by (simp_all add: active_headers_def header_names_def one_header_def)
  then show ?thesis using s assms(2) by (simp add: one_header_def)
qed

text \<open>when every transition ends, in the browser or by the timer that stands in for it, before
  the next click, the tabs the user visits one after the other leave one pane active and one header,
  those of the last.\<close>

theorem visits_show_last:
  assumes "at_rest t p" "one_header t" "pane_names t = header_names t" "vs \<noteq> []" "fst ` set vs \<subseteq> set (pane_names t)"
  shows "active_panes (foldl visit t vs) = [fst (last vs)] \<and> active_headers (foldl visit t vs) = [fst (last vs)]
    \<and> handlers (foldl visit t vs) = []"
  using assms
proof (induction vs arbitrary: t p)
  case (Cons v vs)
  obtain k b where v: "v = (k, b)" by (cases v)
  have s: "at_rest (visit t v) k" "active_headers (visit t v) = [k]" "one_header (visit t v)"
    "pane_names (visit t v) = pane_names t" "header_names (visit t v) = header_names t"
    using visit_at_rest [OF Cons.prems(1,2), of k b] Cons.prems(3,5) v by simp_all
  show ?case
  proof (cases "vs = []")
    case True
    then show ?thesis using s v by (simp add: at_rest_def)
  next
    case False
    then show ?thesis using Cons.IH [OF s(1,3)] Cons.prems(3,5) s by simp
  qed
qed simp

theorem visits_show_last_witness:
  "active_panes (foldl visit job_tabs [(''#process'', False), (''#task'', True), (''#job'', False)]) = [''#job'']"
proof -
  have "at_rest job_tabs ''#process''" "one_header job_tabs" "pane_names job_tabs = header_names job_tabs"
    by (simp_all add: at_rest_def one_header_def job_tabs_def pane_names_def header_names_def active_panes_def active_headers_def)
  from visits_show_last [OF this, of "[(''#process'', False), (''#task'', True), (''#job'', False)]"]
  show ?thesis by (simp add: job_tabs_def pane_names_def)
qed

section \<open>Two clicks at once\<close>

lemma twice_run:
  assumes "at_rest t a" "b \<notin> set (active_headers t)" "c \<notin> set (active_headers (activate_header b t))" "a \<noteq> b" "a \<noteq> c"
  shows "panes (tab_run True t [Show b, Show c, TransitionEnd a]) = panes (activate_next [a] c True (activate_next [a] b True
      (update_panes [a] (\<lambda>x. x\<lparr>opaque := False\<rparr>) t)))"
proof -
  let ?t = "tab_show True b t"
  have o: "active_panes t = [a]" "list_all (\<lambda>(k, x). fade_class x) (panes t)" "handlers t = []"
    using assms(1) by (simp_all add: at_rest_def)
  have t: "?t = update_panes [a] (\<lambda>x. x\<lparr>opaque := False\<rparr>) (wait_for_end [a] b (activate_header b t))"
    by (rule show_at_rest [OF assms(1,2)])
  have h: "headers ?t = headers (activate_header b t)" by (simp add: t wait_for_end_def tab_frame)
  have p: "active_panes ?t = [a]" "list_all (\<lambda>(k, x). fade_class x) (panes ?t)"
    using o by (simp_all add: t active_panes_opaque fades_update) (simp_all add: wait_for_end_def activate_header_def active_panes_def)
  have "tab_show True c ?t = update_panes [a] (\<lambda>x. x\<lparr>opaque := False\<rparr>) (wait_for_end [a] c (activate_header c ?t))"
  proof -
    have "active_panes (activate_header c ?t) = [a]" "panes (activate_header c ?t) = panes ?t"
      using p(1) by (simp_all add: activate_header_def active_panes_def)
    moreover have "c \<notin> set (active_headers ?t)" using assms(3) h by (simp add: active_headers_def)
    ultimately show ?thesis using fades_active [OF p] by (simp add: tab_show_def activate_pane_def Let_def)
  qed
  moreover have "map ((\<lambda>(k, x). (k, if k = a then x\<lparr>opaque := False\<rparr> else x)) \<circ> (\<lambda>(k, x). (k, if k = a then x\<lparr>opaque := False\<rparr> else x))) xs
      = map (\<lambda>(k, x). (k, if k = a then x\<lparr>opaque := False\<rparr> else x)) xs" for xs :: "(string \<times> pane) list"
    by (induction xs) auto
  ultimately show ?thesis
    using o(3) unfolding tab_run_def
    by (simp add: tab_step_def t trigger_end_def run_handler_def wait_for_end_def update_panes_def activate_header_def activate_next_def Let_def)
qed

text \<open>a second click on another tab before the first transition ends leaves two panes active: the
  transition that ends shows both the pane of the first click and that of the second, while only the
  header of the second is active.\<close>

theorem quick_clicks_show_two:
  assumes "at_rest t a" "distinct [a, b, c]" "{b, c} \<subseteq> set (pane_names t)" "pane_names t = header_names t" "one_header t"
  shows "set (active_panes (tab_run True t [Show b, Show c, TransitionEnd a])) = {b, c}
    \<and> active_headers (tab_run True t [Show b, Show c]) = [c]"
proof -
  have h: "active_headers (activate_header b t) = [b]" using active_headers_activate [of t b] assms by (simp add: one_header_def)
  let ?u = "update_panes [a] (\<lambda>x. x\<lparr>opaque := False\<rparr>) t"
  have "b \<notin> set (active_headers t)" "c \<notin> set (active_headers (activate_header b t))"
    using assms(1,2) h by (auto simp: at_rest_def)
  then have "active_panes (tab_run True t [Show b, Show c, TransitionEnd a])
      = active_panes (activate_next [a] c True (activate_next [a] b True ?u))"
    using twice_run [OF assms(1)] assms(2) by (simp add: active_panes_def)
  moreover have "active_panes (activate_next [a] b True ?u) = [b]"
    by (rule active_panes_replace)
      (use assms(1,3) in \<open>simp_all add: tab_frame active_panes_opaque at_rest_def\<close>)
  then have "set (active_panes (activate_next [a] c True (activate_next [a] b True ?u))) = {b, c}"
    using assms(2,3) by (auto simp: active_panes_next_set tab_frame)
  ultimately have "set (active_panes (tab_run True t [Show b, Show c, TransitionEnd a])) = {b, c}" by simp
  moreover have "active_headers (tab_run True t [Show b, Show c]) = [c]"
    using show_header [OF assms(5), of b True] show_header [of "tab_show True b t" c True] assms(3,4)
    by (simp add: tab_run_def tab_step_def tab_frame)
  ultimately show ?thesis by (rule conjI)
qed

theorem quick_clicks_show_two_witness:
  "set (active_panes (tab_run True (visit job_tabs (''#process'', False)) [Show ''#task'', Show ''#job'', TransitionEnd ''#process''])) = {''#task'', ''#job''}"
proof -
  have "at_rest job_tabs ''#process''" "one_header job_tabs"
    by (simp_all add: at_rest_def one_header_def job_tabs_def pane_names_def header_names_def active_panes_def active_headers_def)
  note s = visit_at_rest [OF this, of "''#process''" False]
  have n: "pane_names job_tabs = [''#process'', ''#task'', ''#job'']" "header_names job_tabs = [''#process'', ''#task'', ''#job'']"
    by (simp_all add: job_tabs_def pane_names_def header_names_def)
  show ?thesis
    by (rule quick_clicks_show_two [THEN conjunct1]) (use s in \<open>simp_all add: n\<close>)
qed

end
