(* ===== verification/Pagination.thy ===== *)
theory Pagination
  imports JSNumber
begin

text \<open>
  The digest loop of AngularJS and the pagination directive of the Smart-Table component, which
  the tables of the scheduler interface use.  The directive does not know the table: it reads two
  numbers of it and asks its controller for a page.  What it relies on is the locale
  \<open>page_host\<close>; \<open>SmartTable\<close> interprets it on the table's controller.
\<close>

section \<open>The digest\<close>

text \<open>
  A watcher compares the value it watches with the last one and calls its listener when they
  differ; it says whether they did.  A digest runs the watchers in order, again and again until
  none of them finds a change, and gives up after \<open>TTL\<close> rounds.  The source also stops a round
  early when it comes back to the watcher that changed last: the watchers after that one have
  been found unchanged already, so the round would end the same way.
\<close>

type_synonym 's watch = "'s \<Rightarrow> bool \<times> 's"

fun digest_pass :: "'s watch list \<Rightarrow> 's \<Rightarrow> bool \<times> 's" where
  "digest_pass [] s = (False, s)"
| "digest_pass (w # ws) s =
     (let (d, s1) = w s; (d', s2) = digest_pass ws s1 in (d \<or> d', s2))"

fun digest_loop :: "nat \<Rightarrow> 's watch list \<Rightarrow> 's \<Rightarrow> 's option" where
  "digest_loop ttl ws s = (case digest_pass ws s of
       (False, s1) \<Rightarrow> Some s1
     | (True, s1) \<Rightarrow> (case ttl of 0 \<Rightarrow> None | Suc n \<Rightarrow> digest_loop n ws s1))"

declare digest_loop.simps [simp del]

definition TTL :: nat where "TTL = 10"

definition digest :: "'s watch list \<Rightarrow> 's \<Rightarrow> 's option" where
  "digest = digest_loop TTL"

definition on_first :: "'s watch \<Rightarrow> ('s \<times> 'p) watch" where
  "on_first w = (\<lambda>(s, p). (let (d, s1) = w s in (d, (s1, p))))"

lemma digest_pass_append:
  "digest_pass (ws @ vs) s =
     (let (d, s1) = digest_pass ws s; (d', s2) = digest_pass vs s1 in (d \<or> d', s2))"
  by (induction ws arbitrary: s) (auto simp: Let_def split: prod.splits)

lemma digest_pass_first:
  "digest_pass (map on_first ws) (s, p) = (let (d, s1) = digest_pass ws s in (d, (s1, p)))"
  by (induction ws arbitrary: s) (auto simp: on_first_def Let_def split: prod.splits)

lemma digest_clean: "digest_pass ws s = (False, s1) \<Longrightarrow> digest_loop n ws s = Some s1"
  by (subst digest_loop.simps) simp

lemma digest_dirty:
  "digest_pass ws s = (True, s1) \<Longrightarrow> digest_loop (Suc n) ws s = digest_loop n ws s1"
  by (subst digest_loop.simps) simp

section \<open>The pagination directive\<close>

record page_link =
  pl_number :: int
  pl_text :: string
  pl_active :: bool
  pl_disabled :: bool

definition makePage :: "int \<Rightarrow> string \<Rightarrow> bool \<Rightarrow> bool \<Rightarrow> page_link" where
  "makePage number txt isActive isDisabled =
     \<lparr>pl_number = number, pl_text = txt, pl_active = isActive, pl_disabled = isDisabled\<rparr>"

record pagination_config =
  pc_boundaryLinks :: bool
  pc_directionLinks :: bool
  pc_firstText :: string
  pc_previousText :: string
  pc_nextText :: string
  pc_lastText :: string

definition paginationConfig :: pagination_config where
  "paginationConfig = \<lparr>pc_boundaryLinks = False, pc_directionLinks = True, pc_firstText = ''First'',
     pc_previousText = ''<'', pc_nextText = ''>'', pc_lastText = ''Last''\<rparr>"

text \<open>What the directive sees of the table: the bindings of its scope and the controller's \<open>changePage\<close>.\<close>

record 's host =
  h_numPages :: "'s \<Rightarrow> int"
  h_currentPage :: "'s \<Rightarrow> int"
  h_maxSize :: "'s \<Rightarrow> int"
  h_changePage :: "int \<Rightarrow> 's \<Rightarrow> 's"

record pager =
  pg_pages :: "page_link list"
  pg_watched :: "int option" \<comment> \<open>the last value of \<open>numPages + currentPage + maxSize\<close>\<close>

definition new_pager :: pager where
  "new_pager = \<lparr>pg_pages = [], pg_watched = None\<rparr>"

text \<open>The numbers of the first and the last page with a link.\<close>

definition page_window :: "int \<Rightarrow> int \<Rightarrow> int \<Rightarrow> int \<times> int" where
  "page_window numPages currentPage maxSize =
     (if maxSize \<noteq> 0 \<and> maxSize < numPages then
        (let startPage = max (currentPage - maxSize div 2) 1; endPage = startPage + maxSize - 1 in
         if endPage > numPages then (numPages - maxSize + 1, numPages) else (startPage, endPage))
      else (1, numPages))"

definition page_links :: "pagination_config \<Rightarrow> int \<Rightarrow> int \<Rightarrow> int \<Rightarrow> page_link list" where
  "page_links cfg numPages currentPage maxSize =
     (let (startPage, endPage) = page_window numPages currentPage maxSize;
          noPrevious = (currentPage = 1); noNext = (currentPage = numPages);
          numbers = map (\<lambda>n. makePage n (string_of_int n) (currentPage = n) False) [startPage .. endPage];
          directed = (if pc_directionLinks cfg
            then makePage (currentPage - 1) (pc_previousText cfg) False noPrevious # numbers
              @ [makePage (currentPage + 1) (pc_nextText cfg) False noNext]
            else numbers)
      in if pc_boundaryLinks cfg
         then makePage 1 (pc_firstText cfg) False noPrevious # directed
           @ [makePage numPages (pc_lastText cfg) False noNext]
         else directed)"

definition selectPage :: "'s host \<Rightarrow> int \<Rightarrow> 's \<Rightarrow> 's" where
  "selectPage h page s =
     (if page \<noteq> h_currentPage h s \<and> page > 0 \<and> page \<le> h_numPages h s then h_changePage h page s else s)"

definition links_of :: "'s host \<Rightarrow> 's \<Rightarrow> page_link list" where
  "links_of h s = page_links paginationConfig (h_numPages h s) (h_currentPage h s) (h_maxSize h s)"

definition watched_sum :: "'s host \<Rightarrow> 's \<Rightarrow> int" where
  "watched_sum h s = h_numPages h s + h_currentPage h s + h_maxSize h s"

definition pagination_listener :: "'s host \<Rightarrow> 's \<times> pager \<Rightarrow> 's \<times> pager" where
  "pagination_listener h = (\<lambda>(s, p).
     (if h_currentPage h s > h_numPages h s then selectPage h (h_numPages h s) s else s,
      p\<lparr>pg_pages := links_of h s\<rparr>))"

definition pagination_watch :: "'s host \<Rightarrow> ('s \<times> pager) watch" where
  "pagination_watch h = (\<lambda>(s, p).
     (if pg_watched p = Some (watched_sum h s) then (False, (s, p))
      else (True, pagination_listener h (s, p\<lparr>pg_watched := Some (watched_sum h s)\<rparr>))))"

text \<open>The watchers of a table in the order of their scopes: its own, then the directive's.\<close>

definition paged_watchers :: "'s host \<Rightarrow> 's watch list \<Rightarrow> ('s \<times> pager) watch list" where
  "paged_watchers h ws = map on_first ws @ [pagination_watch h]"

section \<open>What the directive relies on\<close>

definition well_paged :: "'s host \<Rightarrow> ('s \<Rightarrow> bool) \<Rightarrow> 's \<times> pager \<Rightarrow> bool" where
  "well_paged h ok = (\<lambda>(s, p). ok s \<and> 1 \<le> h_currentPage h s \<and> h_currentPage h s \<le> h_numPages h s
     \<and> pg_pages p = links_of h s \<and> pg_watched p = Some (watched_sum h s))"

text \<open>An unchanged sum means that the links are right and that the page exists.\<close>

definition trusted :: "'s host \<Rightarrow> 's \<times> pager \<Rightarrow> bool" where
  "trusted h = (\<lambda>(s, p). pg_watched p = Some (watched_sum h s)
     \<longrightarrow> pg_pages p = links_of h s \<and> h_currentPage h s \<le> h_numPages h s)"

locale page_host =
  fixes h :: "'s host" and ok :: "'s \<Rightarrow> bool"
  assumes some_page: "ok s \<Longrightarrow> 1 \<le> h_numPages h s"
    and turned: "ok s \<Longrightarrow> 1 \<le> p \<Longrightarrow> p \<le> h_numPages h s \<Longrightarrow>
      ok (h_changePage h p s) \<and> h_numPages h (h_changePage h p s) = h_numPages h s
      \<and> h_currentPage h (h_changePage h p s) = p \<and> h_maxSize h (h_changePage h p s) = h_maxSize h s"
begin

lemma select_ok: "ok s \<Longrightarrow> ok (selectPage h p s)"
  using turned [of s p] by (auto simp: selectPage_def)

lemma select_page:
  "ok s \<Longrightarrow> 1 \<le> h_currentPage h s \<Longrightarrow>
   h_currentPage h (selectPage h p s)
     = (if 1 \<le> p \<and> p \<le> h_numPages h s then p else h_currentPage h s)
   \<and> h_numPages h (selectPage h p s) = h_numPages h s \<and> h_maxSize h (selectPage h p s) = h_maxSize h s"
  using turned [of s p] by (auto simp: selectPage_def)

text \<open>After one run of the watcher the links are right, or the page has been corrected.\<close>

lemma watch_once:
  assumes "ok s" and "1 \<le> h_currentPage h s" and "trusted h (s, p)"
    and "pagination_watch h (s, p) = (d, s1, p1)"
  shows "well_paged h ok (s1, p1) \<or>
    d \<and> ok s1 \<and> h_currentPage h s1 = h_numPages h s1 \<and> pg_watched p1 \<noteq> Some (watched_sum h s1)"
  using assms turned [OF assms(1), of "h_numPages h s"] some_page [OF assms(1)]
  by (auto simp: pagination_watch_def pagination_listener_def well_paged_def trusted_def selectPage_def
      links_of_def watched_sum_def split: if_splits)

lemma watch_settled: "well_paged h ok (s, p) \<Longrightarrow> pagination_watch h (s, p) = (False, (s, p))"
  by (simp add: well_paged_def pagination_watch_def)

end

text \<open>
  The other watchers see no change in an \<open>ok\<close> state: then the digest ends after at most three
  more rounds, with the links of a page that exists.
\<close>

locale page_digest = page_host +
  fixes ws :: "'a watch list"
  assumes still: "ok s \<Longrightarrow> digest_pass ws s = (False, s)"
begin

lemma pass_ok: "ok s \<Longrightarrow> digest_pass (paged_watchers h ws) (s, p) = pagination_watch h (s, p)"
  by (simp add: paged_watchers_def digest_pass_append digest_pass_first still Let_def split: prod.splits)

lemma digest_settled: "well_paged h ok st \<Longrightarrow> digest_loop n (paged_watchers h ws) st = Some st"
  using watch_settled [of "fst st" "snd st"]
  by (intro digest_clean) (simp add: pass_ok well_paged_def split: prod.splits)

lemma digest_settles:
  assumes "ok s" and "1 \<le> h_currentPage h s" and "trusted h (s, p)" and "2 \<le> n"
  shows "\<exists>st. digest_loop n (paged_watchers h ws) (s, p) = Some st \<and> well_paged h ok st"
proof -
  obtain m where n: "n = Suc (Suc m)" using assms(4) by (metis Suc_le_D numeral_2_eq_2 Suc_le_mono)
  obtain d s1 p1 where w: "pagination_watch h (s, p) = (d, s1, p1)" by (cases "pagination_watch h (s, p)") auto
  consider "well_paged h ok (s1, p1)"
    | "d" "ok s1" "h_currentPage h s1 = h_numPages h s1" "pg_watched p1 \<noteq> Some (watched_sum h s1)"
    using watch_once [OF assms(1-3) w] by blast
  then show ?thesis
  proof cases
    case 1
    then show ?thesis
      using w pass_ok [OF assms(1), of p] digest_settled [OF 1]
      by (cases d) (auto simp: n digest_dirty digest_clean)
  next
    case 2
    obtain e s2 p2 where v: "pagination_watch h (s1, p1) = (e, s2, p2)" by (cases "pagination_watch h (s1, p1)") auto
    have "e" and s: "well_paged h ok (s2, p2)"
      using v 2 some_page [OF 2(2)]
      by (auto simp: pagination_watch_def pagination_listener_def well_paged_def links_of_def watched_sum_def
          split: if_splits)
    then show ?thesis
      using w v pass_ok [OF assms(1), of p] pass_ok [OF 2(2), of p1] 2(1) digest_settled [OF s]
      by (auto simp: n digest_dirty)
  qed
qed

text \<open>A round in which the other watchers make the state \<open>ok\<close>, and the rounds after it.\<close>

lemma digest_after:
  assumes "digest_pass ws s = (d, s1)" and "ok s1" and "1 \<le> h_currentPage h s1"
    and "trusted h (s1, p)" and "2 \<le> n"
  shows "\<exists>st. digest_loop (Suc n) (paged_watchers h ws) (s, p) = Some st \<and> well_paged h ok st"
proof -
  obtain e s2 p2 where w: "pagination_watch h (s1, p) = (e, s2, p2)" by (cases "pagination_watch h (s1, p)") auto
  have pass: "digest_pass (paged_watchers h ws) (s, p) = (d \<or> e, (s2, p2))"
    using assms(1) w by (simp add: paged_watchers_def digest_pass_append digest_pass_first)
  have ok2: "well_paged h ok (s2, p2) \<or> \<not> well_paged h ok (s2, p2) \<and> e \<and> ok s2
      \<and> h_currentPage h s2 = h_numPages h s2 \<and> pg_watched p2 \<noteq> Some (watched_sum h s2)"
    using watch_once [OF assms(2-4) w] by blast
  show ?thesis
  proof (cases "well_paged h ok (s2, p2)")
    case True
    then show ?thesis
      using pass digest_settled [OF True, of n] by (cases "d \<or> e") (auto simp: digest_dirty digest_clean)
  next
    case False
    then have "e" "ok s2" "1 \<le> h_currentPage h s2" "trusted h (s2, p2)"
      using ok2 some_page by (auto simp: trusted_def)
    then show ?thesis using pass digest_settles [of s2 p2 n] assms(5) by (auto simp: digest_dirty)
  qed
qed

end

section \<open>The links\<close>

lemma window_size:
  assumes "1 \<le> n" and "1 \<le> c" and "c \<le> n" and "1 \<le> m"
  shows "page_window n c m = (a, b) \<Longrightarrow> 1 \<le> a \<and> a \<le> c \<and> c \<le> b \<and> b \<le> n \<and> b - a + 1 = min m n"
proof -
  have "0 \<le> m div 2" and "m div 2 < m" using assms(4) by auto
  then show "page_window n c m = (a, b) \<Longrightarrow> 1 \<le> a \<and> a \<le> c \<and> c \<le> b \<and> b \<le> n \<and> b - a + 1 = min m n"
    using assms by (auto simp: page_window_def Let_def max_def min_def split: if_splits)
qed

end
