(* ===== verification/SmartTable.thy ===== *)
theory SmartTable
  imports Pagination Summaries JSON
begin

text \<open>
  The Smart-Table component behind the tables of the scheduler interface: its controller
  (\<open>TableCtrl\<close>), the array utilities, the two AngularJS filters it calls (\<open>filter\<close> with a search
  text and \<open>orderBy\<close> with a property name) and the watchers of its directives.  Rows and columns
  are objects with an identity: a row is an index into a store of objects, as is a column.  No
  page of the application sets \<open>sortAlgorithm\<close> or \<open>filterAlgorithm\<close>, so the filters of AngularJS
  are the ones called; the property names of the columns are plain identifiers.
\<close>

section \<open>Array utilities\<close>

definition removeAt :: "'a list \<Rightarrow> int \<Rightarrow> 'a option \<times> 'a list" where
  "removeAt arrayRef index =
     (if 0 \<le> index \<and> index < int (length arrayRef)
      then (Some (arrayRef ! nat index), take (nat index) arrayRef @ drop (Suc (nat index)) arrayRef)
      else (None, arrayRef))"

text \<open>The index is \<open>None\<close> where the caller passes none.\<close>

definition insertAt :: "'a list \<Rightarrow> int option \<Rightarrow> 'a \<Rightarrow> 'a list" where
  "insertAt arrayRef index item = (case index of
       Some i \<Rightarrow> if 0 \<le> i \<and> i < int (length arrayRef)
         then take (nat i) arrayRef @ item # drop (nat i) arrayRef else arrayRef @ [item]
     | None \<Rightarrow> arrayRef @ [item])"

definition moveAt :: "'a list \<Rightarrow> int \<Rightarrow> int \<Rightarrow> 'a list" where
  "moveAt arrayRef oldIndex newIndex =
     (if 0 \<le> oldIndex \<and> oldIndex < int (length arrayRef) \<and> 0 \<le> newIndex \<and> newIndex < int (length arrayRef)
      then (let rest = take (nat oldIndex) arrayRef @ drop (Suc (nat oldIndex)) arrayRef in
            take (nat newIndex) rest @ arrayRef ! nat oldIndex # drop (nat newIndex) rest)
      else arrayRef)"

definition fromTo :: "'a list \<Rightarrow> int \<Rightarrow> int \<Rightarrow> 'a list" where
  "fromTo arrayRef mn len =
     (let start0 = max mn 0;
          start = min start0 (if int (length arrayRef) - 1 > 0 then int (length arrayRef) - 1 else 0);
          limit = min (start + max 0 len) (int (length arrayRef))
      in map (\<lambda>i. arrayRef ! nat i) [start .. limit - 1])"

definition index_in :: "'a list \<Rightarrow> 'a \<Rightarrow> int" where
  "index_in xs x = (if x \<in> set xs then int (length (takeWhile (\<lambda>y. y \<noteq> x) xs)) else -1)"

section \<open>The filters of AngularJS\<close>

text \<open>A value of a row is \<open>None\<close> when the property is missing: \<open>undefined\<close>.\<close>

fun type_of :: "json option \<Rightarrow> string" where
  "type_of None = ''undefined''"
| "type_of (Some (JBool b)) = ''boolean''"
| "type_of (Some (JNum x)) = ''number''"
| "type_of (Some (JStr s)) = ''string''"
| "type_of (Some JNull) = ''object''"
| "type_of (Some (JArr xs)) = ''object''"
| "type_of (Some (JObj ps)) = ''object''"

text \<open>\<open>===\<close> and \<open><\<close> on two values of one type; two objects are distinct and neither is less.\<close>

fun same_value :: "json option \<Rightarrow> json option \<Rightarrow> bool" where
  "same_value None None = True"
| "same_value (Some (JBool a)) (Some (JBool b)) = (a = b)"
| "same_value (Some (JNum x)) (Some (JNum y)) = js_eq x y"
| "same_value (Some (JStr s)) (Some (JStr t)) = (s = t)"
| "same_value (Some JNull) (Some JNull) = True"
| "same_value _ _ = False"

fun less_value :: "json option \<Rightarrow> json option \<Rightarrow> bool" where
  "less_value (Some (JBool a)) (Some (JBool b)) = (\<not> a \<and> b)"
| "less_value (Some (JNum x)) (Some (JNum y)) = (js_ge y x \<and> \<not> js_eq x y)"
| "less_value (Some (JStr s)) (Some (JStr t)) = (s < t)"
| "less_value _ _ = False"

fun lower_value :: "json option \<Rightarrow> json option" where
  "lower_value (Some (JStr s)) = Some (JStr (to_lower s))"
| "lower_value v = v"

definition order_compare :: "json option \<Rightarrow> json option \<Rightarrow> int" where
  "order_compare v1 v2 =
     (let t1 = type_of v1; t2 = type_of v2 in
      if t1 = t2 then
        (let w1 = lower_value v1; w2 = lower_value v2 in
         if same_value w1 w2 then 0 else if less_value w1 w2 then -1 else 1)
      else if t1 < t2 then -1 else 1)"

definition reverseComparator :: "('a \<Rightarrow> 'a \<Rightarrow> int) \<Rightarrow> bool \<Rightarrow> 'a \<Rightarrow> 'a \<Rightarrow> int" where
  "reverseComparator cmp descending = (if descending then (\<lambda>a b. cmp b a) else cmp)"

text \<open>A predicate may begin with a sign; the empty one leaves the array as it is.\<close>

definition orderBy :: "('r \<Rightarrow> json obj) \<Rightarrow> 'r list \<Rightarrow> string \<Rightarrow> bool \<Rightarrow> 'r list" where
  "orderBy props array sortPredicate reverseOrder =
     (if sortPredicate = '''' then array
      else (let signed = hd sortPredicate \<in> {CHR ''+'', CHR ''-''};
                descending = (hd sortPredicate = CHR ''-'');
                name = (if signed then tl sortPredicate else sortPredicate);
                comparator = reverseComparator
                  (\<lambda>a b. order_compare (obj_get (props a) name) (obj_get (props b) name)) descending
            in array_sort (reverseComparator comparator reverseOrder) array))"

text \<open>\<open>(''+obj).toLowerCase().indexOf(text) > -1\<close>\<close>

fun occurs_in :: "string \<Rightarrow> string \<Rightarrow> bool" where
  "occurs_in p [] \<longleftrightarrow> p = []"
| "occurs_in p (c # s) \<longleftrightarrow> take (length p) (c # s) = p \<or> occurs_in p s"

definition text_matches :: "string \<Rightarrow> string \<Rightarrow> bool" where
  "text_matches txt s = occurs_in (to_lower txt) (to_lower s)"

text \<open>
  The search through a value for a text that does not begin with an exclamation mark.  An array
  is an object for \<open>typeof\<close>: its elements are its properties.
\<close>

fun found_in :: "string \<Rightarrow> json \<Rightarrow> bool"
  and found_elem :: "string \<Rightarrow> json list \<Rightarrow> bool"
  and found_prop :: "string \<Rightarrow> (string \<times> json) list \<Rightarrow> bool" where
  "found_in txt (JBool b) = text_matches txt (if b then ''true'' else ''false'')"
| "found_in txt (JNum x) = text_matches txt (num_to_string x)"
| "found_in txt (JStr s) = text_matches txt s"
| "found_in txt JNull = False"
| "found_in txt (JArr xs) = found_elem txt xs"
| "found_in txt (JObj ps) = found_prop txt ps"
| "found_elem txt [] = False"
| "found_elem txt (x # xs) = (found_in txt x \<or> found_elem txt xs)"
| "found_prop txt [] = False"
| "found_prop txt ((k, x) # ps) = (take 1 k \<noteq> ''$'' \<and> found_in txt x \<or> found_prop txt ps)"

fun ng_search :: "json option \<Rightarrow> string \<Rightarrow> bool" where
  "ng_search v [] = (case v of None \<Rightarrow> False | Some x \<Rightarrow> found_in [] x)"
| "ng_search v (c # txt) = (if c = CHR ''!'' then \<not> ng_search v txt
     else (case v of None \<Rightarrow> False | Some x \<Rightarrow> found_in (c # txt) x))"

definition filterFilter :: "('r \<Rightarrow> json obj) \<Rightarrow> 'r list \<Rightarrow> string obj \<Rightarrow> 'r list" where
  "filterFilter props array expression =
     filter (\<lambda>r. list_all (\<lambda>(path, txt).
       ng_search (if path = ''$'' then Some (JObj (props r)) else obj_get (props r) path) txt) expression) array"

section \<open>The state of a table\<close>

text \<open>What a page passes for a column, and the \<open>Column\<close> object made of it.\<close>

record column_config =
  ccf_map :: string
  ccf_isSortable :: "bool option"
  ccf_sortPredicate :: string
  ccf_isSelectionColumn :: bool

record table_column =
  tcl_map :: string
  tcl_isSortable :: bool
  tcl_sortPredicate :: string
  tcl_reverse :: "bool option"
  tcl_isSelectionColumn :: bool

definition Column :: "column_config \<Rightarrow> table_column" where
  "Column config = \<lparr>tcl_map = ccf_map config,
     tcl_isSortable = (case ccf_isSortable config of Some b \<Rightarrow> b | None \<Rightarrow> True),
     tcl_sortPredicate = ccf_sortPredicate config, tcl_reverse = None,
     tcl_isSelectionColumn = ccf_isSelectionColumn config\<rparr>"

definition plain_column :: "string \<Rightarrow> column_config" where
  "plain_column m = \<lparr>ccf_map = m, ccf_isSortable = None, ccf_sortPredicate = '''', ccf_isSelectionColumn = False\<rparr>"

definition selection_column :: column_config where
  "selection_column = \<lparr>ccf_map = '''', ccf_isSortable = None, ccf_sortPredicate = '''', ccf_isSelectionColumn = True\<rparr>"

record settings =
  set_selectionMode :: string
  set_isGlobalSearchActivated :: bool
  set_displaySelectionCheckbox :: bool
  set_isPaginationEnabled :: bool
  set_itemsByPage :: int
  set_maxSize :: int

definition DefaultTableConfiguration :: settings where
  "DefaultTableConfiguration = \<lparr>set_selectionMode = ''none'', set_isGlobalSearchActivated = False,
     set_displaySelectionCheckbox = False, set_isPaginationEnabled = True, set_itemsByPage = 10,
     set_maxSize = 5\<rparr>"

text \<open>\<open>angular.extend({}, defaultConfig, config)\<close>: a page's object overrides what it sets.\<close>

definition extend_config :: "table_config option \<Rightarrow> settings" where
  "extend_config config = (case config of None \<Rightarrow> DefaultTableConfiguration
     | Some c \<Rightarrow> DefaultTableConfiguration\<lparr>set_selectionMode := tc_selectionMode c,
         set_isGlobalSearchActivated := tc_isGlobalSearchActivated c,
         set_isPaginationEnabled := tc_isPaginationEnabled c,
         set_itemsByPage := (case tc_itemsByPage c of Some n \<Rightarrow> int n | None \<Rightarrow> 10),
         set_maxSize := (case tc_maxSize c of Some n \<Rightarrow> int n | None \<Rightarrow> 5)\<rparr>)"

datatype signal =
    SelectionChange nat
  | PageChange int int
  | RowUpdate nat

record smart_table =
  t_columns :: "nat list"
  t_column :: "nat \<Rightarrow> table_column" \<comment> \<open>the column objects\<close>
  t_nextColumn :: nat
  t_rows :: "nat list" \<comment> \<open>\<open>dataCollection\<close>\<close>
  t_row :: "nat \<Rightarrow> json obj" \<comment> \<open>the row objects\<close>
  t_displayed :: "nat list" \<comment> \<open>\<open>displayedCollection\<close>\<close>
  t_numberOfPages :: int
  t_currentPage :: int
  t_isAllSelected :: bool
  t_predicate :: "string obj"
  t_lastColumnSort :: "nat option"
  t_set :: settings
  t_signals :: "signal list" \<comment> \<open>what \<open>$emit\<close> was called with\<close>
  t_config :: "table_config option" \<comment> \<open>the attribute \<open>config\<close>\<close>
  t_columnCollection :: "column_config list option" \<comment> \<open>the attribute \<open>columns\<close>\<close>
  t_searchValue :: string
  w_config :: "table_config option option" \<comment> \<open>the last values of the four watchers\<close>
  w_columns :: "column_config list option option"
  w_length :: "nat option"
  w_search :: "string option"

section \<open>The controller\<close>

definition isSelected :: "json obj \<Rightarrow> bool" where
  "isSelected r \<longleftrightarrow> obj_get r ''isSelected'' = Some (JBool True)"

definition allSelected :: "smart_table \<Rightarrow> bool" where
  "allSelected s = list_all (\<lambda>r. isSelected (t_row s r)) (t_displayed s)"

definition calculateNumberOfPages :: "int \<Rightarrow> 'a list \<Rightarrow> int" where
  "calculateNumberOfPages itemsByPage array =
     (if array = [] \<or> itemsByPage < 1 then 1 else - ((- int (length array)) div itemsByPage))"

definition sortDataRow :: "smart_table \<Rightarrow> nat list \<Rightarrow> nat option \<Rightarrow> nat list" where
  "sortDataRow s array column = (case column of None \<Rightarrow> array
     | Some c \<Rightarrow> (case tcl_reverse (t_column s c) of None \<Rightarrow> array
         | Some r \<Rightarrow> orderBy (t_row s) array (tcl_sortPredicate (t_column s c)) r))"

text \<open>The rows in the order in which the pages show them.\<close>

definition arranged :: "smart_table \<Rightarrow> nat list" where
  "arranged s = sortDataRow s (filterFilter (t_row s) (t_rows s) (t_predicate s)) (t_lastColumnSort s)"

definition shown_part :: "smart_table \<Rightarrow> nat list \<Rightarrow> nat list" where
  "shown_part s output =
     (if set_isPaginationEnabled (t_set s)
      then fromTo output ((t_currentPage s - 1) * set_itemsByPage (t_set s)) (set_itemsByPage (t_set s))
      else output)"

text \<open>\<open>displayedCollection = pipe(dataCollection)\<close>, the way every operation refreshes the table.\<close>

definition refresh :: "smart_table \<Rightarrow> smart_table" where
  "refresh s =
     (let output = arranged s;
          s1 = s\<lparr>t_numberOfPages := calculateNumberOfPages (set_itemsByPage (t_set s)) output\<rparr>
      in s1\<lparr>t_displayed := shown_part s1 output\<rparr>)"

definition changePage :: "int \<Rightarrow> smart_table \<Rightarrow> smart_table" where
  "changePage page s =
     (let s1 = refresh (s\<lparr>t_currentPage := page\<rparr>) in
      s1\<lparr>t_isAllSelected := allSelected s1, t_signals := t_signals s1 @ [PageChange (t_currentPage s) page]\<rparr>)"

definition next_reverse :: "bool option \<Rightarrow> bool option" where
  "next_reverse r = (case r of None \<Rightarrow> Some False | Some False \<Rightarrow> Some True | Some True \<Rightarrow> None)"

definition mark_column :: "nat \<Rightarrow> smart_table \<Rightarrow> smart_table" where
  "mark_column c s =
     (let cols = (case t_lastColumnSort s of None \<Rightarrow> t_column s
            | Some l \<Rightarrow> if l \<noteq> c then (t_column s)(l := (t_column s l)\<lparr>tcl_reverse := None\<rparr>) else t_column s);
          pred = (if tcl_sortPredicate (cols c) = '''' then tcl_map (cols c) else tcl_sortPredicate (cols c))
      in s\<lparr>t_column := cols(c := (cols c)\<lparr>tcl_sortPredicate := pred, tcl_reverse := next_reverse (tcl_reverse (cols c))\<rparr>),
           t_lastColumnSort := Some c\<rparr>)"

definition sortBy :: "nat option \<Rightarrow> smart_table \<Rightarrow> smart_table" where
  "sortBy column s = refresh (case column of
       Some c \<Rightarrow> if c \<in> set (t_columns s) \<and> tcl_isSortable (t_column s c) then mark_column c s else s
     | None \<Rightarrow> s)"

definition search :: "string \<Rightarrow> nat option \<Rightarrow> smart_table \<Rightarrow> smart_table" where
  "search input column s = refresh (case column of
       Some c \<Rightarrow> if c \<in> set (t_columns s)
         then s\<lparr>t_predicate := obj_set (tcl_map (t_column s c)) input (t_predicate s)\<rparr>
         else s\<lparr>t_predicate := [(''$'', input)]\<rparr>
     | None \<Rightarrow> s\<lparr>t_predicate := [(''$'', input)]\<rparr>)"

subsection \<open>Columns\<close>

definition insertColumn :: "column_config \<Rightarrow> int option \<Rightarrow> smart_table \<Rightarrow> smart_table" where
  "insertColumn columnConfig index s =
     s\<lparr>t_column := (t_column s)(t_nextColumn s := Column columnConfig),
       t_columns := insertAt (t_columns s) index (t_nextColumn s),
       t_nextColumn := Suc (t_nextColumn s)\<rparr>"

definition removeColumn :: "int \<Rightarrow> smart_table \<Rightarrow> smart_table" where
  "removeColumn columnIndex s = s\<lparr>t_columns := snd (removeAt (t_columns s) columnIndex)\<rparr>"

definition moveColumn :: "int \<Rightarrow> int \<Rightarrow> smart_table \<Rightarrow> smart_table" where
  "moveColumn oldIndex newIndex s = s\<lparr>t_columns := moveAt (t_columns s) oldIndex newIndex\<rparr>"

definition clearColumns :: "smart_table \<Rightarrow> smart_table" where
  "clearColumns s = s\<lparr>t_columns := []\<rparr>"

subsection \<open>Rows\<close>

definition set_selected :: "nat \<Rightarrow> bool \<Rightarrow> smart_table \<Rightarrow> smart_table" where
  "set_selected r b s = s\<lparr>t_row := (t_row s)(r := obj_set ''isSelected'' (JBool b) (t_row s r))\<rparr>"

definition unselect :: "smart_table \<Rightarrow> nat \<Rightarrow> smart_table" where
  "unselect s r =
     (let old = isSelected (t_row s r); s1 = set_selected r False s in
      if old then s1\<lparr>t_signals := t_signals s1 @ [SelectionChange r]\<rparr> else s1)"

definition selectDataRow :: "nat list \<Rightarrow> string \<Rightarrow> int \<Rightarrow> bool \<Rightarrow> smart_table \<Rightarrow> smart_table" where
  "selectDataRow array selectionMode index select s =
     (if selectionMode \<noteq> ''multiple'' \<and> selectionMode \<noteq> ''single'' then s
      else if 0 \<le> index \<and> index < int (length array) then
        (let dataRow = array ! nat index;
             s1 = (if selectionMode = ''single'' then foldl unselect s array else s);
             s2 = set_selected dataRow select s1
         in s2\<lparr>t_isAllSelected := allSelected s2, t_signals := t_signals s2 @ [SelectionChange dataRow]\<rparr>)
      else s)"

definition toggleSelection :: "nat \<Rightarrow> smart_table \<Rightarrow> smart_table" where
  "toggleSelection dataRow s =
     (let index = index_in (t_rows s) dataRow in
      if index \<noteq> -1
      then selectDataRow (t_rows s) (set_selectionMode (t_set s)) index (\<not> isSelected (t_row s dataRow)) s
      else s)"

definition toggleSelectionAll :: "bool \<Rightarrow> smart_table \<Rightarrow> smart_table" where
  "toggleSelectionAll v s =
     (if set_selectionMode (t_set s) \<noteq> ''multiple'' then s
      else foldl (\<lambda>s i. selectDataRow (t_displayed s) (set_selectionMode (t_set s)) i v s) s
        [0 .. int (length (t_displayed s)) - 1])"

definition removeDataRow :: "int \<Rightarrow> smart_table \<Rightarrow> smart_table" where
  "removeDataRow rowIndex s =
     (let (toRemove, displayed) = removeAt (t_displayed s) rowIndex;
          index = (case toRemove of None \<Rightarrow> -1 | Some r \<Rightarrow> index_in (t_rows s) r)
      in s\<lparr>t_displayed := displayed, t_rows := snd (removeAt (t_rows s) index)\<rparr>)"

definition moveDataRow :: "int \<Rightarrow> int \<Rightarrow> smart_table \<Rightarrow> smart_table" where
  "moveDataRow oldIndex newIndex s = s\<lparr>t_displayed := moveAt (t_displayed s) oldIndex newIndex\<rparr>"

definition updateDataRow :: "nat \<Rightarrow> string \<Rightarrow> json \<Rightarrow> smart_table \<Rightarrow> smart_table" where
  "updateDataRow dataRow propertyName newValue s =
     (if dataRow \<in> set (t_displayed s)
         \<and> \<not> same_value (obj_get (t_row s dataRow) propertyName) (Some newValue)
      then s\<lparr>t_row := (t_row s)(dataRow := obj_set propertyName newValue (t_row s dataRow)),
             t_signals := t_signals s @ [RowUpdate dataRow]\<rparr>
      else s)"

section \<open>The directives\<close>

definition config_listener :: "smart_table \<Rightarrow> smart_table" where
  "config_listener s =
     (let newConfig = extend_config (t_config s); n = length (t_columns s); s1 = s\<lparr>t_set := newConfig\<rparr> in
      if set_selectionMode newConfig \<noteq> ''multiple'' \<or> \<not> set_displaySelectionCheckbox newConfig
      then foldl (\<lambda>s i. if tcl_isSelectionColumn (t_column s (t_columns s ! i)) then removeColumn (int i) s else s)
        s1 (rev [0..<n])
      else insertColumn selection_column (Some 0) s1)"

text \<open>Without a collection of columns the properties of the first row become the columns.\<close>

definition columns_listener :: "smart_table \<Rightarrow> smart_table" where
  "columns_listener s =
     (let configs = (case t_columnCollection s of Some cs \<Rightarrow> cs
            | None \<Rightarrow> (case t_rows s of [] \<Rightarrow> []
                | r # rs \<Rightarrow> map plain_column (filter (\<lambda>k. take 1 k \<noteq> ''$'') (obj_keys (t_row s r)))))
      in foldl (\<lambda>s c. insertColumn c None s) (clearColumns s) configs)"

definition watch_config :: "smart_table watch" where
  "watch_config s = (if w_config s = Some (t_config s) then (False, s)
     else (True, config_listener (s\<lparr>w_config := Some (t_config s)\<rparr>)))"

definition watch_columns :: "smart_table watch" where
  "watch_columns s = (if w_columns s = Some (t_columnCollection s) then (False, s)
     else (True, columns_listener (s\<lparr>w_columns := Some (t_columnCollection s)\<rparr>)))"

text \<open>The first call of a listener passes the value itself as the old value: no refresh.\<close>

definition watch_length :: "smart_table watch" where
  "watch_length s = (if w_length s = Some (length (t_rows s)) then (False, s)
     else (True, (let s1 = s\<lparr>w_length := Some (length (t_rows s))\<rparr> in
       if w_length s = None then s1 else sortBy None s1)))"

definition watch_search :: "smart_table watch" where
  "watch_search s = (if w_search s = Some (t_searchValue s) then (False, s)
     else (True, search (t_searchValue s) None (s\<lparr>w_search := Some (t_searchValue s)\<rparr>)))"

definition table_watches :: "smart_table watch list" where
  "table_watches = [watch_config, watch_columns, watch_length, watch_search]"

definition table_host :: "smart_table host" where
  "table_host = \<lparr>h_numPages = t_numberOfPages, h_currentPage = t_currentPage,
     h_maxSize = (\<lambda>s. set_maxSize (t_set s)), h_changePage = changePage\<rparr>"

text \<open>
  A table when its element is linked, before the first digest.  The controller computes a first
  \<open>numberOfPages\<close> before \<open>itemsByPage\<close> is set; nothing reads it before \<open>watch_search\<close> refreshes the table
  in the first round.
\<close>

definition link_table :: "table_config option \<Rightarrow> column_config list option \<Rightarrow> nat list
    \<Rightarrow> (nat \<Rightarrow> json obj) \<Rightarrow> smart_table" where
  "link_table config columns rows objs =
     \<lparr>t_columns = [], t_column = (\<lambda>c. Column (plain_column '''')), t_nextColumn = 0, t_rows = rows,
      t_row = objs, t_displayed = [], t_numberOfPages = 1,
      t_currentPage = 1, t_isAllSelected = False, t_predicate = [], t_lastColumnSort = None,
      t_set = DefaultTableConfiguration, t_signals = [], t_config = config, t_columnCollection = columns,
      t_searchValue = '''', w_config = None, w_columns = None, w_length = None, w_search = None\<rparr>"

section \<open>A table on a page\<close>

text \<open>
  What happens to a table: the page binds new values to its attributes, or the user types into
  the search field, clicks on a header, on a link of the pagination or on a row.  A digest follows.
\<close>

datatype table_event =
    Bind "table_config option" "column_config list option" "nat list" "nat \<Rightarrow> json obj"
  | BindColumns "column_config list option"
  | Type string
  | ClickHeader nat
  | ClickPage int
  | ClickRow nat

fun table_handle :: "table_event \<Rightarrow> smart_table \<Rightarrow> smart_table" where
  "table_handle (Bind config columns rows objs) s =
     s\<lparr>t_config := config, t_columnCollection := columns, t_rows := rows, t_row := objs\<rparr>"
| "table_handle (BindColumns columns) s = s\<lparr>t_columnCollection := columns\<rparr>"
| "table_handle (Type txt) s = s\<lparr>t_searchValue := txt\<rparr>"
| "table_handle (ClickHeader c) s = sortBy (Some c) s"
| "table_handle (ClickPage n) s = selectPage table_host n s"
| "table_handle (ClickRow r) s = toggleSelection r s"

definition table_digest :: "smart_table \<times> pager \<Rightarrow> (smart_table \<times> pager) option" where
  "table_digest = digest (paged_watchers table_host table_watches)"

definition open_table :: "table_config option \<Rightarrow> column_config list option \<Rightarrow> nat list
    \<Rightarrow> (nat \<Rightarrow> json obj) \<Rightarrow> (smart_table \<times> pager) option" where
  "open_table config columns rows objs = table_digest (link_table config columns rows objs, new_pager)"

definition table_step :: "table_event \<Rightarrow> smart_table \<times> pager \<Rightarrow> (smart_table \<times> pager) option" where
  "table_step e = (\<lambda>(s, p). table_digest (table_handle e s, p))"

fun table_run :: "table_event list \<Rightarrow> smart_table \<times> pager \<Rightarrow> (smart_table \<times> pager) option" where
  "table_run [] st = Some st"
| "table_run (e # es) st = (case table_step e st of None \<Rightarrow> None | Some st' \<Rightarrow> table_run es st')"

section \<open>Pages\<close>

text \<open>
  A table is fresh when what it shows is the part of the arranged rows that belongs to the current
  page, and quiet when its watchers have seen the values they watch.
\<close>

definition table_fresh :: "smart_table \<Rightarrow> bool" where
  "table_fresh s \<longleftrightarrow> t_numberOfPages s = calculateNumberOfPages (set_itemsByPage (t_set s)) (arranged s)
     \<and> t_displayed s = shown_part s (arranged s)"

definition quiet :: "smart_table \<Rightarrow> bool" where
  "quiet s \<longleftrightarrow> w_config s = Some (t_config s) \<and> w_columns s = Some (t_columnCollection s)
     \<and> w_length s = Some (length (t_rows s)) \<and> w_search s = Some (t_searchValue s)
     \<and> t_set s = extend_config (t_config s)"

text \<open>Column objects are never reused, and only the column sorted by is marked.\<close>

definition columns_ok :: "smart_table \<Rightarrow> bool" where
  "columns_ok s \<longleftrightarrow> (\<forall>c \<in> set (t_columns s). c < t_nextColumn s)
     \<and> (\<forall>c. t_lastColumnSort s = Some c \<longrightarrow> c < t_nextColumn s)
     \<and> (\<forall>c. tcl_reverse (t_column s c) \<noteq> None \<longrightarrow> t_lastColumnSort s = Some c)"

definition table_ok :: "smart_table \<Rightarrow> bool" where
  "table_ok s \<longleftrightarrow> table_fresh s \<and> quiet s \<and> columns_ok s"

lemmas ok_defs = table_ok_def table_fresh_def quiet_def columns_ok_def

lemma number_of_pages_pos: "1 \<le> calculateNumberOfPages k xs"
proof (cases "xs = [] \<or> k < 1")
  case False
  then have "- int (length xs) div k < 0" by (simp add: div_neg_pos_less0)
  then show ?thesis using False by (simp add: calculateNumberOfPages_def)
qed (auto simp: calculateNumberOfPages_def)

lemma refresh_fields [simp]:
  "t_columns (refresh s) = t_columns s" "t_column (refresh s) = t_column s"
  "t_nextColumn (refresh s) = t_nextColumn s" "t_rows (refresh s) = t_rows s" "t_row (refresh s) = t_row s"
  "t_currentPage (refresh s) = t_currentPage s" "t_predicate (refresh s) = t_predicate s"
  "t_lastColumnSort (refresh s) = t_lastColumnSort s" "t_set (refresh s) = t_set s"
  "t_config (refresh s) = t_config s" "t_columnCollection (refresh s) = t_columnCollection s"
  "t_searchValue (refresh s) = t_searchValue s" "w_config (refresh s) = w_config s"
  "w_columns (refresh s) = w_columns s" "w_length (refresh s) = w_length s" "w_search (refresh s) = w_search s"
  by (simp_all add: refresh_def Let_def)

lemma arranged_cong:
  "t_rows s = t_rows s' \<Longrightarrow> t_row s = t_row s' \<Longrightarrow> t_predicate s = t_predicate s' \<Longrightarrow>
   t_lastColumnSort s = t_lastColumnSort s' \<Longrightarrow>
   (\<And>c. t_lastColumnSort s = Some c \<Longrightarrow> t_column s c = t_column s' c) \<Longrightarrow> arranged s = arranged s'"
  by (auto simp: arranged_def sortDataRow_def split: option.splits)

lemma arranged_refresh [simp]: "arranged (refresh s) = arranged s"
  by (rule arranged_cong) simp_all

lemma shown_part_cong:
  "t_set s = t_set s' \<Longrightarrow> t_currentPage s = t_currentPage s' \<Longrightarrow> shown_part s = shown_part s'"
  by (auto simp: shown_part_def)

lemma refresh_result:
  "t_numberOfPages (refresh s) = calculateNumberOfPages (set_itemsByPage (t_set s)) (arranged s)"
  "t_displayed (refresh s) = shown_part s (arranged s)"
  by (simp_all add: refresh_def Let_def shown_part_def)

lemma refresh_fresh: "table_fresh (refresh s)"
  by (simp add: table_fresh_def refresh_result shown_part_def)

lemma refresh_ok: "quiet s \<Longrightarrow> columns_ok s \<Longrightarrow> table_ok (refresh s)"
  using refresh_fresh by (simp add: table_ok_def quiet_def columns_ok_def)

lemma change_page:
  "t_currentPage (changePage p s) = p" "t_set (changePage p s) = t_set s"
  "t_numberOfPages (changePage p s) = calculateNumberOfPages (set_itemsByPage (t_set s)) (arranged s)"
  "t_displayed (changePage p s) = shown_part (s\<lparr>t_currentPage := p\<rparr>) (arranged s)"
  "arranged (changePage p s) = arranged s"
proof -
  have a: "arranged (s\<lparr>t_currentPage := p\<rparr>) = arranged s" by (rule arranged_cong) simp_all
  show "t_numberOfPages (changePage p s) = calculateNumberOfPages (set_itemsByPage (t_set s)) (arranged s)"
    "t_displayed (changePage p s) = shown_part (s\<lparr>t_currentPage := p\<rparr>) (arranged s)"
    by (simp_all add: changePage_def Let_def refresh_result a)
  have "arranged (changePage p s) = arranged (refresh (s\<lparr>t_currentPage := p\<rparr>))"
    by (rule arranged_cong) (simp_all add: changePage_def Let_def)
  then show "arranged (changePage p s) = arranged s" using a by simp
qed (simp_all add: changePage_def Let_def)

lemma change_page_ok: "table_ok s \<Longrightarrow> table_ok (changePage p s)"
  by (simp add: table_ok_def table_fresh_def change_page)
     (simp add: shown_part_def change_page quiet_def columns_ok_def changePage_def Let_def)

lemma quiet_pass: "quiet s \<Longrightarrow> digest_pass table_watches s = (False, s)"
  by (simp add: table_watches_def watch_config_def watch_columns_def watch_length_def watch_search_def quiet_def)

lemma host_simps [simp]:
  "h_numPages table_host s = t_numberOfPages s" "h_currentPage table_host s = t_currentPage s"
  "h_maxSize table_host s = set_maxSize (t_set s)" "h_changePage table_host = changePage"
  by (simp_all add: table_host_def)

interpretation tp: page_digest table_host table_ok table_watches
proof
  fix s p
  assume ok: "table_ok s"
  show "1 \<le> h_numPages table_host s"
    using ok number_of_pages_pos by (simp add: table_ok_def table_fresh_def)
  show "digest_pass table_watches s = (False, s)"
    using ok quiet_pass by (simp add: table_ok_def)
  show "table_ok (h_changePage table_host p s) \<and>
      h_numPages table_host (h_changePage table_host p s) = h_numPages table_host s \<and>
      h_currentPage table_host (h_changePage table_host p s) = p \<and>
      h_maxSize table_host (h_changePage table_host p s) = h_maxSize table_host s"
    using ok change_page_ok [OF ok, of p] by (simp add: change_page table_ok_def table_fresh_def)
qed

section \<open>Changes of the columns\<close>

text \<open>
  Inserting and removing columns leaves everything else as it is; the objects of the columns there
  were before are not touched, and new columns are not marked.
\<close>

definition apart_columns :: "smart_table \<Rightarrow> smart_table" where
  "apart_columns s = s\<lparr>t_columns := [], t_column := (\<lambda>c. Column selection_column), t_nextColumn := 0\<rparr>"

definition only_columns :: "smart_table \<Rightarrow> smart_table \<Rightarrow> bool" where
  "only_columns s s' \<longleftrightarrow> apart_columns s' = apart_columns s
     \<and> t_nextColumn s \<le> t_nextColumn s' \<and> (\<forall>c < t_nextColumn s. t_column s' c = t_column s c)
     \<and> (\<forall>c. tcl_reverse (t_column s c) = None \<longrightarrow> tcl_reverse (t_column s' c) = None)
     \<and> ((\<forall>c \<in> set (t_columns s). c < t_nextColumn s) \<longrightarrow> (\<forall>c \<in> set (t_columns s'). c < t_nextColumn s'))"

lemma only_columns_refl: "only_columns s s"
  by (simp add: only_columns_def)

lemma only_columns_trans: "only_columns s s1 \<Longrightarrow> only_columns s1 s2 \<Longrightarrow> only_columns s s2"
  by (auto simp: only_columns_def)

lemma only_columns_foldl: "(\<And>s x. x \<in> set xs \<Longrightarrow> only_columns s (f s x)) \<Longrightarrow> only_columns s (foldl f s xs)"
proof (induction xs arbitrary: s)
  case (Cons x xs)
  have "only_columns s (f s x)" and "only_columns (f s x) (foldl f (f s x) xs)" using Cons by simp_all
  then show ?case by (simp add: only_columns_trans [of s "f s x"])
qed (simp add: only_columns_refl)

lemma set_insertAt: "set (insertAt xs i x) = insert x (set xs)"
proof -
  have "insert x (set (take k xs) \<union> set (drop k xs)) = insert x (set xs)" for k
    by (metis append_take_drop_id set_append)
  then show ?thesis by (auto simp: insertAt_def split: option.splits)
qed

lemma set_removeAt: "set (snd (removeAt xs i)) \<subseteq> set xs"
  by (auto simp: removeAt_def dest: in_set_takeD in_set_dropD)

lemma insertColumn_only: "only_columns s (insertColumn c i s)"
  by (auto simp: only_columns_def apart_columns_def insertColumn_def set_insertAt Column_def)

lemma removeColumn_only: "only_columns s (removeColumn i s)"
  using set_removeAt [of "t_columns s" i] by (auto simp: only_columns_def apart_columns_def removeColumn_def)

lemma clearColumns_only: "only_columns s (clearColumns s)"
  by (simp add: only_columns_def apart_columns_def clearColumns_def)

lemma config_listener_only: "only_columns (s\<lparr>t_set := extend_config (t_config s)\<rparr>) (config_listener s)"
  unfolding config_listener_def Let_def
  by (auto intro!: only_columns_foldl insertColumn_only removeColumn_only only_columns_refl)

lemma columns_listener_only: "only_columns s (columns_listener s)"
  unfolding columns_listener_def Let_def
  by (rule only_columns_trans [OF clearColumns_only])
     (auto intro: only_columns_foldl insertColumn_only)

lemma only_columns_fields:
  assumes "only_columns s s'"
  shows "t_rows s' = t_rows s" "t_row s' = t_row s" "t_currentPage s' = t_currentPage s"
    "t_predicate s' = t_predicate s" "t_lastColumnSort s' = t_lastColumnSort s" "t_set s' = t_set s"
    "t_config s' = t_config s" "t_columnCollection s' = t_columnCollection s"
    "t_searchValue s' = t_searchValue s" "w_config s' = w_config s" "w_columns s' = w_columns s"
    "w_length s' = w_length s" "w_search s' = w_search s" "t_displayed s' = t_displayed s"
    "t_numberOfPages s' = t_numberOfPages s"
  using assms by (cases s; cases s'; simp add: only_columns_def apart_columns_def)+

lemma only_columns_ok:
  assumes "only_columns s s'" and "columns_ok s"
  shows "columns_ok s'"
  using assms only_columns_fields [OF assms(1)] unfolding columns_ok_def only_columns_def
  by (metis order_less_le_trans)

lemma only_columns_arranged:
  assumes "only_columns s s'" and "columns_ok s"
  shows "arranged s' = arranged s"
  using assms only_columns_fields [OF assms(1)]
  by (intro arranged_cong) (auto simp: only_columns_def columns_ok_def)

lemma only_columns_fresh:
  assumes "only_columns s s'" and "columns_ok s"
  shows "table_fresh s' = table_fresh s"
  using only_columns_fields [OF assms(1)] only_columns_arranged [OF assms] shown_part_cong [of s' s]
  by (simp add: table_fresh_def)

section \<open>One round of the watchers\<close>

lemma only_columns_w:
  "only_columns s s' \<Longrightarrow> only_columns (s\<lparr>w_columns := x\<rparr>) (s'\<lparr>w_columns := x\<rparr>)"
  by (cases s, cases s') (simp add: only_columns_def apart_columns_def)

lemma config_round:
  assumes "w_config s = Some (t_config s) \<Longrightarrow> t_set s = extend_config (t_config s)"
  shows "only_columns (s\<lparr>t_set := extend_config (t_config s), w_config := Some (t_config s)\<rparr>) (snd (watch_config s))"
proof (cases "w_config s = Some (t_config s)")
  case True
  then have "s\<lparr>t_set := extend_config (t_config s), w_config := Some (t_config s)\<rparr> = s"
    using assms by (cases s) simp
  then show ?thesis using True by (simp add: watch_config_def only_columns_refl)
next
  case False
  have swap: "s\<lparr>w_config := Some (t_config s), t_set := extend_config (t_config s)\<rparr>
      = s\<lparr>t_set := extend_config (t_config s), w_config := Some (t_config s)\<rparr>" by (cases s) simp
  show ?thesis
    using False config_listener_only [of "s\<lparr>w_config := Some (t_config s)\<rparr>"]
    by (simp add: watch_config_def swap)
qed

lemma columns_round:
  "only_columns (s\<lparr>w_columns := Some (t_columnCollection s)\<rparr>) (snd (watch_columns s))"
proof (cases "w_columns s = Some (t_columnCollection s)")
  case True
  then have "s\<lparr>w_columns := Some (t_columnCollection s)\<rparr> = s" by (cases s) simp
  then show ?thesis using True only_columns_refl [of s] by (simp only: watch_columns_def refl if_True snd_conv)
next
  case False
  then show ?thesis by (simp add: watch_columns_def columns_listener_only)
qed

text \<open>The state after the first two watchers.\<close>

definition bound :: "smart_table \<Rightarrow> smart_table" where
  "bound s = s\<lparr>t_set := extend_config (t_config s), w_config := Some (t_config s),
     w_columns := Some (t_columnCollection s)\<rparr>"

lemma bound_round:
  assumes "w_config s = Some (t_config s) \<Longrightarrow> t_set s = extend_config (t_config s)"
  shows "only_columns (bound s) (snd (watch_columns (snd (watch_config s))))"
proof -
  let ?s = "snd (watch_config s)"
  have c: "only_columns (s\<lparr>t_set := extend_config (t_config s), w_config := Some (t_config s)\<rparr>) ?s"
    by (rule config_round) (rule assms)
  have "t_columnCollection ?s = t_columnCollection s" using only_columns_fields(8) [OF c] by simp
  then have "only_columns (bound s) (?s\<lparr>w_columns := Some (t_columnCollection ?s)\<rparr>)"
    using only_columns_w [OF c] by (simp add: bound_def)
  then show ?thesis using columns_round by (rule only_columns_trans)
qed

definition round_last :: "smart_table \<Rightarrow> smart_table" where
  "round_last s = snd (watch_search (snd (watch_length s)))"

lemma round_state:
  "snd (digest_pass table_watches s) = round_last (snd (watch_columns (snd (watch_config s))))"
  by (auto simp: table_watches_def round_last_def Let_def split: prod.splits)

lemma round_last_fields:
  "t_columns (round_last s) = t_columns s" "t_column (round_last s) = t_column s"
  "t_nextColumn (round_last s) = t_nextColumn s" "t_rows (round_last s) = t_rows s" "t_row (round_last s) = t_row s"
  "t_currentPage (round_last s) = t_currentPage s" "t_lastColumnSort (round_last s) = t_lastColumnSort s"
  "t_set (round_last s) = t_set s" "t_config (round_last s) = t_config s"
  "t_columnCollection (round_last s) = t_columnCollection s" "t_searchValue (round_last s) = t_searchValue s"
  "w_config (round_last s) = w_config s" "w_columns (round_last s) = w_columns s"
  "w_length (round_last s) = Some (length (t_rows s))" "w_search (round_last s) = Some (t_searchValue s)"
  "t_predicate (round_last s)
     = (if w_search s = Some (t_searchValue s) then t_predicate s else [(''$'', t_searchValue s)])"
  by (auto simp: round_last_def watch_length_def watch_search_def sortBy_def search_def Let_def)

lemma round_last_fresh:
  assumes "w_search s \<noteq> Some (t_searchValue s) \<or> w_length s \<noteq> None \<and> w_length s \<noteq> Some (length (t_rows s))
     \<or> table_fresh s \<and> w_length s = Some (length (t_rows s))"
  shows "table_fresh (round_last s)"
  using assms refresh_fresh by (auto simp: round_last_def watch_length_def watch_search_def sortBy_def search_def Let_def)

lemma round_last_still:
  assumes "w_search s = Some (t_searchValue s)" and "w_length s = Some (length (t_rows s))"
  shows "round_last s = s"
  using assms by (simp add: round_last_def watch_length_def watch_search_def)

lemma quiet_round:
  assumes "w_config s = Some (t_config s) \<Longrightarrow> t_set s = extend_config (t_config s)" and "columns_ok s"
  defines "s1 \<equiv> snd (digest_pass table_watches s)"
  shows "quiet s1" and "columns_ok s1" and "t_currentPage s1 = t_currentPage s"
    and "t_lastColumnSort s1 = t_lastColumnSort s" and "t_rows s1 = t_rows s" and "t_row s1 = t_row s"
    and "t_config s1 = t_config s" and "t_set s1 = extend_config (t_config s)"
proof -
  let ?b = "snd (watch_columns (snd (watch_config s)))"
  have b: "only_columns (bound s) ?b" by (rule bound_round) (rule assms(1))
  have ok: "columns_ok ?b"
    using only_columns_ok [OF b] assms(2) by (simp add: columns_ok_def bound_def)
  note f = only_columns_fields [OF b]
  show "quiet s1" "t_currentPage s1 = t_currentPage s" "t_lastColumnSort s1 = t_lastColumnSort s"
    "t_rows s1 = t_rows s" "t_row s1 = t_row s" "t_config s1 = t_config s" "t_set s1 = extend_config (t_config s)"
    by (simp_all add: s1_def round_state quiet_def round_last_fields f) (simp_all add: bound_def)
  show "columns_ok s1"
    using ok by (simp add: s1_def round_state columns_ok_def round_last_fields)
qed

lemma fresh_round:
  assumes "w_config s = Some (t_config s) \<Longrightarrow> t_set s = extend_config (t_config s)" and "columns_ok s"
    and "w_search s \<noteq> Some (t_searchValue s) \<or> w_length s \<noteq> None \<and> w_length s \<noteq> Some (length (t_rows s))
      \<or> table_fresh s \<and> w_config s = Some (t_config s) \<and> w_length s = Some (length (t_rows s))"
  shows "table_ok (snd (digest_pass table_watches s))"
proof -
  let ?b = "snd (watch_columns (snd (watch_config s)))"
  have b: "only_columns (bound s) ?b" by (rule bound_round) (rule assms(1))
  note f = only_columns_fields [OF b]
  have "table_fresh ?b" if "table_fresh s" "w_config s = Some (t_config s)"
  proof -
    have "table_fresh (bound s)" using that assms(1) arranged_cong [of "bound s" s]
      by (simp add: table_fresh_def bound_def shown_part_def)
    moreover have "columns_ok (bound s)" using assms(2) by (simp add: columns_ok_def bound_def)
    ultimately show ?thesis using only_columns_fresh [OF b] by simp
  qed
  then have "table_fresh (round_last ?b)"
    using assms(3) by (intro round_last_fresh) (auto simp: f, auto simp: bound_def)
  then show ?thesis
    using quiet_round [OF assms(1,2)] by (simp add: table_ok_def round_state)
qed

section \<open>Every step leaves a page that exists\<close>

text \<open>
  The directives notice new rows by their number alone, a new size of the pagination by a sum, and
  a selection not at all.  These are the events after which they see what there is to see.
\<close>

fun refreshes :: "table_event \<Rightarrow> smart_table \<Rightarrow> bool" where
  "refreshes (Bind config columns rows objs) s \<longleftrightarrow> length rows \<noteq> length (t_rows s)
     \<and> (set_maxSize (extend_config config) = set_maxSize (t_set s)
        \<or> t_numberOfPages s = 1 \<and> t_currentPage s = 1
          \<and> set_maxSize (t_set s) \<le> set_maxSize (extend_config config))"
| "refreshes (ClickRow r) s \<longleftrightarrow> arranged (toggleSelection r s) = arranged s"
| "refreshes e s \<longleftrightarrow> True"

abbreviation table_settled :: "smart_table \<times> pager \<Rightarrow> bool" where
  "table_settled \<equiv> well_paged table_host table_ok"

lemma settled_parts:
  "table_settled (s, p) \<longleftrightarrow> table_ok s \<and> 1 \<le> t_currentPage s \<and> t_currentPage s \<le> t_numberOfPages s
     \<and> pg_pages p = links_of table_host s \<and> pg_watched p = Some (watched_sum table_host s)"
  by (simp add: well_paged_def)

lemma mark_column_ok:
  assumes "columns_ok s" and "c \<in> set (t_columns s)"
  shows "columns_ok (mark_column c s)"
  using assms by (auto simp: columns_ok_def mark_column_def Let_def split: option.splits if_splits)

lemma sortBy_ok:
  assumes "table_ok s"
  shows "table_ok (sortBy c s)"
proof -
  have "columns_ok (mark_column c s)" if "c \<in> set (t_columns s)" for c
    using that assms mark_column_ok by (simp add: table_ok_def)
  moreover have "quiet (mark_column c s)" for c
    using assms by (simp add: table_ok_def quiet_def mark_column_def Let_def)
  ultimately show ?thesis
    using assms unfolding sortBy_def by (intro refresh_ok) (auto simp: table_ok_def split: option.splits)
qed

lemma sortBy_fields [simp]:
  "t_currentPage (sortBy c s) = t_currentPage s" "t_set (sortBy c s) = t_set s"
  by (auto simp: sortBy_def mark_column_def Let_def split: option.splits)

definition apart_selection :: "smart_table \<Rightarrow> smart_table" where
  "apart_selection s = s\<lparr>t_row := (\<lambda>r. []), t_isAllSelected := False, t_signals := []\<rparr>"

lemma apart_set_selected [simp]: "apart_selection (set_selected r b s) = apart_selection s"
  by (simp add: apart_selection_def set_selected_def)

lemma apart_unselect [simp]: "apart_selection (unselect s r) = apart_selection s"
  by (simp add: apart_selection_def set_selected_def unselect_def Let_def)

lemma apart_unselect_all [simp]: "apart_selection (foldl unselect s rs) = apart_selection s"
  by (induction rs arbitrary: s) simp_all

lemma apart_note: "apart_selection (s\<lparr>t_isAllSelected := b, t_signals := es\<rparr>) = apart_selection s"
  by (simp add: apart_selection_def)

lemma apart_toggle: "apart_selection (toggleSelection r s) = apart_selection s"
  by (simp add: toggleSelection_def selectDataRow_def apart_note Let_def)

lemma toggle_fields:
  "t_currentPage (toggleSelection r s) = t_currentPage s" "t_set (toggleSelection r s) = t_set s"
  "t_numberOfPages (toggleSelection r s) = t_numberOfPages s" "t_displayed (toggleSelection r s) = t_displayed s"
  "columns_ok (toggleSelection r s) = columns_ok s" "quiet (toggleSelection r s) = quiet s"
  using apart_toggle [of r s]
  by (cases s; cases "toggleSelection r s"; simp add: apart_selection_def columns_ok_def quiet_def)+

lemma toggle_ok: "table_ok s \<Longrightarrow> arranged (toggleSelection r s) = arranged s \<Longrightarrow> table_ok (toggleSelection r s)"
  using shown_part_cong [of "toggleSelection r s" s] by (simp add: table_ok_def table_fresh_def toggle_fields)

text \<open>The first round after the page or the user has changed the columns or the search text.\<close>

lemma input_round:
  assumes "table_ok s" and "s' = s\<lparr>t_columnCollection := t_columnCollection s', t_searchValue := t_searchValue s'\<rparr>"
  defines "s1 \<equiv> snd (digest_pass table_watches s')"
  shows "table_ok s1" and "t_currentPage s1 = t_currentPage s" and "t_set s1 = t_set s"
proof -
  obtain cs tx where s': "s' = s\<lparr>t_columnCollection := cs, t_searchValue := tx\<rparr>" using assms(2) by blast
  have a: "arranged s' = arranged s" by (rule arranged_cong) (simp_all add: s')
  have h: "columns_ok s'" "table_fresh s'" "w_config s' = Some (t_config s')" "t_set s' = extend_config (t_config s')"
    "w_length s' = Some (length (t_rows s'))"
    using assms(1) a shown_part_cong [of s' s] by (simp_all add: s' ok_defs)
  show "table_ok s1" unfolding s1_def by (intro fresh_round h) (simp add: h)
  show "t_currentPage s1 = t_currentPage s" "t_set s1 = t_set s"
    unfolding s1_def using quiet_round(3,8) [OF h(4,1)] assms(1) by (simp_all add: s' ok_defs)
qed

text \<open>After the first round of the digest that follows an event.\<close>

lemma round_ok:
  assumes st: "table_settled (s, p)" and e: "refreshes e s"
  defines "s1 \<equiv> snd (digest_pass table_watches (table_handle e s))"
  shows "table_ok s1 \<and> 1 \<le> t_currentPage s1 \<and> trusted table_host (s1, p)"
proof -
  have ok: "table_ok s" and c: "columns_ok s" and q: "quiet s" and f: "table_fresh s"
    and p: "1 \<le> t_currentPage s" "t_currentPage s \<le> t_numberOfPages s"
      "pg_pages p = links_of table_host s" "pg_watched p = Some (watched_sum table_host s)"
    using st by (simp_all add: settled_parts table_ok_def)
  have same: "trusted table_host (s', p)"
    if "t_currentPage s' = t_currentPage s" "set_maxSize (t_set s') = set_maxSize (t_set s)" for s'
    using p that by (auto simp: trusted_def watched_sum_def links_of_def)
  have clean: "snd (digest_pass table_watches s') = s'" if "table_ok s'" for s'
    using that quiet_pass by (simp add: table_ok_def)
  show ?thesis
  proof (cases e)
    case (Bind config columns rows objs)
    let ?s = "table_handle e s"
    have h: "columns_ok ?s" "w_config ?s = w_config s" "t_set ?s = t_set s" "w_length ?s = Some (length (t_rows s))"
      "t_rows ?s = rows" "t_config ?s = config" "t_currentPage ?s = t_currentPage s"
      using c q by (simp_all add: Bind columns_ok_def quiet_def)
    have cfg: "w_config ?s = Some (t_config ?s) \<Longrightarrow> t_set ?s = extend_config (t_config ?s)"
      using q by (simp add: h quiet_def)
    have ok1: "table_ok s1" unfolding s1_def
    proof (intro fresh_round cfg h(1))
      have "length rows \<noteq> length (t_rows s)" using e by (simp add: Bind)
      then show "w_search ?s \<noteq> Some (t_searchValue ?s) \<or> w_length ?s \<noteq> None \<and> w_length ?s \<noteq> Some (length (t_rows ?s))
          \<or> table_fresh ?s \<and> w_config ?s = Some (t_config ?s) \<and> w_length ?s = Some (length (t_rows ?s))"
        by (simp add: h)
    qed
    have cur: "t_currentPage s1 = t_currentPage s" and m: "t_set s1 = extend_config config"
      unfolding s1_def using quiet_round(3,8) [OF cfg h(1)] by (simp_all add: h)
    have n: "1 \<le> t_numberOfPages s1" using tp.some_page [OF ok1] by simp
    have "trusted table_host (s1, p)"
    proof (cases "set_maxSize (extend_config config) = set_maxSize (t_set s)")
      case True
      then show ?thesis using same cur m by simp
    next
      case False
      then show ?thesis using e n p cur m by (auto simp: Bind trusted_def watched_sum_def)
    qed
    then show ?thesis using ok1 p cur by simp
  next
    case (BindColumns columns)
    then have "s1 = snd (digest_pass table_watches (s\<lparr>t_columnCollection := columns\<rparr>))" by (simp add: s1_def)
    then show ?thesis using input_round [OF ok, of "s\<lparr>t_columnCollection := columns\<rparr>"] same p by simp
  next
    case (Type tx)
    then have "s1 = snd (digest_pass table_watches (s\<lparr>t_searchValue := tx\<rparr>))" by (simp add: s1_def)
    then show ?thesis using input_round [OF ok, of "s\<lparr>t_searchValue := tx\<rparr>"] same p by simp
  next
    case (ClickHeader k)
    then have "s1 = sortBy (Some k) s" using clean [OF sortBy_ok [OF ok]] by (simp add: s1_def)
    then show ?thesis using sortBy_ok [OF ok] same p by simp
  next
    case (ClickPage n)
    have k: "table_ok (selectPage table_host n s)" by (rule tp.select_ok [OF ok])
    then have "s1 = selectPage table_host n s" using clean ClickPage by (simp add: s1_def)
    then show ?thesis
      using k tp.select_page [OF ok, of n] p
      by (auto simp: trusted_def watched_sum_def links_of_def split: if_splits)
  next
    case (ClickRow r)
    then have k: "table_ok (toggleSelection r s)" using toggle_ok ok e by simp
    then have "s1 = toggleSelection r s" using clean ClickRow by (simp add: s1_def)
    then show ?thesis using k same p by (simp add: toggle_fields)
  qed
qed

lemma step_settles:
  assumes "table_settled (s, p)" and "refreshes e s"
  shows "\<exists>st. table_step e (s, p) = Some st \<and> table_settled st"
proof -
  obtain d s1 where r: "digest_pass table_watches (table_handle e s) = (d, s1)"
    by (cases "digest_pass table_watches (table_handle e s)")
  have "table_ok s1 \<and> 1 \<le> t_currentPage s1 \<and> trusted table_host (s1, p)"
    using round_ok [OF assms] r by simp
  then show ?thesis
    using tp.digest_after [of "table_handle e s" d s1 p 9] r
    by (simp add: table_step_def table_digest_def digest_def TTL_def)
qed

lemma open_settles: "\<exists>st. open_table config columns rows objs = Some st \<and> table_settled st"
proof -
  let ?s = "link_table config columns rows objs"
  obtain d s1 where r: "digest_pass table_watches ?s = (d, s1)" by (cases "digest_pass table_watches ?s")
  have c: "columns_ok ?s" and w: "w_config ?s = Some (t_config ?s) \<Longrightarrow> t_set ?s = extend_config (t_config ?s)"
    by (simp_all add: columns_ok_def link_table_def Column_def)
  have "table_ok (snd (digest_pass table_watches ?s))"
    by (rule fresh_round [OF w c]) (simp_all add: link_table_def)
  moreover have "t_currentPage (snd (digest_pass table_watches ?s)) = 1"
    using quiet_round(3) [OF w c] by (simp add: link_table_def)
  moreover have "trusted table_host (s1, new_pager)" by (simp add: trusted_def new_pager_def)
  ultimately show ?thesis
    using tp.digest_after [of ?s d s1 new_pager 9] r
    by (simp add: open_table_def table_digest_def digest_def TTL_def)
qed

end
