(* ===== verification/TablePages.thy ===== *)
theory TablePages
  imports SmartTable JobPage
begin

text \<open>
  What the tables of the scheduler interface show: the pages of a table, its links, sorting and
  selection, and the table of roles on the first page of the interface.
\<close>

section \<open>Pages\<close>

text \<open>The tables a page can have, as long as their directives notice what happens.\<close>

inductive table_reach :: "smart_table \<times> pager \<Rightarrow> bool" where
  opened: "open_table config columns rows objs = Some st \<Longrightarrow> table_reach st"
| stepped: "table_reach (s, p) \<Longrightarrow> refreshes e s \<Longrightarrow> table_step e (s, p) = Some st \<Longrightarrow> table_reach st"

lemma reach_settled: "table_reach st \<Longrightarrow> table_settled st"
proof (induction rule: table_reach.induct)
  case (opened config columns rows objs st)
  then show ?case using open_settles [of config columns rows objs] by simp
next
  case (stepped s p e st)
  then show ?case using step_settles [of s p e] by simp
qed

text \<open>A selection is seen by no directive, although the search looks at the property it sets.\<close>

lemma click_row_step:
  assumes "table_settled (s, p)"
  shows "table_step (ClickRow r) (s, p) = Some (toggleSelection r s, p)"
proof -
  have q: "quiet (toggleSelection r s)" using assms by (simp add: settled_parts table_ok_def toggle_fields)
  have "pagination_watch table_host (toggleSelection r s, p) = (False, (toggleSelection r s, p))"
    using assms by (simp add: settled_parts pagination_watch_def watched_sum_def toggle_fields)
  then have "digest_pass (paged_watchers table_host table_watches) (toggleSelection r s, p) = (False, (toggleSelection r s, p))"
    using quiet_pass [OF q] by (simp add: paged_watchers_def digest_pass_append digest_pass_first Let_def)
  then show ?thesis by (simp add: table_step_def table_digest_def digest_def digest_clean)
qed

text \<open>C14: what a table shows after searches, clicks on headers, on pages and on rows, and bindings of columns and of rows by
  its page, under two conditions on what the directives can notice (\<open>refreshes\<close>). New rows come in another number than the old ones
  and with the same \<open>maxSize\<close>, or a greater one while there is only one page; and a click on a row does not change
  which rows the search finds or their order, as it can, since the search also looks at the property \<open>isSelected\<close> the click sets.
  Then the digest ends, the current page exists, the rows shown are
  those of that page and the links are those around it: a page that a search made disappear is
  corrected. A click on a row of such a table, also one that changes what the search finds, leaves the rows and the
  links that are shown: nothing refreshes the table.
\<close>

theorem table_shows_its_page:
  assumes "table_reach (s, p)"
  shows "1 \<le> t_currentPage s \<and> t_currentPage s \<le> t_numberOfPages s
    \<and> t_numberOfPages s = calculateNumberOfPages (set_itemsByPage (t_set s)) (arranged s)
    \<and> t_displayed s = shown_part s (arranged s)
    \<and> pg_pages p = page_links paginationConfig (t_numberOfPages s) (t_currentPage s) (set_maxSize (t_set s))
    \<and> (\<forall>e. refreshes e s \<longrightarrow> (\<exists>st. table_step e (s, p) = Some st))
    \<and> (\<exists>s'. table_step (ClickRow r) (s, p) = Some (s', p) \<and> t_displayed s' = t_displayed s \<and> t_currentPage s' = t_currentPage s)"
proof -
  have st: "table_settled (s, p)" by (rule reach_settled [OF assms])
  have "\<exists>st. table_step e (s, p) = Some st" if "refreshes e s" for e
    using step_settles [OF st that] by blast
  then show ?thesis using st click_row_step [OF st, of r] by (simp add: settled_parts table_ok_def table_fresh_def links_of_def toggle_fields)
qed

theorem table_shows_its_page_witness:
  "\<exists>s p. open_table (Some taskTableConfig) (Some []) [0, 1, 2] (\<lambda>r. [(''host'', JStr ''h'')]) = Some (s, p)
    \<and> 1 \<le> t_currentPage s \<and> t_displayed s = shown_part s (arranged s)"
  using open_settles [of "Some taskTableConfig" "Some []" "[0, 1, 2]" "\<lambda>r. [(''host'', JStr ''h'')]"]
    table_shows_its_page [OF opened] by fastforce

lemma fromTo_chunk:
  assumes "0 \<le> k" and "0 \<le> m" and "k < int (length xs) \<or> xs = [] \<and> k = 0"
  shows "fromTo xs k m = take (nat m) (drop (nat k) xs)"
proof (cases "xs = []")
  case True
  then show ?thesis using assms by (simp add: fromTo_def Let_def)
next
  case False
  then have k: "k < int (length xs)" using assms by simp
  then have "min (max k 0) (if int (length xs) - 1 > 0 then int (length xs) - 1 else 0) = k" using assms by auto
  then have e: "fromTo xs k m = map (\<lambda>i. xs ! nat i) [k .. min (k + m) (int (length xs)) - 1]"
    using assms(2) by (simp add: fromTo_def Let_def)
  show ?thesis unfolding e
  proof (rule nth_equalityI)
    show l: "length (map (\<lambda>i. xs ! nat i) [k .. min (k + m) (int (length xs)) - 1])
        = length (take (nat m) (drop (nat k) xs))"
      using assms k by (auto simp: min_def)
    fix i
    assume "i < length (map (\<lambda>i. xs ! nat i) [k .. min (k + m) (int (length xs)) - 1])"
    then have "i < nat (min (k + m) (int (length xs)) - k)" by simp
    then have len: "i < length [k .. min (k + m) (int (length xs)) - 1]" and "i < nat m"
      and i: "k + int i \<le> min (k + m) (int (length xs)) - 1" by auto
    have "[k .. min (k + m) (int (length xs)) - 1] ! i = k + int i" by (rule nth_upto [OF i])
    then show "map (\<lambda>i. xs ! nat i) [k .. min (k + m) (int (length xs)) - 1] ! i
        = take (nat m) (drop (nat k) xs) ! i"
      using assms(1) k len \<open>i < nat m\<close> by (simp add: nat_add_distrib)
  qed
qed

lemma concat_chunks: "concat (map (\<lambda>p. take m (drop (p * m) xs)) [0..<n]) = take (n * m) xs"
  by (induction n) (simp_all add: take_add add.commute [of m])

lemma pages_cover:
  assumes "1 \<le> k"
  shows "concat (map (\<lambda>p. fromTo xs ((p - 1) * k) k) [1 .. calculateNumberOfPages k xs]) = xs"
proof (cases "xs = []")
  case True
  then show ?thesis by (simp add: calculateNumberOfPages_def fromTo_def Let_def)
next
  case False
  define n where "n = calculateNumberOfPages k xs"
  have n: "n = - ((- int (length xs)) div k)" using False assms by (simp add: n_def calculateNumberOfPages_def)
  have lo: "(n - 1) * k < int (length xs)" and hi: "int (length xs) \<le> n * k"
  proof -
    define l q r where "l = int (length xs)" and "q = (- l) div k" and "r = (- l) mod k"
    have "q * k + r = - l" and "0 \<le> r" and "r < k" and "n = - q"
      using assms by (simp_all add: q_def r_def l_def n)
    moreover have "(- q - 1) * k = - (q * k) - k" by (simp add: algebra_simps)
    ultimately show "(n - 1) * k < int (length xs)" and "int (length xs) \<le> n * k"
      by (simp_all add: l_def [symmetric])
  qed
  have pos: "1 \<le> n" using number_of_pages_pos n_def by simp
  have up: "[1 .. n] = map (\<lambda>i. int i + 1) [0..<nat n]"
    using pos by (intro nth_equalityI) auto
  have "fromTo xs (int i * k) k = take (nat k) (drop (i * nat k) xs)" if "i < nat n" for i
  proof -
    have "int i * k \<le> (n - 1) * k" using that assms by (intro mult_right_mono) auto
    then have "int i * k < int (length xs)" using lo by simp
    then show ?thesis using assms by (subst fromTo_chunk) (simp_all add: nat_mult_distrib)
  qed
  then have "concat (map (\<lambda>p. fromTo xs ((p - 1) * k) k) [1 .. n])
      = concat (map (\<lambda>i. take (nat k) (drop (i * nat k) xs)) [0..<nat n])"
    unfolding up map_map o_def by (intro arg_cong [where f = concat] map_cong) auto
  also have "\<dots> = take (nat n * nat k) xs" by (rule concat_chunks)
  also have "\<dots> = xs" using hi pos assms by (simp add: nat_mult_distrib [symmetric])
  finally show ?thesis by (simp add: n_def)
qed

text \<open>C16: going through the pages of a table from the first to the last shows every row that matches the
  search exactly once, in the order the table is sorted by.
\<close>

theorem pages_show_all_rows:
  assumes "table_reach (s, p)" and "set_isPaginationEnabled (t_set s)" and "1 \<le> set_itemsByPage (t_set s)"
  shows "concat (map (\<lambda>n. t_displayed (changePage n s)) [1 .. t_numberOfPages s]) = arranged s
    \<and> mset (arranged s) = mset (filterFilter (t_row s) (t_rows s) (t_predicate s))"
proof -
  have "t_numberOfPages s = calculateNumberOfPages (set_itemsByPage (t_set s)) (arranged s)"
    using reach_settled [OF assms(1)] by (simp add: settled_parts table_ok_def table_fresh_def)
  then show ?thesis
    using assms(2,3) pages_cover [of "set_itemsByPage (t_set s)" "arranged s"]
    by (auto simp: change_page shown_part_def arranged_def sortDataRow_def orderBy_def Let_def array_sort_mset
        split: option.splits)
qed

section \<open>Links\<close>

text \<open>around a page that exists the pagination has links to as many pages as fit, the current
  page among them and the only active one, between one link to the page before and one to the
  page after, which is disabled where there is no such page.
\<close>

theorem links_around_page:
  assumes "1 \<le> n" and "1 \<le> c" and "c \<le> n" and "1 \<le> m"
  shows "\<exists>a b. map pl_number (page_links paginationConfig n c m) = (c - 1) # [a .. b] @ [c + 1]
    \<and> 1 \<le> a \<and> a \<le> c \<and> c \<le> b \<and> b \<le> n \<and> b - a + 1 = min m n
    \<and> map pl_number (filter pl_active (page_links paginationConfig n c m)) = [c]
    \<and> (\<forall>l \<in> set (page_links paginationConfig n c m). pl_disabled l \<longleftrightarrow> pl_number l \<notin> {1 .. n})"
proof -
  obtain a b where w: "page_window n c m = (a, b)" by (cases "page_window n c m")
  note s = window_size [OF assms w]
  have "[a .. b] = [a .. c - 1] @ c # [c + 1 .. b]"
    using s upto_split3 [of a c b] by simp
  then have "filter (\<lambda>k. c = k) [a .. b] = [c]" by (simp add: filter_empty_conv)
  then show ?thesis
    using s assms w
    by (intro exI [of _ a] exI [of _ b])
       (auto simp: page_links_def paginationConfig_def makePage_def Let_def o_def filter_map)
qed

theorem links_around_page_witness:
  "\<exists>a b. map pl_number (page_links paginationConfig 20 19 8) = (19 - 1) # [a .. b] @ [19 + 1] \<and> b - a + 1 = 8"
  using links_around_page [of 20 19 8] by force

section \<open>Sorting\<close>

text \<open>How the template marks the header of a column.\<close>

definition header_class :: "table_column \<Rightarrow> string" where
  "header_class column = (case tcl_reverse column of
       Some False \<Rightarrow> ''sort-ascent'' | Some True \<Rightarrow> ''sort-descent'' | None \<Rightarrow> '''')"

lemma mset_arranged: "mset (arranged s) = mset (filterFilter (t_row s) (t_rows s) (t_predicate s))"
  by (auto simp: arranged_def sortDataRow_def orderBy_def Let_def array_sort_mset split: option.splits)

lemma number_of_pages_mset:
  "mset xs = mset ys \<Longrightarrow> calculateNumberOfPages k xs = calculateNumberOfPages k ys"
  using mset_eq_length [of xs ys] by (auto simp: calculateNumberOfPages_def)

text \<open>A digest whose first round leaves the sum of the pagination as it was.\<close>

lemma digest_same_sum:
  assumes "digest_pass table_watches s = (d, s1)" and "table_ok s1"
    and "pg_watched p = Some (watched_sum table_host s1)"
  shows "table_digest (s, p) = Some (s1, p)"
proof -
  have w: "pagination_watch table_host (s1, p) = (False, (s1, p))" using assms(3) by (simp add: pagination_watch_def)
  then have r: "digest_pass (paged_watchers table_host table_watches) (s, p) = (d, (s1, p))"
    using assms(1) by (simp add: paged_watchers_def digest_pass_append digest_pass_first)
  have c: "digest_loop n (paged_watchers table_host table_watches) (s1, p) = Some (s1, p)" for n
    using tp.pass_ok [OF assms(2), of p] w by (intro digest_clean) simp
  show ?thesis
    using r c [of 9] digest_dirty [of "paged_watchers table_host table_watches" "(s, p)" "(s1, p)" 9]
    by (cases d) (simp_all add: table_digest_def digest_def TTL_def digest_clean)
qed

lemma header_step:
  assumes "table_settled (s, p)"
  shows "table_step (ClickHeader c) (s, p) = Some (sortBy (Some c) s, p)"
proof -
  have ok: "table_ok s" and ok1: "table_ok (sortBy (Some c) s)"
    using assms sortBy_ok by (simp_all add: settled_parts)
  have f: "t_row (sortBy (Some c) s) = t_row s" "t_rows (sortBy (Some c) s) = t_rows s"
    "t_predicate (sortBy (Some c) s) = t_predicate s"
    by (simp_all add: sortBy_def mark_column_def Let_def)
  have "t_numberOfPages (sortBy (Some c) s) = t_numberOfPages s"
    using ok ok1 number_of_pages_mset [of "arranged (sortBy (Some c) s)" "arranged s"]
    by (simp add: table_ok_def table_fresh_def mset_arranged f)
  then have "pg_watched p = Some (watched_sum table_host (sortBy (Some c) s))"
    using assms by (simp add: settled_parts watched_sum_def)
  moreover have "digest_pass table_watches (sortBy (Some c) s) = (False, sortBy (Some c) s)"
    using ok1 quiet_pass by (simp add: table_ok_def)
  ultimately show ?thesis using digest_same_sum ok1 by (simp add: table_step_def)
qed

lemma header_settled: "table_settled (s, p) \<Longrightarrow> table_settled (sortBy (Some c) s, p)"
  using step_settles [of s p "ClickHeader c"] header_step [of s p c] by simp

text \<open>What a click on a sortable header does to the column and to the rows.\<close>

lemma sortBy_column:
  assumes "columns_ok s" and "c \<in> set (t_columns s)" and "tcl_isSortable (t_column s c)"
  defines "s1 \<equiv> sortBy (Some c) s"
  defines "name \<equiv> (if tcl_sortPredicate (t_column s c) = '''' then tcl_map (t_column s c) else tcl_sortPredicate (t_column s c))"
  shows "t_columns s1 = t_columns s" and "t_row s1 = t_row s" and "t_rows s1 = t_rows s"
    and "t_predicate s1 = t_predicate s" and "t_lastColumnSort s1 = Some c"
    and "t_column s1 c = (t_column s c)\<lparr>tcl_sortPredicate := name, tcl_reverse := next_reverse (tcl_reverse (t_column s c))\<rparr>"
    and "k \<noteq> c \<Longrightarrow> tcl_reverse (t_column s1 k) = None"
  using assms(1-3)
  by (auto simp: s1_def name_def sortBy_def mark_column_def columns_ok_def Let_def split: option.splits)

lemma sortBy_shows: "t_displayed (sortBy c s) = shown_part s (arranged (sortBy c s))"
proof -
  have "shown_part (mark_column k s) = shown_part s" for k
    by (rule shown_part_cong) (simp_all add: mark_column_def Let_def)
  then show ?thesis by (simp add: sortBy_def refresh_result split: option.splits)
qed

lemma arranged_by:
  "t_lastColumnSort s = Some c \<Longrightarrow> arranged s =
     (let rows = filterFilter (t_row s) (t_rows s) (t_predicate s) in
      case tcl_reverse (t_column s c) of None \<Rightarrow> rows
      | Some r \<Rightarrow> orderBy (t_row s) rows (tcl_sortPredicate (t_column s c)) r)"
  by (simp add: arranged_def sortDataRow_def Let_def)

lemma arranged_unmarked:
  "\<forall>k. tcl_reverse (t_column s k) = None \<Longrightarrow> arranged s = filterFilter (t_row s) (t_rows s) (t_predicate s)"
  by (simp add: arranged_def sortDataRow_def split: option.splits)

text \<open>a first click on the header of a sortable column shows the page sorted by the column in ascending
  order, a second one in descending order, and a third one shows what was shown at first.
\<close>

theorem sort_cycle:
  assumes "table_reach (s, p)" and "c \<in> set (t_columns s)" and "tcl_isSortable (t_column s c)"
    and "tcl_sortPredicate (t_column s c) = ''''" and "\<forall>k. tcl_reverse (t_column s k) = None"
  shows "\<exists>s1 s2 s3. table_run [ClickHeader c] (s, p) = Some (s1, p)
    \<and> table_run [ClickHeader c, ClickHeader c] (s, p) = Some (s2, p)
    \<and> table_run [ClickHeader c, ClickHeader c, ClickHeader c] (s, p) = Some (s3, p)
    \<and> t_displayed s1 = shown_part s (orderBy (t_row s) (arranged s) (tcl_map (t_column s c)) False)
    \<and> t_displayed s2 = shown_part s (orderBy (t_row s) (arranged s) (tcl_map (t_column s c)) True)
    \<and> t_displayed s3 = t_displayed s
    \<and> map (\<lambda>s. header_class (t_column s c)) [s1, s2, s3] = [''sort-ascent'', ''sort-descent'', '''']"
proof -
  have st: "table_settled (s, p)" by (rule reach_settled [OF assms(1)])
  define s1 s2 s3 where "s1 = sortBy (Some c) s" and "s2 = sortBy (Some c) s1" and "s3 = sortBy (Some c) s2"
  note settled = st header_settled [OF st, of c, folded s1_def]
    header_settled [OF header_settled [OF st, of c, folded s1_def], of c, folded s2_def]
  then have run: "table_run [ClickHeader c] (s, p) = Some (s1, p)"
    "table_run [ClickHeader c, ClickHeader c] (s, p) = Some (s2, p)"
    "table_run [ClickHeader c, ClickHeader c, ClickHeader c] (s, p) = Some (s3, p)"
    by (simp_all add: header_step s1_def s2_def s3_def)
  have ok: "columns_ok s" "columns_ok s1" "columns_ok s2" using settled by (simp_all add: settled_parts table_ok_def)
  note 1 = sortBy_column [OF ok(1) assms(2,3), folded s1_def]
  have c1: "c \<in> set (t_columns s1)" "tcl_isSortable (t_column s1 c)" using 1 assms by simp_all
  note 2 = sortBy_column [OF ok(2) c1, folded s2_def]
  have c2: "c \<in> set (t_columns s2)" "tcl_isSortable (t_column s2 c)" using 1 2 assms by simp_all
  note 3 = sortBy_column [OF ok(3) c2, folded s3_def]
  have a: "arranged s = filterFilter (t_row s) (t_rows s) (t_predicate s)" by (rule arranged_unmarked [OF assms(5)])
  have a1: "arranged s1 = orderBy (t_row s) (arranged s) (tcl_map (t_column s c)) False"
    using assms(4,5) by (subst arranged_by [OF 1(5)]) (simp add: 1 a next_reverse_def)
  have a2: "arranged s2 = orderBy (t_row s) (arranged s) (tcl_map (t_column s c)) True"
    using assms(4,5) by (subst arranged_by [OF 2(5)]) (simp add: 1 2 a next_reverse_def)
  have a3: "arranged s3 = arranged s"
    using assms(4,5) by (subst arranged_by [OF 3(5)]) (simp add: 1 2 3 a next_reverse_def)
  have part: "shown_part s1 = shown_part s" "shown_part s2 = shown_part s"
    by (rule shown_part_cong; simp add: s1_def s2_def)+
  have shown: "t_displayed s1 = shown_part s (arranged s1)" "t_displayed s2 = shown_part s (arranged s2)"
    "t_displayed s3 = shown_part s (arranged s3)"
    using sortBy_shows [of "Some c" s] sortBy_shows [of "Some c" s1] sortBy_shows [of "Some c" s2] part
    by (simp_all add: s1_def [symmetric] s2_def [symmetric] s3_def [symmetric])
  have "t_displayed s = shown_part s (arranged s)" using st by (simp add: settled_parts table_ok_def table_fresh_def)
  moreover have "map (\<lambda>s. header_class (t_column s c)) [s1, s2, s3] = [''sort-ascent'', ''sort-descent'', '''']"
    using assms(5) by (simp add: header_class_def 1 2 3 next_reverse_def)
  ultimately show ?thesis
    using run shown a1 a2 a3 by (intro exI [of _ s1] exI [of _ s2] exI [of _ s3]) simp
qed

section \<open>Tables as they are opened and bound\<close>

text \<open>The columns of the controllers set no \<open>isSortable\<close> here and no \<open>sortPredicate\<close>.\<close>

definition of_column :: "column \<Rightarrow> column_config" where
  "of_column c = plain_column (col_map c)"

definition with_columns :: "column_config list \<Rightarrow> smart_table \<Rightarrow> smart_table" where
  "with_columns cs s =
     s\<lparr>t_columns := t_columns s @ [t_nextColumn s ..< t_nextColumn s + length cs],
       t_column := (\<lambda>c. if t_nextColumn s \<le> c \<and> c < t_nextColumn s + length cs
         then Column (cs ! (c - t_nextColumn s)) else t_column s c),
       t_nextColumn := t_nextColumn s + length cs\<rparr>"

lemma insert_all: "foldl (\<lambda>s c. insertColumn c None s) s cs = with_columns cs s"
proof (induction cs arbitrary: s)
  case Nil
  have "(\<lambda>c. if t_nextColumn s \<le> c \<and> c < t_nextColumn s then Column ([] ! (c - t_nextColumn s)) else t_column s c)
      = t_column s" by (rule ext) auto
  then show ?case by (simp add: with_columns_def)
next
  case (Cons x cs)
  let ?a = "with_columns cs (insertColumn x None s)" and ?b = "with_columns (x # cs) s"
  have cols: "t_column ?a c = t_column ?b c" for c
    by (simp add: with_columns_def insertColumn_def nth_Cons')
  have ids: "t_columns ?a = t_columns ?b"
    by (simp add: with_columns_def insertColumn_def insertAt_def upt_conv_Cons del: upt_Suc)
  have "?a = ?b"
    by (rule smart_table.equality) (rule ext cols ids | simp add: with_columns_def insertColumn_def)+
  then show ?case by (simp add: Cons.IH)
qed

lemma columns_listener_Some:
  "t_columnCollection s = Some cs \<Longrightarrow> columns_listener s = with_columns cs (s\<lparr>t_columns := []\<rparr>)"
  by (simp add: columns_listener_def insert_all clearColumns_def)

lemma columns_listener_None:
  "t_columnCollection s = None \<Longrightarrow> t_rows s = [] \<Longrightarrow> columns_listener s = with_columns [] (s\<lparr>t_columns := []\<rparr>)"
  by (simp add: columns_listener_def insert_all clearColumns_def)

lemma config_listener_empty:
  "t_columns s = [] \<Longrightarrow> config_listener s = s\<lparr>t_set := extend_config (t_config s)\<rparr>"
  by (auto simp: config_listener_def extend_config_def DefaultTableConfiguration_def Let_def split: option.splits)

text \<open>A table on its first page: the digest changes the links at most.\<close>

lemma digest_first_page:
  assumes "digest_pass table_watches s = (d, s1)" and "table_ok s1" and "t_currentPage s1 = 1"
    and "trusted table_host (s1, p)"
  shows "\<exists>p1. table_digest (s, p) = Some (s1, p1) \<and> table_settled (s1, p1)"
proof -
  let ?ws = "paged_watchers table_host table_watches"
  have n: "1 \<le> t_numberOfPages s1" using tp.some_page [OF assms(2)] by simp
  obtain e p1 where w: "pagination_watch table_host (s1, p) = (e, (s1, p1))"
    using n assms(3) by (cases "pg_watched p = Some (watched_sum table_host s1)")
      (force simp: pagination_watch_def pagination_listener_def)+
  have st: "table_settled (s1, p1)"
    using tp.watch_once [OF assms(2) _ assms(4) w] w n assms(3,4) assms(2)
    by (auto simp: settled_parts pagination_watch_def pagination_listener_def trusted_def split: if_splits)
  have r: "digest_pass ?ws (s, p) = (d \<or> e, (s1, p1))"
    using assms(1) w by (simp add: paged_watchers_def digest_pass_append digest_pass_first)
  then have "table_digest (s, p) = Some (s1, p1)"
    using tp.digest_settled [OF st, of 9] digest_dirty [of ?ws "(s, p)" "(s1, p1)" 9]
    by (cases "d \<or> e") (simp_all add: table_digest_def digest_def TTL_def digest_clean)
  then show ?thesis using st by blast
qed

lemma open_state:
  assumes "cc = Some cs \<or> cc = None \<and> rows = [] \<and> cs = []"
  shows "\<exists>s p. open_table config cc rows objs = Some (s, p) \<and> table_settled (s, p)
    \<and> t_columnCollection s = cc \<and> t_lastColumnSort s = None \<and> t_columns s = [0..<length cs] \<and> (\<forall>c < length cs. t_column s c = Column (cs ! c))
    \<and> (\<forall>c. tcl_reverse (t_column s c) = None) \<and> t_rows s = rows \<and> t_row s = objs
    \<and> t_predicate s = [(''$'', '''')] \<and> t_set s = extend_config config \<and> t_currentPage s = 1"
proof -
  let ?s = "link_table config cc rows objs"
  let ?b = "snd (watch_columns (snd (watch_config ?s)))"
  have b: "?b = with_columns cs (?s\<lparr>t_set := extend_config config, w_config := Some config, w_columns := Some cc\<rparr>)"
    using assms by (auto simp: watch_config_def watch_columns_def link_table_def config_listener_empty
        columns_listener_Some columns_listener_None)
  obtain d s1 where r: "digest_pass table_watches ?s = (d, s1)" by (cases "digest_pass table_watches ?s")
  then have s1: "s1 = round_last ?b" using round_state [of ?s] by simp
  have ok: "table_ok s1"
    using fresh_round [of ?s] r by (simp add: link_table_def columns_ok_def Column_def)
  have f: "t_columns s1 = [0..<length cs]" "\<forall>c < length cs. t_column s1 c = Column (cs ! c)"
    "\<forall>c. tcl_reverse (t_column s1 c) = None" "t_rows s1 = rows" "t_row s1 = objs"
    "t_predicate s1 = [(''$'', '''')]" "t_set s1 = extend_config config" "t_currentPage s1 = 1"
    "t_columnCollection s1 = cc" "t_lastColumnSort s1 = None"
    by (simp_all add: s1 round_last_fields b) (simp_all add: with_columns_def link_table_def Column_def)
  obtain p1 where "table_digest (?s, new_pager) = Some (s1, p1)" "table_settled (s1, p1)"
    using digest_first_page [OF r ok f(8), of new_pager] by (auto simp: trusted_def new_pager_def)
  then show ?thesis using f unfolding open_table_def by blast
qed

text \<open>A table without columns is bound to its rows and columns.\<close>

lemma bind_state:
  assumes st: "table_settled (s, p)" and e: "refreshes (Bind config (Some cs) rows objs) s"
    and "t_columns s = []" and "t_columnCollection s \<noteq> Some cs" and "t_currentPage s = 1"
    and "t_lastColumnSort s = None"
  defines "n \<equiv> t_nextColumn s"
  shows "\<exists>s1 p1. table_step (Bind config (Some cs) rows objs) (s, p) = Some (s1, p1) \<and> table_settled (s1, p1)
    \<and> t_columns s1 = [n..<n + length cs] \<and> (\<forall>c < length cs. t_column s1 (n + c) = Column (cs ! c))
    \<and> (\<forall>c. tcl_reverse (t_column s1 c) = None) \<and> t_rows s1 = rows \<and> t_row s1 = objs
    \<and> t_predicate s1 = t_predicate s \<and> t_set s1 = extend_config config \<and> t_currentPage s1 = 1"
proof -
  let ?e = "Bind config (Some cs) rows objs"
  define s0 where "s0 = table_handle ?e s"
  let ?b = "snd (watch_columns (snd (watch_config s0)))"
  have ok: "quiet s" "columns_ok s" using st by (simp_all add: settled_parts table_ok_def)
  have c: "snd (watch_config s0) = s0\<lparr>t_set := extend_config config, w_config := Some config\<rparr>"
  proof (cases "t_config s = config")
    case True
    have "w_config s = Some config" "t_set s = extend_config config" using ok(1) True by (simp_all add: quiet_def)
    then show ?thesis by (cases s) (simp add: s0_def watch_config_def)
  next
    case False
    then show ?thesis using ok(1) assms(3) by (simp add: s0_def watch_config_def quiet_def config_listener_empty)
  qed
  have b: "?b = with_columns cs (s0\<lparr>t_set := extend_config config, w_config := Some config, w_columns := Some (Some cs)\<rparr>)"
    unfolding c using ok(1) assms(3,4)
    by (simp add: s0_def watch_columns_def quiet_def columns_listener_Some) (cases s, simp)
  obtain d s1 where r: "digest_pass table_watches s0 = (d, s1)" by (cases "digest_pass table_watches s0")
  then have s1: "s1 = round_last ?b" using round_state [of s0] by simp
  have ok1: "table_ok s1" "trusted table_host (s1, p)" using round_ok [OF st e] r by (simp_all add: s0_def)
  have f: "t_columns s1 = [n..<n + length cs]" "\<forall>c < length cs. t_column s1 (n + c) = Column (cs ! c)"
    "\<forall>c. tcl_reverse (t_column s1 c) = None" "t_rows s1 = rows" "t_row s1 = objs"
    "t_predicate s1 = t_predicate s" "t_set s1 = extend_config config" "t_currentPage s1 = 1"
    using ok assms(3,5,6)
    by (simp_all add: s1 round_last_fields b) (simp_all add: s0_def with_columns_def Column_def n_def quiet_def columns_ok_def)
  obtain p1 where "table_digest (s0, p) = Some (s1, p1)" "table_settled (s1, p1)"
    using digest_first_page [OF r ok1(1) f(8) ok1(2)] by blast
  then show ?thesis using f by (intro exI [of _ s1] exI [of _ p1]) (simp add: table_step_def s0_def)
qed

text \<open>A page opens its table before it has an answer, and binds it when the answer is there.\<close>

lemma open_and_bind:
  assumes "rows \<noteq> []" and "5 \<le> set_maxSize (extend_config config)"
  shows "\<exists>st s p n. open_table None None [] (\<lambda>r. []) = Some st
    \<and> table_step (Bind config (Some cs) rows objs) st = Some (s, p) \<and> table_settled (s, p)
    \<and> t_columns s = [n..<n + length cs] \<and> (\<forall>c < length cs. t_column s (n + c) = Column (cs ! c))
    \<and> (\<forall>c. tcl_reverse (t_column s c) = None) \<and> t_rows s = rows \<and> t_row s = objs
    \<and> t_predicate s = [(''$'', '''')] \<and> t_set s = extend_config config \<and> t_currentPage s = 1"
proof -
  obtain s p where o: "open_table None None [] (\<lambda>r. []) = Some (s, p)" and st: "table_settled (s, p)"
    and f: "t_columnCollection s = None" "t_lastColumnSort s = None" "t_columns s = []" "t_rows s = []"
      "t_currentPage s = 1" "t_predicate s = [(''$'', '''')]" "t_set s = extend_config None"
    using open_state [of None "[]" "[]" None "\<lambda>r. []"] by auto
  have "t_numberOfPages s = 1"
    using st f by (simp add: settled_parts table_ok_def table_fresh_def arranged_def sortDataRow_def filterFilter_def calculateNumberOfPages_def)
  then have "refreshes (Bind config (Some cs) rows objs) s"
    using assms f by (simp add: extend_config_def DefaultTableConfiguration_def)
  from bind_state [OF st this f(3) _ f(5) f(2)] show ?thesis using o f(1,6) by fastforce
qed

theorem sort_cycle_witness:
  "\<exists>s p s3. open_table (Some taskTableConfig) (Some [plain_column ''host'']) [0, 1]
      (\<lambda>r. [(''host'', JStr (if r = 0 then ''b'' else ''a''))]) = Some (s, p)
    \<and> table_run [ClickHeader 0, ClickHeader 0, ClickHeader 0] (s, p) = Some (s3, p)
    \<and> t_displayed s3 = t_displayed s"
proof -
  obtain s p where o: "open_table (Some taskTableConfig) (Some [plain_column ''host'']) [0, 1]
      (\<lambda>r. [(''host'', JStr (if r = 0 then ''b'' else ''a''))]) = Some (s, p)"
    and f: "t_columns s = [0]" "t_column s 0 = Column (plain_column ''host'')"
      "\<forall>c. tcl_reverse (t_column s c) = None"
    using open_state [of "Some [plain_column ''host'']" "[plain_column ''host'']" "[0, 1]" "Some taskTableConfig"
        "\<lambda>r. [(''host'', JStr (if r = 0 then ''b'' else ''a''))]"] by auto
  show ?thesis
    using sort_cycle [OF opened [OF o], of 0] f o by (auto simp: Column_def plain_column_def)
qed

theorem pages_show_all_rows_witness:
  "\<exists>s p. open_table (Some taskTableConfig) (Some []) [0, 1, 2] (\<lambda>r. [(''host'', JStr ''h'')]) = Some (s, p)
    \<and> concat (map (\<lambda>n. t_displayed (changePage n s)) [1 .. t_numberOfPages s]) = arranged s"
proof -
  obtain s p where o: "open_table (Some taskTableConfig) (Some []) [0, 1, 2] (\<lambda>r. [(''host'', JStr ''h'')]) = Some (s, p)"
    and "t_set s = extend_config (Some taskTableConfig)"
    using open_state [of "Some []" "[]" "[0, 1, 2]" "Some taskTableConfig" "\<lambda>r. [(''host'', JStr ''h'')]"] by auto
  then have "set_isPaginationEnabled (t_set s)" "1 \<le> set_itemsByPage (t_set s)"
    by (simp_all add: extend_config_def taskTableConfig_def DefaultTableConfiguration_def)
  from pages_show_all_rows [OF opened [OF o] this] show ?thesis using o by blast
qed

section \<open>New columns\<close>

text \<open>C17: when a page gives a table other columns, the rows stay in the order they are in, that of the
  column that was clicked before, but no header is marked as sorted: the controller still sorts
  by the object of the old column.  A click on the header of the same property then sorts in
  ascending order, even when the rows were so sorted already.
\<close>

theorem new_columns_hide_sort:
  assumes "table_reach (s, p)" and "t_columnCollection s \<noteq> Some cs"
  shows "\<exists>s1. table_step (BindColumns (Some cs)) (s, p) = Some (s1, p)
    \<and> t_displayed s1 = t_displayed s \<and> arranged s1 = arranged s \<and> t_lastColumnSort s1 = t_lastColumnSort s
    \<and> map (t_column s1) (t_columns s1) = map Column cs
    \<and> (\<forall>c \<in> set (t_columns s1). header_class (t_column s1 c) = '''')
    \<and> (\<forall>c \<in> set (t_columns s1). tcl_isSortable (t_column s1 c) \<longrightarrow>
         tcl_reverse (t_column (sortBy (Some c) s1) c) = Some False)"
proof -
  have st: "table_settled (s, p)" by (rule reach_settled [OF assms(1)])
  then have ok: "table_ok s" by (simp add: settled_parts)
  define s0 where "s0 = table_handle (BindColumns (Some cs)) s"
  define s1 where "s1 = with_columns cs (s0\<lparr>w_columns := Some (Some cs), t_columns := []\<rparr>)"
  have "digest_pass table_watches s0 = (True, s1)"
    using ok assms(2)
    by (simp add: table_watches_def watch_config_def watch_columns_def watch_length_def watch_search_def
        s0_def s1_def ok_defs columns_listener_Some) (simp add: with_columns_def)
  moreover have ok1: "table_ok s1"
    using round_ok [OF st, of "BindColumns (Some cs)"] calculation by (simp add: s0_def)
  moreover have same: "t_numberOfPages s1 = t_numberOfPages s" "t_displayed s1 = t_displayed s"
    "t_currentPage s1 = t_currentPage s" "t_set s1 = t_set s" "t_lastColumnSort s1 = t_lastColumnSort s"
    by (simp_all add: s1_def s0_def with_columns_def)
  ultimately have step: "table_step (BindColumns (Some cs)) (s, p) = Some (s1, p)"
    using digest_same_sum [of s0 True s1 p] st by (simp add: table_step_def s0_def settled_parts watched_sum_def)
  have arr: "arranged s1 = arranged s"
    using ok by (intro arranged_cong) (auto simp: s1_def s0_def with_columns_def ok_defs)
  have cols: "map (t_column s1) (t_columns s1) = map Column cs"
    by (rule nth_equalityI) (simp_all add: s1_def s0_def with_columns_def)
  have unmarked: "tcl_reverse (t_column s1 c) = None" if "c \<in> set (t_columns s1)" for c
  proof -
    have "t_column s1 c \<in> set (map Column cs)" using that cols [symmetric] by simp
    then show ?thesis by (auto simp: Column_def)
  qed
  have "tcl_reverse (t_column (sortBy (Some c) s1) c) = Some False"
    if "c \<in> set (t_columns s1)" "tcl_isSortable (t_column s1 c)" for c
    using sortBy_column(6) [of s1 c] that ok1 unmarked [OF that(1)] by (simp add: table_ok_def next_reverse_def)
  then show ?thesis
    using step same arr cols unmarked by (intro exI [of _ s1]) (auto simp: header_class_def)
qed

theorem new_columns_hide_sort_witness:
  "\<exists>s p s1. open_table (Some taskTableConfig) (Some (map of_column taskColumns)) [0, 1] (\<lambda>r. [(''host'', JStr ''a'')]) = Some (s, p)
    \<and> table_step (BindColumns (Some (map of_column (addColumn 2 taskColumns taskIdColumn)))) (s, p) = Some (s1, p)
    \<and> t_displayed s1 = t_displayed s"
proof -
  obtain s p where o: "open_table (Some taskTableConfig) (Some (map of_column taskColumns)) [0, 1] (\<lambda>r. [(''host'', JStr ''a'')]) = Some (s, p)"
    and c: "t_columnCollection s = Some (map of_column taskColumns)"
    using open_state [of "Some (map of_column taskColumns)" "map of_column taskColumns" "[0, 1]" "Some taskTableConfig"
        "\<lambda>r. [(''host'', JStr ''a'')]"] by auto
  have "length (addColumn 2 taskColumns taskIdColumn) \<noteq> length taskColumns"
    using column_lists(1,3) [THEN arg_cong [where f = length]] by simp
  then have "t_columnCollection s \<noteq> Some (map of_column (addColumn 2 taskColumns taskIdColumn))"
    by (metis c length_map option.inject)
  from new_columns_hide_sort [OF opened [OF o] this] show ?thesis using o by blast
qed

section \<open>Selection\<close>

lemma isSelected_set [simp]:
  "isSelected (t_row (set_selected r b s) q) = (if q = r then b else isSelected (t_row s q))"
  by (simp add: set_selected_def isSelected_def obj_get_set)

lemma isSelected_unselect [simp]:
  "isSelected (t_row (unselect s r) q) = (q \<noteq> r \<and> isSelected (t_row s q))"
  using isSelected_set [of r False s q] by (simp add: unselect_def Let_def)

lemma isSelected_unselect_all:
  "isSelected (t_row (foldl unselect s rs) q) = (q \<notin> set rs \<and> isSelected (t_row s q))"
  by (induction rs arbitrary: s) auto

lemma index_in_nth: "x \<in> set xs \<Longrightarrow> 0 \<le> index_in xs x \<and> index_in xs x < int (length xs) \<and> xs ! nat (index_in xs x) = x"
proof -
  assume "x \<in> set xs"
  moreover from this have "length (takeWhile (\<lambda>y. y \<noteq> x) xs) < length xs" by (induction xs) auto
  ultimately show ?thesis using nth_length_takeWhile [of "\<lambda>y. y \<noteq> x" xs] by (simp add: index_in_def)
qed

text \<open>in the tables of the application a click on a row selects it and unselects every other row, on
  whichever page it is; a click on the selected row leaves no row selected.  The rows shown stay
  as they are.
\<close>

theorem single_selection:
  assumes "set_selectionMode (t_set s) = ''single''" and "r \<in> set (t_rows s)"
  shows "(\<forall>q \<in> set (t_rows s). isSelected (t_row (toggleSelection r s) q) \<longleftrightarrow> q = r \<and> \<not> isSelected (t_row s r))
    \<and> t_displayed (toggleSelection r s) = t_displayed s"
proof
  show "t_displayed (toggleSelection r s) = t_displayed s" by (rule toggle_fields)
  show "\<forall>q \<in> set (t_rows s). isSelected (t_row (toggleSelection r s) q) \<longleftrightarrow> q = r \<and> \<not> isSelected (t_row s r)"
    using assms index_in_nth [OF assms(2)]
    by (auto simp: toggleSelection_def selectDataRow_def Let_def isSelected_unselect_all)
qed

theorem single_selection_witness:
  "let s = (link_table None None [0, 1, 2] (\<lambda>r. [(''isSelected'', JBool (r = 0))]))\<lparr>t_set := extend_config (Some taskTableConfig)\<rparr> in
   map (\<lambda>q. isSelected (t_row (toggleSelection 2 s) q)) [0, 1, 2] = [False, False, True]"
  using single_selection [of "(link_table None None [0, 1, 2] (\<lambda>r. [(''isSelected'', JBool (r = 0))]))\<lparr>t_set := extend_config (Some taskTableConfig)\<rparr>" 2]
  by (simp add: link_table_def extend_config_def taskTableConfig_def DefaultTableConfiguration_def isSelected_def obj_get_def Let_def)

section \<open>The table of roles\<close>

text \<open>A summary of a role as the object the table gets.\<close>

definition role_object :: "role_summary \<Rightarrow> json obj" where
  "role_object r = [(''role'', JStr (rs_role r)), (''jobCount'', JNum (Fin (of_int (rs_jobCount r)))),
     (''cronJobCount'', JNum (Fin (of_int (rs_cronJobCount r))))]"

text \<open>The rows of a table and the objects they are, for a list a controller put into its scope.\<close>

definition rows_of :: "'a list \<Rightarrow> nat list" where
  "rows_of xs = [0..<length xs]"

definition objects_of :: "('a \<Rightarrow> json obj) \<Rightarrow> 'a list \<Rightarrow> nat \<Rightarrow> json obj" where
  "objects_of f xs r = (if r < length xs then f (xs ! r) else [])"

lemma map_rows_of: "map (\<lambda>r. xs ! r) (rows_of xs) = xs"
  by (simp add: rows_of_def map_nth)

lemma found_empty: "text_matches '''' s"
proof -
  have "occurs_in [] s" for s by (cases s) simp_all
  then show ?thesis by (simp add: text_matches_def to_lower_def)
qed

lemma roles_unfiltered:
  "filterFilter (objects_of role_object xs) (rows_of xs) [(''$'', '''')] = rows_of xs"
  by (simp add: filterFilter_def objects_of_def rows_of_def role_object_def found_empty cong: filter_cong)

lemma order_numbers: "order_compare (Some (JNum (Fin (of_int a)))) (Some (JNum (Fin (of_int b)))) \<le> 0 \<longleftrightarrow> a \<le> b"
  by (auto simp: order_compare_def js_eq_def is_zero_def Let_def)

lemma insert_by_map:
  "\<forall>y \<in> set (x # ys). \<forall>z \<in> set (x # ys). cmp y z \<le> 0 \<longleftrightarrow> g (f y) \<le> (g (f z) :: 'b :: linorder) \<Longrightarrow>
   map f (insert_by cmp x ys) = insort_key g (f x) (map f ys)"
  by (induction ys) auto

lemma array_sort_map:
  "\<forall>y \<in> set xs. \<forall>z \<in> set xs. cmp y z \<le> 0 \<longleftrightarrow> g (f y) \<le> (g (f z) :: 'b :: linorder) \<Longrightarrow>
   map f (array_sort cmp xs) = sort_key g (map f xs)"
proof (induction xs)
  case (Cons x xs)
  have s: "set (array_sort cmp xs) = set xs" by (metis array_sort_mset mset_eq_setD)
  have "map f (insert_by cmp x (array_sort cmp xs)) = insort_key g (f x) (map f (array_sort cmp xs))"
    by (rule insert_by_map) (use Cons.prems s in simp)
  then show ?case using Cons by simp
qed simp

lemma jobs_order:
  "map (\<lambda>r. xs ! r) (orderBy (objects_of role_object xs) (rows_of xs) ''jobCount'' False) = sort_key rs_jobCount xs"
proof -
  have "map (\<lambda>r. xs ! r) (orderBy (objects_of role_object xs) (rows_of xs) ''jobCount'' False)
      = sort_key rs_jobCount (map (\<lambda>r. xs ! r) (rows_of xs))"
    by (simp add: orderBy_def reverseComparator_def Let_def, rule array_sort_map)
       (auto simp: rows_of_def objects_of_def role_object_def obj_get_def order_numbers)
  then show ?thesis by (simp add: map_rows_of)
qed

lemma fromTo_take: "1 \<le> k \<Longrightarrow> fromTo xs 0 k = take (nat k) xs"
  by (cases "xs = []") (simp_all add: fromTo_chunk)

lemma info_settings:
  "extend_config (Some (infoTableConfig\<lparr>tc_columnSpan := n\<rparr>)) = \<lparr>set_selectionMode = ''single'',
     set_isGlobalSearchActivated = True, set_displaySelectionCheckbox = False, set_isPaginationEnabled = True,
     set_itemsByPage = 25, set_maxSize = 8\<rparr>"
  by (simp add: infoTableConfig_def extend_config_def DefaultTableConfiguration_def)

lemma role_scope:
  assumes "cr_error response = ''''"
    and "RoleSummaryController_then response (RoleSummaryController_init, infoTableConfig) = (scope, config)"
  shows "rsc_roleSummaries scope = sort_key (\<lambda>r. to_lower (rs_role r)) (cr_payload response)"
    and "rsc_tableConfig scope = Some (infoTableConfig\<lparr>tc_columnSpan := Some 3\<rparr>)"
    and "map of_column (rsc_columns scope) = map plain_column [''role'', ''jobCount'', ''cronJobCount'']"
  using assms by (auto simp: RoleSummaryController_then_def role_parseResponse_def Let_def roles_sorted
      roleSummaryColumns_def of_column_def mk_column_def link_column_def)

text \<open>C15: when the roles arrive, the first page of the interface shows the first twenty-five of them in
  alphabetical order, whatever their case; a click on the header of the number of jobs shows
  those with the fewest jobs, and roles with as many jobs stay in alphabetical order.
\<close>

theorem role_table:
  assumes "cr_error response = ''''" and "cr_payload response \<noteq> []"
    and "RoleSummaryController_then response (RoleSummaryController_init, infoTableConfig) = (scope, config)"
  defines "roles \<equiv> rsc_roleSummaries scope" and "columns \<equiv> map of_column (rsc_columns scope)"
  shows "\<exists>st s p s1. open_table None None [] (\<lambda>r. []) = Some st
    \<and> table_step (Bind (rsc_tableConfig scope) (Some columns) (rows_of roles) (objects_of role_object roles)) st = Some (s, p)
    \<and> map (\<lambda>r. roles ! r) (t_displayed s) = take 25 (sort_key (\<lambda>r. to_lower (rs_role r)) (cr_payload response))
    \<and> table_step (ClickHeader (t_columns s ! 1)) (s, p) = Some (s1, p)
    \<and> map (\<lambda>r. roles ! r) (t_displayed s1)
        = take 25 (sort_key rs_jobCount (sort_key (\<lambda>r. to_lower (rs_role r)) (cr_payload response)))"
proof -
  note roles = role_scope(1) [OF assms(1,3), folded roles_def]
    and cfg = role_scope(2) [OF assms(1,3)] and cols = role_scope(3) [OF assms(1,3), folded columns_def]
  have ne: "roles \<noteq> []" using assms(2) unfolding roles by (metis length_0_conv length_sort)
  obtain st s p n where o: "open_table None None [] (\<lambda>r. []) = Some st"
    and b: "table_step (Bind (rsc_tableConfig scope) (Some columns) (rows_of roles) (objects_of role_object roles)) st = Some (s, p)"
    and st: "table_settled (s, p)" and f: "t_columns s = [n..<n + length columns]"
      "\<forall>c < length columns. t_column s (n + c) = Column (columns ! c)" "\<forall>c. tcl_reverse (t_column s c) = None"
      "t_rows s = rows_of roles" "t_row s = objects_of role_object roles" "t_predicate s = [(''$'', '''')]"
      "t_set s = extend_config (rsc_tableConfig scope)" "t_currentPage s = 1"
    using open_and_bind [of "rows_of roles" "rsc_tableConfig scope" columns "objects_of role_object roles"] ne
    by (simp add: rows_of_def cfg info_settings) blast
  have part: "shown_part s xs = take 25 xs" for xs
    by (simp add: shown_part_def f cfg info_settings fromTo_take)
  have arr: "arranged s = rows_of roles"
    using arranged_unmarked [OF f(3)] by (simp add: f roles_unfiltered)
  then have d: "map (\<lambda>r. roles ! r) (t_displayed s) = take 25 roles"
    using st by (simp add: settled_parts table_ok_def table_fresh_def part take_map [symmetric] map_rows_of)
  define c where "c = t_columns s ! 1"
  have c: "c \<in> set (t_columns s)" "t_column s c = Column (plain_column ''jobCount'')"
    using f(1) f(2) [rule_format, of 1] by (auto simp: c_def cols)
  have ok: "columns_ok s" using st by (simp add: settled_parts table_ok_def)
  have sortable: "tcl_isSortable (t_column s c)" by (simp add: c(2) Column_def plain_column_def)
  note k = sortBy_column [OF ok c(1) sortable]
  have "arranged (sortBy (Some c) s) = orderBy (objects_of role_object roles) (rows_of roles) ''jobCount'' False"
    by (subst arranged_by [OF k(5)])
       (simp add: k c(2) f Column_def plain_column_def next_reverse_def roles_unfiltered)
  then have "map (\<lambda>r. roles ! r) (t_displayed (sortBy (Some c) s)) = take 25 (sort_key rs_jobCount roles)"
    using sortBy_shows [of "Some c" s] by (simp add: part take_map [symmetric] jobs_order)
  then show ?thesis
    using o b d header_step [OF st, of c] by (intro exI [of _ st] exI [of _ s] exI [of _ p]
        exI [of _ "sortBy (Some c) s"]) (simp add: c_def roles)
qed

definition two_roles :: "role_summary list call_result" where
  "two_roles = \<lparr>cr_error = '''', cr_statsUrlPrefix = '''', cr_payload =
     [\<lparr>rs_role = ''web'', rs_jobCount = 1, rs_cronJobCount = 0\<rparr>,
      \<lparr>rs_role = ''Ads'', rs_jobCount = 2, rs_cronJobCount = 1\<rparr>]\<rparr>"

lemma two_roles_sorted:
  "sort_key (\<lambda>r. to_lower (rs_role r)) (cr_payload two_roles) = rev (cr_payload two_roles)"
  "sort_key rs_jobCount (rev (cr_payload two_roles)) = cr_payload two_roles"
  by (code_simp, simp add: two_roles_def)

theorem role_table_witness:
  "let (scope, config) = RoleSummaryController_then two_roles (RoleSummaryController_init, infoTableConfig);
       roles = rsc_roleSummaries scope; columns = map of_column (rsc_columns scope)
   in \<exists>st s p s1. open_table None None [] (\<lambda>r. []) = Some st
     \<and> table_step (Bind (rsc_tableConfig scope) (Some columns) (rows_of roles) (objects_of role_object roles)) st = Some (s, p)
     \<and> map (\<lambda>r. roles ! r) (t_displayed s) = rev (cr_payload two_roles)
     \<and> table_step (ClickHeader (t_columns s ! 1)) (s, p) = Some (s1, p)
     \<and> map (\<lambda>r. roles ! r) (t_displayed s1) = cr_payload two_roles"
proof -
  obtain scope config where c: "RoleSummaryController_then two_roles (RoleSummaryController_init, infoTableConfig) = (scope, config)"
    by (cases "RoleSummaryController_then two_roles (RoleSummaryController_init, infoTableConfig)")
  have "take 25 (cr_payload two_roles) = cr_payload two_roles" "take 25 (rev (cr_payload two_roles)) = rev (cr_payload two_roles)"
    by (simp_all add: two_roles_def)
  then show ?thesis
    using role_table [OF _ _ c] by (simp add: c two_roles_sorted Let_def) (simp add: two_roles_def)
qed

end
