(* ===== verification/PromiseChain.thy ===== *)
theory PromiseChain
  imports Prelude
begin

text \<open>
  The promises of \<open>$q\<close> (\<open>qFactory\<close> of \<open>angular.js\<close>) with rejection: a store of deferreds, the queue of
  tasks for the next ticks, and callbacks that return a value or a promise or throw.  \<open>Promise\<close>
  is the part of it the controllers see; here is what lies behind a \<open>then\<close>: the deferred it returns,
  and what becomes of an exception.  A callback is a token whose meaning is the argument \<open>reply\<close>.
  Progress notifications, \<open>when\<close> and \<open>finally\<close>, which the interface does not use, are left out.
\<close>

section \<open>Deferreds and tasks\<close>

text \<open>What a deferred can be resolved with, as \<open>ref\<close> sees it: a plain value, the object \<open>reject\<close> makes of a
  reason, or the promise of a deferred.\<close>

datatype 'v ref = Plain 'v | Rejected 'v | Promised nat

datatype 'v reply = Returns "'v ref" | Throws 'v

text \<open>What \<open>then\<close> puts into \<open>pending\<close>: the deferred of its result, and the two callbacks, if they are functions.\<close>

record 'k waiter =
  wt_result :: nat
  wt_callback :: "'k option"
  wt_errback :: "'k option"

datatype ('v, 'k) deferred_state = Waiting "'k waiter list" | Settled "'v ref"

datatype ('v, 'k) tick_task =
    Attach "'k waiter list" "'v ref" \<comment> \<open>\<open>value.then\<close> for every callback that was pending\<close>
  | Fulfil "'k waiter" 'v
  | Refuse "'k waiter" 'v

record ('v, 'k) q =
  q_state :: "nat \<Rightarrow> ('v, 'k) deferred_state"
  q_next :: nat
  q_tasks :: "('v, 'k) tick_task list"
  q_calls :: "('k \<times> 'v) list" \<comment> \<open>the callbacks called so far\<close>
  q_thrown :: "'v list" \<comment> \<open>what \<open>exceptionHandler\<close> was called with\<close>

definition q_empty :: "('v, 'k) q" where
  "q_empty = \<lparr>q_state = (\<lambda>i. Waiting []), q_next = 0, q_tasks = [], q_calls = [], q_thrown = []\<rparr>"

definition nextTick :: "('v, 'k) tick_task \<Rightarrow> ('v, 'k) q \<Rightarrow> ('v, 'k) q" where
  "nextTick t q = q\<lparr>q_tasks := q_tasks q @ [t]\<rparr>"

definition q_defer :: "('v, 'k) q \<Rightarrow> nat \<times> ('v, 'k) q" where
  "q_defer q = (q_next q, q\<lparr>q_state := (q_state q)(q_next q := Waiting []), q_next := Suc (q_next q)\<rparr>)"

definition q_resolve :: "nat \<Rightarrow> 'v ref \<Rightarrow> ('v, 'k) q \<Rightarrow> ('v, 'k) q" where
  "q_resolve i x q = (case q_state q i of
       Waiting ws \<Rightarrow> (let q1 = q\<lparr>q_state := (q_state q)(i := Settled x)\<rparr> in
         if ws = [] then q1 else nextTick (Attach ws x) q1)
     | Settled y \<Rightarrow> q)"

definition q_reject :: "nat \<Rightarrow> 'v \<Rightarrow> ('v, 'k) q \<Rightarrow> ('v, 'k) q" where
  "q_reject i reason q = q_resolve i (Rejected reason) q"

text \<open>
  \<open>then\<close> on the promise of a settled deferred goes on to the value it was settled with.  The promises on the
  way make results of their own, which nobody sees.  A circle of promises would never end: \<open>None\<close>, and
  as many steps as there are deferreds are enough to see one.
\<close>

fun follow :: "nat \<Rightarrow> ('v, 'k) q \<Rightarrow> 'v ref \<Rightarrow> 'v ref option" where
  "follow n q (Plain v) = Some (Plain v)"
| "follow n q (Rejected r) = Some (Rejected r)"
| "follow n q (Promised p) = (case q_state q p of
       Waiting ws \<Rightarrow> Some (Promised p)
     | Settled y \<Rightarrow> (case n of 0 \<Rightarrow> None | Suc m \<Rightarrow> follow m q y))"

definition ref_then :: "'v ref \<Rightarrow> 'k waiter \<Rightarrow> ('v, 'k) q \<Rightarrow> ('v, 'k) q option" where
  "ref_then x w q = (case follow (q_next q) q x of
       None \<Rightarrow> None
     | Some (Plain v) \<Rightarrow> Some (nextTick (Fulfil w v) q)
     | Some (Rejected r) \<Rightarrow> Some (nextTick (Refuse w r) q)
     | Some (Promised p) \<Rightarrow> (case q_state q p of
           Waiting ws \<Rightarrow> Some (q\<lparr>q_state := (q_state q)(p := Waiting (ws @ [w]))\<rparr>)
         | Settled y \<Rightarrow> None))"

definition q_then :: "nat \<Rightarrow> 'k option \<Rightarrow> 'k option \<Rightarrow> ('v, 'k) q \<Rightarrow> (nat \<times> ('v, 'k) q) option" where
  "q_then i callback errback q =
     (let (r, q1) = q_defer q; w = \<lparr>wt_result = r, wt_callback = callback, wt_errback = errback\<rparr> in
      map_option (Pair r) (ref_then (Promised i) w q1))"

definition q_catch :: "nat \<Rightarrow> 'k option \<Rightarrow> ('v, 'k) q \<Rightarrow> (nat \<times> ('v, 'k) q) option" where
  "q_catch i errback q = q_then i None errback q"

section \<open>Ticks\<close>

text \<open>A callback is called, and the deferred of its \<open>then\<close> gets what it returns, or is rejected.\<close>

definition call_with :: "('k \<Rightarrow> 'v \<Rightarrow> 'v reply) \<Rightarrow> 'k \<Rightarrow> 'v \<Rightarrow> nat \<Rightarrow> ('v, 'k) q \<Rightarrow> ('v, 'k) q" where
  "call_with reply k v r q =
     (let q1 = q\<lparr>q_calls := q_calls q @ [(k, v)]\<rparr> in
      case reply k v of
        Returns x \<Rightarrow> q_resolve r x q1
      | Throws e \<Rightarrow> (let q2 = q_reject r e q1 in q2\<lparr>q_thrown := q_thrown q2 @ [e]\<rparr>))"

definition wrappedCallback :: "('k \<Rightarrow> 'v \<Rightarrow> 'v reply) \<Rightarrow> 'k waiter \<Rightarrow> 'v \<Rightarrow> ('v, 'k) q \<Rightarrow> ('v, 'k) q" where
  "wrappedCallback reply w v q = (case wt_callback w of
       Some k \<Rightarrow> call_with reply k v (wt_result w) q
     | None \<Rightarrow> q_resolve (wt_result w) (Plain v) q)"

definition wrappedErrback :: "('k \<Rightarrow> 'v \<Rightarrow> 'v reply) \<Rightarrow> 'k waiter \<Rightarrow> 'v \<Rightarrow> ('v, 'k) q \<Rightarrow> ('v, 'k) q" where
  "wrappedErrback reply w reason q = (case wt_errback w of
       Some k \<Rightarrow> call_with reply k reason (wt_result w) q
     | None \<Rightarrow> q_resolve (wt_result w) (Rejected reason) q)"

fun attach_all :: "'k waiter list \<Rightarrow> 'v ref \<Rightarrow> ('v, 'k) q \<Rightarrow> ('v, 'k) q option" where
  "attach_all [] x q = Some q"
| "attach_all (w # ws) x q = (case ref_then x w q of None \<Rightarrow> None | Some q1 \<Rightarrow> attach_all ws x q1)"

fun run_task :: "('k \<Rightarrow> 'v \<Rightarrow> 'v reply) \<Rightarrow> ('v, 'k) tick_task \<Rightarrow> ('v, 'k) q \<Rightarrow> ('v, 'k) q option" where
  "run_task reply (Attach ws x) q = attach_all ws x q"
| "run_task reply (Fulfil w v) q = Some (wrappedCallback reply w v q)"
| "run_task reply (Refuse w v) q = Some (wrappedErrback reply w v q)"

text \<open>The tasks are run one after the other, those they schedule after those that are there; \<open>None\<close> also when
  \<open>n\<close> ticks are not enough.\<close>

fun run_ticks :: "nat \<Rightarrow> ('k \<Rightarrow> 'v \<Rightarrow> 'v reply) \<Rightarrow> ('v, 'k) q \<Rightarrow> ('v, 'k) q option" where
  "run_ticks n reply q = (case q_tasks q of
       [] \<Rightarrow> Some q
     | t # ts \<Rightarrow> (case n of
           0 \<Rightarrow> None
         | Suc m \<Rightarrow> (case run_task reply t (q\<lparr>q_tasks := ts\<rparr>) of None \<Rightarrow> None | Some q1 \<Rightarrow> run_ticks m reply q1)))"

declare run_ticks.simps [simp del]

section \<open>Settled once\<close>

text \<open>\<open>resolve\<close> sets \<open>pending\<close> to \<open>undefined\<close>: no later task changes a deferred that has its value.\<close>

lemma resolve_keeps_settled: "q_state q i = Settled y \<Longrightarrow> q_state (q_resolve j x q) i = Settled y"
  by (auto simp: q_resolve_def nextTick_def Let_def split: deferred_state.split)

lemma ref_then_keeps_settled:
  "\<lbrakk>ref_then x w q = Some q1; q_state q i = Settled y\<rbrakk> \<Longrightarrow> q_state q1 i = Settled y"
  by (auto simp: ref_then_def nextTick_def split: option.splits ref.splits deferred_state.splits)

lemma attach_keeps_settled:
  "\<lbrakk>attach_all ws x q = Some q1; q_state q i = Settled y\<rbrakk> \<Longrightarrow> q_state q1 i = Settled y"
  by (induction ws x q rule: attach_all.induct) (auto split: option.splits dest: ref_then_keeps_settled)

lemma task_keeps_settled:
  "\<lbrakk>run_task reply t q = Some q1; q_state q i = Settled y\<rbrakk> \<Longrightarrow> q_state q1 i = Settled y"
  by (cases t) (auto simp: wrappedCallback_def wrappedErrback_def call_with_def q_reject_def Let_def
      resolve_keeps_settled dest: attach_keeps_settled split: option.splits reply.splits)

lemma ticks_keep_settled:
  "\<lbrakk>run_ticks n reply q = Some q'; q_state q i = Settled y\<rbrakk> \<Longrightarrow> q_state q' i = Settled y"
proof (induction n arbitrary: q)
  case 0
  then show ?case by (simp add: run_ticks.simps split: list.splits)
next
  case (Suc n)
  show ?case
  proof (cases "q_tasks q")
    case Nil
    with Suc.prems show ?thesis by (simp add: run_ticks.simps)
  next
    case (Cons t ts)
    with Suc.prems(1) obtain q1 where q1: "run_task reply t (q\<lparr>q_tasks := ts\<rparr>) = Some q1"
        and rest: "run_ticks n reply q1 = Some q'"
      by (subst (asm) run_ticks.simps) (auto split: option.splits)
    have "q_state q1 i = Settled y"
      by (rule task_keeps_settled [OF q1]) (simp add: Suc.prems(2))
    with rest show ?thesis by (rule Suc.IH)
  qed
qed

section \<open>What becomes of a value\<close>

text \<open>A value or a reason on its way through a \<open>then\<close> with the handlers \<open>h\<close> (callback and errback): the call
  made, if any, and the result.\<close>

type_synonym 'k handlers = "'k option \<times> 'k option"

definition called :: "'v ref \<Rightarrow> 'k handlers \<Rightarrow> ('k \<times> 'v) list" where
  "called x h = (case x of
       Plain v \<Rightarrow> (case fst h of Some k \<Rightarrow> [(k, v)] | None \<Rightarrow> [])
     | Rejected r \<Rightarrow> (case snd h of Some k \<Rightarrow> [(k, r)] | None \<Rightarrow> [])
     | Promised p \<Rightarrow> [])"

definition result_of :: "'v reply \<Rightarrow> 'v ref" where
  "result_of a = (case a of Returns x \<Rightarrow> x | Throws e \<Rightarrow> Rejected e)"

definition passed :: "('k \<Rightarrow> 'v \<Rightarrow> 'v reply) \<Rightarrow> 'v ref \<Rightarrow> 'k handlers \<Rightarrow> 'v ref" where
  "passed reply x h = (case called x h of [] \<Rightarrow> x | (k, v) # _ \<Rightarrow> result_of (reply k v))"

definition raised :: "('k \<Rightarrow> 'v \<Rightarrow> 'v reply) \<Rightarrow> ('k \<times> 'v) list \<Rightarrow> 'v list" where
  "raised reply calls = concat (map (\<lambda>(k, v). case reply k v of Throws e \<Rightarrow> [e] | Returns x \<Rightarrow> []) calls)"

definition plain_ref :: "'v ref \<Rightarrow> bool" where
  "plain_ref x \<longleftrightarrow> (case x of Promised p \<Rightarrow> False | _ \<Rightarrow> True)"

fun calls_along :: "('k \<Rightarrow> 'v \<Rightarrow> 'v reply) \<Rightarrow> 'v ref \<Rightarrow> 'k handlers list \<Rightarrow> ('k \<times> 'v) list" where
  "calls_along reply x [] = []"
| "calls_along reply x (h # hs) = called x h @ calls_along reply (passed reply x h) hs"

definition task_for :: "'k waiter \<Rightarrow> 'v ref \<Rightarrow> ('v, 'k) tick_task" where
  "task_for w x = (case x of Plain v \<Rightarrow> Fulfil w v | Rejected r \<Rightarrow> Refuse w r | Promised p \<Rightarrow> Attach [w] x)"

definition handlers :: "'k waiter \<Rightarrow> 'k handlers" where
  "handlers w = (wt_callback w, wt_errback w)"

lemma raised_append [simp]: "raised reply (a @ b) = raised reply a @ raised reply b" "raised reply [] = []"
  by (simp_all add: raised_def)

lemma ref_then_plain: "plain_ref x \<Longrightarrow> ref_then x w q = Some (nextTick (task_for w x) q)"
  by (cases x) (simp_all add: ref_then_def plain_ref_def task_for_def)

lemma attach_plain:
  "plain_ref x \<Longrightarrow> attach_all ws x q = Some (q\<lparr>q_tasks := q_tasks q @ map (\<lambda>w. task_for w x) ws\<rparr>)"
  by (induction ws arbitrary: q) (simp_all add: ref_then_plain nextTick_def)

lemma passed_plain:
  "\<lbrakk>plain_ref x; \<And>k v. plain_ref (result_of (reply k v))\<rbrakk> \<Longrightarrow> plain_ref (passed reply x h)"
  by (simp add: passed_def split: list.split)

text \<open>The callback is recorded, and the deferred of its result is resolved with what it returned.\<close>

lemma run_task_plain:
  assumes "plain_ref x"
  shows "run_task reply (task_for w x) q =
    Some (q_resolve (wt_result w) (passed reply x (handlers w))
      (q\<lparr>q_calls := q_calls q @ called x (handlers w), q_thrown := q_thrown q @ raised reply (called x (handlers w))\<rparr>))"
  using assms
  by (cases x) (auto simp: task_for_def plain_ref_def wrappedCallback_def wrappedErrback_def call_with_def
      handlers_def passed_def called_def raised_def result_of_def q_reject_def q_resolve_def nextTick_def Let_def
      split: option.splits reply.splits deferred_state.splits)

section \<open>Chains of callbacks\<close>

text \<open>\<open>promise.then(c1, e1).then(c2, e2)...\<close>\<close>

fun then_chain :: "nat \<Rightarrow> 'k handlers list \<Rightarrow> ('v, 'k) q \<Rightarrow> (nat \<times> ('v, 'k) q) option" where
  "then_chain i [] q = Some (i, q)"
| "then_chain i ((c, e) # hs) q = (case q_then i c e q of None \<Rightarrow> None | Some (r, q1) \<Rightarrow> then_chain r hs q1)"

text \<open>Every deferred of the chain waits for the one before it; \<open>r\<close> is the last.\<close>

fun chained :: "('v, 'k) q \<Rightarrow> nat \<Rightarrow> 'k waiter list \<Rightarrow> nat \<Rightarrow> bool" where
  "chained q i [] r \<longleftrightarrow> q_state q i = Waiting [] \<and> i = r"
| "chained q i (w # ws) r \<longleftrightarrow> q_state q i = Waiting [w] \<and> chained q (wt_result w) ws r"

lemma chained_cong:
  "\<lbrakk>chained q i ws r; \<And>j. j \<in> set (i # map wt_result ws) \<Longrightarrow> q_state q' j = q_state q j\<rbrakk> \<Longrightarrow> chained q' i ws r"
  by (induction ws arbitrary: i) simp_all

lemma q_then_waiting:
  assumes "q_state q i = Waiting ws" and "i < q_next q"
  shows "q_then i c e q = Some (q_next q,
    q\<lparr>q_state := (q_state q)(q_next q := Waiting [], i := Waiting (ws @ [\<lparr>wt_result = q_next q, wt_callback = c, wt_errback = e\<rparr>])),
      q_next := Suc (q_next q)\<rparr>)"
  using assms by (simp add: q_then_def q_defer_def ref_then_def Let_def)

lemma then_chain_chained:
  assumes "q_state q i = Waiting []" and "i < q_next q"
  shows "\<exists>r q1 ws. then_chain i hs q = Some (r, q1) \<and> chained q1 i ws r \<and> map handlers ws = hs
    \<and> distinct (i # map wt_result ws) \<and> (\<forall>w \<in> set ws. q_next q \<le> wt_result w)
    \<and> (\<forall>j < q_next q. j \<noteq> i \<longrightarrow> q_state q1 j = q_state q j)
    \<and> q_tasks q1 = q_tasks q \<and> q_calls q1 = q_calls q \<and> q_thrown q1 = q_thrown q"
  using assms
proof (induction hs arbitrary: i q)
  case Nil
  then show ?case by (intro exI [of _ i] exI [of _ q] exI [of _ "[]"]) simp
next
  case (Cons h hs)
  obtain c e where h: "h = (c, e)" by (cases h)
  let ?n = "q_next q" and ?w = "\<lparr>wt_result = q_next q, wt_callback = c, wt_errback = e\<rparr>"
  let ?q = "q\<lparr>q_state := (q_state q)(?n := Waiting [], i := Waiting [?w]), q_next := Suc ?n\<rparr>"
  have first: "then_chain i (h # hs) q = then_chain ?n hs ?q"
    using q_then_waiting [OF Cons.prems, of c e] by (simp add: h)
  have "q_state ?q ?n = Waiting []" and "?n < q_next ?q" using Cons.prems(2) by simp_all
  from Cons.IH [OF this] obtain r q1 ws where chain: "then_chain ?n hs ?q = Some (r, q1)"
      "chained q1 ?n ws r" "map handlers ws = hs" "distinct (?n # map wt_result ws)"
      "\<forall>w \<in> set ws. q_next ?q \<le> wt_result w" "\<forall>j < q_next ?q. j \<noteq> ?n \<longrightarrow> q_state q1 j = q_state ?q j"
      "q_tasks q1 = q_tasks ?q" "q_calls q1 = q_calls ?q" "q_thrown q1 = q_thrown ?q"
    by blast
  have "q_state q1 i = Waiting [?w]" using chain(6) Cons.prems(2) by simp
  with chain(2) have "chained q1 i (?w # ws) r" by simp
  moreover have "map handlers (?w # ws) = h # hs" using chain(3) by (simp add: h handlers_def)
  moreover have "distinct (i # map wt_result (?w # ws))" using chain(4,5) Cons.prems(2) by fastforce
  moreover have "\<forall>w \<in> set (?w # ws). ?n \<le> wt_result w" using chain(5) by fastforce
  moreover have "\<forall>j < ?n. j \<noteq> i \<longrightarrow> q_state q1 j = q_state q j" using chain(6) by simp
  ultimately show ?case
    using chain(7-9) first chain(1)
    by (intro exI [of _ r] exI [of _ q1] exI [of _ "?w # ws"]) simp
qed

lemma chain_runs:
  assumes "chained q i ws r" and "distinct (i # map wt_result ws)" and "q_tasks q = []" and "plain_ref x"
    and plain: "\<And>k v. plain_ref (result_of (reply k v))"
  shows "\<exists>q2. run_ticks (2 * length ws) reply (q_resolve i x q) = Some q2 \<and> q_tasks q2 = []
    \<and> q_state q2 r = Settled (foldl (passed reply) x (map handlers ws))
    \<and> q_calls q2 = q_calls q @ calls_along reply x (map handlers ws)
    \<and> q_thrown q2 = q_thrown q @ raised reply (calls_along reply x (map handlers ws))"
  using assms(1-4)
proof (induction ws arbitrary: q i x)
  case Nil
  then have "q_resolve i x q = q\<lparr>q_state := (q_state q)(i := Settled x)\<rparr>" by (auto simp: q_resolve_def)
  with Nil show ?case by (auto simp: run_ticks.simps [of 0])
next
  case (Cons w ws)
  let ?h = "handlers w"
  let ?q = "q\<lparr>q_state := (q_state q)(i := Settled x), q_tasks := [], q_calls := q_calls q @ called x ?h,
    q_thrown := q_thrown q @ raised reply (called x ?h)\<rparr>"
  let ?x = "passed reply x ?h"
  have resolved: "q_resolve i x q = q\<lparr>q_state := (q_state q)(i := Settled x), q_tasks := [Attach [w] x]\<rparr>"
    using Cons.prems by (simp add: q_resolve_def nextTick_def)
  have two: "run_ticks (2 * length (w # ws)) reply (q_resolve i x q)
      = run_ticks (2 * length ws) reply (q_resolve (wt_result w) ?x ?q)"
    unfolding resolved using Cons.prems(3)
    by (simp add: run_ticks.simps [of "Suc _"] attach_plain [OF Cons.prems(4)] run_task_plain [OF Cons.prems(4)])
  have "chained ?q (wt_result w) ws r"
    by (rule chained_cong [of q]) (use Cons.prems in auto)
  moreover have "distinct (wt_result w # map wt_result ws)" "q_tasks ?q = []"
    using Cons.prems by auto
  moreover have "plain_ref ?x" by (rule passed_plain [OF Cons.prems(4) plain])
  ultimately show ?case
    unfolding two using Cons.IH [of ?q "wt_result w" ?x] by simp
qed

text \<open>C38: A chain of \<open>then\<close> and \<open>catch\<close> carries a value to its end: when a promise with callbacks attached one
  after the other is resolved or rejected, two ticks for each of them settle the last promise.  A value goes to the
  callbacks and a reason to the errbacks; what a handler returns goes on as the value, what it throws as a
  reason, which \<open>exceptionHandler\<close> gets as well; a \<open>then\<close> without the handler asked for passes on what it got.\<close>

theorem chain_carries:
  assumes "q_defer q0 = (i, q)" and "q_tasks q0 = []" and "plain_ref x"
    and "\<And>k v. plain_ref (result_of (reply k v))"
  shows "\<exists>r q1 q2. then_chain i hs q = Some (r, q1)
    \<and> run_ticks (2 * length hs) reply (q_resolve i x q1) = Some q2 \<and> q_tasks q2 = []
    \<and> q_state q2 r = Settled (foldl (passed reply) x hs)
    \<and> q_calls q2 = q_calls q0 @ calls_along reply x hs
    \<and> q_thrown q2 = q_thrown q0 @ raised reply (calls_along reply x hs)"
proof -
  have q: "q_state q i = Waiting []" "i < q_next q" "q_tasks q = []" "q_calls q = q_calls q0" "q_thrown q = q_thrown q0"
    using assms(1,2) by (auto simp: q_defer_def)
  from then_chain_chained [OF q(1,2), of hs] obtain r q1 ws where c: "then_chain i hs q = Some (r, q1)"
      "chained q1 i ws r" "map handlers ws = hs" "distinct (i # map wt_result ws)"
      "q_tasks q1 = q_tasks q" "q_calls q1 = q_calls q" "q_thrown q1 = q_thrown q" by blast
  have "length ws = length hs" using c(3) by auto
  moreover have "q_tasks q1 = []" using c(5) q(3) by simp
  ultimately show ?thesis
    using chain_runs [OF c(2,4) _ assms(3,4)] c q by auto
qed

text \<open>Callbacks for the witness: one goes on with the next number, one throws what it gets.\<close>

definition reply_example :: "bool \<Rightarrow> int \<Rightarrow> int reply" where
  "reply_example k v = (if k then Returns (Plain (v + 1)) else Throws v)"

definition chain_example :: "bool handlers list" where
  "chain_example = [(Some True, None), (Some False, Some True), (Some True, None), (None, Some True), (Some True, None)]"

theorem chain_carries_witness:
  "\<exists>r q1 q2. then_chain 0 chain_example (snd (q_defer q_empty)) = Some (r, q1)
    \<and> run_ticks (2 * length chain_example) reply_example (q_resolve 0 (Plain 5) q1) = Some q2 \<and> q_tasks q2 = []
    \<and> q_state q2 r = Settled (Plain 8) \<and> q_calls q2 = [(True, 5), (False, 6), (True, 6), (True, 7)]
    \<and> q_thrown q2 = [6]"
proof -
  have plain: "plain_ref (result_of (reply_example k v))" for k v
    by (simp add: plain_ref_def result_of_def reply_example_def)
  have start: "q_defer q_empty = (0, snd (q_defer q_empty))" "q_tasks q_empty = []" "q_calls q_empty = []"
      "q_thrown q_empty = []" "plain_ref (Plain (5 :: int))"
    by (simp_all add: q_defer_def q_empty_def plain_ref_def)
  have out: "foldl (passed reply_example) (Plain 5) chain_example = Plain 8"
      "calls_along reply_example (Plain 5) chain_example = [(True, 5), (False, 6), (True, 6), (True, 7)]"
    by (simp_all add: chain_example_def passed_def called_def result_of_def reply_example_def)
  have thrown: "raised reply_example [(True, 5), (False, 6), (True, 6), (True, 7)] = [6]"
    by (simp add: raised_def reply_example_def)
  show ?thesis
    using chain_carries [where reply = reply_example and hs = chain_example, OF start(1,2,5) plain]
    unfolding out thrown start(3,4) by simp
qed

text \<open>Promises attached to the same deferred do not disturb one another: in one tick all the callbacks are
  scheduled, in the order in which they were attached.\<close>

lemma branches_scheduled:
  assumes "q_state q i = Waiting ws" and "ws \<noteq> []" and "q_tasks q = []" and "plain_ref x"
  shows "run_ticks (Suc n) reply (q_resolve i x q)
    = run_ticks n reply (q\<lparr>q_state := (q_state q)(i := Settled x), q_tasks := map (\<lambda>w. task_for w x) ws\<rparr>)"
  using assms by (simp add: q_resolve_def nextTick_def run_ticks.simps [of "Suc n"] attach_plain)

lemma branches_run:
  assumes "plain_ref x" and "\<And>w. w \<in> set ws \<Longrightarrow> q_state q (wt_result w) = Waiting []"
    and "distinct (map wt_result ws)"
    and "q_tasks q = map (\<lambda>w. task_for w x) ws"
  shows "\<exists>q2. run_ticks (length ws) reply q = Some q2 \<and> q_tasks q2 = []
    \<and> (\<forall>w \<in> set ws. q_state q2 (wt_result w) = Settled (passed reply x (handlers w)))
    \<and> q_calls q2 = q_calls q @ concat (map (\<lambda>w. called x (handlers w)) ws)"
  using assms(2-4)
proof (induction ws arbitrary: q)
  case Nil
  then show ?case by (simp add: run_ticks.simps)
next
  case (Cons w ws)
  let ?h = "handlers w"
  let ?q = "q\<lparr>q_tasks := map (\<lambda>w. task_for w x) ws, q_calls := q_calls q @ called x ?h,
    q_thrown := q_thrown q @ raised reply (called x ?h),
    q_state := (q_state q)(wt_result w := Settled (passed reply x ?h))\<rparr>"
  have "run_ticks (length (w # ws)) reply q = run_ticks (length ws) reply ?q"
    using Cons.prems by (simp add: run_ticks.simps [of "Suc _"] run_task_plain [OF assms(1)] q_resolve_def)
  moreover have idle: "q_state ?q (wt_result v) = Waiting []" if "v \<in> set ws" for v
  proof -
    have "wt_result w \<noteq> wt_result v" using Cons.prems(2) imageI [OF that, of wt_result] by fastforce
    with Cons.prems(1) [of v] that show ?thesis by simp
  qed
  moreover obtain q2 where q2: "run_ticks (length ws) reply ?q = Some q2" "q_tasks q2 = []"
      "\<forall>w \<in> set ws. q_state q2 (wt_result w) = Settled (passed reply x (handlers w))"
      "q_calls q2 = q_calls ?q @ concat (map (\<lambda>w. called x (handlers w)) ws)"
    using Cons.IH [of ?q, OF idle] Cons.prems(2) by auto
  moreover have "q_state q2 (wt_result w) = Settled (passed reply x ?h)"
    by (rule ticks_keep_settled [OF q2(1)]) simp
  ultimately show ?case by auto
qed

end
