(* ===== verification/Navigation.thy ===== *)
theory Navigation
  imports Routes
begin

text \<open>
  How the application moves from page to page: the router's \<open>updateRoute\<close> with its redirects, the templates it
  loads and keeps (\<open>angular-route.js\<close>, and \<open>$http\<close> with a cache in \<open>angular.js\<close>), the watch of \<open>$location\<close> that
  writes the browser's history, and the directive \<open>ngView\<close> that shows the page.  Clicks, the buttons
  of the browser and the answers with the templates come in any order.
  An address is the decoded path and the query, an object of strings; fragments are left out.
\<close>

section \<open>Routes that are entered\<close>

type_synonym address = "string \<times> string obj"

datatype destination = Route target | Otherwise

text \<open>The object \<open>parseRoute\<close> inherits from a route; \<open>nv_id\<close> is its identity.\<close>

record nav =
  nv_id :: nat
  nv_destination :: destination
  nv_params :: "string obj"
  nv_pathParams :: "string obj"

text \<open>The broadcasts, each with the route they are about.\<close>

datatype nav_signal = RouteUpdate nat | ChangeStart nat | ChangeSuccess nat | ChangeError nat

text \<open>What \<open>ngView\<close> shows: the template, the controller, and the \<open>$routeParams\<close> it was made with.\<close>

record route_view =
  rv_template :: string
  rv_controller :: string
  rv_params :: "string obj"

text \<open>The template cache: the promise of a request under way, or the text.\<close>

datatype cached = Underway | Stored string

record router =
  ro_past :: "address list" \<comment> \<open>the history of the browser, the latest first\<close>
  ro_url :: address \<comment> \<open>\<open>$browser.url()\<close>\<close>
  ro_future :: "address list"
  ro_location :: address \<comment> \<open>\<open>$location\<close>\<close>
  ro_replace :: bool \<comment> \<open>\<open>$$replace\<close>\<close>
  ro_current :: "nav option"
  ro_params :: "string obj" \<comment> \<open>\<open>$routeParams\<close>\<close>
  ro_forceReload :: bool
  ro_cache :: "cached obj"
  ro_waiting :: "(string \<times> nav) list" \<comment> \<open>the routes that wait for a template\<close>
  ro_view :: "route_view option"
  ro_left :: "string option" \<comment> \<open>what was assigned to \<open>window.location.href\<close>\<close>
  ro_next :: nat
  ro_signals :: "nav_signal list"

definition broadcast :: "nav_signal \<Rightarrow> router \<Rightarrow> router" where
  "broadcast e s = s\<lparr>ro_signals := ro_signals s @ [e]\<rparr>"

definition obj_extend :: "'v obj \<Rightarrow> 'v obj \<Rightarrow> 'v obj" where
  "obj_extend d e = foldl (\<lambda>d p. obj_set (fst p) (snd p) d) d e"

text \<open>\<open>angular.equals\<close> on objects of strings.\<close>

definition obj_equals :: "string obj \<Rightarrow> string obj \<Rightarrow> bool" where
  "obj_equals d e \<longleftrightarrow> list_all (\<lambda>k. obj_get d k = obj_get e k) (map fst d @ map fst e)"

text \<open>The route of the address; the one without a path, \<open>otherwise\<close>, when no pattern matches.\<close>

definition next_route :: "address \<Rightarrow> (destination \<times> string obj \<times> string obj) result" where
  "next_route a = (case parseRoute (fst a) of
       Some r \<Rightarrow> res_bind r (\<lambda>(t, params). Inr (Route t, obj_extend (snd a) params, params))
     | None \<Rightarrow> Inr (Otherwise, [], []))"

text \<open>\<open>when\<close> sets \<open>reloadOnSearch\<close>, but not on the route it adds for the other form of the path.\<close>

definition reloadOnSearch :: "nav \<Rightarrow> bool" where
  "reloadOnSearch n = (case nv_destination n of Route (Redirect to) \<Rightarrow> False | _ \<Rightarrow> True)"

section \<open>From the route to the view\<close>

text \<open>\<open>next == $route.current\<close>\<close>

definition is_current :: "nav \<Rightarrow> router \<Rightarrow> bool" where
  "is_current n s = (case ro_current s of Some m \<Rightarrow> nv_id m = nv_id n | None \<Rightarrow> False)"

text \<open>\<open>update\<close> of \<open>ngView\<close>: a template replaces what is shown, and its absence clears it.\<close>

definition view_update :: "string option \<Rightarrow> nav \<Rightarrow> router \<Rightarrow> router" where
  "view_update template current s = s\<lparr>ro_view := (case (template, nv_destination current) of
       (Some t, Route (Page url controller)) \<Rightarrow>
         Some \<lparr>rv_template = t, rv_controller = controller, rv_params = ro_params s\<rparr>
     | _ \<Rightarrow> None)\<rparr>"

text \<open>The end of a route change, with the template if the route has one, and its failure.\<close>

definition change_done :: "string option \<Rightarrow> nav \<Rightarrow> router \<Rightarrow> router" where
  "change_done template n s = (if is_current n s
     then view_update template n (broadcast (ChangeSuccess (nv_id n)) (s\<lparr>ro_params := nv_params n\<rparr>)) else s)"

definition change_failed :: "nav \<Rightarrow> router \<Rightarrow> router" where
  "change_failed n s = (if is_current n s then broadcast (ChangeError (nv_id n)) s else s)"

text \<open>What \<open>$q.when(next)\<close> starts: all of it runs before the address is looked at again, unless the template has
  to be fetched.\<close>

definition load_route :: "nav \<Rightarrow> router \<Rightarrow> router" where
  "load_route n s = (case nv_destination n of
       Route (Page url controller) \<Rightarrow> (case obj_get (ro_cache s) url of
           Some (Stored t) \<Rightarrow> change_done (Some t) n s
         | Some Underway \<Rightarrow> s\<lparr>ro_waiting := ro_waiting s @ [(url, n)]\<rparr>
         | None \<Rightarrow> s\<lparr>ro_cache := obj_set url Underway (ro_cache s), ro_waiting := ro_waiting s @ [(url, n)]\<rparr>)
     | _ \<Rightarrow> change_done None n s)"

text \<open>\<open>$location.path(path)\<close> puts a slash in front.\<close>

definition set_address :: "string \<Rightarrow> string obj \<Rightarrow> router \<Rightarrow> router" where
  "set_address path search s =
     s\<lparr>ro_location := (if take 1 path = ''/'' then path else CHR ''/'' # path, search), ro_replace := True\<rparr>"

definition enter_route :: "nav \<Rightarrow> router \<Rightarrow> router" where
  "enter_route n s =
     (let s1 = broadcast (ChangeStart (nv_id n)) (s\<lparr>ro_forceReload := False, ro_next := Suc (ro_next s)\<rparr>) in
      case nv_destination n of
        Route (Redirect to) \<Rightarrow>
          (let (path, rest) = interpolate to (nv_params n); n1 = n\<lparr>nv_params := rest\<rparr>
           in load_route n1 (set_address path rest (s1\<lparr>ro_current := Some n1\<rparr>)))
      | Route (Page url controller) \<Rightarrow> load_route n (s1\<lparr>ro_current := Some n\<rparr>)
      | Otherwise \<Rightarrow> load_route n (s1\<lparr>ro_current := Some n, ro_left := Some (fst (ro_location s))\<rparr>))"

text \<open>A malformed escape throws out of \<open>parseRoute\<close>; \<open>$broadcast\<close> reports it, and nothing has changed.\<close>

definition updateRoute :: "router \<Rightarrow> router" where
  "updateRoute s = (case next_route (ro_location s) of
       Inl e \<Rightarrow> s
     | Inr (d, params, pathParams) \<Rightarrow>
         (let n = \<lparr>nv_id = ro_next s, nv_destination = d, nv_params = params, nv_pathParams = pathParams\<rparr> in
          case ro_current s of
            None \<Rightarrow> enter_route n s
          | Some prev \<Rightarrow>
              if d = nv_destination prev \<and> obj_equals pathParams (nv_pathParams prev) \<and> \<not> reloadOnSearch n \<and> \<not> ro_forceReload s
              then broadcast (RouteUpdate (nv_id prev)) (s\<lparr>ro_current := Some (prev\<lparr>nv_params := params\<rparr>), ro_params := params\<rparr>)
              else enter_route n s))"

section \<open>The address\<close>

text \<open>\<open>$browser.url(url, replace)\<close>\<close>

definition browser_url :: "router \<Rightarrow> router" where
  "browser_url s = s\<lparr>ro_past := (if ro_replace s then ro_past s else ro_url s # ro_past s),
     ro_url := ro_location s, ro_future := (if ro_replace s then ro_future s else []), ro_replace := False\<rparr>"

text \<open>\<open>$locationWatch\<close> in a digest that runs until nothing changes; \<open>None\<close>: it gives up.\<close>

fun location_watch :: "nat \<Rightarrow> router \<Rightarrow> router option" where
  "location_watch n s =
     (if ro_location s = ro_url s then Some (s\<lparr>ro_replace := False\<rparr>)
      else case n of 0 \<Rightarrow> None | Suc m \<Rightarrow> location_watch m (updateRoute (browser_url s)))"

declare location_watch.simps [simp del]

definition digest_rounds :: nat where
  "digest_rounds = 10"

definition digest_location :: "router \<Rightarrow> router option" where
  "digest_location s = location_watch digest_rounds s"

section \<open>Events\<close>

text \<open>A click on a link, the browser's buttons, \<open>$route.reload\<close>, and the answer to the request for a template,
  \<open>None\<close> if it fails.\<close>

datatype nav_event = Follow address | GoBack | GoForward | ReloadRoute | TemplateCame string "string option"

definition click_link :: "address \<Rightarrow> router \<Rightarrow> router option" where
  "click_link a s = (if a = ro_url s then Some s else digest_location (s\<lparr>ro_location := a\<rparr>))"

text \<open>\<open>fireUrlChange\<close> and the listener of \<open>$location\<close>.\<close>

definition url_changed :: "router \<Rightarrow> router option" where
  "url_changed s = (if ro_location s = ro_url s then Some s
     else digest_location (updateRoute (s\<lparr>ro_location := ro_url s\<rparr>)))"

definition go_back :: "router \<Rightarrow> router option" where
  "go_back s = (case ro_past s of
       [] \<Rightarrow> Some s
     | u # us \<Rightarrow> url_changed (s\<lparr>ro_past := us, ro_url := u, ro_future := ro_url s # ro_future s\<rparr>))"

definition go_forward :: "router \<Rightarrow> router option" where
  "go_forward s = (case ro_future s of
       [] \<Rightarrow> Some s
     | u # us \<Rightarrow> url_changed (s\<lparr>ro_future := us, ro_url := u, ro_past := ro_url s # ro_past s\<rparr>))"

definition reload :: "router \<Rightarrow> router option" where
  "reload s = digest_location (updateRoute (s\<lparr>ro_forceReload := True\<rparr>))"

text \<open>\<open>done\<close> of \<open>sendReq\<close>: a success is cached, a failure removes the promise, and all that waited go on.\<close>

definition template_came :: "string \<Rightarrow> string option \<Rightarrow> router \<Rightarrow> router" where
  "template_came url answer s =
     (let waiting = map snd (filter (\<lambda>w. fst w = url) (ro_waiting s));
          s1 = s\<lparr>ro_cache := (case answer of Some t \<Rightarrow> obj_set url (Stored t) (ro_cache s) | None \<Rightarrow> obj_delete url (ro_cache s)),
            ro_waiting := filter (\<lambda>w. fst w \<noteq> url) (ro_waiting s)\<rparr>
      in foldl (\<lambda>s n. case answer of Some t \<Rightarrow> change_done (Some t) n s | None \<Rightarrow> change_failed n s) s1 waiting)"

fun nav_step :: "nav_event \<Rightarrow> router \<Rightarrow> router option" where
  "nav_step (Follow a) s = click_link a s"
| "nav_step GoBack s = go_back s"
| "nav_step GoForward s = go_forward s"
| "nav_step ReloadRoute s = reload s"
| "nav_step (TemplateCame url answer) s = (if obj_get (ro_cache s) url = Some Underway
     then digest_location (template_came url answer s) else Some s)"

fun nav_run :: "nav_event list \<Rightarrow> router \<Rightarrow> router option" where
  "nav_run [] s = Some s"
| "nav_run (e # es) s = (case nav_step e s of None \<Rightarrow> None | Some s1 \<Rightarrow> nav_run es s1)"

text \<open>The page is opened: the first digest always runs \<open>updateRoute\<close>.\<close>

definition opened_at :: "address \<Rightarrow> router option" where
  "opened_at a = digest_location (updateRoute
     \<lparr>ro_past = [], ro_url = a, ro_future = [], ro_location = a, ro_replace = False, ro_current = None, ro_params = [],
      ro_forceReload = False, ro_cache = [], ro_waiting = [], ro_view = None, ro_left = None, ro_next = 0, ro_signals = []\<rparr>)"

inductive nav_reachable :: "router \<Rightarrow> bool" where
  opens: "opened_at a = Some s \<Longrightarrow> nav_reachable s"
| steps: "\<lbrakk>nav_reachable s; nav_step e s = Some s'\<rbrakk> \<Longrightarrow> nav_reachable s'"

section \<open>What the page shows\<close>

text \<open>Where a page is with its template: the request has failed, is under way, or the page is shown.\<close>

definition route_shown :: "nav \<Rightarrow> router \<Rightarrow> bool" where
  "route_shown n s = (case nv_destination n of
       Route (Page url controller) \<Rightarrow> (case obj_get (ro_cache s) url of
           None \<Rightarrow> True
         | Some Underway \<Rightarrow> (url, n) \<in> set (ro_waiting s)
         | Some (Stored t) \<Rightarrow>
             ro_view s = Some \<lparr>rv_template = t, rv_controller = controller, rv_params = nv_params n\<rparr> \<and> ro_params s = nv_params n)
     | _ \<Rightarrow> ro_view s = None)"

definition waiting_ok :: "router \<Rightarrow> string \<times> nav \<Rightarrow> bool" where
  "waiting_ok s w = (nv_id (snd w) < ro_next s \<and> obj_get (ro_cache s) (fst w) = Some Underway
     \<and> (case nv_destination (snd w) of Route (Page url controller) \<Rightarrow> url = fst w | _ \<Rightarrow> False)
     \<and> (is_current (snd w) s \<longrightarrow> ro_current s = Some (snd w)))"

definition nav_ok :: "router \<Rightarrow> bool" where
  "nav_ok s \<longleftrightarrow> (\<forall>w \<in> set (ro_waiting s). waiting_ok s w)
     \<and> (\<forall>v. ro_view s = Some v \<longrightarrow> rv_params v = ro_params s)
     \<and> (case ro_current s of None \<Rightarrow> ro_view s = None | Some n \<Rightarrow> nv_id n < ro_next s \<and> route_shown n s)"

lemmas nav_okD = nav_ok_def [THEN iffD1, THEN conjunct1, rule_format]
  nav_ok_def [THEN iffD1, THEN conjunct2, THEN conjunct1, rule_format]
  nav_ok_def [THEN iffD1, THEN conjunct2, THEN conjunct2]

text \<open>Nothing of it depends on the address or the history.\<close>

lemma nav_ok_address [simp]:
  "nav_ok (s\<lparr>ro_location := a\<rparr>) = nav_ok s" "nav_ok (s\<lparr>ro_replace := b\<rparr>) = nav_ok s"
  "nav_ok (s\<lparr>ro_url := a\<rparr>) = nav_ok s" "nav_ok (s\<lparr>ro_past := h\<rparr>) = nav_ok s"
  "nav_ok (s\<lparr>ro_future := h\<rparr>) = nav_ok s" "nav_ok (s\<lparr>ro_forceReload := b\<rparr>) = nav_ok s"
  "nav_ok (s\<lparr>ro_left := l\<rparr>) = nav_ok s" "nav_ok (broadcast e s) = nav_ok s"
  by (simp_all add: nav_ok_def waiting_ok_def is_current_def route_shown_def broadcast_def cong: option.case_cong destination.case_cong target.case_cong cached.case_cong)

text \<open>A new current route, which nothing waits for yet.\<close>

definition entering :: "nav \<Rightarrow> router \<Rightarrow> bool" where
  "entering n s \<longleftrightarrow> ro_current s = Some n \<and> nv_id n < ro_next s
     \<and> (\<forall>w \<in> set (ro_waiting s). waiting_ok s w \<and> nv_id (snd w) \<noteq> nv_id n)
     \<and> (\<forall>v. ro_view s = Some v \<longrightarrow> rv_params v = ro_params s)"

lemma load_route_ok:
  assumes "entering n s"
  shows "nav_ok (load_route n s)"
proof (cases "nv_destination n")
  case Otherwise
  with assms show ?thesis
    by (auto simp: load_route_def entering_def nav_ok_def waiting_ok_def is_current_def change_done_def view_update_def
        broadcast_def route_shown_def)
next
  case (Route d)
  show ?thesis
  proof (cases d)
    case (Page url c)
    with Route assms show ?thesis
      by (cases "obj_get (ro_cache s) url"; cases "the (obj_get (ro_cache s) url)")
        (auto simp: load_route_def entering_def nav_ok_def waiting_ok_def is_current_def change_done_def view_update_def
          broadcast_def route_shown_def obj_get_set)
  next
    case (Redirect to)
    with Route assms show ?thesis
      by (auto simp: load_route_def entering_def nav_ok_def waiting_ok_def is_current_def change_done_def view_update_def
          broadcast_def route_shown_def)
  qed
qed

lemma load_route_next: "ro_next (load_route n s) = ro_next s"
  by (simp add: load_route_def change_done_def view_update_def broadcast_def
      split: destination.split target.split option.split cached.split)

lemma enter_route_ok:
  assumes "nav_ok s" and "nv_id n = ro_next s"
  shows "nav_ok (enter_route n s)"
proof -
  have fresh: "nv_id (snd w) < ro_next s" "waiting_ok s w" if "w \<in> set (ro_waiting s)" for w
    using nav_okD(1) [OF assms(1) that] by (simp_all add: waiting_ok_def)
  have "entering m (s1\<lparr>ro_current := Some m\<rparr>)"
    if "nv_id m = ro_next s" "s1 = broadcast e (s\<lparr>ro_forceReload := False, ro_next := Suc (ro_next s)\<rparr>)" for m s1 e
    using that nav_okD(2) [OF assms(1)] fresh
    by (fastforce simp: entering_def broadcast_def waiting_ok_def is_current_def)
  moreover have "entering m (s1\<lparr>ro_current := Some m, ro_left := l\<rparr>) = entering m (s1\<lparr>ro_current := Some m\<rparr>)"
    "entering m (set_address p q (s1\<lparr>ro_current := Some m\<rparr>)) = entering m (s1\<lparr>ro_current := Some m\<rparr>)" for m s1 l p q
    by (simp_all add: entering_def set_address_def waiting_ok_def is_current_def)
  ultimately show ?thesis
    using assms(2)
    by (auto simp: enter_route_def Let_def split: destination.split target.split prod.split intro!: load_route_ok)
qed

lemma updateRoute_ok:
  assumes "nav_ok s"
  shows "nav_ok (updateRoute s)"
proof -
  have reused: "nav_ok (s\<lparr>ro_current := Some (m\<lparr>nv_params := ps\<rparr>), ro_params := ps\<rparr>)"
    if "ro_current s = Some m" "\<not> reloadOnSearch m" for m ps
  proof -
    note prev = that
    obtain to where m: "nv_destination m = Route (Redirect to)"
      using prev(2) by (auto simp: reloadOnSearch_def split: destination.splits target.splits)
    with prev(1) nav_okD(3) [OF assms] have "ro_view s = None" "nv_id m < ro_next s" by (simp_all add: route_shown_def)
    moreover have "nv_id m \<noteq> nv_id (snd w)" if "w \<in> set (ro_waiting s)" for w
      using nav_okD(1) [OF assms that] m prev(1) by (auto simp: waiting_ok_def is_current_def)
    ultimately show ?thesis
      using nav_okD(1) [OF assms] m by (auto simp: nav_ok_def route_shown_def waiting_ok_def is_current_def)
  qed
  have "reloadOnSearch n = reloadOnSearch m" if "nv_destination n = nv_destination m" for n m
    using that by (simp add: reloadOnSearch_def)
  then show ?thesis
    using assms reused
    by (auto simp: updateRoute_def Let_def reloadOnSearch_def split: sum.split option.split prod.split if_split
        intro!: enter_route_ok)
qed

lemma location_watch_ok: "\<lbrakk>location_watch n s = Some s'; nav_ok s\<rbrakk> \<Longrightarrow> nav_ok s' \<and> ro_location s' = ro_url s' \<and> \<not> ro_replace s'"
proof (induction n arbitrary: s)
  case 0
  then show ?case by (auto simp: location_watch.simps split: if_splits)
next
  case (Suc n)
  show ?case
  proof (cases "ro_location s = ro_url s")
    case True
    with Suc.prems show ?thesis by (auto simp: location_watch.simps [of "Suc n"])
  next
    case False
    have "nav_ok (browser_url s)" using Suc.prems(2) by (simp add: browser_url_def)
    with False Suc.prems(1) Suc.IH [OF _ updateRoute_ok] show ?thesis by (simp add: location_watch.simps [of "Suc n"])
  qed
qed

text \<open>Of the routes that waited for a template only the current one is shown.\<close>

lemma change_done_frame [simp]:
  "ro_current (change_done x n s) = ro_current s" "ro_cache (change_done x n s) = ro_cache s"
  "ro_waiting (change_done x n s) = ro_waiting s" "ro_next (change_done x n s) = ro_next s"
  "ro_location (change_done x n s) = ro_location s" "ro_url (change_done x n s) = ro_url s"
  "ro_past (change_done x n s) = ro_past s" "ro_replace (change_done x n s) = ro_replace s"
  by (simp_all add: change_done_def view_update_def broadcast_def)

lemma change_failed_frame [simp]:
  "ro_current (change_failed n s) = ro_current s" "ro_cache (change_failed n s) = ro_cache s"
  "ro_waiting (change_failed n s) = ro_waiting s" "ro_next (change_failed n s) = ro_next s"
  "ro_location (change_failed n s) = ro_location s" "ro_url (change_failed n s) = ro_url s"
  "ro_view (change_failed n s) = ro_view s" "ro_params (change_failed n s) = ro_params s"
  by (simp_all add: change_failed_def broadcast_def)

definition page_state :: "router \<Rightarrow> nav option \<times> cached obj \<times> (string \<times> nav) list \<times> nat \<times> address \<times> address" where
  "page_state s = (ro_current s, ro_cache s, ro_waiting s, ro_next s, ro_location s, ro_url s)"

lemma page_state_change [simp]: "page_state (change_done x n s) = page_state s" "page_state (change_failed n s) = page_state s"
  by (simp_all add: page_state_def)

lemma foldl_failed:
  "page_state (foldl (\<lambda>s n. change_failed n s) s ns) = page_state s"
  "ro_view (foldl (\<lambda>s n. change_failed n s) s ns) = ro_view s"
  "ro_params (foldl (\<lambda>s n. change_failed n s) s ns) = ro_params s"
  by (induction ns arbitrary: s) simp_all

lemma foldl_done_state: "page_state (foldl (\<lambda>s n. change_done x n s) s ns) = page_state s"
  by (induction ns arbitrary: s) simp_all

lemma foldl_done:
  assumes "ro_current s = Some m" and "nv_destination m = Route (Page url c)"
    and "\<And>n. n \<in> set ns \<Longrightarrow> is_current n s \<Longrightarrow> n = m"
  shows "ro_view (foldl (\<lambda>s n. change_done (Some t) n s) s ns) = (if m \<in> set ns
       then Some \<lparr>rv_template = t, rv_controller = c, rv_params = nv_params m\<rparr> else ro_view s)
    \<and> ro_params (foldl (\<lambda>s n. change_done (Some t) n s) s ns) = (if m \<in> set ns then nv_params m else ro_params s)"
  using assms(1,3)
proof (induction ns arbitrary: s)
  case (Cons n ns)
  let ?s = "change_done (Some t) n s"
  have "is_current k ?s = is_current k s" for k by (simp add: is_current_def)
  then have "ro_view (foldl (\<lambda>s n. change_done (Some t) n s) ?s ns) = (if m \<in> set ns
       then Some \<lparr>rv_template = t, rv_controller = c, rv_params = nv_params m\<rparr> else ro_view ?s)
    \<and> ro_params (foldl (\<lambda>s n. change_done (Some t) n s) ?s ns) = (if m \<in> set ns then nv_params m else ro_params ?s)"
    using Cons.prems by (intro Cons.IH) auto
  moreover have "n = m \<Longrightarrow> ro_view ?s = Some \<lparr>rv_template = t, rv_controller = c, rv_params = nv_params m\<rparr> \<and> ro_params ?s = nv_params m"
    using Cons.prems(1) assms(2) by (simp add: change_done_def is_current_def view_update_def broadcast_def)
  moreover have "n \<noteq> m \<Longrightarrow> ?s = s" using Cons.prems(2) [of n] by (auto simp: change_done_def)
  ultimately show ?case by auto
qed simp

lemma foldl_done_other:
  "(\<And>n. n \<in> set ns \<Longrightarrow> \<not> is_current n s) \<Longrightarrow> foldl (\<lambda>s n. change_done x n s) s ns = s"
  by (induction ns) (simp_all add: change_done_def)

lemma template_came_state:
  "page_state (template_came url answer s) =
    (ro_current s, case answer of Some t \<Rightarrow> obj_set url (Stored t) (ro_cache s) | None \<Rightarrow> obj_delete url (ro_cache s),
     filter (\<lambda>w. fst w \<noteq> url) (ro_waiting s), ro_next s, ro_location s, ro_url s)"
  by (cases answer) (simp_all add: template_came_def Let_def foldl_failed foldl_done_state, simp_all add: page_state_def)

lemmas template_came_fields = template_came_state [unfolded page_state_def prod.inject]

text \<open>The template of the current route shows it; any other answer changes nothing that is shown.\<close>

lemma template_came_view:
  assumes "nav_ok s" and "obj_get (ro_cache s) url = Some Underway"
  shows "(ro_view (template_came url answer s), ro_params (template_came url answer s)) =
    (case (answer, ro_current s) of
       (Some t, Some m) \<Rightarrow> (case nv_destination m of
           Route (Page u c) \<Rightarrow> if u = url then (Some \<lparr>rv_template = t, rv_controller = c, rv_params = nv_params m\<rparr>, nv_params m)
             else (ro_view s, ro_params s)
         | _ \<Rightarrow> (ro_view s, ro_params s))
     | _ \<Rightarrow> (ro_view s, ro_params s))"
proof (cases answer)
  case None
  then show ?thesis by (simp add: template_came_def Let_def foldl_failed)
next
  case (Some t)
  let ?ns = "map snd (filter (\<lambda>w. fst w = url) (ro_waiting s))"
  let ?s = "s\<lparr>ro_cache := obj_set url (Stored t) (ro_cache s), ro_waiting := filter (\<lambda>w. fst w \<noteq> url) (ro_waiting s)\<rparr>"
  have came: "template_came url (Some t) s = foldl (\<lambda>s n. change_done (Some t) n s) ?s ?ns"
    by (simp add: template_came_def)
  have waits: "ro_current s = Some n \<and> (\<exists>c. nv_destination n = Route (Page url c))" if "n \<in> set ?ns" "is_current n s" for n
  proof -
    from that(1) have "(url, n) \<in> set (ro_waiting s)" by force
    from nav_okD(1) [OF assms(1) this] that(2) show ?thesis
      by (simp add: waiting_ok_def split: destination.splits target.splits)
  qed
  have same: "is_current n ?s = is_current n s" for n by (simp add: is_current_def)
  show ?thesis
  proof (cases "\<exists>m c. ro_current s = Some m \<and> nv_destination m = Route (Page url c)")
    case True
    then obtain m c where m: "ro_current s = Some m" "nv_destination m = Route (Page url c)" by blast
    have "(url, m) \<in> set (ro_waiting s)"
      using nav_okD(3) [OF assms(1)] m assms(2) by (simp add: route_shown_def)
    then have "m \<in> set ?ns" by force
    with foldl_done [of ?s m url c ?ns t] m waits same show ?thesis by (simp add: came Some)
  next
    case False
    with waits same have "foldl (\<lambda>s n. change_done (Some t) n s) ?s ?ns = ?s"
      by (intro foldl_done_other) blast
    with False Some show ?thesis
      by (auto simp: came split: option.split destination.split target.split)
  qed
qed

lemma template_came_ok:
  assumes "nav_ok s" and under: "obj_get (ro_cache s) url = Some Underway"
  shows "nav_ok (template_came url answer s)"
proof -
  let ?s = "template_came url answer s"
  note view = template_came_view [OF assms, of answer] and fields = template_came_fields [of url answer s]
  have cache: "obj_get (ro_cache ?s) u = (if u = url then map_option Stored answer else obj_get (ro_cache s) u)" for u
    using fields by (cases answer) (simp_all add: obj_get_set obj_get_delete)
  have "waiting_ok ?s w" if "w \<in> set (ro_waiting ?s)" for w
    using that nav_okD(1) [OF assms(1), of w] fields cache by (simp add: waiting_ok_def is_current_def)
  moreover have "rv_params v = ro_params ?s" if "ro_view ?s = Some v" for v
    using that view nav_okD(2) [OF assms(1), of v]
    by (auto split: option.splits destination.splits target.splits if_splits)
  moreover have "case ro_current ?s of None \<Rightarrow> ro_view ?s = None | Some n \<Rightarrow> nv_id n < ro_next ?s \<and> route_shown n ?s"
  proof (cases "ro_current s")
    case None
    with view fields nav_okD(3) [OF assms(1)] show ?thesis by (cases answer) simp_all
  next
    case (Some m)
    with nav_okD(3) [OF assms(1)] have m: "nv_id m < ro_next s" "route_shown m s" by simp_all
    have "route_shown m ?s"
    proof (cases "\<exists>u c. nv_destination m = Route (Page u c)")
      case True
      then obtain u c where d: "nv_destination m = Route (Page u c)" by blast
      then show ?thesis
      proof (cases "u = url")
        case True
        with view Some d cache show ?thesis by (cases answer) (simp_all add: route_shown_def)
      next
        case False
        with view Some d cache m(2) fields show ?thesis
          by (cases answer) (simp_all add: route_shown_def split: option.splits cached.splits)
      qed
    next
      case False
      with view Some m(2) show ?thesis
        by (cases answer) (simp_all add: route_shown_def split: destination.splits target.splits)
    qed
    with m(1) Some fields show ?thesis by simp
  qed
  ultimately show ?thesis by (simp add: nav_ok_def)
qed

section \<open>Every run\<close>

definition at_rest :: "router \<Rightarrow> bool" where
  "at_rest s \<longleftrightarrow> nav_ok s \<and> ro_location s = ro_url s \<and> \<not> ro_replace s"

lemma digest_rest: "\<lbrakk>digest_location s = Some s'; nav_ok s\<rbrakk> \<Longrightarrow> at_rest s'"
  using location_watch_ok by (simp add: digest_location_def at_rest_def)

lemma url_changed_rest: "\<lbrakk>url_changed s = Some s'; nav_ok s; \<not> ro_replace s\<rbrakk> \<Longrightarrow> at_rest s'"
  by (auto simp: url_changed_def at_rest_def split: if_splits dest!: digest_rest [unfolded at_rest_def] intro: updateRoute_ok)

lemma nav_step_rest:
  assumes "nav_step e s = Some s'" and "at_rest s"
  shows "at_rest s'"
proof (cases e)
  case (Follow a)
  with assms show ?thesis
    by (auto simp: click_link_def at_rest_def split: if_splits dest!: digest_rest [unfolded at_rest_def])
next
  case GoBack
  with assms show ?thesis
    by (auto simp: go_back_def at_rest_def split: list.splits dest!: url_changed_rest [unfolded at_rest_def])
next
  case GoForward
  with assms show ?thesis
    by (auto simp: go_forward_def at_rest_def split: list.splits dest!: url_changed_rest [unfolded at_rest_def])
next
  case ReloadRoute
  with assms show ?thesis
    by (auto simp: reload_def at_rest_def dest!: digest_rest [unfolded at_rest_def] intro: updateRoute_ok)
next
  case (TemplateCame url answer)
  with assms show ?thesis
    by (auto simp: at_rest_def template_came_ok split: if_splits dest!: digest_rest [unfolded at_rest_def])
qed

lemma reachable_rest: "nav_reachable s \<Longrightarrow> at_rest s"
proof (induction rule: nav_reachable.induct)
  case (opens a s)
  show ?case
    by (rule digest_rest [OF opens [unfolded opened_at_def]], rule updateRoute_ok) (simp add: nav_ok_def)
next
  case (steps s e s')
  then show ?case by (blast intro: nav_step_rest)
qed

section \<open>The last click wins\<close>

lemma obj_set_new: "k \<notin> set (map fst d) \<Longrightarrow> obj_set k v d = d @ [(k, v)]"
  by (induction d) auto

lemma obj_extend_new: "distinct (map fst (d @ e)) \<Longrightarrow> obj_extend d e = d @ e"
proof (induction e arbitrary: d)
  case (Cons p e)
  then have "obj_set (fst p) (snd p) d = d @ [p]" by (simp add: obj_set_new)
  with Cons show ?case by (simp add: obj_extend_def)
qed (simp add: obj_extend_def)

lemma load_route_frame [simp]:
  "ro_current (load_route n s) = ro_current s" "ro_location (load_route n s) = ro_location s"
  "ro_url (load_route n s) = ro_url s" "ro_past (load_route n s) = ro_past s" "ro_replace (load_route n s) = ro_replace s"
  by (simp_all add: load_route_def split: destination.split target.split option.split cached.split)

text \<open>The address of a page enters its route.\<close>

definition entered :: "string \<Rightarrow> string \<Rightarrow> string obj \<Rightarrow> string obj \<Rightarrow> router \<Rightarrow> nav" where
  "entered url c params pathParams s = \<lparr>nv_id = ro_next s, nv_destination = Route (Page url c), nv_params = params, nv_pathParams = pathParams\<rparr>"

lemma updateRoute_page:
  assumes "ro_location s = (p, q)" and "parseRoute p = Some (Inr (Page url c, ps))"
  shows "ro_current (updateRoute s) = Some (entered url c (obj_extend q ps) ps s)"
    and "ro_location (updateRoute s) = (p, q)" and "ro_url (updateRoute s) = ro_url s"
    and "ro_past (updateRoute s) = ro_past s" and "ro_replace (updateRoute s) = ro_replace s"
    and "ro_view (updateRoute s) = (case obj_get (ro_cache s) url of
      Some (Stored t) \<Rightarrow> Some \<lparr>rv_template = t, rv_controller = c, rv_params = obj_extend q ps\<rparr> | _ \<Rightarrow> ro_view s)"
    and "obj_get (ro_cache (updateRoute s)) url =
      (case obj_get (ro_cache s) url of None \<Rightarrow> Some Underway | Some x \<Rightarrow> Some x)"
  using assms
  by (auto simp: updateRoute_def next_route_def reloadOnSearch_def enter_route_def Let_def broadcast_def load_route_def
      entered_def change_done_def view_update_def is_current_def obj_get_set split: option.split cached.split)

lemma browser_url_frame [simp]:
  "ro_location (browser_url s) = ro_location s" "ro_url (browser_url s) = ro_location s"
  "ro_current (browser_url s) = ro_current s" "ro_view (browser_url s) = ro_view s" "ro_cache (browser_url s) = ro_cache s"
  "ro_next (browser_url s) = ro_next s" "ro_forceReload (browser_url s) = ro_forceReload s" "ro_replace (browser_url s) = False"
  "ro_past (browser_url s) = (if ro_replace s then ro_past s else ro_url s # ro_past s)"
  by (simp_all add: browser_url_def)

lemma digest_page:
  assumes "parseRoute p = Some (Inr (Page url c, ps))" and "(p, q) \<noteq> ro_url s" and "ro_location s = (p, q)"
  shows "\<exists>s1. location_watch (Suc n) s = Some s1 \<and> ro_location s1 = (p, q) \<and> ro_url s1 = (p, q)
    \<and> ro_current s1 = Some (entered url c (obj_extend q ps) ps s)
    \<and> ro_past s1 = (if ro_replace s then ro_past s else ro_url s # ro_past s)
    \<and> ro_view s1 = (case obj_get (ro_cache s) url of
        Some (Stored t) \<Rightarrow> Some \<lparr>rv_template = t, rv_controller = c, rv_params = obj_extend q ps\<rparr> | _ \<Rightarrow> ro_view s)
    \<and> obj_get (ro_cache s1) url = (case obj_get (ro_cache s) url of None \<Rightarrow> Some Underway | Some x \<Rightarrow> Some x)"
proof -
  have at: "ro_location (browser_url s) = (p, q)" using assms(3) by simp
  note page = updateRoute_page [OF at assms(1)]
  have "location_watch (Suc n) s = Some ((updateRoute (browser_url s))\<lparr>ro_replace := False\<rparr>)"
    using assms(2,3) page(2,3) at by (simp add: location_watch.simps)
  moreover have "ro_current (updateRoute (browser_url s)) = Some (entered url c (obj_extend q ps) ps s)"
    using page(1) by (simp add: entered_def)
  ultimately show ?thesis using page assms(3) by (simp cong: option.case_cong cached.case_cong)
qed

text \<open>Answers with templates, as long as nobody clicks.\<close>

definition answers_of :: "(string \<times> string option) list \<Rightarrow> nav_event list" where
  "answers_of as = map (\<lambda>(url, a). TemplateCame url a) as"


lemma template_answer:
  assumes "at_rest s"
  shows "\<exists>s'. nav_step (TemplateCame url answer) s = Some s' \<and> at_rest s' \<and> ro_current s' = ro_current s
    \<and> ro_location s' = ro_location s \<and> (obj_get (ro_cache s) url \<noteq> Some Underway \<longrightarrow> s' = s)
    \<and> (obj_get (ro_cache s) url = Some Underway \<longrightarrow> ro_view s' = ro_view (template_came url answer s)
        \<and> ro_cache s' = ro_cache (template_came url answer s))"
proof (cases "obj_get (ro_cache s) url = Some Underway")
  case True
  let ?s = "template_came url answer s"
  have "ro_location ?s = ro_url ?s" using assms by (simp add: template_came_fields at_rest_def)
  then have step: "nav_step (TemplateCame url answer) s = Some (?s\<lparr>ro_replace := False\<rparr>)"
    using True by (simp add: digest_location_def location_watch.simps)
  with nav_step_rest [OF step assms] True show ?thesis by (simp add: template_came_fields)
qed (use assms in simp)

text \<open>What is shown while the template of the current page is not there stays what it was.\<close>

lemma answers_run:
  assumes "at_rest s" and "ro_current s = Some n" and "nv_destination n = Route (Page url c)"
    and "(\<forall>t. obj_get (ro_cache s) url \<noteq> Some (Stored t)) \<Longrightarrow> ro_view s = V"
  shows "\<exists>s2. nav_run (answers_of as) s = Some s2 \<and> at_rest s2 \<and> ro_current s2 = Some n \<and> ro_location s2 = ro_location s
    \<and> ((\<forall>t. obj_get (ro_cache s2) url \<noteq> Some (Stored t)) \<longrightarrow> ro_view s2 = V)"
  using assms
proof (induction as arbitrary: s)
  case Nil
  then show ?case by (simp add: answers_of_def)
next
  case (Cons a as)
  obtain u x where a: "a = (u, x)" by (cases a)
  obtain s' where s': "nav_step (TemplateCame u x) s = Some s'" "at_rest s'" "ro_current s' = Some n"
      "ro_location s' = ro_location s" "obj_get (ro_cache s) u \<noteq> Some Underway \<longrightarrow> s' = s"
      "obj_get (ro_cache s) u = Some Underway \<longrightarrow> ro_view s' = ro_view (template_came u x s) \<and> ro_cache s' = ro_cache (template_came u x s)"
    using template_answer [OF Cons.prems(1), of u x] Cons.prems(2) by auto
  have keeps: "ro_view s' = V" if none: "\<forall>t. obj_get (ro_cache s') url \<noteq> Some (Stored t)"
  proof (cases "obj_get (ro_cache s) u = Some Underway")
    case False
    with s'(5) none Cons.prems(4) show ?thesis by simp
  next
    case True
    have ok: "nav_ok s" using Cons.prems(1) by (simp add: at_rest_def)
    have cache: "obj_get (ro_cache s') url = (if url = u then map_option Stored x else obj_get (ro_cache s) url)"
      using s'(6) True by (cases x) (simp_all add: template_came_fields obj_get_set obj_get_delete)
    have "\<forall>t. obj_get (ro_cache s) url \<noteq> Some (Stored t)"
      using none cache True by (cases "url = u") auto
    moreover have "ro_view s' = ro_view s"
      using template_came_view [OF ok True, of x] s'(6) True Cons.prems(2,3) none cache
      by (cases x) (auto split: if_splits)
    ultimately show ?thesis using Cons.prems(4) by simp
  qed
  from Cons.IH [OF s'(2,3) Cons.prems(3) keeps] s'(1,4) a show ?case by (simp add: answers_of_def)
qed

text \<open>The page behind a link that is clicked.\<close>

lemma click_shows_page:
  assumes "nav_reachable s" and "parseRoute p = Some (Inr (Page url c, ps))" and "ro_url s \<noteq> (p, q)"
  shows "\<exists>s2. nav_run (Follow (p, q) # answers_of as) s = Some s2 \<and> ro_location s2 = (p, q)
    \<and> ro_view s2 = (case obj_get (ro_cache s2) url of
        Some (Stored t) \<Rightarrow> Some \<lparr>rv_template = t, rv_controller = c, rv_params = obj_extend q ps\<rparr>
      | _ \<Rightarrow> ro_view s)
    \<and> (case ro_view s2 of Some v \<Rightarrow> rv_params v = ro_params s2 | None \<Rightarrow> True)"
proof -
  have rest: "at_rest s" by (rule reachable_rest [OF assms(1)])
  let ?a = "s\<lparr>ro_location := (p, q)\<rparr>"
  obtain s1 where s1: "nav_step (Follow (p, q)) s = Some s1" "ro_location s1 = (p, q)"
      "ro_current s1 = Some (entered url c (obj_extend q ps) ps ?a)"
      "ro_view s1 = (case obj_get (ro_cache s) url of
        Some (Stored t) \<Rightarrow> Some \<lparr>rv_template = t, rv_controller = c, rv_params = obj_extend q ps\<rparr> | _ \<Rightarrow> ro_view s)"
      "obj_get (ro_cache s1) url = (case obj_get (ro_cache s) url of None \<Rightarrow> Some Underway | Some x \<Rightarrow> Some x)"
    using digest_page [OF assms(2), of q ?a 9] assms(3) by (auto simp: click_link_def digest_location_def digest_rounds_def cong: option.case_cong cached.case_cong)
  have rest1: "at_rest s1" by (rule nav_step_rest [OF s1(1) rest])
  have "ro_view s1 = ro_view s" if "\<forall>t. obj_get (ro_cache s1) url \<noteq> Some (Stored t)"
    using s1(4,5) that by (auto split: option.splits cached.splits)
  from answers_run [where as = as, OF rest1 s1(3) _ this] obtain s2 where s2: "nav_run (answers_of as) s1 = Some s2" "at_rest s2"
      "ro_current s2 = Some (entered url c (obj_extend q ps) ps ?a)" "ro_location s2 = (p, q)"
      "(\<forall>t. obj_get (ro_cache s2) url \<noteq> Some (Stored t)) \<longrightarrow> ro_view s2 = ro_view s"
    by (auto simp: entered_def s1(2))
  have ok: "nav_ok s2" using s2(2) by (simp add: at_rest_def)
  have "ro_view s2 = (case obj_get (ro_cache s2) url of
        Some (Stored t) \<Rightarrow> Some \<lparr>rv_template = t, rv_controller = c, rv_params = obj_extend q ps\<rparr> | _ \<Rightarrow> ro_view s)"
    using nav_okD(3) [OF ok] s2(3,5) by (auto simp: route_shown_def entered_def split: option.splits cached.splits)
  moreover have "case ro_view s2 of Some v \<Rightarrow> rv_params v = ro_params s2 | None \<Rightarrow> True"
    using nav_okD(2) [OF ok] by (simp split: option.split)
  ultimately show ?thesis using s1(1) s2(1,4) by auto
qed

text \<open>C12: The last click wins.  After a click on the link to a page, whatever happened before it, with requests for
  the templates of other pages still under way and answered in any order, successfully or not, the
  page shows the template, the controller and the parameters of that link as soon as its template is there, and until
  then what it showed before; the parameters \<open>$routeParams\<close> a controller reads are its own.\<close>

theorem last_click_wins:
  assumes "nav_reachable s" and "parseRoute p = Some (Inr (Page url c, ps))" and "ro_url s \<noteq> (p, q)"
  shows "\<exists>s2. nav_run (Follow (p, q) # answers_of as) s = Some s2 \<and> ro_location s2 = (p, q)
    \<and> ro_view s2 = (case obj_get (ro_cache s2) url of
        Some (Stored t) \<Rightarrow> Some \<lparr>rv_template = t, rv_controller = c, rv_params = obj_extend q ps\<rparr>
      | _ \<Rightarrow> ro_view s)
    \<and> (case ro_view s2 of Some v \<Rightarrow> rv_params v = ro_params s2 | None \<Rightarrow> True)"
  by (rule click_shows_page [OF assms])

lemma opened_page:
  assumes "parseRoute p = Some (Inr (Page url c, ps))"
  shows "\<exists>s. opened_at (p, q) = Some s \<and> ro_url s = (p, q) \<and> ro_current s \<noteq> None
    \<and> (\<forall>n. ro_current s = Some n \<longrightarrow> reloadOnSearch n) \<and> ro_view s = None \<and> obj_get (ro_cache s) url = Some Underway"
  using updateRoute_page [OF _ assms, of "\<lparr>ro_past = [], ro_url = (p, q), ro_future = [], ro_location = (p, q), ro_replace = False,
    ro_current = None, ro_params = [], ro_forceReload = False, ro_cache = [], ro_waiting = [], ro_view = None, ro_left = None,
    ro_next = 0, ro_signals = []\<rparr>" q]
  by (simp add: opened_at_def digest_location_def location_watch.simps entered_def reloadOnSearch_def obj_get_empty)

text \<open>Two roles share a template that is still under way at the second click.\<close>

theorem last_click_wins_witness:
  "\<exists>s s2. opened_at (''/scheduler/ads'', []) = Some s
    \<and> nav_run [Follow (''/scheduler/web'', [(''a'', ''1'')]), TemplateCame ''/assets/role.html'' (Some ''R'')] s = Some s2
    \<and> ro_view s2 = Some \<lparr>rv_template = ''R'', rv_controller = ''JobSummaryController'', rv_params = [(''a'', ''1''), (''role'', ''web'')]\<rparr>"
proof -
  have page: "parseRoute ''/scheduler/web'' = Some (Inr (Page ''/assets/role.html'' ''JobSummaryController'', [(''role'', ''web'')]))"
      "parseRoute ''/scheduler/ads'' = Some (Inr (Page ''/assets/role.html'' ''JobSummaryController'', [(''role'', ''ads'')]))"
    using parse_role [of "''web''"] parse_role [of "''ads''"] by (simp_all add: plain_def)
  obtain s where s: "opened_at (''/scheduler/ads'', []) = Some s" "ro_url s = (''/scheduler/ads'', [])"
      "obj_get (ro_cache s) ''/assets/role.html'' = Some Underway"
    using opened_page [OF page(2), of "[]"] by blast
  let ?a = "(''/scheduler/web'', [(''a'', ''1'')])"
  have new: "ro_url s \<noteq> ?a" using s(2) by simp
  from last_click_wins [where as = "[(''/assets/role.html'', Some ''R'')]", OF opens [OF s(1)] page(1) new]
  obtain s1 s2 where run: "nav_step (Follow ?a) s = Some s1" "nav_step (TemplateCame ''/assets/role.html'' (Some ''R'')) s1 = Some s2"
      "ro_view s2 = (case obj_get (ro_cache s2) ''/assets/role.html'' of
        Some (Stored t) \<Rightarrow> Some \<lparr>rv_template = t, rv_controller = ''JobSummaryController'',
          rv_params = obj_extend [(''a'', ''1'')] [(''role'', ''web'')]\<rparr> | _ \<Rightarrow> ro_view s)"
    by (auto simp: answers_of_def split: option.splits if_splits)
  have rest: "at_rest s1" by (rule reachable_rest [OF steps [OF opens [OF s(1)] run(1)]])
  have "obj_get (ro_cache s1) ''/assets/role.html'' = Some Underway"
    using digest_page [OF page(1), of "[(''a'', ''1'')]" "s\<lparr>ro_location := ?a\<rparr>" 9] run(1) new s(3)
    by (auto simp: click_link_def digest_location_def digest_rounds_def)
  then have "obj_get (ro_cache s2) ''/assets/role.html'' = Some (Stored ''R'')"
    using template_answer [OF rest, of "''/assets/role.html''" "Some ''R''"] run(2)
    by (auto simp: template_came_fields obj_get_set)
  with run(3) have "ro_view s2 = Some \<lparr>rv_template = ''R'', rv_controller = ''JobSummaryController'',
      rv_params = [(''a'', ''1''), (''role'', ''web'')]\<rparr>"
    by (simp add: obj_extend_new)
  then show ?thesis using s(1) run(1,2) by auto
qed

section \<open>Redirects\<close>

text \<open>The addresses of the pages.\<close>

definition app_paths :: "string \<Rightarrow> string \<Rightarrow> string \<Rightarrow> string \<Rightarrow> string list" where
  "app_paths r e j u = [''/scheduler'', ''/scheduler/'' @ r, ''/scheduler/'' @ r @ ''/'' @ e, ''/scheduler/'' @ r @ ''/'' @ e @ ''/'' @ j,
     ''/scheduler/'' @ r @ ''/'' @ e @ ''/'' @ j @ ''/'' @ u, ''/updates'']"

text \<open>The query of a link is any whose names are not those of the parameters in the paths.\<close>

definition free_query :: "string obj \<Rightarrow> bool" where
  "free_query q \<longleftrightarrow> distinct (map fst q) \<and> list_all (\<lambda>k. k \<notin> set route_keys) (map fst q)"

lemma app_redirect:
  assumes "plain r" "plain e" "plain j" "plain u" and "p \<in> set (app_paths r e j u)" and "free_query q"
  shows "\<exists>to ps url c. parseRoute (p @ ''/'') = Some (Inr (Redirect to, ps)) \<and> parseRoute p = Some (Inr (Page url c, ps))
    \<and> interpolate to (obj_extend q ps) = (p, q) \<and> take 1 p = ''/''"
proof -
  have q: "set (map fst q) \<inter> set route_keys = {}" "distinct (map fst q)"
    using assms(6) by (auto simp: free_query_def list_all_iff)
  have more: "obj_extend q ps = q @ ps" if "distinct (map fst ps)" "set (map fst ps) \<subseteq> set route_keys" for ps :: "string obj"
    using q that by (intro obj_extend_new) auto
  note lookup = parse_bare parse_slash0 parse_role [OF assms(1)] parse_slash1 [OF assms(1)] parse_role_env [OF assms(1,2)]
    parse_slash2 [OF assms(1,2)] parse_job [OF assms(1-3)] parse_slash3 [OF assms(1-3)] parse_update [OF assms(1-4)]
    parse_slash4 [OF assms(1-4)]
  consider "p = ''/scheduler''" | "p = ''/updates''" | "p = ''/scheduler/'' @ r" | "p = ''/scheduler/'' @ r @ ''/'' @ e"
    | "p = ''/scheduler/'' @ r @ ''/'' @ e @ ''/'' @ j" | "p = ''/scheduler/'' @ r @ ''/'' @ e @ ''/'' @ j @ ''/'' @ u"
    using assms(5) by (auto simp: app_paths_def)
  then show ?thesis
  proof cases
    case 1
    show ?thesis unfolding 1 lookup by (simp add: interpolate_plain more)
  next
    case 2
    show ?thesis unfolding 2 lookup by (simp add: interpolate_plain more)
  next
    case 3
    show ?thesis unfolding 3 lookup using interpolate_targets(1) [OF q(1)] by (simp add: more route_keys_def)
  next
    case 4
    show ?thesis unfolding 4 lookup using interpolate_targets(2) [OF q(1)] by (simp add: more route_keys_def)
  next
    case 5
    show ?thesis unfolding 5 lookup using interpolate_targets(3) [OF q(1)] by (simp add: more route_keys_def)
  next
    case 6
    show ?thesis unfolding 6 lookup using interpolate_targets(4) [OF q(1)] by (simp add: more route_keys_def)
  qed
qed

text \<open>A redirect changes the address at once, and being without a template it clears the page.\<close>

lemma updateRoute_redirect:
  assumes "ro_location s = (p, q)" and "parseRoute p = Some (Inr (Redirect to, ps))"
    and "interpolate to (obj_extend q ps) = (p', q')" and "take 1 p' = ''/''"
    and "\<And>n. ro_current s = Some n \<Longrightarrow> reloadOnSearch n"
  shows "ro_location (updateRoute s) = (p', q')" and "ro_replace (updateRoute s)" and "ro_url (updateRoute s) = ro_url s"
    and "ro_past (updateRoute s) = ro_past s" and "ro_view (updateRoute s) = None" and "ro_cache (updateRoute s) = ro_cache s"
proof -
  let ?n = "\<lparr>nv_id = ro_next s, nv_destination = Route (Redirect to), nv_params = obj_extend q ps, nv_pathParams = ps\<rparr>"
  have "nv_destination m \<noteq> Route (Redirect to)" if "ro_current s = Some m" for m
    using assms(5) [OF that] by (auto simp: reloadOnSearch_def)
  then have "updateRoute s = enter_route ?n s"
    using assms(1,2) by (auto simp: updateRoute_def next_route_def Let_def split: option.split)
  then show "ro_location (updateRoute s) = (p', q')" "ro_replace (updateRoute s)" "ro_url (updateRoute s) = ro_url s"
    "ro_past (updateRoute s) = ro_past s" "ro_view (updateRoute s) = None" "ro_cache (updateRoute s) = ro_cache s"
    using assms(3,4) by (simp_all add: enter_route_def Let_def broadcast_def load_route_def set_address_def change_done_def
        view_update_def is_current_def)
qed

text \<open>C33: A link with a slash too many leads to the page without it, where the names in the path are plain and the query
  has each key once and none of the names of the path.  From any page the browser ends at the address
  without the slash and with the same query, the history has one entry more, not two, so that Back does
  not lead into the redirect, and the route entered is the one of the page; but the page is blank until its
  template is there, where a link without the slash would keep what was shown.\<close>

theorem slash_lands_on_page:
  assumes "plain r" "plain e" "plain j" "plain u" and "p \<in> set (app_paths r e j u)" and "free_query q"
    and "nav_reachable s" and "\<And>n. ro_current s = Some n \<Longrightarrow> reloadOnSearch n" and "ro_url s \<noteq> (p @ ''/'', q)"
  shows "\<exists>s' url c ps n. nav_step (Follow (p @ ''/'', q)) s = Some s' \<and> ro_url s' = (p, q) \<and> ro_location s' = (p, q)
    \<and> ro_past s' = ro_url s # ro_past s
    \<and> parseRoute p = Some (Inr (Page url c, ps)) \<and> ro_current s' = Some n \<and> nv_destination n = Route (Page url c)
    \<and> nv_params n = obj_extend q ps
    \<and> ro_view s' = (case obj_get (ro_cache s') url of
        Some (Stored t) \<Rightarrow> Some \<lparr>rv_template = t, rv_controller = c, rv_params = obj_extend q ps\<rparr> | _ \<Rightarrow> None)"
proof -
  obtain to ps url c where app: "parseRoute (p @ ''/'') = Some (Inr (Redirect to, ps))" "parseRoute p = Some (Inr (Page url c, ps))"
      "interpolate to (obj_extend q ps) = (p, q)" "take 1 p = ''/''"
    using app_redirect [OF assms(1-6)] by blast
  have rest: "ro_location s = ro_url s" "\<not> ro_replace s"
    using reachable_rest [OF assms(7)] by (simp_all add: at_rest_def)
  let ?b = "browser_url (s\<lparr>ro_location := (p @ ''/'', q)\<rparr>)"
  let ?r = "updateRoute ?b"
  have at: "ro_location ?b = (p @ ''/'', q)" by simp
  have current: "reloadOnSearch n" if "ro_current ?b = Some n" for n using that assms(8) by simp
  note redirected = updateRoute_redirect [OF at app(1,3,4) current]
  have "(p, q) \<noteq> ro_url ?r" using redirected(3) by simp
  from digest_page [OF app(2) this redirected(1), of 8] obtain s' where
    s': "location_watch 9 ?r = Some s'" "ro_location s' = (p, q)" "ro_url s' = (p, q)"
      "ro_current s' = Some (entered url c (obj_extend q ps) ps ?r)" "ro_past s' = ro_past ?r"
      "ro_view s' = (case obj_get (ro_cache ?r) url of
        Some (Stored t) \<Rightarrow> Some \<lparr>rv_template = t, rv_controller = c, rv_params = obj_extend q ps\<rparr> | _ \<Rightarrow> None)"
      "obj_get (ro_cache s') url = (case obj_get (ro_cache ?r) url of None \<Rightarrow> Some Underway | Some x \<Rightarrow> Some x)"
    using redirected(2,5) by (auto cong: option.case_cong cached.case_cong)
  have "nav_step (Follow (p @ ''/'', q)) s = Some s'"
    using s'(1) assms(9)
    by (simp add: click_link_def digest_location_def digest_rounds_def location_watch.simps [of 10])
  moreover have "ro_past s' = ro_url s # ro_past s" using s'(5) redirected(4) rest(2) by simp
  moreover have "ro_view s' = (case obj_get (ro_cache s') url of
        Some (Stored t) \<Rightarrow> Some \<lparr>rv_template = t, rv_controller = c, rv_params = obj_extend q ps\<rparr> | _ \<Rightarrow> None)"
    using s'(6,7) by (auto split: option.splits cached.splits)
  ultimately show ?thesis using app(2) s'(2,3,4) by (intro exI) (auto simp: entered_def)
qed

theorem slash_lands_on_page_witness:
  "\<exists>s s'. opened_at (''/updates'', []) = Some s \<and> nav_step (Follow (''/scheduler/web/'', [(''a'', ''1'')])) s = Some s'
    \<and> ro_url s' = (''/scheduler/web'', [(''a'', ''1'')]) \<and> ro_past s' = (''/updates'', []) # ro_past s"
proof -
  obtain s where s: "opened_at (''/updates'', []) = Some s" "ro_url s = (''/updates'', [])"
      "\<And>n. ro_current s = Some n \<Longrightarrow> reloadOnSearch n"
    using opened_page [OF parse_bare(2), of "[]"] by blast
  have plain: "plain ''web''" by (simp add: plain_def)
  have "''/scheduler/web'' \<in> set (app_paths ''web'' ''web'' ''web'' ''web'')" by (simp add: app_paths_def)
  moreover have "free_query [(''a'', ''1'')]" by (simp add: free_query_def route_keys_def)
  moreover have "ro_url s \<noteq> (''/scheduler/web'' @ ''/'', [(''a'', ''1'')])" using s(2) by simp
  ultimately obtain s' where "nav_step (Follow (''/scheduler/web'' @ ''/'', [(''a'', ''1'')])) s = Some s'"
      "ro_url s' = (''/scheduler/web'', [(''a'', ''1'')])" "ro_past s' = ro_url s # ro_past s"
    using slash_lands_on_page [OF plain plain plain plain _ _ opens [OF s(1)] s(3)] by blast
  with s show ?thesis by auto
qed

text \<open>The path of \<open>$location\<close> is decoded already, and the router decodes it again: the page of a role with a percent
  sign in its name, whose link is rightly encoded, is never entered.\<close>

lemma percent_not_routed: "parseRoute ''/scheduler/100%'' = Some (Inl (Thrown ''URIError''))"
  by (simp add: parseRoute_def app_route_list switchRouteMatcher_def match_group_last del: match_pieces.simps(3))

theorem percent_page_stays_blank:
  "\<exists>s. opened_at (''/scheduler/100%'', q) = Some s \<and> ro_current s = None \<and> ro_view s = None"
  by (simp add: opened_at_def updateRoute_def next_route_def percent_not_routed digest_location_def location_watch.simps)

end
