(* ===== verification/PageFlow.thy ===== *)
theory PageFlow
  imports Navigation Directives JobPage
begin

text \<open>
  From a row of a table to the page behind its link: the directives make the link, the router enters its route, and
  \<open>ngView\<close> makes the controller of the route with the parameters of the address.
\<close>

section \<open>Controllers from addresses\<close>

datatype page_scope = RolesScope role_scope | JobsScope jobs_scope | JobScope job_scope | AnotherScope

text \<open>\<open>$controller(current.controller, locals)\<close> for the pages that the links of the tables lead to.\<close>

definition controller_scope :: "route_view \<Rightarrow> page_scope" where
  "controller_scope v =
     (let routeParams = obj_get (rv_params v) in
      if rv_controller v = ''RoleSummaryController'' then RolesScope RoleSummaryController_init
      else if rv_controller v = ''JobSummaryController''
      then JobsScope (fst (JobSummaryController_init (routeParams ''role'') (routeParams ''environment'') infoTableConfig))
      else if rv_controller v = ''JobController''
      then (case (routeParams ''role'', routeParams ''environment'', routeParams ''job'') of
          (Some r, Some e, Some j) \<Rightarrow> JobScope (JobController_scope r e j)
        | _ \<Rightarrow> AnotherScope)
      else AnotherScope)"

text \<open>The job a request is about.\<close>

definition job_of_query :: "task_query \<Rightarrow> job_key" where
  "job_of_query q = \<lparr>jk_role = tq_owner_role q, jk_environment = tq_environment q, jk_name = tq_jobName q\<rparr>"

definition job_of_request :: "request \<Rightarrow> job_key option" where
  "job_of_request r = (case r of
       TasksWithoutConfigsReq q \<Rightarrow> Some (job_of_query q)
     | PendingReasonReq q \<Rightarrow> Some (job_of_query q)
     | ConfigSummaryReq k \<Rightarrow> Some k
     | JobUpdateSummariesReq q \<Rightarrow> juq_jobKey q
     | _ \<Rightarrow> None)"

lemma job_calls_about:
  "map (\<lambda>r. job_of_request (snd r)) (fst (JobController_calls (JobController_scope role env job) cl))
    = replicate 4 (Some \<lparr>jk_role = Some role, jk_environment = Some env, jk_name = Some job\<rparr>)"
  by (simp add: JobController_calls_def JobController_scope_def Let_def getTasksWithoutConfigs_def getConfigSummary_def
      getJobUpdateSummaries_def send_def job_of_request_def job_of_query_def makeJobTaskQuery_def numeral_eq_Suc
      split: prod.split)

text \<open>The address of a link without escapes, query and fragment (\<open>parseAppUrl\<close>).\<close>

definition href_address :: "string \<Rightarrow> address option" where
  "href_address href = (if CHR ''%'' \<in> set href \<or> CHR ''?'' \<in> set href \<or> CHR ''#'' \<in> set href then None else Some (href, []))"

section \<open>Rows and their links\<close>

definition link_word :: "string \<Rightarrow> bool" where
  "link_word s \<longleftrightarrow> s \<noteq> [] \<and> list_all (\<lambda>c. c \<notin> set ''/%?#'') s"

lemma link_word_plain: "link_word s \<Longrightarrow> plain s"
  by (auto simp: link_word_def plain_def list_all_iff)

lemma href_plain:
  assumes "list_all (\<lambda>c. c \<notin> set ''%?#'') s"
  shows "href_address s = Some (s, [])"
  using assms by (auto simp: href_address_def list_all_iff)

lemma scheduler_plain: "list_all (\<lambda>c. c \<notin> set ''%?#'') ''/scheduler/''" "list_all (\<lambda>c. c \<notin> set ''%?#'') ''/''"
  by code_simp+

lemma link_word_chars: "link_word s \<Longrightarrow> list_all (\<lambda>c. c \<notin> set ''%?#'') s"
  by (auto simp: link_word_def list_all_iff)

lemma href_jobLink:
  "\<lbrakk>link_word r; link_word e; link_word j\<rbrakk> \<Longrightarrow> href_address (jobLink_href r e j) = Some (jobLink_href r e j, [])"
  unfolding jobLink_href_def
  by (intro href_plain) (simp only: list_all_append scheduler_plain link_word_chars simp_thms)

lemma job_rows:
  assumes "row \<in> set (jsc_jobs (JobSummaryController_then summaries (fst (JobSummaryController_init role env config))))"
  shows "\<exists>summary \<in> set (cr_payload summaries). row = job_row_of role summary"
proof -
  have sorted: "set (us_sortBy f (Some xs)) = set xs" for f :: "job_row \<Rightarrow> string option" and xs
    by (rule mset_eq_setD) (rule us_sortBy_mset)
  show ?thesis
    using assms by (auto simp: JobSummaryController_then_def getJobs_def JobSummaryController_init_def Let_def us_simps sorted
        split: if_splits option.splits)
qed

text \<open>The page of a job the scheduler listed for a role, and the key of that job.\<close>

definition job_page :: "string \<Rightarrow> job_summary \<Rightarrow> job_scope" where
  "job_page role summary = JobController_scope role (jc_key_environment (jsum_job summary))
     (cfg_jobName (jc_taskConfig (jsum_job summary)))"

definition job_key_for :: "string \<Rightarrow> job_summary \<Rightarrow> job_key" where
  "job_key_for role summary = \<lparr>jk_role = Some role, jk_environment = Some (jc_key_environment (jsum_job summary)),
     jk_name = Some (cfg_jobName (jc_taskConfig (jsum_job summary)))\<rparr>"

text \<open>C13: The link in a row of the table of jobs opens that job, where role, environment and name are not empty and have
  none of the characters \<open>/\<close>, \<open>%\<close>, \<open>?\<close> and \<open>#\<close>.  From any state of the application, whatever templates
  are still under way, a click on the link in a row of the jobs of a role leads to an address at which, once the template of the job page
  is there, the controller of that page is made for the role, the environment and the name of a job the scheduler
  listed, the one of the row; and every call it makes when it opens is about that job.\<close>

theorem job_row_opens_job:
  assumes "nav_reachable s"
    and "row \<in> set (jsc_jobs (JobSummaryController_then summaries (fst (JobSummaryController_init (Some role) env config))))"
    and "link_word role" and "link_word (jr_environment row)" and "link_word (jr_jobName row)"
    and "href_address (jobLink_href role (jr_environment row) (jr_jobName row)) = Some a" and "ro_url s \<noteq> a"
  shows "\<exists>s2 summary. nav_run (Follow a # answers_of as) s = Some s2 \<and> summary \<in> set (cr_payload summaries)
    \<and> row = job_row_of (Some role) summary
    \<and> (case obj_get (ro_cache s2) ''/assets/job.html'' of
        Some (Stored t) \<Rightarrow> (\<exists>v. ro_view s2 = Some v \<and> rv_template v = t
          \<and> controller_scope v = JobScope (job_page role summary)
          \<and> map (\<lambda>r. job_of_request (snd r)) (fst (JobController_calls (job_page role summary) cl))
            = replicate 4 (Some (job_key_for role summary)))
      | _ \<Rightarrow> ro_view s2 = ro_view s)"
proof -
  let ?e = "jr_environment row" and ?j = "jr_jobName row"
  let ?ps = "[(''role'', role), (''environment'', ?e), (''job'', ?j)]"
  have a: "a = (jobLink_href role ?e ?j, [])" using assms(6) href_jobLink [OF assms(3-5)] by simp
  have "parseRoute (jobLink_href role ?e ?j) = Some (Inr (Page ''/assets/job.html'' ''JobController'', ?ps))"
    unfolding jobLink_href_def by (intro parse_job link_word_plain assms)
  from click_shows_page [where as = as, OF assms(1) this assms(7) [unfolded a]] obtain s2
    where s2: "nav_run (Follow a # answers_of as) s = Some s2" "ro_view s2 = (case obj_get (ro_cache s2) ''/assets/job.html'' of
        Some (Stored t) \<Rightarrow> Some \<lparr>rv_template = t, rv_controller = ''JobController'', rv_params = obj_extend [] ?ps\<rparr>
      | _ \<Rightarrow> ro_view s)"
    unfolding a by blast
  obtain summary where summary: "summary \<in> set (cr_payload summaries)" "row = job_row_of (Some role) summary"
    using job_rows [OF assms(2)] by blast
  then have names: "?e = jc_key_environment (jsum_job summary)" "?j = cfg_jobName (jc_taskConfig (jsum_job summary))"
    by (simp_all add: job_row_of_def)
  have scope: "controller_scope \<lparr>rv_template = t, rv_controller = ''JobController'', rv_params = obj_extend [] ?ps\<rparr>
      = JobScope (JobController_scope role ?e ?j)" for t
    by (simp add: controller_scope_def obj_extend_new Let_def obj_get_Cons)
  show ?thesis
  proof (intro exI conjI)
    show "nav_run (Follow a # answers_of as) s = Some s2" by (rule s2(1))
    show "summary \<in> set (cr_payload summaries)" "row = job_row_of (Some role) summary" by (fact summary)+
    show "case obj_get (ro_cache s2) ''/assets/job.html'' of
        Some (Stored t) \<Rightarrow> (\<exists>v. ro_view s2 = Some v \<and> rv_template v = t
          \<and> controller_scope v = JobScope (job_page role summary)
          \<and> map (\<lambda>r. job_of_request (snd r)) (fst (JobController_calls (job_page role summary) cl))
            = replicate 4 (Some (job_key_for role summary)))
      | _ \<Rightarrow> ro_view s2 = ro_view s"
      unfolding job_page_def job_key_for_def names [symmetric] job_calls_about using s2(2) scope by (simp split: option.split cached.split)
  qed
qed

definition listed_job :: job_summary where
  "listed_job = \<lparr>jsum_job = \<lparr>jc_key_environment = ''prod'', jc_cronSchedule = None, jc_cronCollisionPolicy = None,
       jc_taskConfig = example_config, jc_instanceCount = 1\<rparr>,
     jsum_stats = \<lparr>js_active = 1, js_finished = 0, js_failed = 0, js_pending = 0\<rparr>, jsum_nextCronRunMs = None\<rparr>"

theorem job_row_opens_job_witness:
  "\<exists>s s2. opened_at (''/updates'', []) = Some s
    \<and> nav_run [Follow (''/scheduler/www/prod/web'', []), TemplateCame ''/assets/job.html'' (Some ''J'')] s = Some s2
    \<and> (case obj_get (ro_cache s2) ''/assets/job.html'' of
        Some (Stored t) \<Rightarrow> (\<exists>v. ro_view s2 = Some v \<and> controller_scope v = JobScope (JobController_scope ''www'' ''prod'' ''web''))
      | _ \<Rightarrow> ro_view s2 = None)"
proof -
  obtain s where s: "opened_at (''/updates'', []) = Some s" "ro_url s = (''/updates'', [])" "ro_view s = None"
    using opened_page [OF parse_bare(2), of "[]"] by blast
  let ?row = "job_row_of (Some ''www'') listed_job"
  let ?ss = "\<lparr>cr_error = '''', cr_statsUrlPrefix = '''', cr_payload = [listed_job]\<rparr>"
  let ?a = "(''/scheduler/www/prod/web'', [])"
  have row: "?row \<in> set (jsc_jobs (JobSummaryController_then ?ss
      (fst (JobSummaryController_init (Some ''www'') None infoTableConfig))))"
    by (simp add: JobSummaryController_then_def getJobs_def JobSummaryController_init_def Let_def us_map_list us_sortBy_def)
  have names: "jr_environment ?row = ''prod''" "jr_jobName ?row = ''web''"
    by (simp_all add: job_row_of_def listed_job_def example_config_def)
  have words: "link_word ''www''" "link_word (jr_environment ?row)" "link_word (jr_jobName ?row)"
    unfolding names by (simp_all add: link_word_def)
  have a: "href_address (jobLink_href ''www'' (jr_environment ?row) (jr_jobName ?row)) = Some ?a"
    unfolding href_jobLink [OF words] by (simp add: names jobLink_href_def)
  have "ro_url s \<noteq> ?a" using s(2) by simp
  from job_row_opens_job [where as = "[(''/assets/job.html'', Some ''J'')]", OF opens [OF s(1)] row words a this]
  obtain s2 summary where run: "nav_run (Follow ?a # answers_of [(''/assets/job.html'', Some ''J'')]) s = Some s2"
      "summary \<in> set (cr_payload ?ss)" and shown: "case obj_get (ro_cache s2) ''/assets/job.html'' of
        Some (Stored t) \<Rightarrow> (\<exists>v. ro_view s2 = Some v \<and> rv_template v = t
          \<and> controller_scope v = JobScope (job_page ''www'' summary)
          \<and> map (\<lambda>r. job_of_request (snd r)) (fst (JobController_calls (job_page ''www'' summary) cl))
            = replicate 4 (Some (job_key_for ''www'' summary)))
      | _ \<Rightarrow> ro_view s2 = ro_view s"
    by blast
  have "summary = listed_job" using run(2) by simp
  then have "job_page ''www'' summary = JobController_scope ''www'' ''prod'' ''web''"
    by (simp add: job_page_def listed_job_def example_config_def)
  with shown s(3) have "case obj_get (ro_cache s2) ''/assets/job.html'' of
        Some (Stored t) \<Rightarrow> (\<exists>v. ro_view s2 = Some v \<and> controller_scope v = JobScope (JobController_scope ''www'' ''prod'' ''web''))
      | _ \<Rightarrow> ro_view s2 = None"
    by (auto split: option.splits cached.splits)
  moreover have "nav_run [Follow ?a, TemplateCame ''/assets/job.html'' (Some ''J'')] s = Some s2"
    using run(1) by (simp only: answers_of_def list.map prod.case)
  ultimately show ?thesis using s(1) by blast
qed

text \<open>The link of a role opens the table of its jobs, and the next call asks for them.\<close>

theorem role_row_opens_role:
  assumes "nav_reachable s" and "link_word (rs_role row)" and "href_address (roleLink_href (rs_role row)) = Some a" and "ro_url s \<noteq> a"
  shows "\<exists>s2. nav_run (Follow a # answers_of as) s = Some s2
    \<and> (case obj_get (ro_cache s2) ''/assets/role.html'' of
        Some (Stored t) \<Rightarrow> (\<exists>v. ro_view s2 = Some v
          \<and> controller_scope v = JobsScope (fst (JobSummaryController_init (Some (rs_role row)) None infoTableConfig)))
      | _ \<Rightarrow> ro_view s2 = ro_view s)"
proof -
  let ?ps = "[(''role'', rs_role row)]"
  have a: "a = (roleLink_href (rs_role row), [])" using assms(3) by (simp add: href_address_def split: if_splits)
  have "parseRoute (roleLink_href (rs_role row)) = Some (Inr (Page ''/assets/role.html'' ''JobSummaryController'', ?ps))"
    unfolding roleLink_href_def by (intro parse_role link_word_plain assms)
  from click_shows_page [where as = as, OF assms(1) this assms(4) [unfolded a]] obtain s2
    where "nav_run (Follow a # answers_of as) s = Some s2" "ro_view s2 = (case obj_get (ro_cache s2) ''/assets/role.html'' of
        Some (Stored t) \<Rightarrow> Some \<lparr>rv_template = t, rv_controller = ''JobSummaryController'', rv_params = obj_extend [] ?ps\<rparr>
      | _ \<Rightarrow> ro_view s)"
    unfolding a by blast
  moreover have "controller_scope \<lparr>rv_template = t, rv_controller = ''JobSummaryController'', rv_params = obj_extend [] ?ps\<rparr>
      = JobsScope (fst (JobSummaryController_init (Some (rs_role row)) None infoTableConfig))" for t
    by (simp add: controller_scope_def obj_extend_new Let_def obj_get_Cons obj_get_empty)
  ultimately show ?thesis by (intro exI [of _ s2]) (simp split: option.split cached.split)
qed

end
