(* ===== verification/Spec2Isabelle.thy ===== *)
theory Spec2Isabelle
  imports Filters Dates CronSummary UpdatePage JobPage Directives Grapher PlotExport Pailer ObserverTable GridlyPlugin Dialog DialogKit
    DialogView JobRequests Tabs TablePages PromiseChain Navigation PageFlow
begin

text \<open>
  A verification of the browser side of Apache Aurora: the scheduler's web interface
  (\<open>src/main/resources/scheduler/assets\<close>), the log viewer and the task tables of the Thermos observer
  (\<open>src/main/python/apache/thermos/observer/http/assets\<close>) and the web application that creates jobs
  (\<open>src/main/webapp\<close>).

  \<^bold>\<open>The parts and how they interact.\<close>  The scheduler interface is an AngularJS application: the router
  (\<open>app.js\<close>) maps a path to a controller (\<open>controllers.js\<close>), which asks the scheduler through the
  \<open>auroraClient\<close> service (\<open>services.js\<close>) and turns the answers into tables with \<open>taskUtil\<close>, \<open>updateUtil\<close>
  and \<open>cronJobSummaryService\<close>; filters (\<open>filters.js\<close>) and directives (\<open>directives.js\<close>) render them, and the
  Smart-Table component (\<open>3rdparty/.../Smart-Table.debug.js\<close>) sorts, searches and pages the tables.  The
  graph page (\<open>graphview\<close>) parses a query, polls the series it names, evaluates it on each row and exports
  the plot as a picture.  The observer's pages tail log files (\<open>jquery.pailer.js\<close>) and poll task tables (\<open>observer.js\<close>).  The web
  application (\<open>auroraClient.js\<close>) builds a job configuration from two forms, one of them in three tabs
  (\<open>bootstrap.js\<close>), orders the processes in a grid of bricks (\<open>jquery.gridly.js\<close>), keeps the created jobs in IndexedDB and asks before it kills a
  job in a dialog (\<open>bootstrap-dialog.js\<close> on the modal of \<open>bootstrap.js\<close>).

  \<^bold>\<open>Conventions.\<close>  A JavaScript object with a fixed shape is a record, an object used as a dictionary an
  association list in order of creation (\<open>JSObject\<close>, with the locale \<open>dictionary\<close> and its interpretation
  \<open>od\<close>), an array a list.  Code that can throw returns \<open>js_error + 'a\<close> (\<open>Prelude\<close>).  Numbers that only
  count are integers; where rounding or \<open>NaN\<close> shows they are the binary64 numbers of \<open>JSNumber\<close>, and
  lengths in the grid are exact rationals.  Pages that react to the user, to timers and to answers are
  state records with one function per handler, run by lists of events or by inductive step relations
  whose events come in any order.  What lies outside the sources (the scheduler's answers,
  the browser's time zone, random numbers, the width of a text, what the browser and jQuery make of a text and what \<open>innerHTML\<close> returns, the logarithm, the plot) is an argument of the
  definitions that use it.

  \<^bold>\<open>Theories.\<close>
  \<^item> \<open>Prelude\<close>, \<open>JSString\<close>, \<open>JSNumber\<close>, \<open>NumberText\<close>, \<open>JSObject\<close>, \<open>JSON\<close>: the language: results, strings,
    binary64 arithmetic and its text, reading numbers, dictionaries, \<open>JSON.stringify\<close>.
  \<^item> \<open>Underscore\<close>, \<open>Promise\<close>, \<open>Moment\<close>: the functions the interface uses of \<open>underscore.js\<close>, of Angular's
    \<open>$q\<close> and of \<open>moment.js\<close>, translated from the copies in the repository; \<open>PromiseChain\<close>: rejection, exceptions and
    chains of \<open>then\<close>; \<open>Dates\<close>: the dates of \<open>moment.js\<close>
    and the filters that print them.
  \<^item> \<open>Api\<close>: the enumerations and structs of \<open>api.thrift\<close>.
  \<^item> \<open>AuroraClient\<close>, \<open>UpdateUtil\<close>, \<open>TaskUtil\<close>, \<open>CronSummary\<close>: the services of \<open>services.js\<close>.
  \<^item> \<open>Summaries\<close>, \<open>Polling\<close>, \<open>UpdatePage\<close>, \<open>PrettyJSON\<close>, \<open>JobPage\<close>: the controllers of
    \<open>controllers.js\<close>.
  \<^item> \<open>Pagination\<close>, \<open>SmartTable\<close>, \<open>TablePages\<close>: the tables: the digest of \<open>angular.js\<close> and the pagination
    directive, the table's controller and watchers, and what the tables of the interface show.
  \<^item> \<open>Routes\<close>, \<open>Filters\<close>, \<open>Directives\<close>: \<open>app.js\<close> with the matching of \<open>angular-route.js\<close>, \<open>filters.js\<close>,
    \<open>directives.js\<close>; \<open>Navigation\<close>: the rest of the router, with the address, the history, the templates and
    the view; \<open>PageFlow\<close>: from a row of a table through its link to the controller of the page.
  \<^item> \<open>GraphParser\<close>, \<open>Grapher\<close>: \<open>parser.js\<close> and \<open>grapher.js\<close>; \<open>PlotExport\<close>: \<open>dygraph-extra.js\<close>, the picture
    of a plot as the calls on a canvas.
  \<^item> \<open>Pailer\<close>, \<open>Observer\<close>, \<open>ObserverTable\<close>: \<open>jquery.pailer.js\<close> and \<open>observer.js\<close>.
  \<^item> \<open>WebClient\<close>, \<open>Gridly\<close>, \<open>Dialog\<close>: \<open>auroraClient.js\<close> of the web application, its grid and its dialogs;
    \<open>GridlyPlugin\<close>, \<open>DialogKit\<close>: the jQuery plugin around the grid and its refilling, ids, dragging and
    icons of the dialogs; \<open>DialogView\<close>: the elements of a dialog and its setters; \<open>JobRequests\<close>:
    the answers to its requests; \<open>Tabs\<close>: the tabs of the form with their transitions, and the wizard.

  \<^bold>\<open>What the lemmas show.\<close>
  \<^item> Services: the joining of tasks and pending reasons does not depend on the order of the answers and
    changes one message per task; the latest event per instance, the summary of an update, its
    progress, the ranges of a configuration summary are the ones a mathematical description gives
    (sets, maxima, maximal runs); an update without a desired state, which only removes instances, has neither.
  \<^item> Promises: a chain of callbacks carries a value or a reason to its end in two ticks for each, branches
    run in the order in which they were attached, and what is settled stays.
  \<^item> Controllers: tables hold every task once; each polling loop has exactly one call or timer
    outstanding, for every interleaving, and it is stated when a loop ends: the page of an update without a desired state stops
    at its first answer. The configuration shown is the plain one with white space added (\<open>compact_pretty\<close>).
  \<^item> Tables: after every step the current page exists and shows its rows, the pages together show every
    matching row once, the table of roles is in alphabetical order, and what new columns do to the
    mark of the sorted one.  The locales \<open>page_host\<close> and \<open>page_digest\<close> say what the pagination relies on;
    \<open>tp\<close> interprets them on the table's controller.
  \<^item> Routing: the links of the tables are read back by the router; a trailing slash is redirected away, with one
    entry in the history; whatever templates are under way, the page shows the link clicked last, and the link in a row of the table of jobs opens
    the page of that job, all of whose calls are about it.
  \<^item> Graph: parsing returns for every text, chains of operators have the value of the left fold,
    a rate looks back exactly its window, the plot stays aligned with the table, one request is
    outstanding at most, from the loading of the page on; and the cases in which calls are rejected or answers mistaken; the legend of
    an exported picture lists the visible series with their colors, and when an export fails.
  \<^item> Viewer and tables: what the viewer shows of a log without markup is a contiguous piece of it in every run with one
    read in flight, in every browser that leaves such text alone (\<open>plain_browser\<close>); what truncation does to markup; the table of tasks shows the answer and no id on it stands
    for two elements.
  \<^item> Web application: the request the form sends, the copies in the table of jobs; packing puts no
    brick over another; dragging keeps the numbering and follows the pointer; a question stays until
    it is answered, what an open dialog shows is a function of its options for the settings that are shown at once, and every press of a button before it has faded out is an answer; a grid filled
    in its hidden tab puts all bricks on one place and keeps the order of the rows; tabs visited one after the other show the last, and what two quick clicks do.

  \<^bold>\<open>Bounds and fuel.\<close>  \<open>parse_fuel\<close> bounds the depth of the recursion of \<open>parser.parse\<close> by the length of
  the text plus one, which \<open>parse_returns\<close> shows to be enough: the text of every nested call is
  shorter.  A digest gives up after \<open>TTL\<close> rounds, as the source does; \<open>digest_settles\<close> shows that three are
  enough after the one that sees the change.  \<open>run_ticks\<close> runs as many tasks as it is told, \<open>chain_carries\<close> says how many
  a chain takes; \<open>follow\<close> takes as many steps as there are deferreds.  The digest of
  \<open>Navigation\<close> gives up after \<open>digest_rounds\<close>, with the result \<open>None\<close>; a click on a page takes one round and on a redirect two.  All other loops are total functions with their termination proofs (\<open>toRanges_loop\<close>,
  \<open>optimize_loop\<close>, \<open>scaleMb_loop\<close> and the searches).  \<open>Array.prototype.sort\<close> is an insertion sort; where a
  result depends on it, the comparison has no ties or the result is stated up to them.

  \<^bold>\<open>Not modelled.\<close>  The drawing of plots by the minified \<open>dygraph-combined.js\<close>, animations, templates,
  console messages; the vendored general libraries (jQuery, jQuery UI, Handlebars, the
  Bootstrap widgets other than the modal and the tabs, \<open>bootstrap-confirmation.js\<close>, which no page loads), of which the
  models contain what the pages rely on; and the Java and Python services, whose answers are arguments.
\<close>

end
